(* ===== verification/Ledger_Prelude.thy ===== *)
theory Ledger_Prelude
  imports Main
begin

text \<open>
  Shared vocabulary of the development.

  \<^item> \<^verbatim>\<open>result\<close>: a Rust \<^verbatim>\<open>Result\<close> extended by the outcome
    \<^verbatim>\<open>Panic\<close> (an \<^verbatim>\<open>unreachable!\<close>, \<^verbatim>\<open>expect\<close>, \<^verbatim>\<open>unwrap\<close> or failed
    \<^verbatim>\<open>assert!\<close> of the source), with \<^verbatim>\<open>and_then\<close> for the \<^verbatim>\<open>?\<close> operator and
    \<^verbatim>\<open>try_fold\<close> for a loop whose body uses \<^verbatim>\<open>?\<close>;
  \<^item> the bounds of the machine integers the sources use and their saturating,
    checked and wrapping arithmetic on \<^typ>\<open>nat\<close> and \<^typ>\<open>int\<close>;
  \<^item> the lemma collections \<^verbatim>\<open>result_simps\<close> and \<^verbatim>\<open>arith_defs\<close> used by every
    component.
\<close>

named_theorems result_simps \<open>inversion rules for the result combinators\<close>
named_theorems arith_defs \<open>definitions of the machine arithmetic\<close>

section \<open>Results\<close>

datatype ('e, 'a) result = Ok 'a | Err 'e | Panic

definition and_then :: "('e, 'a) result \<Rightarrow> ('a \<Rightarrow> ('e, 'b) result) \<Rightarrow> ('e, 'b) result" where
  "and_then r f = (case r of Ok x \<Rightarrow> f x | Err e \<Rightarrow> Err e | Panic \<Rightarrow> Panic)"

definition map_ok :: "('a \<Rightarrow> 'b) \<Rightarrow> ('e, 'a) result \<Rightarrow> ('e, 'b) result" where
  "map_ok f r = (case r of Ok x \<Rightarrow> Ok (f x) | Err e \<Rightarrow> Err e | Panic \<Rightarrow> Panic)"

definition map_err :: "('e \<Rightarrow> 'd) \<Rightarrow> ('e, 'a) result \<Rightarrow> ('d, 'a) result" where
  "map_err f r = (case r of Ok x \<Rightarrow> Ok x | Err e \<Rightarrow> Err (f e) | Panic \<Rightarrow> Panic)"

definition ok_or :: "'a option \<Rightarrow> 'e \<Rightarrow> ('e, 'a) result" where
  "ok_or opt e = (case opt of Some x \<Rightarrow> Ok x | None \<Rightarrow> Err e)"

definition expect :: "'a option \<Rightarrow> ('e, 'a) result" where
  "expect opt = (case opt of Some x \<Rightarrow> Ok x | None \<Rightarrow> Panic)"

text \<open>The early return \<^verbatim>\<open>if c { return Err(e) }\<close>.\<close>

definition guard :: "bool \<Rightarrow> 'e \<Rightarrow> ('e, unit) result" where
  "guard c e = (if c then Ok () else Err e)"

fun try_fold :: "('s \<Rightarrow> 'a \<Rightarrow> ('e, 's) result) \<Rightarrow> 's \<Rightarrow> 'a list \<Rightarrow> ('e, 's) result" where
  "try_fold f s [] = Ok s"
| "try_fold f s (x # xs) = and_then (f s x) (\<lambda>s'. try_fold f s' xs)"

fun is_ok :: "('e, 'a) result \<Rightarrow> bool" where
  "is_ok (Ok _) = True"
| "is_ok _ = False"

section \<open>Machine integers\<close>

definition u8_max :: nat where "u8_max = 255"
definition u32_max :: nat where "u32_max = 4294967295"
definition u64_max :: nat where "u64_max = 18446744073709551615"
definition u128_max :: nat where "u128_max = 340282366920938463463374607431768211455"
definition i128_max :: int where "i128_max = 170141183460469231731687303715884105727"
definition i128_min :: int where "i128_min = - 170141183460469231731687303715884105728"

text \<open>Unsigned arithmetic at a type whose largest value is the first argument; the
  saturating subtraction of Rust is the subtraction of \<^typ>\<open>nat\<close>.\<close>

definition sat_add :: "nat \<Rightarrow> nat \<Rightarrow> nat \<Rightarrow> nat" where "sat_add m a b = min (a + b) m"
definition sat_mul :: "nat \<Rightarrow> nat \<Rightarrow> nat \<Rightarrow> nat" where "sat_mul m a b = min (a * b) m"
definition checked_add :: "nat \<Rightarrow> nat \<Rightarrow> nat \<Rightarrow> nat option" where
  "checked_add m a b = (if a + b \<le> m then Some (a + b) else None)"
definition checked_mul :: "nat \<Rightarrow> nat \<Rightarrow> nat \<Rightarrow> nat option" where
  "checked_mul m a b = (if a * b \<le> m then Some (a * b) else None)"
definition checked_sub :: "nat \<Rightarrow> nat \<Rightarrow> nat option" where
  "checked_sub a b = (if b \<le> a then Some (a - b) else None)"
definition div_ceil :: "nat \<Rightarrow> nat \<Rightarrow> nat" where
  "div_ceil a b = (a div b) + (if a mod b = 0 then 0 else 1)"

text \<open>Signed 128-bit arithmetic: clamping (\<^verbatim>\<open>saturating_*\<close>) and truncation (\<^verbatim>\<open>as i128\<close>).\<close>

definition sat_i128 :: "int \<Rightarrow> int" where "sat_i128 x = max i128_min (min i128_max x)"
definition wrap_i128 :: "int \<Rightarrow> int" where
  "wrap_i128 x = (x + 2 ^ 127) mod 2 ^ 128 - 2 ^ 127"

lemmas int_bounds = u8_max_def u32_max_def u64_max_def u128_max_def i128_max_def i128_min_def

declare sat_add_def [arith_defs] sat_mul_def [arith_defs] checked_add_def [arith_defs]
  checked_mul_def [arith_defs] checked_sub_def [arith_defs] sat_i128_def [arith_defs]

section \<open>Laws of results\<close>

lemma and_then_simps [simp]:
  "and_then (Ok x) f = f x" "and_then (Err e) f = Err e" "and_then Panic f = Panic"
  by (simp_all add: and_then_def)

lemma map_ok_simps [simp]:
  "map_ok g (Ok x) = Ok (g x)" "map_ok g (Err e) = Err e" "map_ok g Panic = Panic"
  by (simp_all add: map_ok_def)

lemma map_err_simps [simp]:
  "map_err g (Ok x) = Ok x" "map_err g (Err e) = Err (g e)" "map_err g Panic = Panic"
  by (simp_all add: map_err_def)

lemma ok_or_simps [simp]: "ok_or (Some x) e = Ok x" "ok_or None e = Err e"
  by (simp_all add: ok_or_def)

lemma expect_simps [simp]: "expect (Some x) = Ok x" "expect None = Panic"
  by (simp_all add: expect_def)

lemma guard_simps [simp]: "guard True e = Ok ()" "guard False e = Err e"
  by (simp_all add: guard_def)

lemma and_then_eq_Ok [result_simps]:
  "and_then r f = Ok y \<longleftrightarrow> (\<exists>x. r = Ok x \<and> f x = Ok y)"
  by (cases r) auto

lemma and_then_eq_Err [result_simps]:
  "and_then r f = Err e \<longleftrightarrow> r = Err e \<or> (\<exists>x. r = Ok x \<and> f x = Err e)"
  by (cases r) auto

lemma and_then_eq_Panic [result_simps]:
  "and_then r f = Panic \<longleftrightarrow> r = Panic \<or> (\<exists>x. r = Ok x \<and> f x = Panic)"
  by (cases r) auto

lemma map_ok_eq [result_simps]:
  "map_ok g r = Ok y \<longleftrightarrow> (\<exists>x. r = Ok x \<and> y = g x)"
  "map_ok g r = Err e \<longleftrightarrow> r = Err e"
  "map_ok g r = Panic \<longleftrightarrow> r = Panic"
  by (cases r; auto)+

lemma map_err_eq [result_simps]:
  "map_err g r = Ok y \<longleftrightarrow> r = Ok y"
  "map_err g r = Err d \<longleftrightarrow> (\<exists>e. r = Err e \<and> d = g e)"
  "map_err g r = Panic \<longleftrightarrow> r = Panic"
  by (cases r; auto)+

lemma ok_or_eq [result_simps]:
  "ok_or opt e = Ok y \<longleftrightarrow> opt = Some y"
  "ok_or opt e = Err d \<longleftrightarrow> opt = None \<and> d = e"
  "ok_or opt e = Panic \<longleftrightarrow> False"
  by (cases opt; auto)+

lemma expect_eq [result_simps]:
  "expect opt = Ok y \<longleftrightarrow> opt = Some y"
  "expect opt = Err d \<longleftrightarrow> False"
  "expect opt = Panic \<longleftrightarrow> opt = None"
  by (cases opt; auto)+

lemma guard_eq [result_simps]:
  "guard c e = Ok u \<longleftrightarrow> c"
  "guard c e = Err d \<longleftrightarrow> \<not> c \<and> d = e"
  "guard c e = Panic \<longleftrightarrow> False"
  by (cases c; auto)+

lemma and_then_cong [fundef_cong]:
  "r = r' \<Longrightarrow> (\<And>x. r' = Ok x \<Longrightarrow> f x = f' x) \<Longrightarrow> and_then r f = and_then r' f'"
  by (cases r') auto

lemma is_ok_iff: "is_ok r \<longleftrightarrow> (\<exists>x. r = Ok x)"
  by (cases r) auto

lemma try_fold_append:
  "try_fold f s (xs @ ys) = and_then (try_fold f s xs) (\<lambda>s'. try_fold f s' ys)"
proof (induction xs arbitrary: s)
  case (Cons x xs)
  then show ?case by (cases "f s x") simp_all
qed simp

text \<open>The loop rule: a property of the state that every successful iteration keeps
  holds after the loop.\<close>

lemma try_fold_invariant:
  assumes "try_fold f s xs = Ok s'"
    and "I s"
    and "\<And>s x s'. x \<in> set xs \<Longrightarrow> I s \<Longrightarrow> f s x = Ok s' \<Longrightarrow> I s'"
  shows "I s'"
  using assms
proof (induction xs arbitrary: s)
  case (Cons x xs)
  then obtain s1 where "f s x = Ok s1" "try_fold f s1 xs = Ok s'"
    by (auto simp: result_simps)
  with Cons show ?case by (meson list.set_intros)
qed simp

text \<open>The loop rule for a relation between the states before and after, indexed by the elements
  processed.\<close>

lemma try_fold_trace:
  assumes "try_fold f s xs = Ok s'" "P s"
    and refl: "\<And>s. P s \<Longrightarrow> R s s []"
    and step: "\<And>s x s'. P s \<Longrightarrow> x \<in> set xs \<Longrightarrow> f s x = Ok s' \<Longrightarrow> P s' \<and> R s s' [x]"
    and trans: "\<And>s t u xs ys. R s t xs \<Longrightarrow> R t u ys \<Longrightarrow> R s u (xs @ ys)"
  shows "P s' \<and> R s s' xs"
  using assms(1,2) step
proof (induction xs arbitrary: s)
  case (Cons x xs)
  from Cons.prems(1) obtain s1 where s1: "f s x = Ok s1" "try_fold f s1 xs = Ok s'"
    by (auto simp: result_simps)
  have first: "P s1 \<and> R s s1 [x]" by (rule Cons.prems(3)) (use Cons.prems(2) s1 in simp_all)
  have "P s' \<and> R s1 s' xs"
  proof (rule Cons.IH [OF s1(2)])
    show "P s1" using first ..
    show "P t' \<and> R t t' [y]" if "P t" "y \<in> set xs" "f t y = Ok t'" for t y t'
      by (rule Cons.prems(3)) (use that in simp_all)
  qed
  with first show ?case using trans [of s s1 "[x]" s' xs] by simp
next
  case Nil
  then show ?case using refl by simp
qed

text \<open>A loop whose body cannot panic in a state satisfying the invariant does not panic.\<close>

lemma try_fold_no_panic:
  assumes "I s"
    and "\<And>s x. x \<in> set xs \<Longrightarrow> I s \<Longrightarrow> f s x \<noteq> Panic"
    and "\<And>s x s'. x \<in> set xs \<Longrightarrow> I s \<Longrightarrow> f s x = Ok s' \<Longrightarrow> I s'"
  shows "try_fold f s xs \<noteq> Panic"
  using assms
proof (induction xs arbitrary: s)
  case (Cons x xs)
  show ?case
  proof (cases "f s x")
    case (Ok s1)
    with Cons.prems have "I s1" by (meson list.set_intros(1))
    with Cons have "try_fold f s1 xs \<noteq> Panic" by (meson list.set_intros(2))
    with Ok show ?thesis by simp
  qed (use Cons.prems in auto)
qed simp

section \<open>Laws of machine arithmetic\<close>

lemma sat_add_le [simp]: "sat_add m a b \<le> m"
  by (simp add: sat_add_def)

lemma sat_add_ge: "a \<le> m \<Longrightarrow> a \<le> sat_add m a b"
  by (simp add: sat_add_def)

lemma sat_add_mono: "a \<le> a' \<Longrightarrow> b \<le> b' \<Longrightarrow> sat_add m a b \<le> sat_add m a' b'"
  by (simp add: sat_add_def)

lemma sat_add_assoc: "sat_add m (sat_add m a b) c = sat_add m a (sat_add m b c)"
  by (auto simp: sat_add_def min_def)

lemma sat_add_commute: "sat_add m a b = sat_add m b a"
  by (simp add: sat_add_def add.commute)

lemma sat_mul_le [simp]: "sat_mul m a b \<le> m"
  by (simp add: sat_mul_def)

lemma sat_i128_bounds: "i128_min \<le> sat_i128 x" "sat_i128 x \<le> i128_max"
  by (simp_all add: sat_i128_def int_bounds)

lemma sat_i128_id: "i128_min \<le> x \<Longrightarrow> x \<le> i128_max \<Longrightarrow> sat_i128 x = x"
  by (simp add: sat_i128_def)

lemma sat_i128_mono: "x \<le> y \<Longrightarrow> sat_i128 x \<le> sat_i128 y"
  by (auto simp: sat_i128_def)

lemma wrap_i128_bounds: "i128_min \<le> wrap_i128 x" "wrap_i128 x \<le> i128_max"
proof -
  have "0 \<le> (x + 2 ^ 127) mod 2 ^ 128" "(x + 2 ^ 127) mod 2 ^ 128 < (2 ^ 128 :: int)"
    by simp_all
  then show "i128_min \<le> wrap_i128 x" "wrap_i128 x \<le> i128_max"
    by (simp_all add: wrap_i128_def int_bounds)
qed

lemma wrap_i128_id: "i128_min \<le> x \<Longrightarrow> x \<le> i128_max \<Longrightarrow> wrap_i128 x = x"
  by (simp add: wrap_i128_def int_bounds mod_pos_pos_trivial)

lemma div_ceil_upper: "0 < b \<Longrightarrow> a \<le> div_ceil a b * b"
  and div_ceil_lower: "0 < b \<Longrightarrow> div_ceil a b * b < a + b"
proof -
  assume b: "0 < b"
  obtain q r where qr: "q = a div b" "r = a mod b" by blast
  have a: "a = q * b + r" and r: "r < b" using b qr by simp_all
  have "div_ceil a b * b = q * b + (if r = 0 then 0 else b)"
    by (simp add: div_ceil_def qr algebra_simps)
  with a r show "a \<le> div_ceil a b * b" "div_ceil a b * b < a + b"
    by (simp_all split: if_splits)
qed

lemma div_ceil_le_iff: "0 < b \<Longrightarrow> div_ceil a b \<le> c \<longleftrightarrow> a \<le> c * b"
proof
  assume b: "0 < b" and "div_ceil a b \<le> c"
  then have "div_ceil a b * b \<le> c * b" by simp
  with div_ceil_upper [OF b, of a] show "a \<le> c * b" by linarith
next
  assume b: "0 < b" and "a \<le> c * b"
  with div_ceil_lower [OF b, of a] have "div_ceil a b * b < (c + 1) * b" by simp
  then have "div_ceil a b < c + 1" by (simp only: mult_less_cancel2)
  then show "div_ceil a b \<le> c" by simp
qed

end
