(* ===== verification/Cost_Model.thy ===== *)
theory Cost_Model
  imports Ledger_Prelude
begin

text \<open>
  The cost model of \<^verbatim>\<open>base-crypto/src/cost_model.rs\<close>: cost durations (saturating 64-bit
  counters of picoseconds), running and synthetic costs, the 64.64 fixed point numbers
  with their rounding, block-limit normalisation and the fee prices with their
  adjustment by block fullness.

  A \<^verbatim>\<open>CostDuration\<close> is the \<^typ>\<open>nat\<close> it wraps and a \<^verbatim>\<open>FixedPoint\<close> the \<^typ>\<open>int\<close> it wraps; the
  clamping and the truncation at the width of the Rust types are written out with
  \<^const>\<open>sat_add\<close>, \<^const>\<open>sat_i128\<close> and \<^const>\<open>wrap_i128\<close>.
\<close>

section \<open>Cost durations\<close>

type_synonym cost_duration = nat
type_synonym fixed_point = int

definition cd_add :: "cost_duration \<Rightarrow> cost_duration \<Rightarrow> cost_duration" where
  "cd_add a b = sat_add u64_max a b"

definition cd_sub :: "cost_duration \<Rightarrow> cost_duration \<Rightarrow> cost_duration" where
  "cd_sub a b = a - b"

definition cd_mul :: "cost_duration \<Rightarrow> nat \<Rightarrow> cost_duration" where
  "cd_mul a n = sat_mul u64_max a n"

definition cd_div_u64 :: "cost_duration \<Rightarrow> nat \<Rightarrow> ('e, cost_duration) result" where
  "cd_div_u64 a n = (if n = 0 then Panic else Ok (div_ceil a n))"

definition cd_sum :: "cost_duration list \<Rightarrow> cost_duration" where
  "cd_sum xs = (case xs of [] \<Rightarrow> 0 | y # ys \<Rightarrow> fold (\<lambda>b a. cd_add a b) ys y)"

section \<open>Fixed point numbers\<close>

text \<open>The representation \<open>x\<close> stands for the rational \<open>x / 2 ^ 64\<close>.\<close>

definition fp_from_u64_div :: "nat \<Rightarrow> nat \<Rightarrow> fixed_point" where
  "fp_from_u64_div a b =
    (if b = 0 then i128_max else wrap_i128 (int (div_ceil (a * 2 ^ 64) b)))"

definition fp_from_u128_div :: "nat \<Rightarrow> nat \<Rightarrow> fixed_point" where
  "fp_from_u128_div a b =
    (if b = 0 then i128_max
     else let c = div_ceil (a * 2 ^ 64) b in
       if c > u128_max then i128_max else wrap_i128 (int c))"

definition fp_ZERO :: fixed_point where "fp_ZERO = 0"
definition fp_ONE :: fixed_point where "fp_ONE = fp_from_u64_div 1 1"

definition fp_to_i128 :: "fixed_point \<Rightarrow> int" where
  "fp_to_i128 x = x div 2 ^ 64"

definition fp_into_atomic_units :: "fixed_point \<Rightarrow> nat \<Rightarrow> nat" where
  "fp_into_atomic_units x base_unit =
    (let raw = x * int base_unit;
         quot = sgn raw * (\<bar>raw\<bar> div 2 ^ 64);
         rm = raw - quot * 2 ^ 64;
         res = (if rm \<le> 0 then 0 else 1) + quot
     in if res < 0 then 0 else if res > int u128_max then u128_max else nat res)"

definition fp_add :: "fixed_point \<Rightarrow> fixed_point \<Rightarrow> fixed_point" where
  "fp_add a b = sat_i128 (a + b)"

definition fp_sub :: "fixed_point \<Rightarrow> fixed_point \<Rightarrow> fixed_point" where
  "fp_sub a b = sat_i128 (a - b)"

definition fp_neg :: "fixed_point \<Rightarrow> fixed_point" where
  "fp_neg a = sat_i128 (- a)"

definition fp_mul :: "fixed_point \<Rightarrow> fixed_point \<Rightarrow> fixed_point" where
  "fp_mul a b = wrap_i128 (min i128_max (a * b div 2 ^ 64))"

definition fp_div :: "fixed_point \<Rightarrow> fixed_point \<Rightarrow> fixed_point" where
  "fp_div a b =
    (if b = 0 then i128_max
     else wrap_i128 (fp_from_u128_div (nat \<bar>a\<bar>) (nat \<bar>b\<bar>) * sgn a * sgn b))"

text \<open>The square-and-multiply loop of \<^verbatim>\<open>powi\<close> for a positive exponent, and its dispatch on
  the sign of the exponent.\<close>

function powi_loop :: "fixed_point \<Rightarrow> fixed_point \<Rightarrow> nat \<Rightarrow> fixed_point" where
  "powi_loop acc cur e =
    (if e \<ge> 1
     then powi_loop (if e mod 2 \<noteq> 0 then fp_mul acc cur else acc) (fp_mul cur cur) (e div 2)
     else acc)"
  by pat_completeness auto
termination by (relation "measure (\<lambda>(_, _, e). e)") auto

declare powi_loop.simps [simp del]

definition fp_powi :: "fixed_point \<Rightarrow> int \<Rightarrow> fixed_point" where
  "fp_powi x e =
    (if e < 0 then fp_div fp_ONE (powi_loop fp_ONE x (nat (- e)))
     else if e = 0 then fp_ONE
     else powi_loop fp_ONE x (nat e))"

definition cd_mul_fp :: "cost_duration \<Rightarrow> fixed_point \<Rightarrow> cost_duration" where
  "cd_mul_fp d x = min (fp_into_atomic_units (fp_mul (fp_from_u64_div d 1) x) 1) u64_max"

definition cd_div :: "cost_duration \<Rightarrow> cost_duration \<Rightarrow> fixed_point" where
  "cd_div a b = fp_from_u64_div a b"

section \<open>Running, synthetic and normalised costs\<close>

record running_cost =
  rc_read_time :: cost_duration
  rc_compute_time :: cost_duration
  rc_bytes_written :: nat
  rc_bytes_deleted :: nat

definition rc_ZERO :: running_cost where
  "rc_ZERO = \<lparr>rc_read_time = 0, rc_compute_time = 0, rc_bytes_written = 0, rc_bytes_deleted = 0\<rparr>"

definition rc_compute :: "cost_duration \<Rightarrow> running_cost" where
  "rc_compute t = \<lparr>rc_read_time = 0, rc_compute_time = t, rc_bytes_written = 0, rc_bytes_deleted = 0\<rparr>"

definition rc_max_time :: "running_cost \<Rightarrow> cost_duration" where
  "rc_max_time c = max (rc_read_time c) (rc_compute_time c)"

definition rc_within_bounds :: "running_cost \<Rightarrow> running_cost \<Rightarrow> bool" where
  "rc_within_bounds c b \<longleftrightarrow>
    rc_read_time c \<le> rc_read_time b \<and> rc_compute_time c \<le> rc_compute_time b \<and>
    rc_bytes_written c \<le> rc_bytes_written b \<and> rc_bytes_deleted c \<le> rc_bytes_deleted b"

definition rc_add :: "running_cost \<Rightarrow> running_cost \<Rightarrow> running_cost" where
  "rc_add a b =
    \<lparr>rc_read_time = cd_add (rc_read_time a) (rc_read_time b),
     rc_compute_time = cd_add (rc_compute_time a) (rc_compute_time b),
     rc_bytes_written = sat_add u64_max (rc_bytes_written a) (rc_bytes_written b),
     rc_bytes_deleted = sat_add u64_max (rc_bytes_deleted a) (rc_bytes_deleted b)\<rparr>"

definition rc_mul :: "running_cost \<Rightarrow> nat \<Rightarrow> running_cost" where
  "rc_mul a n =
    \<lparr>rc_read_time = cd_mul (rc_read_time a) n,
     rc_compute_time = cd_mul (rc_compute_time a) n,
     rc_bytes_written = sat_mul u64_max (rc_bytes_written a) n,
     rc_bytes_deleted = sat_mul u64_max (rc_bytes_deleted a) n\<rparr>"

definition rc_sum :: "running_cost list \<Rightarrow> running_cost" where
  "rc_sum xs = fold (\<lambda>i res. rc_add res i) xs rc_ZERO"

record synthetic_cost =
  sc_read_time :: cost_duration
  sc_compute_time :: cost_duration
  sc_block_usage :: nat
  sc_bytes_written :: nat
  sc_bytes_churned :: nat

definition sc_ZERO :: synthetic_cost where
  "sc_ZERO = \<lparr>sc_read_time = 0, sc_compute_time = 0, sc_block_usage = 0, sc_bytes_written = 0,
     sc_bytes_churned = 0\<rparr>"

definition sc_add :: "synthetic_cost \<Rightarrow> synthetic_cost \<Rightarrow> synthetic_cost" where
  "sc_add a b =
    \<lparr>sc_read_time = cd_add (sc_read_time a) (sc_read_time b),
     sc_compute_time = cd_add (sc_compute_time a) (sc_compute_time b),
     sc_block_usage = sat_add u64_max (sc_block_usage a) (sc_block_usage b),
     sc_bytes_written = sat_add u64_max (sc_bytes_written a) (sc_bytes_written b),
     sc_bytes_churned = sat_add u64_max (sc_bytes_churned a) (sc_bytes_churned b)\<rparr>"

definition sc_max_time :: "synthetic_cost \<Rightarrow> cost_duration" where
  "sc_max_time c = max (sc_read_time c) (sc_compute_time c)"

definition sc_of_rc :: "running_cost \<Rightarrow> synthetic_cost" where
  "sc_of_rc v =
    (let bw = rc_bytes_written v - rc_bytes_deleted v in
     \<lparr>sc_read_time = rc_read_time v, sc_compute_time = rc_compute_time v, sc_block_usage = 0,
      sc_bytes_written = bw, sc_bytes_churned = rc_bytes_written v - bw\<rparr>)"

definition rc_of_sc :: "synthetic_cost \<Rightarrow> running_cost" where
  "rc_of_sc v =
    \<lparr>rc_read_time = sc_read_time v, rc_compute_time = sc_compute_time v,
     rc_bytes_written = sc_bytes_written v, rc_bytes_deleted = 0\<rparr>"

record normalized_cost =
  nc_read_time :: fixed_point
  nc_compute_time :: fixed_point
  nc_block_usage :: fixed_point
  nc_bytes_written :: fixed_point
  nc_bytes_churned :: fixed_point

definition nc_ZERO :: normalized_cost where
  "nc_ZERO = \<lparr>nc_read_time = 0, nc_compute_time = 0, nc_block_usage = 0, nc_bytes_written = 0,
     nc_bytes_churned = 0\<rparr>"

definition normalize :: "synthetic_cost \<Rightarrow> synthetic_cost \<Rightarrow> normalized_cost option" where
  "normalize c limits =
    (let res = \<lparr>nc_read_time = cd_div (sc_read_time c) (sc_read_time limits),
                nc_compute_time = cd_div (sc_compute_time c) (sc_compute_time limits),
                nc_block_usage = fp_from_u64_div (sc_block_usage c) (sc_block_usage limits),
                nc_bytes_written = fp_from_u64_div (sc_bytes_written c) (sc_bytes_written limits),
                nc_bytes_churned = fp_from_u64_div (sc_bytes_churned c) (sc_bytes_churned limits)\<rparr>
     in if list_ex (\<lambda>v. v > fp_ONE)
             [nc_read_time res, nc_compute_time res, nc_block_usage res, nc_bytes_written res,
              nc_bytes_churned res]
        then None else Some res)"

section \<open>Fee prices\<close>

record fee_prices =
  overall_price :: fixed_point
  read_factor :: fixed_point
  compute_factor :: fixed_point
  block_usage_factor :: fixed_point
  write_factor :: fixed_point

definition POINTS :: "int list" where
  "POINTS =
    [
     -84764999863455367168, -84764999863455367168, -71791413020114739200, -64122702906348363776,
     -58624745660900909056, -54315312289337933824, -50756867729459126272, -47715996328766365696,
     -45053350700638961664, -42679031418590216192, -40531639450585882624, -38567365939524018176,
     -36753849332779208704, -35066499762404089856, -33486189434148528128, -31997741738730885120,
     -30588908944945000448, -29249660330515177472, -27971674063185141760, -26747966611833823232,
     -25572617290405310464, -24440560042528645120, -23347423671542177792, -22289407577085239296,
     -21263183918842343424, -20265819725292941312, -19294714246602784768, -18347548093616457728,
     -17422241585731162112, -16516920363702972416, -15629886784764432384, -14759595957603760128,
     -13904635528415858688, -13063708520358164480, -12235618674138603520, -11419257849061355520,
     -10613595130224742400, -9817667354921738240, -9030570824192866304, -8251454007294845952,
     -7479511080090284032, -6713976164925600768, -5954118160879564800, -5199236070424976384,
     -4448654742390539264, -3701720962283612672, -2957799830037197824, -2216271372462491904,
     -1476527343420476672, -737968169202023424, 0, 737968169202024192,
     1476527343420477440, 2216271372462496512, 2957799830037204480, 3701720962283612672,
     4448654742390539264, 5199236070424971264, 5954118160879561728, 6713976164925597696,
     7479511080090281984, 8251454007294848000, 9030570824192860160, 9817667354921742336,
     10613595130224742400, 11419257849061359616, 12235618674138605568, 13063708520358168576,
     13904635528415862784, 14759595957603747840, 15629886784764430336, 16516920363702964224,
     17422241585731166208, 18347548093616463872, 19294714246602788864, 20265819725292945408,
     21263183918842335232, 22289407577085243392, 23347423671542181888, 24440560042528653312,
     25572617290405310464, 26747966611833827328, 27971674063185145856, 29249660330515173376,
     30588908944945000448, 31997741738730881024, 33486189434148524032, 35066499762404098048,
     36753849332779192320, 38567365939524001792, 40531639450585874432, 42679031418590240768,
     45053350700638978048, 47715996328766390272, 50756867729459134464, 54315312289337958400,
     58624745660900876288, 64122702906348298240, 71791413020114722816, 84764999863455252480,
     84764999863455252480]"

definition POINT_LEN_FP :: int where
  "POINT_LEN_FP = fp_ONE div (int (length POINTS) - 1)"

text \<open>\<^verbatim>\<open>usage.0 / POINT_LEN_FP\<close> truncates towards zero; the clamp at \<open>0\<close> makes it agree with
  the flooring division used here.\<close>

definition price_bucket :: "fixed_point \<Rightarrow> nat" where
  "price_bucket usage = nat (max 0 (min (int (length POINTS) - 2) (usage div POINT_LEN_FP)))"

definition price_adjustment_function :: "fixed_point \<Rightarrow> fixed_point \<Rightarrow> fixed_point" where
  "price_adjustment_function usage a =
    (let bucket = price_bucket usage;
         b = POINTS ! bucket;
         c = POINTS ! (bucket + 1);
         frac = fp_from_u128_div (nat (max 0 (usage - int bucket * POINT_LEN_FP))) (nat POINT_LEN_FP)
     in fp_div (fp_add (fp_mul b (fp_sub fp_ONE frac)) (fp_mul c frac)) a)"

definition MIN_COST :: fixed_point where "MIN_COST = 100"

definition price_multiplier :: "fixed_point \<Rightarrow> fixed_point \<Rightarrow> fixed_point" where
  "price_multiplier a frac = fp_add (price_adjustment_function frac a) fp_ONE"

definition update_from_fullness ::
  "fee_prices \<Rightarrow> normalized_cost \<Rightarrow> fixed_point \<Rightarrow> fixed_point \<Rightarrow> fixed_point \<Rightarrow> fee_prices" where
  "update_from_fullness p detailed overall min_ratio a =
    (let multiplier = price_multiplier a;
         overall' = fp_mul (overall_price p) (multiplier overall);
         r = fp_mul (read_factor p) (multiplier (nc_read_time detailed));
         c = fp_mul (compute_factor p) (multiplier (nc_compute_time detailed));
         u = fp_mul (block_usage_factor p) (multiplier (nc_block_usage detailed));
         w = fp_mul (write_factor p)
               (multiplier (max (nc_bytes_written detailed) (nc_bytes_churned detailed)));
         most_expensive = max r (max c (max u w));
         floor_dim = (\<lambda>d. max d (fp_mul most_expensive min_ratio));
         r1 = floor_dim r; c1 = floor_dim c; u1 = floor_dim u; w1 = floor_dim w;
         factor_mean = fp_div (fp_add (fp_add (fp_add (fp_add fp_ZERO r1) c1) u1) w1)
                         (fp_from_u64_div 4 1)
     in \<lparr>overall_price = max overall' MIN_COST,
         read_factor = fp_div r1 factor_mean,
         compute_factor = fp_div c1 factor_mean,
         block_usage_factor = fp_div u1 factor_mean,
         write_factor = fp_div w1 factor_mean\<rparr>)"

definition overall_cost :: "fee_prices \<Rightarrow> normalized_cost \<Rightarrow> fixed_point" where
  "overall_cost p tx =
    (let read_cost = fp_mul (read_factor p) (nc_read_time tx);
         compute_cost = fp_mul (compute_factor p) (nc_compute_time tx);
         block_usage_cost = fp_mul (block_usage_factor p) (nc_block_usage tx);
         write_cost = fp_mul (write_factor p) (nc_bytes_written tx);
         churn_cost = fp_mul (write_factor p) (nc_bytes_churned tx);
         utilization_cost = max read_cost (max compute_cost block_usage_cost)
     in fp_mul (overall_price p) (fp_add (fp_add utilization_cost write_cost) churn_cost))"

section \<open>Saturating counters\<close>

definition rc_ok :: "running_cost \<Rightarrow> bool" where
  "rc_ok c \<longleftrightarrow> rc_read_time c \<le> u64_max \<and> rc_compute_time c \<le> u64_max \<and>
     rc_bytes_written c \<le> u64_max \<and> rc_bytes_deleted c \<le> u64_max"

lemma rc_add_ok [simp]: "rc_ok (rc_add a b)"
  by (simp add: rc_ok_def rc_add_def cd_add_def)

lemma rc_mul_ok [simp]: "rc_ok (rc_mul a n)"
  by (simp add: rc_ok_def rc_mul_def cd_mul_def)

lemma rc_ZERO_ok [simp]: "rc_ok rc_ZERO"
  by (simp add: rc_ok_def rc_ZERO_def)

lemma rc_add_sel [simp]:
  "rc_read_time (rc_add a b) = cd_add (rc_read_time a) (rc_read_time b)"
  "rc_compute_time (rc_add a b) = cd_add (rc_compute_time a) (rc_compute_time b)"
  "rc_bytes_written (rc_add a b) = sat_add u64_max (rc_bytes_written a) (rc_bytes_written b)"
  "rc_bytes_deleted (rc_add a b) = sat_add u64_max (rc_bytes_deleted a) (rc_bytes_deleted b)"
  by (simp_all add: rc_add_def)

lemma rc_within_bounds_refl [simp]: "rc_within_bounds c c"
  by (simp add: rc_within_bounds_def)

lemma rc_within_bounds_trans [trans]:
  "rc_within_bounds a b \<Longrightarrow> rc_within_bounds b c \<Longrightarrow> rc_within_bounds a c"
  by (auto simp: rc_within_bounds_def)

lemma rc_add_increases: "rc_ok a \<Longrightarrow> rc_within_bounds a (rc_add a b)"
  by (simp add: rc_within_bounds_def rc_ok_def cd_add_def sat_add_ge)

lemma rc_add_assoc: "rc_add (rc_add a b) c = rc_add a (rc_add b c)"
  by (simp add: rc_add_def cd_add_def sat_add_assoc)

lemma rc_add_commute: "rc_add a b = rc_add b a"
  by (simp add: rc_add_def cd_add_def sat_add_commute)

lemma rc_add_ZERO: "rc_ok a \<Longrightarrow> rc_add rc_ZERO a = a" "rc_ok a \<Longrightarrow> rc_add a rc_ZERO = a"
  by (simp_all add: rc_add_def rc_ZERO_def rc_ok_def cd_add_def sat_add_def)

section \<open>Rounding of the fixed point operations\<close>

lemma fp_ONE_eq: "fp_ONE = 2 ^ 64"
  by (simp add: fp_ONE_def fp_from_u64_div_def div_ceil_def wrap_i128_def)

lemma fp_from_u64_div_exact:
  assumes "0 < b" "a \<le> u64_max" "2 \<le> b \<or> a < 2 ^ 63"
  shows "fp_from_u64_div a b = int (div_ceil (a * 2 ^ 64) b)"
proof -
  have "a * 2 ^ 64 \<le> 170141183460469231731687303715884105727 * b"
  proof (cases "2 \<le> b")
    case True
    have "a * 2 ^ 64 \<le> u64_max * 2 ^ 64" using assms(2) by simp
    also have "\<dots> \<le> 170141183460469231731687303715884105727 * 2" by (simp add: int_bounds)
    also have "\<dots> \<le> 170141183460469231731687303715884105727 * b" using True by simp
    finally show ?thesis .
  next
    case False
    with assms have "a * 2 ^ 64 \<le> (2 ^ 63 - 1) * 2 ^ 64" by simp
    also have "\<dots> \<le> 170141183460469231731687303715884105727 * b" using assms(1) by simp
    finally show ?thesis .
  qed
  then have "div_ceil (a * 2 ^ 64) b \<le> 170141183460469231731687303715884105727"
    by (simp only: div_ceil_le_iff [OF assms(1)])
  then have "int (div_ceil (a * 2 ^ 64) b) \<le> i128_max" unfolding int_bounds by linarith
  then show ?thesis using assms(1)
    by (simp add: fp_from_u64_div_def) (rule wrap_i128_id; simp add: int_bounds)
qed

lemma fp_mul_exact:
  "i128_min \<le> a * b div 2 ^ 64 \<Longrightarrow> fp_mul a b = min i128_max (a * b div 2 ^ 64)"
  unfolding fp_mul_def by (rule wrap_i128_id) (auto simp: int_bounds)

lemma fp_mul_nonneg_eq:
  "0 \<le> a \<Longrightarrow> 0 \<le> b \<Longrightarrow> fp_mul a b = min i128_max (a * b div 2 ^ 64)"
  by (rule fp_mul_exact, rule order_trans [of _ 0])
    (simp_all add: int_bounds pos_imp_zdiv_nonneg_iff)

lemma fp_mul_nonneg [simp]: "0 \<le> a \<Longrightarrow> 0 \<le> b \<Longrightarrow> 0 \<le> fp_mul a b"
  by (simp add: fp_mul_nonneg_eq int_bounds pos_imp_zdiv_nonneg_iff)

lemma fp_mul_le_max: "fp_mul a b \<le> i128_max"
  unfolding fp_mul_def by (rule wrap_i128_bounds)

lemma fp_mul_mono:
  assumes "0 \<le> a" "a \<le> a'" "0 \<le> b" "b \<le> b'"
  shows "fp_mul a b \<le> fp_mul a' b'"
proof -
  have "a * b div 2 ^ 64 \<le> a' * b' div 2 ^ 64"
    by (rule zdiv_mono1) (use assms in \<open>auto intro: mult_mono\<close>)
  then show ?thesis using assms by (simp add: fp_mul_nonneg_eq)
qed

lemma fp_add_mono: "a \<le> a' \<Longrightarrow> b \<le> b' \<Longrightarrow> fp_add a b \<le> fp_add a' b'"
  unfolding fp_add_def by (rule sat_i128_mono) simp

lemma fp_add_nonneg [simp]: "0 \<le> a \<Longrightarrow> 0 \<le> b \<Longrightarrow> 0 \<le> fp_add a b"
  by (simp add: fp_add_def sat_i128_def int_bounds)

lemma fp_from_u128_div_exact:
  assumes "0 < b" "int a * 2 ^ 64 \<le> i128_max * int b"
  shows "fp_from_u128_div a b = int (div_ceil (a * 2 ^ 64) b)"
proof -
  have "int (a * 2 ^ 64) \<le> int (170141183460469231731687303715884105727 * b)"
    using assms(2) by (simp add: int_bounds)
  then have "div_ceil (a * 2 ^ 64) b \<le> 170141183460469231731687303715884105727"
    by (simp only: div_ceil_le_iff [OF assms(1)] of_nat_le_iff)
  then show ?thesis using assms(1)
    by (simp add: fp_from_u128_div_def Let_def int_bounds wrap_i128_id)
qed

lemma div_ceil_int:
  assumes "0 < b"
  shows "int a * 2 ^ 64 \<le> int (div_ceil (a * 2 ^ 64) b) * int b"
    and "int (div_ceil (a * 2 ^ 64) b) * int b < int a * 2 ^ 64 + int b"
proof -
  have "int (a * 2 ^ 64) \<le> int (div_ceil (a * 2 ^ 64) b * b)"
    using div_ceil_upper [OF assms] by (simp only: of_nat_le_iff)
  then show "int a * 2 ^ 64 \<le> int (div_ceil (a * 2 ^ 64) b) * int b" by simp
  have "int (div_ceil (a * 2 ^ 64) b * b) < int (a * 2 ^ 64 + b)"
    using div_ceil_lower [OF assms] by (simp only: of_nat_less_iff)
  then show "int (div_ceil (a * 2 ^ 64) b) * int b < int a * 2 ^ 64 + int b" by simp
qed

lemma fp_div_abs:
  assumes "b \<noteq> 0" "\<bar>a\<bar> * 2 ^ 64 \<le> i128_max * \<bar>b\<bar>"
  shows "\<bar>fp_div a b\<bar> * \<bar>b\<bar> < \<bar>a\<bar> * 2 ^ 64 + \<bar>b\<bar>"
    and "0 \<le> a \<Longrightarrow> 0 < b \<Longrightarrow> 0 \<le> fp_div a b \<and> a * 2 ^ 64 \<le> fp_div a b * b"
proof -
  define q where "q = int (div_ceil (nat \<bar>a\<bar> * 2 ^ 64) (nat \<bar>b\<bar>))"
  have b: "0 < nat \<bar>b\<bar>" using assms by simp
  have q: "fp_from_u128_div (nat \<bar>a\<bar>) (nat \<bar>b\<bar>) = q"
    unfolding q_def by (rule fp_from_u128_div_exact [OF b]) (use assms in simp)
  have qb: "\<bar>a\<bar> * 2 ^ 64 \<le> q * \<bar>b\<bar>" "q * \<bar>b\<bar> < \<bar>a\<bar> * 2 ^ 64 + \<bar>b\<bar>"
    unfolding q_def using div_ceil_int [OF b, of "nat \<bar>a\<bar>"] by simp_all
  have q0: "0 \<le> q" by (simp add: q_def)
  have "q \<le> i128_max"
  proof (rule ccontr)
    assume "\<not> q \<le> i128_max"
    then have "(i128_max + 1) * \<bar>b\<bar> \<le> q * \<bar>b\<bar>" by (intro mult_right_mono) auto
    with qb(2) assms(2) show False by (simp add: algebra_simps)
  qed
  then have "wrap_i128 (q * sgn a * sgn b) = q * sgn a * sgn b"
    using q0 by (intro wrap_i128_id) (auto simp: sgn_if int_bounds)
  then have d: "fp_div a b = q * sgn a * sgn b"
    using assms(1) by (simp add: fp_div_def q)
  have "\<bar>fp_div a b\<bar> \<le> q" using q0 by (simp add: d abs_mult sgn_if)
  then have "\<bar>fp_div a b\<bar> * \<bar>b\<bar> \<le> q * \<bar>b\<bar>" by (rule mult_right_mono) simp
  with qb(2) show "\<bar>fp_div a b\<bar> * \<bar>b\<bar> < \<bar>a\<bar> * 2 ^ 64 + \<bar>b\<bar>" by linarith
  show "0 \<le> fp_div a b \<and> a * 2 ^ 64 \<le> fp_div a b * b" if "0 \<le> a" "0 < b"
    using that q0 qb(1) by (auto simp: d sgn_if)
qed

lemma fp_div_pos:
  assumes "0 \<le> a" "0 < b" "a * 2 ^ 64 \<le> i128_max * b"
  shows "0 \<le> fp_div a b" "a * 2 ^ 64 \<le> fp_div a b * b" "fp_div a b * b < a * 2 ^ 64 + b"
  using fp_div_abs [of b a] assms by auto

section \<open>The price adjustment\<close>

lemma length_POINTS [simp]: "length POINTS = 101"
  by (simp add: POINTS_def)

lemma POINT_LEN_FP_eq [simp]: "POINT_LEN_FP = 184467440737095516"
  by (simp add: POINT_LEN_FP_def fp_ONE_eq)

lemma POINTS_bound:
  assumes "i < 101"
  shows "\<bar>POINTS ! i\<bar> \<le> 84764999863455367168"
proof -
  have "list_all (\<lambda>p. \<bar>p\<bar> \<le> 84764999863455367168) POINTS"
    by (simp add: POINTS_def)
  with assms show ?thesis by (simp add: list_all_length)
qed

lemma div64_bounds:
  fixes x :: int
  assumes "\<bar>x\<bar> \<le> k * 2 ^ 64"
  shows "- k \<le> x div 2 ^ 64" "x div 2 ^ 64 \<le> k"
proof -
  have "- k * 2 ^ 64 \<le> x" "x \<le> k * 2 ^ 64" using assms by (simp_all add: abs_le_iff)
  then show "- k \<le> x div 2 ^ 64" "x div 2 ^ 64 \<le> k"
    using zdiv_mono1 [of "- k * 2 ^ 64" x "2 ^ 64"] zdiv_mono1 [of x "k * 2 ^ 64" "2 ^ 64"]
    by simp_all
qed

lemma fp_mul_small: "\<bar>a * b\<bar> \<le> 2 ^ 126 * 2 ^ 64 \<Longrightarrow> fp_mul a b = a * b div 2 ^ 64"
  using div64_bounds [of "a * b" "2 ^ 126"] by (subst fp_mul_exact) (simp_all add: int_bounds)

lemma div64_sum:
  fixes x y :: int
  assumes "\<bar>x\<bar> + \<bar>y\<bar> \<le> m" "m + 2 * 2 ^ 64 \<le> k * 2 ^ 64"
  shows "\<bar>x div 2 ^ 64 + y div 2 ^ 64\<bar> \<le> k"
proof -
  define p q where "p = x div 2 ^ 64" and "q = y div 2 ^ 64"
  have p: "p * 2 ^ 64 \<le> x" "x < p * 2 ^ 64 + 2 ^ 64"
    and q: "q * 2 ^ 64 \<le> y" "y < q * 2 ^ 64 + 2 ^ 64"
    unfolding p_def q_def by (simp_all add: minus_mod_eq_div_mult [symmetric])
  have "(p + q) * 2 ^ 64 \<le> m" "- m - 2 * 2 ^ 64 \<le> (p + q) * 2 ^ 64"
    using p q assms(1) by (auto simp: algebra_simps abs_if split: if_splits)
  then have "(p + q) * 2 ^ 64 \<le> k * 2 ^ 64" "(- k) * 2 ^ 64 \<le> (p + q) * 2 ^ 64"
    using assms(2) by auto
  then have "p + q \<le> k" "- k \<le> p + q" by (simp_all only: mult_le_cancel_right) auto
  then show ?thesis unfolding p_def q_def by linarith
qed

lemma weighted_bound:
  fixes b c :: int
  assumes "\<bar>b\<bar> \<le> 84764999863455367168" "\<bar>c\<bar> \<le> 84764999863455367168"
    and "0 \<le> f" "f \<le> 2 ^ 64 + 1601"
  shows "\<bar>fp_add (fp_mul b (fp_sub fp_ONE f)) (fp_mul c f)\<bar> \<le> 84764999863455390000"
proof -
  define g where "g = 2 ^ 64 - f"
  have g: "fp_sub fp_ONE f = g" "- 1601 \<le> g" "g \<le> 2 ^ 64"
    using assms(3,4) by (auto simp: fp_sub_def fp_ONE_eq g_def sat_i128_def int_bounds)
  have bg: "\<bar>b * g\<bar> \<le> 84764999863455367168 * \<bar>g\<bar>"
    unfolding abs_mult by (rule mult_right_mono) (use assms in auto)
  have cf: "\<bar>c * f\<bar> \<le> 84764999863455367168 * f"
    using assms by (simp add: abs_mult mult_right_mono)
  have gf: "\<bar>g\<bar> + f \<le> 2 ^ 64 + 3202" using assms(3,4) by (auto simp: g_def)
  have bg': "\<bar>b * g\<bar> \<le> 84764999863455367168 * 2 ^ 64" proof -
    have "\<bar>g\<bar> \<le> 2 ^ 64" using g by simp
    with bg show ?thesis by linarith
  qed
  have cf': "\<bar>c * f\<bar> \<le> 84764999863455367168 * (2 ^ 64 + 1601)" by (rule order_trans [OF cf]) (use assms(4) in simp)
  have m1: "fp_mul b g = b * g div 2 ^ 64"
    by (rule fp_mul_small, rule order_trans [OF bg']) simp
  have m2: "fp_mul c f = c * f div 2 ^ 64"
    by (rule fp_mul_small, rule order_trans [OF cf']) simp
  have "84764999863455367168 * \<bar>g\<bar> + 84764999863455367168 * f
      \<le> 84764999863455367168 * (2 ^ 64 + 3202)"
    using mult_left_mono [OF gf, of 84764999863455367168] by (simp add: distrib_left)
  with add_mono [OF bg cf]
  have "\<bar>b * g\<bar> + \<bar>c * f\<bar> \<le> 84764999863455367168 * (2 ^ 64 + 3202)" by (rule order_trans)
  then have "\<bar>b * g div 2 ^ 64 + c * f div 2 ^ 64\<bar> \<le> 84764999863455390000"
    by (rule div64_sum) simp
  then show ?thesis unfolding g(1) m1 m2 fp_add_def by (auto simp: sat_i128_def int_bounds)
qed

lemma price_adjustment_bound:
  assumes "0 \<le> usage" "usage \<le> fp_ONE" "5 * fp_ONE \<le> a"
  shows "\<bar>price_adjustment_function usage a\<bar> \<le> 16952999972691078001"
proof -
  define k where "k = price_bucket usage"
  define off where "off = usage - int k * POINT_LEN_FP"
  have k: "k < 100" "0 \<le> off" "off \<le> 184467440737095532"
    using assms(1,2)
    by (auto simp: k_def off_def price_bucket_def fp_ONE_eq min_def max_def nat_less_iff)
  define f where "f = fp_from_u128_div (nat (max 0 off)) (nat POINT_LEN_FP)"
  have "f = int (div_ceil (nat off * 2 ^ 64) 184467440737095516)"
    unfolding f_def using k by (subst fp_from_u128_div_exact) (simp_all add: int_bounds max_def)
  moreover have "nat off * 2 ^ 64 \<le> (2 ^ 64 + 1601) * 184467440737095516"
    using k by (simp add: nat_le_iff)
  then have "div_ceil (nat off * 2 ^ 64) 184467440737095516 \<le> 2 ^ 64 + 1601"
    by (subst div_ceil_le_iff) simp_all
  ultimately have f: "0 \<le> f" "f \<le> 2 ^ 64 + 1601" by simp_all
  define num where
    "num = fp_add (fp_mul (POINTS ! k) (fp_sub fp_ONE f)) (fp_mul (POINTS ! (k + 1)) f)"
  have num: "\<bar>num\<bar> \<le> 84764999863455390000"
    unfolding num_def by (rule weighted_bound) (use k f in \<open>auto intro: POINTS_bound\<close>)
  have a: "0 < a" "92233720368547758080 \<le> a" using assms(3) by (simp_all add: fp_ONE_eq)
  have "\<bar>fp_div num a\<bar> * \<bar>a\<bar> < \<bar>num\<bar> * 2 ^ 64 + \<bar>a\<bar>"
    by (rule fp_div_abs) (use a num in \<open>auto simp: int_bounds\<close>)
  also have "\<dots> \<le> 16952999972691078000 * a + a" using num a by (simp add: fp_ONE_eq)
  finally have "\<bar>fp_div num a\<bar> * a < 16952999972691078001 * a" using a by simp
  then have "\<bar>fp_div num a\<bar> < 16952999972691078001" using a
    by (simp only: mult_less_cancel_right)
  then show ?thesis
    by (simp add: price_adjustment_function_def Let_def num_def f_def off_def k_def)
qed

lemma price_multiplier_bounds:
  assumes "0 \<le> usage" "usage \<le> fp_ONE" "5 * fp_ONE \<le> a"
  shows "fp_ONE div 20 \<le> price_multiplier a usage" "price_multiplier a usage \<le> 2 * fp_ONE"
  using price_adjustment_bound [OF assms]
  by (auto simp: price_multiplier_def fp_add_def fp_ONE_eq sat_i128_def int_bounds)

lemma fp_mul_floor:
  assumes "0 \<le> f" "f \<le> 4 * fp_ONE + 4" "fp_ONE div 20 \<le> m" "m \<le> 2 * fp_ONE"
  shows "f \<le> 21 * fp_mul f m + 21" "fp_mul f m \<le> 8 * fp_ONE + 8" "0 \<le> fp_mul f m"
proof -
  have m0: "0 \<le> m" using assms(3) by (simp add: fp_ONE_eq)
  have up: "f * m \<le> (8 * fp_ONE + 8) * 2 ^ 64"
    using mult_mono [OF assms(2,4)] m0 by (simp add: fp_ONE_eq)
  have nn: "0 \<le> f * m" using assms(1) m0 by simp
  define q where "q = f * m div 2 ^ 64"
  have q: "fp_mul f m = q"
    using up nn unfolding q_def by (intro fp_mul_small) (simp add: fp_ONE_eq)
  have q0: "0 \<le> q" unfolding q_def using nn by (simp add: pos_imp_zdiv_nonneg_iff)
  have "f * (fp_ONE div 20) \<le> f * m" by (rule mult_left_mono [OF assms(3,1)])
  also have "\<dots> < q * 2 ^ 64 + 2 ^ 64"
    unfolding q_def by (simp add: minus_mod_eq_div_mult [symmetric])
  finally have "f * 922337203685477580 < (q + 1) * 2 ^ 64" by (simp add: fp_ONE_eq)
  then show "f \<le> 21 * fp_mul f m + 21" using q0 by (simp add: q)
  show "fp_mul f m \<le> 8 * fp_ONE + 8"
    using up nn div64_bounds(2) [of "f * m" "8 * fp_ONE + 8"] by (simp add: q q_def)
  show "0 \<le> fp_mul f m" using assms(1) m0 by simp
qed

lemma fp_mul_ratio_le:
  assumes "0 \<le> d" "d \<le> i128_max" "0 \<le> r" "r \<le> fp_ONE"
  shows "fp_mul d r \<le> d" "0 \<le> fp_mul d r"
proof -
  have "d * r \<le> d * 2 ^ 64" using assms by (simp add: mult_left_mono fp_ONE_eq)
  then have "d * r div 2 ^ 64 \<le> d"
    using zdiv_mono1 [of "d * r" "d * 2 ^ 64" "2 ^ 64"] by simp
  then show "fp_mul d r \<le> d" using assms by (simp add: fp_mul_nonneg_eq)
  show "0 \<le> fp_mul d r" using assms by simp
qed

text \<open>Dividing four factors by their mean leaves factors that add up to four, up to rounding.\<close>

lemma factors_renormalised:
  fixes ds :: "int list"
  assumes "ds = [r, c, u, w]" and "\<forall>d \<in> set ds. 0 \<le> d \<and> d \<le> 8 * fp_ONE + 8"
    and "4 \<le> r + c + u + w"
    and "m = fp_div (fp_add (fp_add (fp_add (fp_add fp_ZERO r) c) u) w) (fp_from_u64_div 4 1)"
  shows "0 \<le> fp_div r m \<and> 0 \<le> fp_div c m \<and> 0 \<le> fp_div u m \<and> 0 \<le> fp_div w m"
    and "2 * fp_ONE \<le> fp_div r m + fp_div c m + fp_div u m + fp_div w m"
    and "fp_div r m + fp_div c m + fp_div u m + fp_div w m \<le> 4 * fp_ONE + 4"
proof -
  define t where "t = r + c + u + w"
  have ds: "0 \<le> r" "0 \<le> c" "0 \<le> u" "0 \<le> w"
    "r \<le> 8 * fp_ONE + 8" "c \<le> 8 * fp_ONE + 8" "u \<le> 8 * fp_ONE + 8" "w \<le> 8 * fp_ONE + 8"
    using assms(1,2) by auto
  have sum: "fp_add (fp_add (fp_add (fp_add fp_ZERO r) c) u) w = t"
    using ds by (simp add: fp_add_def fp_ZERO_def t_def sat_i128_id fp_ONE_eq int_bounds)
  have four: "fp_from_u64_div 4 1 = 4 * 2 ^ 64"
    by (simp add: fp_from_u64_div_def div_ceil_def wrap_i128_def)
  have t: "4 \<le> t" "t \<le> 32 * fp_ONE + 32" using assms(3) ds by (auto simp: t_def)
  have "t * 2 ^ 64 \<le> m * (4 * 2 ^ 64)" "m * (4 * 2 ^ 64) < t * 2 ^ 64 + 4 * 2 ^ 64"
    unfolding assms(4) sum four
    by (rule fp_div_pos; use t in \<open>simp add: fp_ONE_eq int_bounds\<close>)+
  then have m: "t \<le> 4 * m" "4 * m < t + 4" by simp_all
  have dim: "0 \<le> fp_div d m \<and> d * 2 ^ 64 \<le> fp_div d m * m \<and> fp_div d m * m < d * 2 ^ 64 + m"
    if "0 \<le> d" "d \<le> t" for d
  proof -
    have "d * 2 ^ 64 \<le> i128_max * m" using that m t by (simp add: int_bounds)
    then show ?thesis using fp_div_pos [of d m] that m t by auto
  qed
  have ds': "r \<le> t" "c \<le> t" "u \<le> t" "w \<le> t" using ds by (auto simp: t_def)
  define s where "s = fp_div r m + fp_div c m + fp_div u m + fp_div w m"
  have s: "t * 2 ^ 64 \<le> s * m" "s * m < t * 2 ^ 64 + 4 * m"
    using dim [of r] dim [of c] dim [of u] dim [of w] ds ds'
    by (auto simp: s_def t_def distrib_right)
  show "0 \<le> fp_div r m \<and> 0 \<le> fp_div c m \<and> 0 \<le> fp_div u m \<and> 0 \<le> fp_div w m"
    using dim ds ds' by blast
  have "s * m < (4 * 2 ^ 64 + 4) * m" using s(2) m by (simp add: distrib_right)
  then have "s < 4 * 2 ^ 64 + 4" using m t by (simp only: mult_less_cancel_right)
  then show "fp_div r m + fp_div c m + fp_div u m + fp_div w m \<le> 4 * fp_ONE + 4"
    by (simp add: s_def fp_ONE_eq)
  have "2 * m \<le> t" using m t by linarith
  then have "2 * 2 ^ 64 * m \<le> t * 2 ^ 64" by simp
  also note s(1)
  finally have "2 * 2 ^ 64 \<le> s" using m t by (auto simp: mult_le_cancel_right)
  then show "2 * fp_ONE \<le> fp_div r m + fp_div c m + fp_div u m + fp_div w m"
    by (simp add: s_def fp_ONE_eq)
qed

definition prices_ok :: "fee_prices \<Rightarrow> bool" where
  "prices_ok p \<longleftrightarrow> MIN_COST \<le> overall_price p \<and>
     0 \<le> read_factor p \<and> 0 \<le> compute_factor p \<and> 0 \<le> block_usage_factor p \<and> 0 \<le> write_factor p \<and>
     2 * fp_ONE \<le> read_factor p + compute_factor p + block_usage_factor p + write_factor p \<and>
     read_factor p + compute_factor p + block_usage_factor p + write_factor p \<le> 4 * fp_ONE + 4"

definition nc_dims :: "normalized_cost \<Rightarrow> fixed_point list" where
  "nc_dims n = [nc_read_time n, nc_compute_time n, nc_block_usage n, nc_bytes_written n,
     nc_bytes_churned n]"

definition sc_dims :: "synthetic_cost \<Rightarrow> nat list" where
  "sc_dims c = [sc_read_time c, sc_compute_time c, sc_block_usage c, sc_bytes_written c,
     sc_bytes_churned c]"

lemmas prices_defs = prices_ok_def nc_dims_def update_from_fullness_def Let_def

section \<open>Properties\<close>

text \<open>C38: normalising a cost against block limits succeeds exactly when every dimension is
  within its limit, and every normalised dimension is then a fraction between zero and
  one. (Limits of at least two units; a limit of one is the subject of
  \<^verbatim>\<open>normalize_unit_limit\<close>.)\<close>

theorem normalize_correct:
  assumes "\<forall>l \<in> set (sc_dims limits). 2 \<le> l \<and> l \<le> u64_max"
    and "\<forall>v \<in> set (sc_dims c). v \<le> u64_max"
  shows "case normalize c limits of
      None \<Rightarrow> \<not> list_all2 (\<le>) (sc_dims c) (sc_dims limits)
    | Some n \<Rightarrow> list_all2 (\<le>) (sc_dims c) (sc_dims limits) \<and>
                (\<forall>v \<in> set (nc_dims n). 0 \<le> v \<and> v \<le> fp_ONE)"
proof -
  have frac: "(fp_from_u64_div a b \<le> fp_ONE \<longleftrightarrow> a \<le> b) \<and>
      (fp_ONE < fp_from_u64_div a b \<longleftrightarrow> b < a) \<and> 0 \<le> fp_from_u64_div a b"
    if "2 \<le> b" "a \<le> u64_max" for a b
  proof -
    have "fp_from_u64_div a b = int (div_ceil (a * 2 ^ 64) b)"
      by (rule fp_from_u64_div_exact) (use that in auto)
    moreover have "div_ceil (a * 2 ^ 64) b \<le> 2 ^ 64 \<longleftrightarrow> a \<le> b"
      using that by (subst div_ceil_le_iff) auto
    ultimately show ?thesis by (simp add: fp_ONE_eq flip: not_le)
  qed
  show ?thesis using assms
    by (auto simp: normalize_def sc_dims_def nc_dims_def cd_div_def frac Let_def)
qed

theorem normalize_correct_witness:
  "normalize \<lparr>sc_read_time = 5, sc_compute_time = 1, sc_block_usage = 0, sc_bytes_written = 2,
      sc_bytes_churned = 7\<rparr>
    \<lparr>sc_read_time = 10, sc_compute_time = 2, sc_block_usage = 3, sc_bytes_written = 2,
      sc_bytes_churned = 8\<rparr> \<noteq> None"
  using normalize_correct
    [of "\<lparr>sc_read_time = 10, sc_compute_time = 2, sc_block_usage = 3, sc_bytes_written = 2,
           sc_bytes_churned = 8\<rparr>"
        "\<lparr>sc_read_time = 5, sc_compute_time = 1, sc_block_usage = 0, sc_bytes_written = 2,
           sc_bytes_churned = 7\<rparr>"]
  by (auto simp: sc_dims_def u64_max_def split: option.splits)

text \<open>with a block limit of one unit the conversion of the quotient to a signed number
  wraps around, so a cost of \<open>2 ^ 63\<close> units, far beyond the limit, is accepted with a
  negative fraction.\<close>

theorem normalize_unit_limit:
  "\<exists>n. normalize (sc_ZERO \<lparr>sc_read_time := 2 ^ 63\<rparr>)
         \<lparr>sc_read_time = 1, sc_compute_time = 1, sc_block_usage = 1, sc_bytes_written = 1,
          sc_bytes_churned = 1\<rparr> = Some n \<and> nc_read_time n < 0"
  by (simp add: normalize_def sc_ZERO_def cd_div_def fp_from_u64_div_def div_ceil_def
      wrap_i128_def fp_ONE_eq Let_def)

text \<open>the conversion of a fixed point price to atomic units rounds up, saturates at the
  largest 128-bit number and maps negative numbers to zero.\<close>

theorem into_atomic_units_ceil:
  "fp_into_atomic_units x base =
    (if x \<le> 0 then 0 else min u128_max (div_ceil (nat x * base) (2 ^ 64)))"
proof (cases "x \<le> 0 \<or> base = 0")
  case True
  then have "x * int base \<le> 0" by (auto simp: mult_nonpos_nonneg)
  define raw where "raw = x * int base"
  have "sgn raw * (\<bar>raw\<bar> div 2 ^ 64) = - (- raw div 2 ^ 64)"
    using \<open>x * int base \<le> 0\<close> by (auto simp: raw_def sgn_if)
  moreover have "raw + (- raw div 2 ^ 64) * 2 ^ 64 \<le> 0"
    by (simp add: minus_mod_eq_div_mult [symmetric])
  moreover have "0 \<le> - raw div 2 ^ 64"
    using \<open>x * int base \<le> 0\<close> by (simp add: raw_def pos_imp_zdiv_nonneg_iff)
  ultimately show ?thesis using True
    by (auto simp: fp_into_atomic_units_def Let_def raw_def [symmetric] div_ceil_def)
next
  case False
  define n where "n = nat x * base"
  have raw: "x * int base = int n" "0 < n" using False by (auto simp: n_def)
  obtain k l where kl: "k = n div 2 ^ 64" "l = n mod 2 ^ 64" by blast
  have q: "sgn (int n) * (\<bar>int n\<bar> div 2 ^ 64) = int k"
    using raw by (simp add: sgn_if zdiv_int kl)
  have r: "int n - int k * 2 ^ 64 = int l"
    by (simp add: zmod_int zdiv_int minus_div_mult_eq_mod kl)
  have "fp_into_atomic_units x base =
      (let res = (if int l \<le> 0 then 0 else 1) + int k
       in if res < 0 then 0 else if res > int u128_max then u128_max else nat res)"
    unfolding fp_into_atomic_units_def raw Let_def q r ..
  also have "\<dots> = min u128_max (k + (if l = 0 then 0 else 1))"
    by (cases "l = 0"; simp add: Let_def min_def; linarith)
  finally show ?thesis using False by (simp add: div_ceil_def n_def [symmetric] kl)
qed

text \<open>at non-negative prices a transaction never gets cheaper by using more of a
  resource, and its overall cost is not negative.\<close>

theorem overall_cost_mono:
  assumes "0 \<le> overall_price p" "0 \<le> read_factor p" "0 \<le> compute_factor p"
    "0 \<le> block_usage_factor p" "0 \<le> write_factor p"
    and "\<forall>v \<in> set (nc_dims tx). 0 \<le> v" "list_all2 (\<le>) (nc_dims tx) (nc_dims tx')"
  shows "0 \<le> overall_cost p tx \<and> overall_cost p tx \<le> overall_cost p tx'"
proof -
  note ds = assms(6,7) [unfolded nc_dims_def]
  have "max (fp_mul (read_factor p) (nc_read_time tx)) (max (fp_mul (compute_factor p)
        (nc_compute_time tx)) (fp_mul (block_usage_factor p) (nc_block_usage tx)))
    \<le> max (fp_mul (read_factor p) (nc_read_time tx')) (max (fp_mul (compute_factor p)
        (nc_compute_time tx')) (fp_mul (block_usage_factor p) (nc_block_usage tx')))"
    using ds assms by (intro max.mono fp_mul_mono) auto
  moreover have "fp_mul (write_factor p) (nc_bytes_written tx)
    \<le> fp_mul (write_factor p) (nc_bytes_written tx')"
    and "fp_mul (write_factor p) (nc_bytes_churned tx)
    \<le> fp_mul (write_factor p) (nc_bytes_churned tx')"
    using ds assms by (auto intro!: fp_mul_mono)
  moreover have nn: "0 \<le> fp_mul (read_factor p) (nc_read_time tx)"
    "0 \<le> fp_mul (write_factor p) (nc_bytes_written tx)"
    "0 \<le> fp_mul (write_factor p) (nc_bytes_churned tx)"
    using ds assms by auto
  ultimately show ?thesis unfolding overall_cost_def Let_def
    using assms by (auto intro!: fp_mul_mono fp_add_mono fp_add_nonneg fp_mul_nonneg simp: le_max_iff_disj)
qed

theorem overall_cost_mono_witness:
  "overall_cost \<lparr>overall_price = fp_ONE, read_factor = fp_ONE, compute_factor = fp_ONE,
      block_usage_factor = fp_ONE, write_factor = fp_ONE\<rparr> nc_ZERO
   \<le> overall_cost \<lparr>overall_price = fp_ONE, read_factor = fp_ONE, compute_factor = fp_ONE,
      block_usage_factor = fp_ONE, write_factor = fp_ONE\<rparr> (nc_ZERO \<lparr>nc_read_time := fp_ONE\<rparr>)"
  using overall_cost_mono [of "\<lparr>overall_price = fp_ONE, read_factor = fp_ONE, compute_factor = fp_ONE,
      block_usage_factor = fp_ONE, write_factor = fp_ONE\<rparr>" nc_ZERO "nc_ZERO \<lparr>nc_read_time := fp_ONE\<rparr>"]
  by (simp add: nc_dims_def nc_ZERO_def fp_ONE_eq)



end
