(* ===== verification/Merkle_Tree.thy ===== *)
theory Merkle_Tree
  imports Ledger_Prelude
begin

unbundle bit_operations_syntax

text \<open>
  The sparse Merkle tree of \<^verbatim>\<open>transient-crypto/src/merkle_tree.rs\<close>: nodes with cached hashes,
  leaf updates, rehashing, collapsing of ranges, membership paths, insertion evidence and
  collapsed updates.

  The hash functions (Poseidon and the embedding of a persistent hash into the scalar field,
  both from external crates) are the fields of the record \<^verbatim>\<open>hashing\<close>, an argument of every
  operation that hashes. Tree heights are \<^typ>\<open>nat\<close>; the shifts \<^verbatim>\<open>1 << h\<close> of the source are powers
  of two and agree with them for the heights up to 63 that fit its 64-bit indices (the ledger
  uses 32).
\<close>

record ('h, 'f) hashing =
  transient_hash :: "'f list \<Rightarrow> 'f"
  degrade_to_transient :: "'h \<Rightarrow> 'f"
  fr_default :: 'f

section \<open>Nodes\<close>

datatype ('h, 'f, 'a) mt_node =
    Leaf (leaf_hash: 'h) (leaf_aux: 'a)
  | Collapsed 'f nat
  | Stub nat
  | Node "'f option" "('h, 'f, 'a) mt_node" "('h, 'f, 'a) mt_node" nat

datatype invalid_update =
    CollapsedIndex nat nat
  | StubUpdate nat nat
  | EndBeforeStart nat nat
  | EndOutOfTree nat
  | IndexOutOfTree nat
  | WrongNumberOfSegments nat nat
  | NotFullyRehashed
  | BadUpdatePath

datatype invalid_index = InvalidIndex nat

fun mt_height :: "('h, 'f, 'a) mt_node \<Rightarrow> nat" where
  "mt_height (Leaf _ _) = 0"
| "mt_height (Stub h) = h"
| "mt_height (Collapsed _ h) = h"
| "mt_height (Node _ _ _ h) = h"

fun mt_root :: "('h, 'f) hashing \<Rightarrow> ('h, 'f, 'a) mt_node \<Rightarrow> 'f option" where
  "mt_root H (Leaf hash _) = Some (degrade_to_transient H hash)"
| "mt_root H (Stub _) = Some (fr_default H)"
| "mt_root H (Collapsed hash _) = Some hash"
| "mt_root H (Node hash _ _ _) = hash"

fun mt_is_collapsed :: "('h, 'f, 'a) mt_node \<Rightarrow> bool" where
  "mt_is_collapsed (Collapsed _ _) = True"
| "mt_is_collapsed _ = False"

text \<open>The invariant checked when a node is loaded, over all nodes of the tree.\<close>

fun mt_invariant :: "('h, 'f) hashing \<Rightarrow> ('h, 'f, 'a) mt_node \<Rightarrow> bool" where
  "mt_invariant H (Node hash left right height) \<longleftrightarrow>
     height \<noteq> 0 \<and> height - 1 = mt_height left \<and> height - 1 = mt_height right \<and>
     (hash \<noteq> None \<longrightarrow> mt_root H left \<noteq> None \<and> mt_root H right \<noteq> None) \<and>
     mt_invariant H left \<and> mt_invariant H right"
| "mt_invariant H _ \<longleftrightarrow> True"

definition mt_blank :: "nat \<Rightarrow> ('h, 'f, 'a) mt_node" where
  "mt_blank h = Stub h"

fun mt_index :: "('h, 'f, 'a) mt_node \<Rightarrow> nat \<Rightarrow> ('h \<times> 'a) option" where
  "mt_index (Leaf hash aux) index = Some (hash, aux)"
| "mt_index (Stub _) index = None"
| "mt_index (Collapsed _ _) index = None"
| "mt_index (Node _ left right height) index =
     (let cmp = 2 ^ (height - 1) in
      if index < cmp then mt_index left index else mt_index right (index - cmp))"

section \<open>Updating, rehashing and collapsing\<close>

text \<open>The levels an operation can still descend into: a stub expands lazily.\<close>

fun mt_depth :: "('h, 'f, 'a) mt_node \<Rightarrow> nat" where
  "mt_depth (Leaf _ _) = 0"
| "mt_depth (Collapsed _ _) = 0"
| "mt_depth (Stub h) = h"
| "mt_depth (Node _ l r _) = Suc (max (mt_depth l) (mt_depth r))"

function try_update_hash ::
  "('h, 'f, 'a) mt_node \<Rightarrow> nat \<Rightarrow> 'h \<Rightarrow> 'a \<Rightarrow> (invalid_update, ('h, 'f, 'a) mt_node) result" where
  "try_update_hash (Leaf _ _) index new_leaf new_aux =
     (if index \<ge> 2 ^ 0 then Err (IndexOutOfTree index) else Ok (Leaf new_leaf new_aux))"
| "try_update_hash (Collapsed _ h) index new_leaf new_aux =
     (if index \<ge> 2 ^ h then Err (IndexOutOfTree index) else Err (CollapsedIndex index h))"
| "try_update_hash (Stub h) index new_leaf new_aux =
     (if index \<ge> 2 ^ h then Err (IndexOutOfTree index)
      else if h = 0 then Ok (Leaf new_leaf new_aux)
      else let cmp = 2 ^ (h - 1) in
        if index < cmp
        then map_ok (\<lambda>l. Node None l (Stub (h - 1)) h)
               (try_update_hash (Stub (h - 1)) index new_leaf new_aux)
        else map_ok (\<lambda>r. Node None (Stub (h - 1)) r h)
               (try_update_hash (Stub (h - 1)) (index - cmp) new_leaf new_aux))"
| "try_update_hash (Node hash left right h) index new_leaf new_aux =
     (if index \<ge> 2 ^ h then Err (IndexOutOfTree index)
      else if h = 0 then Ok (Leaf new_leaf new_aux)
      else let cmp = 2 ^ (h - 1) in
        if index < cmp
        then map_ok (\<lambda>l. Node None l right h) (try_update_hash left index new_leaf new_aux)
        else map_ok (\<lambda>r. Node None left r h) (try_update_hash right (index - cmp) new_leaf new_aux))"
  by pat_completeness auto
termination by (relation "measure (\<lambda>(t, _). mt_depth t)") auto

declare try_update_hash.simps(3) [simp del]

fun mt_rehash :: "('h, 'f) hashing \<Rightarrow> ('h, 'f, 'a) mt_node \<Rightarrow> ('h, 'f, 'a) mt_node" where
  "mt_rehash H (Node None left right height) =
     (let left' = mt_rehash H left; right' = mt_rehash H right in
      Node (Some (transient_hash H [the (mt_root H left'), the (mt_root H right')]))
        left' right' height)"
| "mt_rehash H t = t"

text \<open>A range within the tree never reaches a stub of height zero with a range other than
  \<open>0 .. 0\<close>, where the source would underflow; the definition keeps the stub there.\<close>

function mt_collapse ::
  "('h, 'f) hashing \<Rightarrow> ('h, 'f, 'a) mt_node \<Rightarrow> nat \<Rightarrow> nat \<Rightarrow> ('h, 'f, 'a) mt_node" where
  "mt_collapse H (Leaf hash aux) start fin = Collapsed (degrade_to_transient H hash) 0"
| "mt_collapse H (Collapsed hash h) start fin = Collapsed hash h"
| "mt_collapse H (Stub h) start fin =
     (if start = 0 \<and> fin = 2 ^ h - 1 then Collapsed (fr_default H) h
      else if h = 0 then Stub h
      else
        let cmp = 2 ^ (h - 1);
            left = (if start < cmp then mt_collapse H (Stub (h - 1)) start (min fin (cmp - 1))
                    else Stub (h - 1));
            right = (if fin \<ge> cmp then mt_collapse H (Stub (h - 1)) (start - cmp) (fin - cmp)
                     else Stub (h - 1))
        in if mt_is_collapsed left \<and> mt_is_collapsed right then Collapsed (fr_default H) h
           else Node (Some (fr_default H)) left right h)"
| "mt_collapse H (Node hash l r h) start fin =
     (if start = 0 \<and> fin = 2 ^ h - 1
      then Collapsed (the (mt_root H (mt_rehash H (Node hash l r h)))) h
      else
        let cmp = 2 ^ (h - 1);
            left = (if start < cmp then mt_collapse H l start (min fin (cmp - 1)) else l);
            right = (if fin \<ge> cmp then mt_collapse H r (start - cmp) (fin - cmp) else r)
        in if mt_is_collapsed left \<and> mt_is_collapsed right
           then Collapsed (the (mt_root H (mt_rehash H (Node hash l r h)))) h
           else Node hash left right h)"
  by pat_completeness auto
termination by (relation "measure (\<lambda>(_, t, _). mt_depth t)") auto

declare mt_collapse.simps(3) [simp del]

section \<open>Membership paths and insertion evidence\<close>

text \<open>The loop of \<^verbatim>\<open>path_for_index_internal\<close>: the hashes along the path (of the siblings, or of
  the visited nodes) and the directions, from the root down. Its \<^verbatim>\<open>unreachable!\<close> arms are
  \<^const>\<open>Panic\<close>.\<close>

fun path_for_index_loop ::
  "('h, 'f) hashing \<Rightarrow> nat \<Rightarrow> bool \<Rightarrow> ('h, 'f, 'a) mt_node \<Rightarrow> nat \<Rightarrow>
   (invalid_index, ('f option \<times> bool) list) result" where
  "path_for_index_loop H index siblings (Node hash left right height) i =
     (if height > 1 then
        (let cmp = 2 ^ (height - 1) in
         if i < cmp
         then map_ok (Cons (if siblings then mt_root H right else hash, True))
                (path_for_index_loop H index siblings left i)
         else map_ok (Cons (if siblings then mt_root H left else hash, False))
                (path_for_index_loop H index siblings right (i - cmp)))
      else if \<not> siblings then Ok [(hash, i = 0)]
      else if i = 0 then Ok [(mt_root H right, True)]
      else if i = 1 then Ok [(mt_root H left, False)]
      else Panic)"
| "path_for_index_loop H index siblings (Stub height) i = Err (InvalidIndex index)"
| "path_for_index_loop H index siblings (Collapsed hash height) i =
     (if height > 1 then Err (InvalidIndex index)
      else if \<not> siblings then Ok [(Some hash, i = 0)]
      else Panic)"
| "path_for_index_loop H index siblings (Leaf hash aux) i =
     (if \<not> siblings then Ok [(Some (degrade_to_transient H hash), i = 0)] else Panic)"

definition path_for_index_internal ::
  "('h, 'f) hashing \<Rightarrow> ('h, 'f, 'a) mt_node \<Rightarrow> nat \<Rightarrow> bool \<Rightarrow>
   (invalid_index, ('f option \<times> bool) list) result" where
  "path_for_index_internal H t index siblings =
     (if mt_height t \<ge> 1 then path_for_index_loop H index siblings t index else Panic)"

text \<open>A Merkle path: the leaf and the siblings with their directions, from the leaf up.\<close>

record ('l, 'f) merkle_path =
  mp_leaf :: 'l
  mp_path :: "('f \<times> bool) list"

definition path_for_leaf ::
  "('h, 'f) hashing \<Rightarrow> ('h, 'f, 'a) mt_node \<Rightarrow> nat \<Rightarrow> 'l \<Rightarrow>
   (invalid_index, ('l, 'f) merkle_path) result" where
  "path_for_leaf H t index leaf =
     (if mt_height t = 0 then
        (if index = 0 then Ok \<lparr>mp_leaf = leaf, mp_path = []\<rparr> else Err (InvalidIndex index))
      else and_then (path_for_index_internal H t index True)
        (\<lambda>path. if list_all (\<lambda>(sibling, _). sibling \<noteq> None) path
           then Ok \<lparr>mp_leaf = leaf, mp_path = rev (map (\<lambda>(s, g). (the s, g)) path)\<rparr>
           else Err (InvalidIndex index)))"

definition merkle_path_root ::
  "('h, 'f) hashing \<Rightarrow> ('l \<Rightarrow> 'h) \<Rightarrow> ('l, 'f) merkle_path \<Rightarrow> 'f" where
  "merkle_path_root H lh p =
     foldl (\<lambda>acc (sibling, goes_left).
        if goes_left then transient_hash H [acc, sibling] else transient_hash H [sibling, acc])
       (degrade_to_transient H (lh (mp_leaf p))) (mp_path p)"

record ('h, 'f, 'a) tree_insertion_path =
  tip_leaf :: "'h \<times> 'a"
  tip_path :: "('f option \<times> bool) list"

definition insertion_evidence ::
  "('h, 'f) hashing \<Rightarrow> ('h, 'f, 'a) mt_node \<Rightarrow> nat \<Rightarrow>
   (invalid_index, ('h, 'f, 'a) tree_insertion_path) result" where
  "insertion_evidence H t index =
     (if mt_height t = 0 then Err (InvalidIndex index)
      else and_then (path_for_index_internal H t index False)
        (\<lambda>path. and_then (ok_or (mt_index t index) (InvalidIndex index))
          (\<lambda>leaf. Ok \<lparr>tip_leaf = leaf, tip_path = rev path\<rparr>)))"

text \<open>The source keeps the path from the leaf up and takes its last entry at every level; here
  the reversed path is consumed from its head.\<close>

fun update_from_evidence_internal ::
  "('h, 'f) hashing \<Rightarrow> 'h \<times> 'a \<Rightarrow> ('f option \<times> bool) list \<Rightarrow> ('h, 'f, 'a) mt_node \<Rightarrow>
   (invalid_update, ('h, 'f, 'a) mt_node) result" where
  "update_from_evidence_internal H leaf [] (Collapsed _ h) =
     Ok (Collapsed (degrade_to_transient H (fst leaf)) h)"
| "update_from_evidence_internal H leaf ((hash, goes_left) # path) (Collapsed _ h) =
     map_ok (\<lambda>f. Collapsed f h) (ok_or hash BadUpdatePath)"
| "update_from_evidence_internal H leaf [] t = Ok (Leaf (fst leaf) (snd leaf))"
| "update_from_evidence_internal H leaf ((hash, goes_left) # path) (Node _ left right h) =
     (if goes_left
      then map_ok (\<lambda>l. Node None l right h) (update_from_evidence_internal H leaf path left)
      else map_ok (\<lambda>r. Node None left r h) (update_from_evidence_internal H leaf path right))"
| "update_from_evidence_internal H leaf ((hash, goes_left) # path) t = Err BadUpdatePath"

definition update_from_evidence ::
  "('h, 'f) hashing \<Rightarrow> ('h, 'f, 'a) mt_node \<Rightarrow> ('h, 'f, 'a) tree_insertion_path \<Rightarrow>
   (invalid_update, ('h, 'f, 'a) mt_node) result" where
  "update_from_evidence H t ins =
     update_from_evidence_internal H (tip_leaf ins) (rev (tip_path ins)) t"

section \<open>Collapsed updates\<close>

fun ilog2 :: "nat \<Rightarrow> nat" where
  "ilog2 n = (if n < 2 then 0 else Suc (ilog2 (n div 2)))"

declare ilog2.simps [simp del]

text \<open>Stage 1 of \<^verbatim>\<open>step_sizes\<close>: add increasing powers of two to \<open>a\<close> while it has low bits set.\<close>

definition step_up :: "nat \<Rightarrow> nat \<times> nat list \<Rightarrow> nat \<times> nat list" where
  "step_up bt = (\<lambda>(a, res). if a AND 2 ^ bt \<noteq> 0 then (a + 2 ^ bt, res @ [bt]) else (a, res))"

definition step_sizes :: "nat \<Rightarrow> nat \<Rightarrow> nat list" where
  "step_sizes a b =
     (let msb_diff = ilog2 (b XOR a);
          (a', res) = fold step_up [0..<msb_diff] (a, []);
          res' = (if a' AND 2 ^ msb_diff = 0 then res @ [msb_diff] else res)
      in res' @ filter (\<lambda>bt. b AND 2 ^ bt \<noteq> 0) (rev [0..<msb_diff]))"

record 'f collapsed_update =
  cu_start :: nat
  cu_end :: nat
  cu_hashes :: "'f list"

text \<open>The descent to the subtree of the given height at an index: from height \<open>th\<close>, reading the
  bits of the index from the top.\<close>

fun partial_index_loop ::
  "nat \<Rightarrow> nat \<Rightarrow> nat \<Rightarrow> nat \<Rightarrow> ('h, 'f, 'a) mt_node \<Rightarrow> (invalid_update, ('h, 'f, 'a) mt_node) result" where
  "partial_index_loop idx height th 0 cur = Ok cur"
| "partial_index_loop idx height th (Suc n) cur =
     (let go_left = (idx AND 2 ^ (th - 1) = 0) in
      case cur of
        Leaf _ _ \<Rightarrow> Panic
      | Node _ left right _ \<Rightarrow> partial_index_loop idx height (th - 1) n (if go_left then left else right)
      | Collapsed _ _ \<Rightarrow> Err (CollapsedIndex idx height)
      | Stub _ \<Rightarrow> Err (StubUpdate idx height))"

definition partial_index ::
  "('h, 'f) hashing \<Rightarrow> ('h, 'f, 'a) mt_node \<Rightarrow> nat \<Rightarrow> nat \<Rightarrow> (invalid_update, 'f) result" where
  "partial_index H tree idx height =
     and_then (partial_index_loop idx height (mt_height tree) (mt_height tree - height) tree)
       (\<lambda>cur. ok_or (mt_root H cur) NotFullyRehashed)"

fun collect_hashes ::
  "('h, 'f) hashing \<Rightarrow> ('h, 'f, 'a) mt_node \<Rightarrow> nat \<Rightarrow> nat list \<Rightarrow> (invalid_update, 'f list) result" where
  "collect_hashes H tree cur [] = Ok []"
| "collect_hashes H tree cur (step # steps) =
     and_then (partial_index H tree cur step)
       (\<lambda>h. map_ok (Cons h) (collect_hashes H tree (cur + 2 ^ step) steps))"

definition collapsed_update_new ::
  "('h, 'f) hashing \<Rightarrow> ('h, 'f, 'a) mt_node \<Rightarrow> nat \<Rightarrow> nat \<Rightarrow> (invalid_update, 'f collapsed_update) result" where
  "collapsed_update_new H tree start fin =
     (if fin < start then Err (EndBeforeStart start fin)
      else if fin \<ge> 2 ^ mt_height tree then Err (EndOutOfTree fin)
      else map_ok (\<lambda>hs. \<lparr>cu_start = start, cu_end = fin, cu_hashes = hs\<rparr>)
             (collect_hashes H tree start (step_sizes start (fin + 1))))"

text \<open>\<^verbatim>\<open>partial_insert\<close> descends collecting the siblings on a stack and rebuilds the path from the
  inserted node up; \<open>th\<close> is the height of the node reached.\<close>

fun partial_insert_down ::
  "nat \<Rightarrow> nat \<Rightarrow> nat \<Rightarrow> nat \<Rightarrow> ('h, 'f, 'a) mt_node \<Rightarrow>
   (invalid_update, (('h, 'f, 'a) mt_node \<times> bool) list) result" where
  "partial_insert_down idx height th 0 cur = Ok []"
| "partial_insert_down idx height th (Suc n) cur =
     (let go_left = (idx AND 2 ^ (th - 1) = 0) in
      case cur of
        Leaf _ _ \<Rightarrow> Panic
      | Node _ left right _ \<Rightarrow>
          map_ok (Cons (if go_left then right else left, go_left))
            (partial_insert_down idx height (th - 1) n (if go_left then left else right))
      | Stub h \<Rightarrow>
          map_ok (Cons (Stub (h - 1), go_left))
            (partial_insert_down idx height (th - 1) n (Stub (h - 1)))
      | Collapsed _ _ \<Rightarrow> Err (CollapsedIndex idx height))"

definition partial_insert_up ::
  "nat \<Rightarrow> 'f \<Rightarrow> (('h, 'f, 'a) mt_node \<times> bool) list \<Rightarrow> ('h, 'f, 'a) mt_node" where
  "partial_insert_up height digest stack =
     foldl (\<lambda>acc (i, sibling, goes_left).
        if goes_left then Node None acc sibling (height + 1 + i)
        else Node None sibling acc (height + 1 + i))
       (Collapsed digest height) (List.enumerate 0 (rev stack))"

definition partial_insert ::
  "('h, 'f, 'a) mt_node \<Rightarrow> nat \<Rightarrow> nat \<Rightarrow> 'f \<Rightarrow> (invalid_update, ('h, 'f, 'a) mt_node) result" where
  "partial_insert t idx height digest =
     map_ok (partial_insert_up height digest)
       (partial_insert_down idx height (mt_height t) (mt_height t - height) t)"

fun apply_segments ::
  "('h, 'f, 'a) mt_node \<Rightarrow> nat \<Rightarrow> (nat \<times> 'f) list \<Rightarrow> (invalid_update, ('h, 'f, 'a) mt_node) result" where
  "apply_segments cur curr_idx [] = Ok cur"
| "apply_segments cur curr_idx ((segment, hash) # rest) =
     and_then (partial_insert cur curr_idx segment hash)
       (\<lambda>cur'. apply_segments cur' (curr_idx + 2 ^ segment) rest)"

definition apply_collapsed_update ::
  "('h, 'f, 'a) mt_node \<Rightarrow> 'f collapsed_update \<Rightarrow> (invalid_update, ('h, 'f, 'a) mt_node) result" where
  "apply_collapsed_update t update =
     (let segments = step_sizes (cu_start update) (cu_end update + 1) in
      if length segments \<noteq> length (cu_hashes update)
      then Err (WrongNumberOfSegments (length segments) (length (cu_hashes update)))
      else apply_segments t (cu_start update) (zip segments (cu_hashes update)))"

lemma try_update_hash_Stub [simp]:
  "try_update_hash (Stub 0) i x a =
     (if i \<ge> 1 then Err (IndexOutOfTree i) else Ok (Leaf x a))"
  "try_update_hash (Stub (Suc k)) i x a =
     (if i \<ge> 2 ^ Suc k then Err (IndexOutOfTree i)
      else if i < 2 ^ k
      then map_ok (\<lambda>l. Node None l (Stub k) (Suc k)) (try_update_hash (Stub k) i x a)
      else map_ok (\<lambda>r. Node None (Stub k) r (Suc k)) (try_update_hash (Stub k) (i - 2 ^ k) x a))"
  by (subst try_update_hash.simps, simp)+

lemma mt_collapse_Stub [simp]:
  "mt_collapse H (Stub 0) s e = (if s = 0 \<and> e = 0 then Collapsed (fr_default H) 0 else Stub 0)"
  "mt_collapse H (Stub (Suc k)) s e =
     (if s = 0 \<and> e = 2 ^ Suc k - 1 then Collapsed (fr_default H) (Suc k)
      else
        let left = (if s < 2 ^ k then mt_collapse H (Stub k) s (min e (2 ^ k - 1)) else Stub k);
            right = (if e \<ge> 2 ^ k then mt_collapse H (Stub k) (s - 2 ^ k) (e - 2 ^ k) else Stub k)
        in if mt_is_collapsed left \<and> mt_is_collapsed right then Collapsed (fr_default H) (Suc k)
           else Node (Some (fr_default H)) left right (Suc k))"
  by (subst mt_collapse.simps, simp add: Let_def)+

section \<open>Heights\<close>

text \<open>The height part of the invariant: the children of a node are one level lower.\<close>

fun mt_balanced :: "('h, 'f, 'a) mt_node \<Rightarrow> bool" where
  "mt_balanced (Node _ l r h) \<longleftrightarrow>
     h = Suc (mt_height l) \<and> h = Suc (mt_height r) \<and> mt_balanced l \<and> mt_balanced r"
| "mt_balanced _ \<longleftrightarrow> True"

lemma invariant_balanced: "mt_invariant H t \<Longrightarrow> mt_balanced t"
  by (induction t) auto

lemma mt_rehash_height [simp]:
  "mt_height (mt_rehash H t) = mt_height t" "mt_balanced (mt_rehash H t) = mt_balanced t"
  by (induction H t rule: mt_rehash.induct) (auto simp: Let_def)

lemma mt_collapse_height:
  "mt_balanced t \<Longrightarrow> mt_balanced (mt_collapse H t s e) \<and> mt_height (mt_collapse H t s e) = mt_height t"
proof (induction H t s e rule: mt_collapse.induct)
  case (3 H h s e)
  then show ?case by (cases h) (auto simp: Let_def)
next
  case (4 H o l r h s e)
  show ?case
  proof (cases "s = 0 \<and> e = 2 ^ h - 1")
    case False
    then show ?thesis using "4.IH" "4.prems" by (auto simp: Let_def)
  qed auto
qed auto

section \<open>Lookup after update\<close>

fun mt_collapsed_at :: "('h, 'f, 'a) mt_node \<Rightarrow> nat \<Rightarrow> bool" where
  "mt_collapsed_at (Collapsed _ _) i = True"
| "mt_collapsed_at (Node _ l r h) i =
     (if i < 2 ^ (h - 1) then mt_collapsed_at l i else mt_collapsed_at r (i - 2 ^ (h - 1)))"
| "mt_collapsed_at _ i = False"

declare mt_index.simps(4) [simp del]

lemma mt_index_Node [simp]:
  "mt_index (Node f l r h) i =
     (if i < 2 ^ (h - 1) then mt_index l i else mt_index r (i - 2 ^ (h - 1)))"
  by (simp add: mt_index.simps(4))

text \<open>The effect of an update that succeeds, as a total function.\<close>

function mt_set :: "('h, 'f, 'a) mt_node \<Rightarrow> nat \<Rightarrow> 'h \<Rightarrow> 'a \<Rightarrow> ('h, 'f, 'a) mt_node" where
  "mt_set (Leaf _ _) i x a = Leaf x a"
| "mt_set (Collapsed f h) i x a = Collapsed f h"
| "mt_set (Stub 0) i x a = Leaf x a"
| "mt_set (Stub (Suc k)) i x a =
     (if i < 2 ^ k then Node None (mt_set (Stub k) i x a) (Stub k) (Suc k)
      else Node None (Stub k) (mt_set (Stub k) (i - 2 ^ k) x a) (Suc k))"
| "mt_set (Node f l r h) i x a =
     (if i < 2 ^ (h - 1) then Node None (mt_set l i x a) r h
      else Node None l (mt_set r (i - 2 ^ (h - 1)) x a) h)"
  by pat_completeness auto
termination by (relation "measure (\<lambda>(t, _). mt_depth t)") auto

lemma try_update_hash_Ok:
  "mt_balanced t \<Longrightarrow> i < 2 ^ mt_height t \<Longrightarrow> \<not> mt_collapsed_at t i \<Longrightarrow>
   try_update_hash t i x a = Ok (mt_set t i x a)"
  by (induction t i x a rule: mt_set.induct) (auto simp: Let_def)

lemma try_update_hash_collapsed:
  "mt_balanced t \<Longrightarrow> i < 2 ^ mt_height t \<Longrightarrow> mt_collapsed_at t i \<Longrightarrow>
   \<exists>j h. try_update_hash t i x a = Err (CollapsedIndex j h)"
proof (induction t i x a rule: mt_set.induct)
  case (5 f l r h i x a)
  show ?case
  proof (cases "i < 2 ^ (h - 1)")
    case False
    then have "i - 2 ^ (h - 1) < 2 ^ mt_height r" using "5.prems" by auto
    with False "5.IH"(2) "5.prems" show ?thesis by (auto simp: Let_def)
  qed (use 5 in \<open>auto simp: Let_def\<close>)
qed auto

lemma try_update_hash_out_of_tree:
  "2 ^ mt_height t \<le> i \<Longrightarrow> try_update_hash t i x a = Err (IndexOutOfTree i)"
proof (cases t)
  case (Stub h)
  then show "2 ^ mt_height t \<le> i \<Longrightarrow> ?thesis" by (cases h) auto
qed auto

lemma try_update_hash_iff:
  assumes "mt_balanced t"
  shows "try_update_hash t i x a = Ok t' \<longleftrightarrow>
    i < 2 ^ mt_height t \<and> \<not> mt_collapsed_at t i \<and> t' = mt_set t i x a"
proof (cases "i < 2 ^ mt_height t")
  case True
  then show ?thesis
    using try_update_hash_Ok [OF assms True, of x a] try_update_hash_collapsed [OF assms True, of x a]
    by (cases "mt_collapsed_at t i") auto
qed (simp add: try_update_hash_out_of_tree)

lemma mt_set_height [simp]: "mt_height (mt_set t i x a) = mt_height t"
  by (induction t i x a rule: mt_set.induct) auto

lemma mt_set_balanced [simp]: "mt_balanced t \<Longrightarrow> mt_balanced (mt_set t i x a)"
  by (induction t i x a rule: mt_set.induct) auto

lemma mt_index_set_same:
  "\<not> mt_collapsed_at t i \<Longrightarrow> mt_index (mt_set t i x a) i = Some (x, a)"
  by (induction t i x a rule: mt_set.induct) auto

lemma mt_index_set_other:
  "mt_balanced t \<Longrightarrow> i < 2 ^ mt_height t \<Longrightarrow> j < 2 ^ mt_height t \<Longrightarrow> j \<noteq> i \<Longrightarrow>
   mt_index (mt_set t i x a) j = mt_index t j"
  by (induction t i x a arbitrary: j rule: mt_set.induct) auto

lemma mt_collapsed_at_set:
  "mt_balanced t \<Longrightarrow> i < 2 ^ mt_height t \<Longrightarrow> j < 2 ^ mt_height t \<Longrightarrow>
   mt_collapsed_at (mt_set t i x a) j = mt_collapsed_at t j"
  by (induction t i x a arbitrary: j rule: mt_set.induct) auto

lemma mt_index_rehash [simp]: "mt_index (mt_rehash H t) i = mt_index t i"
  by (induction H t arbitrary: i rule: mt_rehash.induct) (auto simp: Let_def)

lemma mt_collapsed_at_rehash [simp]: "mt_collapsed_at (mt_rehash H t) i = mt_collapsed_at t i"
  by (induction H t arbitrary: i rule: mt_rehash.induct) (auto simp: Let_def)

section \<open>The digest of a tree\<close>

text \<open>The digest a tree has once it is rehashed; cached hashes are taken as they are.\<close>

fun mt_digest :: "('h, 'f) hashing \<Rightarrow> ('h, 'f, 'a) mt_node \<Rightarrow> 'f" where
  "mt_digest H (Leaf h _) = degrade_to_transient H h"
| "mt_digest H (Stub _) = fr_default H"
| "mt_digest H (Collapsed f _) = f"
| "mt_digest H (Node (Some f) _ _ _) = f"
| "mt_digest H (Node None l r _) = transient_hash H [mt_digest H l, mt_digest H r]"

lemma mt_digest_Node:
  "mt_digest H (Node f l r h) =
     (case f of Some g \<Rightarrow> g | None \<Rightarrow> transient_hash H [mt_digest H l, mt_digest H r])"
  by (cases f) auto

lemma mt_root_digest: "mt_root H t = Some f \<Longrightarrow> mt_digest H t = f"
  by (cases t) auto

lemma mt_root_rehash [simp]: "mt_root H (mt_rehash H t) = Some (mt_digest H t)"
  by (induction H t rule: mt_rehash.induct) (auto simp: Let_def)

lemma mt_digest_rehash [simp]: "mt_digest H (mt_rehash H t) = mt_digest H t"
  by (rule mt_root_digest) simp

lemma mt_rehash_rehash [simp]: "mt_rehash H (mt_rehash H t) = mt_rehash H t"
  by (induction H t rule: mt_rehash.induct) (auto simp: Let_def)

section \<open>Blinding\<close>

text \<open>\<open>blinds H s t\<close>: the tree \<open>s\<close> is \<open>t\<close> with some subtrees replaced by their digests; the
  auxiliary data at the leaves may differ. A stub can be blinded node by node.\<close>

inductive blinds :: "('h, 'f) hashing \<Rightarrow> ('h, 'f, 'a) mt_node \<Rightarrow> ('h, 'f, 'b) mt_node \<Rightarrow> bool"
  for H where
  leaf: "blinds H (Leaf x a) (Leaf x b)"
| stub: "blinds H (Stub h) (Stub h)"
| collapsed: "mt_height t = h \<Longrightarrow> mt_digest H t = f \<Longrightarrow> blinds H (Collapsed f h) t"
| node: "blinds H l l' \<Longrightarrow> blinds H r r' \<Longrightarrow>
    mt_digest H (Node f l r h) = mt_digest H (Node g l' r' h) \<Longrightarrow>
    blinds H (Node f l r h) (Node g l' r' h)"
| stub_node: "blinds H l (Stub k) \<Longrightarrow> blinds H r (Stub k) \<Longrightarrow> h = Suc k \<Longrightarrow>
    mt_digest H (Node f l r h) = fr_default H \<Longrightarrow> blinds H (Node f l r h) (Stub h)"

inductive_cases blinds_Leaf [elim!]: "blinds H (Leaf x a) t"
inductive_cases blinds_Stub [elim!]: "blinds H (Stub h) t"
inductive_cases blinds_Collapsed [elim!]: "blinds H (Collapsed f h) t"
inductive_cases blinds_Node: "blinds H (Node f l r h) t"

declare blinds.leaf [simp] blinds.stub [simp]

lemma blinds_refl [simp]: "blinds H t t"
  by (induction t) (auto intro: blinds.intros)

lemma blinds_digest: "blinds H s t \<Longrightarrow> mt_digest H s = mt_digest H t"
  by (induction rule: blinds.induct) auto

lemma blinds_fresh_node:
  "blinds H l l' \<Longrightarrow> blinds H r r' \<Longrightarrow> blinds H (Node None l r h) (Node None l' r' h)"
  by (rule blinds.node) (auto simp: blinds_digest)

lemma blinds_height: "blinds H s t \<Longrightarrow> mt_height s = mt_height t"
  by (induction rule: blinds.induct) auto

lemma blinds_index:
  "blinds H s t \<Longrightarrow> mt_index s i = Some (x, a) \<Longrightarrow> \<exists>b. mt_index t i = Some (x, b)"
  by (induction arbitrary: i rule: blinds.induct) (auto split: if_splits)

lemma blinds_rehash_left: "blinds H s t \<Longrightarrow> blinds H (mt_rehash H s) t"
proof (induction rule: blinds.induct)
  case (node l l' r r' f h g)
  then show ?case by (cases f) (auto simp: Let_def intro!: blinds.intros)
next
  case (stub_node l k r h f)
  then show ?case by (cases f) (auto simp: Let_def intro!: blinds.intros)
qed (auto intro: blinds.intros)

lemma blinds_rehash_right: "blinds H s t \<Longrightarrow> blinds H s (mt_rehash H t)"
proof (induction rule: blinds.induct)
  case (node l l' r r' f h g)
  then show ?case by (cases g) (auto simp: Let_def intro!: blinds.intros)
qed (auto intro: blinds.intros)

lemma blinds_rehash: "blinds H s t \<Longrightarrow> blinds H (mt_rehash H s) (mt_rehash H t)"
  by (intro blinds_rehash_left blinds_rehash_right)

lemma blinds_set:
  "blinds H s t \<Longrightarrow> mt_balanced s \<Longrightarrow> \<not> mt_collapsed_at s i \<Longrightarrow>
   blinds H (mt_set s i x a) (mt_set t i x b)"
proof (induction arbitrary: i rule: blinds.induct)
  case (leaf y c d)
  show ?case by (simp add: blinds.leaf)
next
  case (stub h)
  show ?case
  proof (induction h arbitrary: i)
    case 0
    show ?case by (simp add: blinds.leaf)
  next
    case (Suc h)
    then show ?case by (auto intro!: blinds_fresh_node)
  qed
next
  case (node l l' r r' f h g)
  then show ?case by (auto intro!: blinds_fresh_node)
next
  case (stub_node l k r h f)
  then show ?case by (auto intro!: blinds_fresh_node)
qed auto

lemma blinds_update:
  assumes "blinds H s t" "mt_balanced s" "mt_balanced t" "try_update_hash s i x a = Ok s'"
    and "\<not> mt_collapsed_at t i"
  shows "\<exists>t'. try_update_hash t i x b = Ok t' \<and> blinds H s' t'"
  using assms blinds_set [OF assms(1,2), of i x a b] blinds_height [OF assms(1)]
  by (auto simp: try_update_hash_iff)

lemma mt_collapse_collapsed:
  "mt_is_collapsed s \<Longrightarrow> blinds H s t \<Longrightarrow> s = Collapsed (mt_digest H t) (mt_height t)"
  by (cases s) auto

lemma blinds_collapse_stub: "blinds H (mt_collapse H (Stub h) i j) (Stub h)"
  by (induction h arbitrary: i j) (auto simp: Let_def intro!: blinds.collapsed blinds.stub_node)

lemma blinds_collapse:
  fixes s :: "('h, 'f, 'a) mt_node" and t :: "('h, 'f, 'b) mt_node"
  shows "blinds H s t \<Longrightarrow> blinds H (mt_collapse H s i j) t"
proof (induction H s i j arbitrary: t rule: mt_collapse.induct)
  case (1 H x a i j)
  then show ?case by (auto intro: blinds.collapsed)
next
  case (2 H f h i j)
  then show ?case by simp
next
  case (3 H h i j)
  then show ?case by (auto intro: blinds_collapse_stub)
next
  case (4 H f l r h i j)
  define l1 where "l1 = (if i < 2 ^ (h - 1) then mt_collapse H l i (min j (2 ^ (h - 1) - 1)) else l)"
  define r1 where
    "r1 = (if 2 ^ (h - 1) \<le> j then mt_collapse H r (i - 2 ^ (h - 1)) (j - 2 ^ (h - 1)) else r)"
  have whole: "blinds H (Collapsed (mt_digest H (Node f l r h)) h) t"
    using blinds_height [OF "4.prems"] blinds_digest [OF "4.prems"] by (auto intro: blinds.collapsed)
  have step: "blinds H (Node f l1 r1 h) t" if "\<not> (i = 0 \<and> j = 2 ^ h - 1)"
  proof -
    have l: "blinds H l1 u" if "blinds H l u" for u :: "('h, 'f, 'b) mt_node"
      using that "4.IH"(1) [OF \<open>\<not> (i = 0 \<and> j = 2 ^ h - 1)\<close> refl _ that] by (simp add: l1_def)
    have r: "blinds H r1 u" if "blinds H r u" for u :: "('h, 'f, 'b) mt_node"
      using that "4.IH"(2) [OF \<open>\<not> (i = 0 \<and> j = 2 ^ h - 1)\<close> refl refl _ that] by (simp add: r1_def)
    obtain u v :: "('h, 'f, 'b) mt_node" where uv: "blinds H l u" "blinds H r v"
      using "4.prems" by (cases rule: blinds_Node) blast+
    have digest: "mt_digest H (Node f l1 r1 h) = mt_digest H (Node f l r h)"
      using blinds_digest [OF l [OF uv(1)]] blinds_digest [OF r [OF uv(2)]]
        blinds_digest [OF uv(1)] blinds_digest [OF uv(2)]
      by (cases f) simp_all
    from "4.prems" show ?thesis
      by (cases rule: blinds_Node) (use digest in \<open>auto intro!: blinds.node blinds.stub_node l r\<close>)
  qed
  have eq: "mt_collapse H (Node f l r h) i j =
      (if i = 0 \<and> j = 2 ^ h - 1 \<or> mt_is_collapsed l1 \<and> mt_is_collapsed r1
       then Collapsed (mt_digest H (Node f l r h)) h else Node f l1 r1 h)"
    unfolding mt_collapse.simps Let_def l1_def [symmetric] r1_def [symmetric]
    by (simp del: mt_rehash.simps)
  show ?case unfolding eq using whole step by auto
qed

section \<open>Hash consistency and membership paths\<close>

fun mt_leafless :: "('h, 'f, 'a) mt_node \<Rightarrow> bool" where
  "mt_leafless (Leaf _ _) \<longleftrightarrow> False"
| "mt_leafless (Node _ l r _) \<longleftrightarrow> mt_leafless l \<and> mt_leafless r"
| "mt_leafless _ \<longleftrightarrow> True"

text \<open>A cached hash is the hash of the digests of the children, which are cached too, except
  where a collapsed stub without any leaf keeps the digest of the stub.\<close>

fun mt_consistent :: "('h, 'f) hashing \<Rightarrow> ('h, 'f, 'a) mt_node \<Rightarrow> bool" where
  "mt_consistent H (Node f l r h) \<longleftrightarrow>
     (f \<noteq> None \<longrightarrow> mt_root H l \<noteq> None \<and> mt_root H r \<noteq> None \<and>
        (f = Some (transient_hash H [mt_digest H l, mt_digest H r]) \<or> mt_leafless l \<and> mt_leafless r)) \<and>
     mt_consistent H l \<and> mt_consistent H r"
| "mt_consistent H _ \<longleftrightarrow> True"

definition mt_ok :: "('h, 'f) hashing \<Rightarrow> ('h, 'f, 'a) mt_node \<Rightarrow> bool" where
  "mt_ok H t \<longleftrightarrow> mt_balanced t \<and> mt_consistent H t"

lemma mt_ok_blank [simp]: "mt_ok H (mt_blank h)"
  by (simp add: mt_ok_def mt_blank_def)

lemma mt_ok_invariant: "mt_ok H t \<Longrightarrow> mt_invariant H t"
  by (induction t) (auto simp: mt_ok_def)

lemma mt_consistent_set: "mt_consistent H t \<Longrightarrow> mt_consistent H (mt_set t i x a)"
  by (induction t i x a rule: mt_set.induct) auto

lemma mt_consistent_rehash: "mt_consistent H t \<Longrightarrow> mt_consistent H (mt_rehash H t)"
  by (induction H t rule: mt_rehash.induct) (auto simp: Let_def)

lemma mt_ok_update: "mt_ok H t \<Longrightarrow> try_update_hash t i x a = Ok t' \<Longrightarrow> mt_ok H t'"
  by (auto simp: mt_ok_def try_update_hash_iff mt_consistent_set)

lemma mt_ok_rehash: "mt_ok H t \<Longrightarrow> mt_ok H (mt_rehash H t)"
  by (simp add: mt_ok_def mt_consistent_rehash)

lemma mt_leafless_collapse: "mt_leafless t \<Longrightarrow> mt_leafless (mt_collapse H t i j)"
proof (induction H t i j rule: mt_collapse.induct)
  case (3 H h i j)
  then show ?case by (cases h) (auto simp: Let_def)
qed (auto simp: Let_def)

lemma mt_digest_collapse [simp]: "mt_digest H (mt_collapse H t i j) = mt_digest H t"
  using blinds_digest [OF blinds_collapse [OF blinds_refl]] by blast

lemma mt_root_collapse [simp]:
  assumes "mt_root H t = Some d"
  shows "mt_root H (mt_collapse H t i j) = Some d"
proof -
  have "mt_root H (mt_collapse H t i j) \<noteq> None"
  proof (cases t)
    case (Stub h)
    then show ?thesis by (cases h) (auto simp: Let_def)
  qed (use assms in \<open>auto simp: Let_def\<close>)
  then show ?thesis using mt_root_digest [OF assms] mt_root_digest [of H "mt_collapse H t i j"]
    by auto
qed

lemma mt_consistent_collapse: "mt_consistent H t \<Longrightarrow> mt_consistent H (mt_collapse H t i j)"
proof (induction H t i j rule: mt_collapse.induct)
  case (3 H h i j)
  then show ?case
  proof (cases h)
    case (Suc k)
    with 3 show ?thesis
      by (auto simp: Let_def mt_leafless_collapse)
  qed simp
next
  case (4 H f l r h i j)
  then show ?case
    by (auto simp: Let_def mt_leafless_collapse)
qed auto

lemma mt_ok_collapse: "mt_ok H t \<Longrightarrow> mt_ok H (mt_collapse H t i j)"
  by (simp add: mt_ok_def mt_consistent_collapse mt_collapse_height)

lemmas mt_ok_intros = mt_ok_blank mt_ok_update mt_ok_rehash mt_ok_collapse

lemma mt_index_leafless: "mt_leafless t \<Longrightarrow> mt_index t i = None"
  by (induction t arbitrary: i) auto

lemma mt_index_height_0:
  "mt_height t = 0 \<Longrightarrow> mt_balanced t \<Longrightarrow> mt_index t i = Some (x, a) \<Longrightarrow> t = Leaf x a"
  by (cases t) auto

text \<open>The digest obtained by folding the siblings of a path, root first, onto a leaf.\<close>

definition fold_path :: "('h, 'f) hashing \<Rightarrow> ('f option \<times> bool) list \<Rightarrow> 'f \<Rightarrow> 'f" where
  "fold_path H path acc = foldr (\<lambda>(s, left) acc.
     if left then transient_hash H [acc, the s] else transient_hash H [the s, acc]) path acc"

lemma path_for_index_loop_complete:
  assumes "mt_ok H t" "mt_root H t = Some d" "mt_index t i = Some (x, a)" "i < 2 ^ mt_height t"
    "1 \<le> mt_height t"
  shows "\<exists>path. path_for_index_loop H index True t i = Ok path \<and> (\<forall>(s, _) \<in> set path. s \<noteq> None) \<and>
    length path = mt_height t \<and> fold_path H path (degrade_to_transient H x) = d"
  using assms
proof (induction t arbitrary: i d)
  case (Node f l r h)
  note ok = Node.prems(1) [unfolded mt_ok_def]
  obtain dl dr where roots: "mt_root H l = Some dl" "mt_root H r = Some dr"
    using ok Node.prems(2) by auto
  have digests: "mt_digest H l = dl" "mt_digest H r = dr"
    using roots by (auto intro: mt_root_digest)
  have "\<not> (mt_leafless l \<and> mt_leafless r)"
    using Node.prems(3) mt_index_leafless [of "Node f l r h" i] by auto
  then have d: "d = transient_hash H [dl, dr]" using ok Node.prems(2) by (auto simp: digests)
  have h: "h = Suc (mt_height l)" "mt_height r = mt_height l" using ok by auto
  have sub: "mt_ok H l" "mt_ok H r" using ok by (auto simp: mt_ok_def)
  show ?case
  proof (cases "i < 2 ^ mt_height l")
    case left: True
    then have idx: "mt_index l i = Some (x, a)" using Node.prems(3) h by simp
    show ?thesis
    proof (cases "mt_height l")
      case 0
      with left idx have "i = 0" "degrade_to_transient H x = dl"
        using roots mt_index_height_0 [of l i x a] ok by auto
      then show ?thesis using 0 h roots d by (simp add: fold_path_def)
    next
      case (Suc k)
      with Node.IH(1) [OF sub(1) roots(1) idx left] obtain path where
        "path_for_index_loop H index True l i = Ok path" "\<forall>(s, _) \<in> set path. s \<noteq> None"
        "length path = mt_height l" "fold_path H path (degrade_to_transient H x) = dl" by auto
      then show ?thesis using left h Suc roots d by (auto simp: Let_def fold_path_def)
    qed
  next
    case right: False
    then have idx: "mt_index r (i - 2 ^ mt_height l) = Some (x, a)"
      and bound: "i - 2 ^ mt_height l < 2 ^ mt_height r"
      using Node.prems(3,4) h by auto
    show ?thesis
    proof (cases "mt_height l")
      case 0
      with right idx bound h have "i = 1" "degrade_to_transient H x = dr"
        using roots Node.prems(4) mt_index_height_0 [of r "i - 1" x a] ok by auto
      then show ?thesis using 0 h roots d by (simp add: fold_path_def)
    next
      case (Suc k)
      with Node.IH(2) [OF sub(2) roots(2) idx bound] h obtain path where
        "path_for_index_loop H index True r (i - 2 ^ mt_height l) = Ok path"
        "\<forall>(s, _) \<in> set path. s \<noteq> None" "length path = mt_height r"
        "fold_path H path (degrade_to_transient H x) = dr" by auto
      then show ?thesis using right h Suc roots d by (auto simp: Let_def fold_path_def)
    qed
  qed
qed auto

lemma fold_path_root:
  "foldl (\<lambda>acc (s, left). if left then transient_hash H [acc, s] else transient_hash H [s, acc]) d
     (rev (map (\<lambda>(s, g). (the s, g)) path)) = fold_path H path d"
  unfolding fold_path_def
  by (induction path) (auto simp: case_prod_beta)

lemma path_for_leaf_ok:
  assumes "mt_ok H t" "mt_root H t = Some d" "i < 2 ^ mt_height t" "mt_index t i = Some (lh leaf, a)"
  shows "\<exists>p. path_for_leaf H t i leaf = Ok p \<and> mp_leaf p = leaf \<and>
    length (mp_path p) = mt_height t \<and> merkle_path_root H lh p = d"
proof (cases "mt_height t = 0")
  case True
  then have "t = Leaf (lh leaf) a"
    using assms mt_index_height_0 [OF True] by (auto simp: mt_ok_def)
  then show ?thesis using assms by (simp add: path_for_leaf_def merkle_path_root_def)
next
  case False
  then obtain path where path: "path_for_index_loop H i True t i = Ok path"
    "\<forall>(s, _) \<in> set path. s \<noteq> None" "length path = mt_height t"
    "fold_path H path (degrade_to_transient H (lh leaf)) = d"
    using path_for_index_loop_complete [OF assms(1,2,4,3), of i] by auto
  from path(2) have "list_all (\<lambda>(s, _). s \<noteq> None) path" by (auto simp: list_all_iff)
  then show ?thesis using False path
    by (simp add: path_for_leaf_def path_for_index_internal_def merkle_path_root_def fold_path_root)
qed

section \<open>The digest as a function of the leaves\<close>

fun content_digest :: "('h, 'f) hashing \<Rightarrow> nat \<Rightarrow> (nat \<Rightarrow> 'h option) \<Rightarrow> 'f" where
  "content_digest H 0 m =
     (case m 0 of None \<Rightarrow> fr_default H | Some x \<Rightarrow> degrade_to_transient H x)"
| "content_digest H (Suc h) m =
     (if list_all (\<lambda>i. m i = None) [0..<2 ^ Suc h] then fr_default H
      else transient_hash H [content_digest H h m, content_digest H h (\<lambda>i. m (i + 2 ^ h))])"

lemma content_digest_cong:
  "(\<And>i. i < 2 ^ h \<Longrightarrow> m i = m' i) \<Longrightarrow> content_digest H h m = content_digest H h m'"
proof (induction h arbitrary: m m')
  case (Suc h)
  have "content_digest H h m = content_digest H h m'"
    "content_digest H h (\<lambda>i. m (i + 2 ^ h)) = content_digest H h (\<lambda>i. m' (i + 2 ^ h))"
    by (rule Suc.IH, rule Suc.prems, simp)+
  moreover have "list_all (\<lambda>i. m i = None) [0..<2 ^ Suc h] = list_all (\<lambda>i. m' i = None) [0..<2 ^ Suc h]"
    using Suc.prems by (auto simp: list_all_iff)
  ultimately show ?case by simp
qed simp

text \<open>The trees that updates and rehashing grow from a blank one.\<close>

fun mt_grown :: "('h, 'f) hashing \<Rightarrow> ('h, 'f, 'a) mt_node \<Rightarrow> bool" where
  "mt_grown H (Node f l r h) \<longleftrightarrow>
     (f = None \<or> f = Some (transient_hash H [mt_digest H l, mt_digest H r])) \<and>
     \<not> (mt_leafless l \<and> mt_leafless r) \<and> mt_grown H l \<and> mt_grown H r"
| "mt_grown H (Collapsed _ _) \<longleftrightarrow> False"
| "mt_grown H _ \<longleftrightarrow> True"

lemma mt_set_not_leafless: "mt_grown H t \<Longrightarrow> \<not> mt_leafless (mt_set t i x a)"
  by (induction t i x a rule: mt_set.induct) auto

lemma mt_grown_set: "mt_grown H t \<Longrightarrow> mt_grown H (mt_set t i x a)"
  by (induction t i x a rule: mt_set.induct) (auto simp: mt_set_not_leafless)

lemma mt_leafless_rehash [simp]: "mt_leafless (mt_rehash H t) = mt_leafless t"
  by (induction H t rule: mt_rehash.induct) (auto simp: Let_def)

lemma mt_grown_rehash: "mt_grown H t \<Longrightarrow> mt_grown H (mt_rehash H t)"
  by (induction H t rule: mt_rehash.induct) (auto simp: Let_def)

lemma mt_grown_not_collapsed: "mt_grown H t \<Longrightarrow> \<not> mt_collapsed_at t i"
  by (induction t arbitrary: i) auto

lemma mt_grown_has_leaf:
  "mt_grown H t \<Longrightarrow> mt_balanced t \<Longrightarrow> \<not> mt_leafless t \<Longrightarrow> \<exists>i < 2 ^ mt_height t. mt_index t i \<noteq> None"
proof (induction t)
  case (Node f l r h)
  show ?case
  proof (cases "mt_leafless l")
    case True
    with Node obtain i where "i < 2 ^ mt_height r" "mt_index r i \<noteq> None" by auto
    then show ?thesis using Node.prems by (intro exI [of _ "i + 2 ^ mt_height l"]) auto
  next
    case False
    with Node obtain i where "i < 2 ^ mt_height l" "mt_index l i \<noteq> None" by auto
    then show ?thesis using Node.prems by (intro exI [of _ i]) auto
  qed
qed auto

lemma mt_digest_content:
  "mt_grown H t \<Longrightarrow> mt_balanced t \<Longrightarrow>
   mt_digest H t = content_digest H (mt_height t) (\<lambda>i. map_option fst (mt_index t i))"
proof (induction t)
  case (Stub h)
  then show ?case by (cases h) (auto simp: list_all_iff)
next
  case (Node f l r h)
  let ?m = "\<lambda>i. map_option fst (mt_index (Node f l r h) i)"
  have h: "h = Suc (mt_height l)" "mt_height r = mt_height l" using Node.prems by auto
  have "mt_digest H l = content_digest H (mt_height l) ?m"
    using Node h by (auto intro!: content_digest_cong)
  moreover have "mt_digest H r = content_digest H (mt_height l) (\<lambda>i. ?m (i + 2 ^ mt_height l))"
    using Node h by (auto intro!: content_digest_cong)
  moreover have "\<not> mt_leafless (Node f l r h)" using Node.prems(1) by simp
  then obtain i where "i < 2 ^ h" "mt_index (Node f l r h) i \<noteq> None"
    using mt_grown_has_leaf [OF Node.prems] by auto
  then have "\<not> list_all (\<lambda>i. ?m i = None) [0..<2 ^ h]"
    by (simp only: list_all_iff) force
  moreover have "mt_digest H (Node f l r h) = transient_hash H [mt_digest H l, mt_digest H r]"
    using Node.prems(1) by (cases f) auto
  ultimately show ?case unfolding h(1) mt_height.simps content_digest.simps by metis
qed auto

lemma grown_by_updates:
  assumes "try_fold (\<lambda>t (i, x, a). try_update_hash t i x a) (mt_blank h) us = Ok t"
  shows "mt_grown H t \<and> mt_balanced t \<and> mt_height t = h"
  using assms
  by (rule try_fold_invariant)
    (auto simp: mt_blank_def try_update_hash_iff mt_grown_set split: prod.splits)

section \<open>Leaf stores\<close>

text \<open>What the ledger states rely on when they keep commitments in a tree and append at the
  first free index.\<close>

locale leaf_store =
  fixes update :: "'t \<Rightarrow> nat \<Rightarrow> 'x \<Rightarrow> ('e, 't) result"
    and lookup :: "'t \<Rightarrow> nat \<Rightarrow> 'x option"
    and ok :: "'t \<Rightarrow> bool"
    and cap :: "'t \<Rightarrow> nat"
  assumes update_ok: "ok t \<Longrightarrow> update t i x = Ok t' \<Longrightarrow> ok t' \<and> cap t' = cap t \<and> i < cap t"
    and lookup_same: "ok t \<Longrightarrow> update t i x = Ok t' \<Longrightarrow> lookup t' i = Some x"
    and lookup_other:
      "ok t \<Longrightarrow> update t i x = Ok t' \<Longrightarrow> j \<noteq> i \<Longrightarrow> j < cap t \<Longrightarrow> lookup t' j = lookup t j"
begin

lemma append_all:
  assumes "ok t"
    and "try_fold (\<lambda>(t, n) x. map_ok (\<lambda>t'. (t', n + 1)) (update t n x)) (t, n) xs = Ok (t', n')"
  shows "ok t' \<and> cap t' = cap t \<and> n' = n + length xs \<and>
    (\<forall>k < length xs. lookup t' (n + k) = Some (xs ! k)) \<and>
    (\<forall>j < cap t. j < n \<or> n' \<le> j \<longrightarrow> lookup t' j = lookup t j)"
  using assms
proof (induction xs arbitrary: t n)
  case (Cons x xs)
  obtain t1 where t1: "update t n x = Ok t1"
    and rest: "try_fold (\<lambda>(t, n) x. map_ok (\<lambda>t'. (t', n + 1)) (update t n x)) (t1, n + 1) xs = Ok (t', n')"
    using Cons.prems(2) by (auto simp: result_simps)
  note u = update_ok [OF Cons.prems(1) t1]
  note ih = Cons.IH [OF conjunct1 [OF u] rest]
  have "lookup t' (n + k) = Some ((x # xs) ! k)" if "k < length (x # xs)" for k
  proof (cases k)
    case 0
    then show ?thesis using ih u lookup_same [OF Cons.prems(1) t1] by auto
  next
    case (Suc m)
    then show ?thesis using ih that by auto
  qed
  moreover have "lookup t' j = lookup t j" if "j < cap t" "j < n \<or> n' \<le> j" for j
  proof -
    have "lookup t' j = lookup t1 j" using ih that u by auto
    also have "\<dots> = lookup t j" using lookup_other [OF Cons.prems(1) t1, of j] that ih by auto
    finally show ?thesis .
  qed
  ultimately show ?case using ih u by auto
qed auto

end

interpretation mtree: leaf_store "\<lambda>t i (x, a). try_update_hash t i x a" mt_index mt_balanced
  "\<lambda>t. 2 ^ mt_height t"
  by unfold_locales
    (auto simp: try_update_hash_iff mt_index_set_same mt_index_set_other)

section \<open>Collapsing a range\<close>

lemma mt_index_collapse_stub: "mt_index (mt_collapse H (Stub h) s e) i = None"
  by (induction h arbitrary: s e i) (auto simp: Let_def)

lemma mt_index_collapse:
  "mt_balanced t \<Longrightarrow> s \<le> e \<Longrightarrow> e < 2 ^ mt_height t \<Longrightarrow> i < 2 ^ mt_height t \<Longrightarrow>
   mt_index (mt_collapse H t s e) i = (if s \<le> i \<and> i \<le> e then None else mt_index t i)"
proof (induction H t s e arbitrary: i rule: mt_collapse.induct)
  case (3 H h s e)
  then show ?case by (simp add: mt_index_collapse_stub)
next
  case (4 H f l r h s e)
  define c where "c = (2::nat) ^ (h - 1)"
  define l1 where "l1 = (if s < c then mt_collapse H l s (min e (c - 1)) else l)"
  define r1 where "r1 = (if c \<le> e then mt_collapse H r (s - c) (e - c) else r)"
  have h: "c = 2 ^ mt_height l" "c = 2 ^ mt_height r" "2 ^ h = 2 * c" "0 < c"
    using "4.prems"(1) by (auto simp: c_def)
  have eq: "mt_collapse H (Node f l r h) s e =
      (if s = 0 \<and> e = 2 ^ h - 1 \<or> mt_is_collapsed l1 \<and> mt_is_collapsed r1
       then Collapsed (mt_digest H (Node f l r h)) h else Node f l1 r1 h)"
    unfolding mt_collapse.simps Let_def c_def [symmetric] l1_def [symmetric] r1_def [symmetric]
    by (simp del: mt_rehash.simps)
  show ?case
  proof (cases "s = 0 \<and> e = 2 ^ h - 1")
    case True
    then show ?thesis using "4.prems"(4) unfolding eq by auto
  next
    case False
    have l: "mt_index l1 k = (if s \<le> k \<and> k \<le> e then None else mt_index l k)" if "k < c" for k
      using "4.IH"(1) [OF False refl, folded c_def, of k] that "4.prems" h by (auto simp: l1_def)
    have r: "mt_index r1 k = (if s \<le> k + c \<and> k + c \<le> e then None else mt_index r k)"
      if "k < c" for k
      using "4.IH"(2) [OF False refl refl, folded c_def, of k] that "4.prems" h
      by (auto simp: r1_def)
    have idx: "mt_index (Node f u v h) i = (if i < c then mt_index u i else mt_index v (i - c))" for u v
      by (simp add: c_def)
    have "i < 2 * c" using "4.prems"(4) h(3) by simp
    then have node: "mt_index (Node f l1 r1 h) i =
        (if s \<le> i \<and> i \<le> e then None else mt_index (Node f l r h) i)"
      unfolding idx using l [of i] r [of "i - c"] by (cases "i < c") auto
    moreover have "mt_index (Node f l1 r1 h) i = None" if "mt_is_collapsed l1" "mt_is_collapsed r1"
      using that by (cases l1; cases r1) auto
    ultimately show ?thesis unfolding eq using False by auto
  qed
qed auto

lemma mt_collapsed_at_collapse_stub:
  fixes H :: "('h, 'f) hashing"
  shows "s \<le> e \<Longrightarrow> e < 2 ^ h \<Longrightarrow> i < 2 ^ h \<Longrightarrow>
   mt_collapsed_at (mt_collapse H (Stub h :: ('h, 'f, 'a) mt_node) s e) i \<longleftrightarrow> s \<le> i \<and> i \<le> e"
proof (induction h arbitrary: s e i)
  case (Suc h)
  define l :: "('h, 'f, 'a) mt_node" where
    "l = (if s < 2 ^ h then mt_collapse H (Stub h) s (min e (2 ^ h - 1)) else Stub h)"
  define r :: "('h, 'f, 'a) mt_node" where "r = (if 2 ^ h \<le> e then mt_collapse H (Stub h) (s - 2 ^ h) (e - 2 ^ h) else Stub h)"
  have eq: "mt_collapse H (Stub (Suc h)) s e =
      (if s = 0 \<and> e = 2 ^ Suc h - 1 \<or> mt_is_collapsed l \<and> mt_is_collapsed r
       then Collapsed (fr_default H) (Suc h) else Node (Some (fr_default H)) l r (Suc h))"
    unfolding mt_collapse_Stub Let_def l_def [symmetric] r_def [symmetric] by simp
  have l: "mt_collapsed_at l k \<longleftrightarrow> s \<le> k \<and> k \<le> e" if "k < 2 ^ h" for k
    using Suc.IH [of s "min e (2 ^ h - 1)" k] that Suc.prems by (auto simp: l_def)
  have r: "mt_collapsed_at r k \<longleftrightarrow> s \<le> k + 2 ^ h \<and> k + 2 ^ h \<le> e" if "k < 2 ^ h" for k
    using Suc.IH [of "s - 2 ^ h" "e - 2 ^ h" k] that Suc.prems by (auto simp: r_def)
  have node: "mt_collapsed_at (Node f l r (Suc h)) i \<longleftrightarrow> s \<le> i \<and> i \<le> e" for f
    using l [of i] r [of "i - 2 ^ h"] Suc.prems by (cases "i < 2 ^ h") auto
  moreover have "mt_collapsed_at (Node f l r (Suc h)) i" if "mt_is_collapsed l" "mt_is_collapsed r" for f
    using that by (cases l; cases r) auto
  ultimately show ?case unfolding eq using Suc.prems by auto
qed simp

lemma mt_collapsed_at_collapse:
  "mt_balanced t \<Longrightarrow> s \<le> e \<Longrightarrow> e < 2 ^ mt_height t \<Longrightarrow> i < 2 ^ mt_height t \<Longrightarrow>
   mt_collapsed_at (mt_collapse H t s e) i \<longleftrightarrow> mt_collapsed_at t i \<or> s \<le> i \<and> i \<le> e"
proof (induction H t s e arbitrary: i rule: mt_collapse.induct)
  case (3 H h s e)
  then show ?case by (simp add: mt_collapsed_at_collapse_stub)
next
  case (4 H f l r h s e)
  define c where "c = (2::nat) ^ (h - 1)"
  define l1 where "l1 = (if s < c then mt_collapse H l s (min e (c - 1)) else l)"
  define r1 where "r1 = (if c \<le> e then mt_collapse H r (s - c) (e - c) else r)"
  have h: "c = 2 ^ mt_height l" "c = 2 ^ mt_height r" "2 ^ h = 2 * c" "0 < c"
    using "4.prems"(1) by (auto simp: c_def)
  have eq: "mt_collapse H (Node f l r h) s e =
      (if s = 0 \<and> e = 2 ^ h - 1 \<or> mt_is_collapsed l1 \<and> mt_is_collapsed r1
       then Collapsed (mt_digest H (Node f l r h)) h else Node f l1 r1 h)"
    unfolding mt_collapse.simps Let_def c_def [symmetric] l1_def [symmetric] r1_def [symmetric]
    by (simp del: mt_rehash.simps)
  show ?case
  proof (cases "s = 0 \<and> e = 2 ^ h - 1")
    case True
    then show ?thesis using "4.prems"(4) unfolding eq by auto
  next
    case False
    have l: "mt_collapsed_at l1 k \<longleftrightarrow> mt_collapsed_at l k \<or> s \<le> k \<and> k \<le> e" if "k < c" for k
      using "4.IH"(1) [OF False refl, folded c_def, of k] that "4.prems" h by (auto simp: l1_def)
    have r: "mt_collapsed_at r1 k \<longleftrightarrow> mt_collapsed_at r k \<or> s \<le> k + c \<and> k + c \<le> e" if "k < c" for k
    proof (cases "c \<le> e")
      case True
      then have "s - c \<le> e - c" "e - c < 2 ^ mt_height r" "k < 2 ^ mt_height r" "mt_balanced r"
        using "4.prems" h that by auto
      from "4.IH"(2) [OF False refl refl, folded c_def, OF True this(4,1,2,3)] show ?thesis
        using True by (auto simp: r1_def)
    qed (auto simp: r1_def)
    have at: "mt_collapsed_at (Node f u v h) i =
        (if i < c then mt_collapsed_at u i else mt_collapsed_at v (i - c))" for u v
      by (simp add: c_def)
    have "i < 2 * c" using "4.prems"(4) h(3) by simp
    then have "mt_collapsed_at (Node f l1 r1 h) i \<longleftrightarrow>
        mt_collapsed_at (Node f l r h) i \<or> s \<le> i \<and> i \<le> e"
      unfolding at using l [of i] r [of "i - c"] by (cases "i < c") auto
    moreover have "mt_collapsed_at (Node f l1 r1 h) i" if "mt_is_collapsed l1" "mt_is_collapsed r1"
      using that by (cases l1; cases r1) auto
    ultimately show ?thesis unfolding eq using False by auto
  qed
qed auto

section \<open>Insertion evidence\<close>

inductive_cases blinds_to_Node: "blinds H s (Node f l r h)"

lemma blinds_cached_node:
  "blinds H l l' \<Longrightarrow> blinds H r r' \<Longrightarrow>
   blinds H (Node None l r h) (Node (Some (transient_hash H [mt_digest H l', mt_digest H r'])) l' r' h)"
  by (rule blinds.node) (auto simp: blinds_digest)

text \<open>Replaying, on a blinded tree, the evidence that the fully rehashed tree gives for the
  replacement of a leaf.\<close>

lemma evidence_loop:
  fixes s :: "('h, 'f, 'b) mt_node" and t :: "('h, 'f, 'a) mt_node"
  assumes "blinds H s t" "mt_balanced t" "mt_index t i = Some y" "i < 2 ^ mt_height t"
    "1 \<le> mt_height t"
  shows "\<exists>path s'. path_for_index_loop H index False (mt_rehash H (mt_set t i x a)) i = Ok path \<and>
    update_from_evidence_internal H (x, b) path s = Ok s' \<and>
    blinds H s' (mt_rehash H (mt_set t i x a))"
  using assms
proof (induction t arbitrary: s i rule: mt_node.induct)
  case (Node f l r h)
  have h: "h = Suc (mt_height l)" "mt_height r = mt_height l" using Node.prems by auto
  let ?new = "mt_rehash H (mt_set (Node f l r h) i x a)"
  have whole: "blinds H (Collapsed (mt_digest H ?new) h :: ('h, 'f, 'b) mt_node) ?new"
    by (rule blinds.collapsed) simp_all
  consider (collapsed) g where "s = Collapsed g h"
    | (node) g l0 r0 where "s = Node g l0 r0 h" "blinds H l0 l" "blinds H r0 r"
    using Node.prems(1) by (cases rule: blinds_to_Node) auto
  note shapes = this
  show ?case
  proof (cases "i < 2 ^ mt_height l")
    case left: True
    let ?l = "mt_rehash H (mt_set l i x a)" and ?r = "mt_rehash H r"
    define d where "d = transient_hash H [mt_digest H ?l, mt_digest H ?r]"
    have new: "?new = Node (Some d) ?l ?r h" using left h by (simp add: Let_def d_def)
    have idx: "mt_index l i = Some y" using Node.prems(3) left h by simp
    have sub: "\<exists>path l'. path_for_index_loop H index False ?new i = Ok ((Some d, True) # path) \<and>
        update_from_evidence_internal H (x, b) path l0 = Ok l' \<and> blinds H l' ?l"
      if "blinds H l0 l" for l0 :: "('h, 'f, 'b) mt_node"
    proof (cases "mt_height l")
      case 0
      then have l: "l = Leaf (fst y) (snd y)" "i = 0"
        using idx left Node.prems(2) mt_index_height_0 [of l i "fst y" "snd y"] by auto
      then have "update_from_evidence_internal H (x, b) [] l0
          \<in> {Ok (Leaf x b), Ok (Collapsed (degrade_to_transient H x) 0)}"
        using that blinds_height [OF that] by (cases l0) (auto elim: blinds.cases)
      then show ?thesis using l h 0 unfolding new by (auto intro!: blinds.collapsed)
    next
      case (Suc k)
      with Node.IH(1) [OF that _ idx left] Node.prems(2) obtain path l' where
        "path_for_index_loop H index False ?l i = Ok path"
        "update_from_evidence_internal H (x, b) path l0 = Ok l'" "blinds H l' ?l" by auto
      then show ?thesis using left h Suc unfolding new by (auto simp: Let_def)
    qed
    show ?thesis
    proof (cases rule: shapes)
      case collapsed
      obtain path where "path_for_index_loop H index False ?new i = Ok ((Some d, True) # path)"
        using sub [OF blinds.collapsed [OF refl refl]] by blast
      moreover have "update_from_evidence_internal H (x, b) ((Some d, True) # path) s = Ok (Collapsed d h)"
        by (simp add: collapsed)
      moreover have "blinds H (Collapsed d h :: ('h, 'f, 'b) mt_node) ?new" using whole unfolding new by simp
      ultimately show ?thesis by (intro exI conjI)
    next
      case (node g l0 r0)
      obtain path l' where p: "path_for_index_loop H index False ?new i = Ok ((Some d, True) # path)"
        "update_from_evidence_internal H (x, b) path l0 = Ok l'" "blinds H l' ?l"
        using sub [OF node(2)] by blast
      have "update_from_evidence_internal H (x, b) ((Some d, True) # path) s = Ok (Node None l' r0 h)"
        by (simp add: node(1) p(2))
      moreover have "blinds H (Node None l' r0 h) ?new"
        unfolding new d_def by (rule blinds_cached_node [OF p(3) blinds_rehash_right [OF node(3)]])
      ultimately show ?thesis using p(1) by (intro exI conjI)
    qed
  next
    case right: False
    let ?k = "i - 2 ^ mt_height l"
    let ?l = "mt_rehash H l" and ?r = "mt_rehash H (mt_set r ?k x a)"
    define d where "d = transient_hash H [mt_digest H ?l, mt_digest H ?r]"
    have new: "?new = Node (Some d) ?l ?r h" using right h by (simp add: Let_def d_def)
    have idx: "mt_index r ?k = Some y" "?k < 2 ^ mt_height r"
      using Node.prems(3,4) right h by auto
    have sub: "\<exists>path r'. path_for_index_loop H index False ?new i = Ok ((Some d, False) # path) \<and>
        update_from_evidence_internal H (x, b) path r0 = Ok r' \<and> blinds H r' ?r"
      if "blinds H r0 r" for r0 :: "('h, 'f, 'b) mt_node"
    proof (cases "mt_height l")
      case 0
      then have r: "r = Leaf (fst y) (snd y)" "i = 1"
        using idx right h Node.prems(2,4) mt_index_height_0 [of r ?k "fst y" "snd y"] by auto
      then have "update_from_evidence_internal H (x, b) [] r0
          \<in> {Ok (Leaf x b), Ok (Collapsed (degrade_to_transient H x) 0)}"
        using that blinds_height [OF that] by (cases r0) (auto elim: blinds.cases)
      then show ?thesis using r h 0 unfolding new by (auto intro!: blinds.collapsed)
    next
      case (Suc k)
      with Node.IH(2) [OF that _ idx] Node.prems(2) h obtain path r' where
        "path_for_index_loop H index False ?r ?k = Ok path"
        "update_from_evidence_internal H (x, b) path r0 = Ok r'" "blinds H r' ?r" by auto
      then show ?thesis using right h Suc unfolding new by (auto simp: Let_def)
    qed
    show ?thesis
    proof (cases rule: shapes)
      case collapsed
      obtain path where "path_for_index_loop H index False ?new i = Ok ((Some d, False) # path)"
        using sub [OF blinds.collapsed [OF refl refl]] by blast
      moreover have "update_from_evidence_internal H (x, b) ((Some d, False) # path) s = Ok (Collapsed d h)"
        by (simp add: collapsed)
      moreover have "blinds H (Collapsed d h :: ('h, 'f, 'b) mt_node) ?new" using whole unfolding new by simp
      ultimately show ?thesis by (intro exI conjI)
    next
      case (node g l0 r0)
      obtain path r' where p: "path_for_index_loop H index False ?new i = Ok ((Some d, False) # path)"
        "update_from_evidence_internal H (x, b) path r0 = Ok r'" "blinds H r' ?r"
        using sub [OF node(3)] by blast
      have "update_from_evidence_internal H (x, b) ((Some d, False) # path) s = Ok (Node None l0 r' h)"
        by (simp add: node(1) p(2))
      moreover have "blinds H (Node None l0 r' h) ?new"
        unfolding new d_def by (rule blinds_cached_node [OF blinds_rehash_right [OF node(2)] p(3)])
      ultimately show ?thesis using p(1) by (intro exI conjI)
    qed
  qed
qed auto

section \<open>Properties\<close>

text \<open>A concrete hashing, for the examples.\<close>

definition sample_hashing :: "(nat, nat) hashing" where
  "sample_hashing =
     \<lparr>transient_hash = (\<lambda>xs. 1 + 2 * xs ! 0 + 3 * xs ! 1), degrade_to_transient = Suc, fr_default = 0\<rparr>"

lemma mt_invariant_set: "mt_invariant H t \<Longrightarrow> mt_invariant H (mt_set t i x a)"
  by (induction t i x a rule: mt_set.induct) auto





text \<open>C29: collapsing a range of a tree keeps its root and every leaf outside the range, and
  makes the leaves inside unavailable.\<close>

theorem collapse_correct:
  assumes "mt_invariant H t" "s \<le> e" "e < 2 ^ mt_height t"
  shows "mt_root H (mt_rehash H (mt_collapse H t s e)) = mt_root H (mt_rehash H t) \<and>
    (\<forall>i < 2 ^ mt_height t.
       mt_index (mt_collapse H t s e) i = (if s \<le> i \<and> i \<le> e then None else mt_index t i))"
  using mt_index_collapse [OF invariant_balanced [OF assms(1)] assms(2,3)] by simp

theorem collapse_correct_witness:
  "mt_index (mt_collapse sample_hashing (Node None (Leaf 4 0) (Leaf 5 0) 1) 0 0) 1 = Some (5::nat, 0::nat)"
  using collapse_correct [of sample_hashing "Node None (Leaf 4 0) (Leaf 5 0) 1" 0 0]
  by simp

text \<open>C30: for a leaf of a consistent, rehashed tree the membership path exists, has one entry
  per level, and its root is the root of the tree.\<close>

theorem path_for_leaf_complete:
  assumes "mt_ok H t" "mt_root H t = Some d" "i < 2 ^ mt_height t" "mt_index t i = Some (lh leaf, a)"
  shows "\<exists>p. path_for_leaf H t i leaf = Ok p \<and> mp_leaf p = leaf \<and>
    length (mp_path p) = mt_height t \<and> merkle_path_root H lh p = d"
  using assms by (rule path_for_leaf_ok)

theorem path_for_leaf_complete_witness:
  "merkle_path_root sample_hashing id
     (case path_for_leaf sample_hashing (Node (Some 29) (Leaf 4 ()) (Leaf 5 ()) 1) 1 5 of Ok p \<Rightarrow> p) = 29"
proof -
  have "\<exists>p. path_for_leaf sample_hashing (Node (Some 29) (Leaf 4 ()) (Leaf 5 ()) 1) 1 5 = Ok p \<and>
      mp_leaf p = 5 \<and> length (mp_path p) = 1 \<and> merkle_path_root sample_hashing id p = 29"
    using path_for_leaf_complete [of sample_hashing "Node (Some 29) (Leaf 4 ()) (Leaf 5 ()) 1" 29 1 id 5 "()"]
    by (simp add: mt_ok_def sample_hashing_def)
  then show ?thesis by auto
qed

text \<open>asking for the path of a leaf below a collapsed pair of leaves aborts the program
  (an \<^verbatim>\<open>unreachable!\<close> arm) instead of reporting an invalid index, although the tree is
  consistent and fully rehashed.\<close>

theorem path_for_leaf_panics_below_collapsed_pair:
  "path_for_leaf H (Collapsed f 1) 0 leaf = Panic \<and>
   path_for_leaf H (Node (Some g) (Collapsed f 1) (Stub 1) 2) 1 leaf = Panic"
  by (simp add: path_for_leaf_def path_for_index_internal_def Let_def)

text \<open>C31: when a leaf is replaced in a tree, the insertion evidence taken from the rehashed new
  tree can be replayed on every blinded copy of the old tree, even where the leaf is collapsed
  there, and gives a blinded copy of the new tree: in particular the roots agree.\<close>

theorem evidence_replay:
  assumes "mt_balanced t" "mt_index t i \<noteq> None" "i < 2 ^ mt_height t" "1 \<le> mt_height t"
    "blinds H s t" "try_update_hash t i x a = Ok t'"
  shows "\<exists>ev s'. insertion_evidence H (mt_rehash H t') i = Ok ev \<and>
    update_from_evidence H s ev = Ok s' \<and> blinds H s' (mt_rehash H t') \<and>
    mt_root H (mt_rehash H s') = mt_root H (mt_rehash H t')"
proof -
  have t': "t' = mt_set t i x a" "\<not> mt_collapsed_at t i"
    using assms(1,6) by (auto simp: try_update_hash_iff)
  obtain y where y: "mt_index t i = Some y" using assms(2) by auto
  obtain path s' where p: "path_for_index_loop H i False (mt_rehash H t') i = Ok path"
    "update_from_evidence_internal H (x, a) path s = Ok s'" "blinds H s' (mt_rehash H t')"
    unfolding t' using evidence_loop [OF assms(5,1) y assms(3,4)] by blast
  have "insertion_evidence H (mt_rehash H t') i = Ok \<lparr>tip_leaf = (x, a), tip_path = rev path\<rparr>"
    using assms(4) p(1) t'
    by (simp add: insertion_evidence_def path_for_index_internal_def mt_index_set_same)
  moreover have "update_from_evidence H s \<lparr>tip_leaf = (x, a), tip_path = rev path\<rparr> = Ok s'"
    by (simp add: update_from_evidence_def p(2))
  ultimately show ?thesis using p(3) blinds_digest [OF p(3)] by auto
qed

theorem evidence_replay_witness:
  "\<exists>ev s'. insertion_evidence sample_hashing
       (mt_rehash sample_hashing (Node None (Leaf 6 0) (Leaf 5 0) 1)) 0 = Ok ev \<and>
     update_from_evidence sample_hashing (Collapsed 29 1 :: (nat, nat, nat) mt_node) ev = Ok s' \<and>
     mt_root sample_hashing (mt_rehash sample_hashing s') = Some 33"
proof -
  have "blinds sample_hashing (Collapsed 29 1 :: (nat, nat, nat) mt_node) (Node None (Leaf 4 0) (Leaf 5 (0::nat)) 1)"
    by (rule blinds.collapsed) (simp_all add: sample_hashing_def)
  from evidence_replay [OF _ _ _ _ this, of 0 6 0 "Node None (Leaf 6 0) (Leaf 5 0) 1"]
  show ?thesis by (auto simp: sample_hashing_def)
qed

end
