(* ===== verification/Time_Filter.thy ===== *)
theory Time_Filter
  imports Ledger_Prelude "HOL-Library.AList"
begin

text \<open>
  Time-indexed storage: timestamps and durations (\<^verbatim>\<open>base-crypto/src/time.rs\<close>), the counting
  \<^verbatim>\<open>MultiSet\<close> and the \<^verbatim>\<open>TimeFilterMap\<close> of \<^verbatim>\<open>storage/src/storage.rs\<close>, which the ledger uses for
  the histories of Merkle roots and for replay protection.

  The persistent maps are association lists without repeated keys (the time map, which is
  traversed) or partial functions (the counts). The containers a \<^verbatim>\<open>TimeFilterMap\<close> can hold are
  given by the operations of the \<^verbatim>\<open>Container\<close> and \<^verbatim>\<open>Semigroup\<close> traits, a record argument, with
  the two instances the ledger uses, \<^verbatim>\<open>Identity\<close> and \<^verbatim>\<open>HashSet\<close>.
\<close>

section \<open>Timestamps and durations\<close>

type_synonym timestamp = nat
type_synonym duration = int

definition ts_diff :: "timestamp \<Rightarrow> timestamp \<Rightarrow> duration" where
  "ts_diff a b = int a - int b"

definition abs_duration :: "duration \<Rightarrow> nat" where
  "abs_duration d = (if d = i128_min \<or> nat \<bar>d\<bar> > u64_max then u64_max else nat \<bar>d\<bar>)"

definition ts_add :: "timestamp \<Rightarrow> duration \<Rightarrow> timestamp" where
  "ts_add t d =
     (if d \<ge> 0 then sat_add u64_max t (nat (d mod 2 ^ 64)) else t - abs_duration d)"

definition ts_sub :: "timestamp \<Rightarrow> duration \<Rightarrow> timestamp" where
  "ts_sub t d =
     (if d \<ge> 0 then t - nat (d mod 2 ^ 64) else sat_add u64_max t (abs_duration d))"

definition dur_add :: "duration \<Rightarrow> duration \<Rightarrow> duration" where
  "dur_add a b = sat_i128 (a + b)"

definition dur_sub :: "duration \<Rightarrow> duration \<Rightarrow> duration" where
  "dur_sub a b = sat_i128 (a - b)"

section \<open>Multisets\<close>

type_synonym 'v multi_set = "'v \<rightharpoonup> nat"

definition ms_new :: "'v multi_set" where
  "ms_new = Map.empty"

definition ms_count :: "'v multi_set \<Rightarrow> 'v \<Rightarrow> nat" where
  "ms_count m e = (case m e of Some i \<Rightarrow> i | None \<Rightarrow> 0)"

definition ms_insert :: "'v multi_set \<Rightarrow> 'v \<Rightarrow> 'v multi_set" where
  "ms_insert m e = m(e \<mapsto> ms_count m e + 1)"

definition ms_remove_n :: "'v multi_set \<Rightarrow> 'v \<Rightarrow> nat \<Rightarrow> 'v multi_set" where
  "ms_remove_n m e n =
     (let res = (case checked_sub (ms_count m e) n of Some r \<Rightarrow> r | None \<Rightarrow> 0) in
      if res = 0 then m(e := None) else m(e \<mapsto> res))"

definition ms_remove :: "'v multi_set \<Rightarrow> 'v \<Rightarrow> 'v multi_set" where
  "ms_remove m e = ms_remove_n m e 1"

definition ms_member :: "'v multi_set \<Rightarrow> 'v \<Rightarrow> bool" where
  "ms_member m e \<longleftrightarrow> m e \<noteq> None"

section \<open>Containers\<close>

record ('c, 'v) container =
  iter_items :: "'c \<Rightarrow> 'v list"
  once :: "'v \<Rightarrow> 'c"
  append_c :: "'c \<Rightarrow> 'c \<Rightarrow> 'c"
  default_c :: 'c

text \<open>\<^verbatim>\<open>Identity\<close> holds one item; its append and default are never used. A \<^verbatim>\<open>HashSet\<close> is a list
  without repetitions.\<close>

definition identity_container :: "('v, 'v) container" where
  "identity_container =
     \<lparr>iter_items = (\<lambda>c. [c]), once = (\<lambda>v. v), append_c = (\<lambda>a b. a), default_c = undefined\<rparr>"

definition hash_set_container :: "('v list, 'v) container" where
  "hash_set_container =
     \<lparr>iter_items = (\<lambda>c. c), once = (\<lambda>v. [v]), append_c = (\<lambda>a b. fold List.insert b a), default_c = []\<rparr>"

section \<open>The time filter map\<close>

record ('c, 'v) time_filter_map =
  time_map :: "(timestamp \<times> 'c) list"
  tfm_set :: "'v multi_set"

definition tfm_new :: "('c, 'v) time_filter_map" where
  "tfm_new = \<lparr>time_map = [], tfm_set = ms_new\<rparr>"

definition find_predecessor :: "(timestamp \<times> 'c) list \<Rightarrow> timestamp \<Rightarrow> 'c option" where
  "find_predecessor tm ts =
     (case filter (\<lambda>k. k < ts) (map fst tm) of
        [] \<Rightarrow> None
      | k # ks \<Rightarrow> map_of tm (fold max ks k))"

definition tfm_get :: "('c, 'v) time_filter_map \<Rightarrow> timestamp \<Rightarrow> 'c option" where
  "tfm_get m ts =
     (case map_of (time_map m) ts of
        Some res \<Rightarrow> Some res
      | None \<Rightarrow> find_predecessor (time_map m) ts)"

definition tfm_insert ::
  "('c, 'v) container \<Rightarrow> ('c, 'v) time_filter_map \<Rightarrow> timestamp \<Rightarrow> 'v \<Rightarrow> ('c, 'v) time_filter_map" where
  "tfm_insert C m ts v =
     (let removed = (case map_of (time_map m) ts of
                       Some x \<Rightarrow> fold (\<lambda>val s. ms_remove s val) (iter_items C x) (tfm_set m)
                     | None \<Rightarrow> tfm_set m)
      in \<lparr>time_map = AList.update ts (once C v) (time_map m), tfm_set = ms_insert removed v\<rparr>)"

definition tfm_upsert ::
  "('c, 'v) container \<Rightarrow> ('c, 'v) time_filter_map \<Rightarrow> timestamp \<Rightarrow> 'c \<Rightarrow> ('c, 'v) time_filter_map" where
  "tfm_upsert C m ts v =
     (let xs = (case map_of (time_map m) ts of Some c \<Rightarrow> c | None \<Rightarrow> default_c C)
      in \<lparr>time_map = AList.update ts (append_c C xs v) (time_map m),
          tfm_set = fold (\<lambda>new_val s. ms_insert s new_val) (iter_items C v) (tfm_set m)\<rparr>)"

definition tfm_upsert_one ::
  "('c, 'v) container \<Rightarrow> ('c, 'v) time_filter_map \<Rightarrow> timestamp \<Rightarrow> 'v \<Rightarrow> ('c, 'v) time_filter_map" where
  "tfm_upsert_one C m ts v = tfm_upsert C m ts (once C v)"

definition tfm_contains :: "('c, 'v) time_filter_map \<Rightarrow> 'v \<Rightarrow> bool" where
  "tfm_contains m v = ms_member (tfm_set m) v"

definition tfm_contains_all :: "('c, 'v) container \<Rightarrow> ('c, 'v) time_filter_map \<Rightarrow> 'c \<Rightarrow> bool" where
  "tfm_contains_all C m c = list_all (tfm_contains m) (iter_items C c)"

text \<open>The keys are the big-endian encodings of the timestamps, so pruning the paths that are
  lexicographically smaller than the cutoff's removes exactly the earlier timestamps.\<close>

definition tfm_filter ::
  "('c, 'v) container \<Rightarrow> ('c, 'v) time_filter_map \<Rightarrow> timestamp \<Rightarrow> ('c, 'v) time_filter_map" where
  "tfm_filter C m cutoff =
     (let removed = map snd (filter (\<lambda>(k, _). k < cutoff) (time_map m))
      in \<lparr>time_map = filter (\<lambda>(k, _). \<not> k < cutoff) (time_map m),
          tfm_set = fold (\<lambda>items s. fold (\<lambda>item s. ms_remove s item) (iter_items C items) s)
                      removed (tfm_set m)\<rparr>)"

section \<open>Counting\<close>

lemma ms_count_insert [simp]:
  "ms_count (ms_insert m e) x = ms_count m x + (if x = e then 1 else 0)"
  by (simp add: ms_insert_def ms_count_def)

lemma ms_count_remove [simp]:
  "ms_count (ms_remove m e) x = ms_count m x - (if x = e then 1 else 0)"
  by (auto simp: ms_remove_def ms_remove_n_def ms_count_def Let_def checked_sub_def split: option.splits)

lemma ms_count_fold_insert:
  "ms_count (fold (\<lambda>v s. ms_insert s v) vs m) x = ms_count m x + count_list vs x"
  by (induction vs arbitrary: m) auto

lemma ms_count_fold_remove:
  "ms_count (fold (\<lambda>v s. ms_remove s v) vs m) x = ms_count m x - count_list vs x"
  by (induction vs arbitrary: m) auto

text \<open>No entry is kept with count zero.\<close>

definition ms_ok :: "'v multi_set \<Rightarrow> bool" where
  "ms_ok m \<longleftrightarrow> (\<forall>e. m e \<noteq> Some 0)"

lemma ms_ok_new [simp]: "ms_ok ms_new"
  by (simp add: ms_ok_def ms_new_def)

lemma ms_ok_insert [simp]: "ms_ok m \<Longrightarrow> ms_ok (ms_insert m e)"
  by (simp add: ms_ok_def ms_insert_def)

lemma ms_ok_remove [simp]: "ms_ok m \<Longrightarrow> ms_ok (ms_remove m e)"
  by (simp add: ms_ok_def ms_remove_def ms_remove_n_def Let_def)

lemma ms_ok_folds:
  "ms_ok m \<Longrightarrow> ms_ok (fold (\<lambda>v s. ms_insert s v) vs m)"
  "ms_ok m \<Longrightarrow> ms_ok (fold (\<lambda>v s. ms_remove s v) vs m)"
  by (induction vs arbitrary: m) auto

lemma ms_member_count: "ms_ok m \<Longrightarrow> ms_member m e \<longleftrightarrow> 0 < ms_count m e"
  unfolding ms_ok_def ms_member_def ms_count_def by (cases "m e") (auto intro: gr0I)

definition occurrences :: "('c, 'v) container \<Rightarrow> (timestamp \<times> 'c) list \<Rightarrow> 'v \<Rightarrow> nat" where
  "occurrences C tm v = (\<Sum>(_, c)\<leftarrow>tm. count_list (iter_items C c) v)"

text \<open>The representation invariant: one entry per timestamp, and the multiset counts the
  occurrences of every item.\<close>

definition tfm_ok :: "('c, 'v) container \<Rightarrow> ('c, 'v) time_filter_map \<Rightarrow> bool" where
  "tfm_ok C m \<longleftrightarrow> distinct (map fst (time_map m)) \<and> ms_ok (tfm_set m) \<and>
     (\<forall>v. ms_count (tfm_set m) v = occurrences C (time_map m) v)"

definition tfm_holds :: "('c, 'v) container \<Rightarrow> ('c, 'v) time_filter_map \<Rightarrow> timestamp \<Rightarrow> 'v \<Rightarrow> bool" where
  "tfm_holds C m ts v \<longleftrightarrow> (\<exists>c. map_of (time_map m) ts = Some c \<and> v \<in> set (iter_items C c))"

lemma occurrences_pos:
  "0 < occurrences C tm v \<longleftrightarrow> (\<exists>(k, c) \<in> set tm. v \<in> set (iter_items C c))"
  by (induction tm) (auto simp: occurrences_def count_list_0_iff)

lemma occurrences_update:
  "occurrences C (AList.update ts c tm) v +
     (case map_of tm ts of Some d \<Rightarrow> count_list (iter_items C d) v | None \<Rightarrow> 0)
   = occurrences C tm v + count_list (iter_items C c) v"
  by (induction tm) (auto simp: occurrences_def)

lemma occurrences_old:
  "map_of tm ts = Some d \<Longrightarrow> count_list (iter_items C d) v \<le> occurrences C tm v"
  by (induction tm) (auto simp: occurrences_def split: if_splits)

lemma occurrences_filter:
  "occurrences C tm v = occurrences C (filter (\<lambda>(k, _). k < t) tm) v
     + occurrences C (filter (\<lambda>(k, _). \<not> k < t) tm) v"
  by (induction tm) (auto simp: occurrences_def)

lemma ms_count_fold_removed:
  "ms_count (fold (\<lambda>items s. fold (\<lambda>item s. ms_remove s item) (iter_items C items) s) cs m) v
     = ms_count m v - (\<Sum>c\<leftarrow>cs. count_list (iter_items C c) v)"
  by (induction cs arbitrary: m) (auto simp: ms_count_fold_remove)

lemma ms_ok_fold_removed:
  "ms_ok m \<Longrightarrow> ms_ok (fold (\<lambda>items s. fold (\<lambda>item s. ms_remove s item) (iter_items C items) s) cs m)"
  by (induction cs arbitrary: m) (auto simp: ms_ok_folds)

lemma distinct_filter_map: "distinct (map fst xs) \<Longrightarrow> distinct (map fst (filter p xs))"
  by (induction xs) auto

lemma map_of_filter_key:
  "map_of (filter (\<lambda>(k, _). p k) xs) k = (if p k then map_of xs k else None)"
  by (induction xs) auto

section \<open>The contract of a time filter map\<close>

text \<open>What a client relies on: after every operation it uses, membership is exactly having been
  inserted at a timestamp that no filter has passed.\<close>

locale container_laws =
  fixes C :: "('c, 'v) container"
  assumes iter_once [simp]: "iter_items C (once C v) = [v]"
begin

lemma contains_iff:
  assumes "tfm_ok C m"
  shows "tfm_contains m v \<longleftrightarrow> (\<exists>ts. tfm_holds C m ts v)"
proof -
  have "tfm_contains m v \<longleftrightarrow> 0 < occurrences C (time_map m) v"
    using assms by (simp add: tfm_contains_def tfm_ok_def ms_member_count)
  also have "\<dots> \<longleftrightarrow> (\<exists>ts. tfm_holds C m ts v)"
    using assms by (fastforce simp: occurrences_pos tfm_holds_def tfm_ok_def)
  finally show ?thesis .
qed

lemma new_ok: "tfm_ok C tfm_new"
  by (simp add: tfm_ok_def tfm_new_def occurrences_def ms_new_def ms_count_def ms_ok_def)

lemma insert_ok:
  assumes "tfm_ok C m"
  shows "tfm_ok C (tfm_insert C m ts v)"
proof -
  have "ms_count (tfm_set (tfm_insert C m ts v)) x = occurrences C (time_map (tfm_insert C m ts v)) x" for x
    using assms occurrences_update [of C ts "once C v" "time_map m" x]
      occurrences_old [of "time_map m" ts _ C x]
    by (cases "map_of (time_map m) ts")
      (auto simp: tfm_insert_def Let_def tfm_ok_def ms_count_fold_remove)
  then show ?thesis using assms
    by (auto simp: tfm_ok_def tfm_insert_def Let_def distinct_update ms_ok_folds split: option.splits)
qed

lemma insert_holds:
  "tfm_ok C m \<Longrightarrow> tfm_holds C (tfm_insert C m ts v) t x \<longleftrightarrow>
     (if t = ts then x = v else tfm_holds C m t x)"
  by (auto simp: tfm_holds_def tfm_insert_def Let_def update_conv')

lemma filter_ok:
  assumes "tfm_ok C m"
  shows "tfm_ok C (tfm_filter C m t)"
proof -
  have "ms_count (tfm_set (tfm_filter C m t)) x = occurrences C (time_map (tfm_filter C m t)) x" for x
  proof -
    have "(\<Sum>c\<leftarrow>map snd (filter (\<lambda>(k, _). k < t) (time_map m)). count_list (iter_items C c) x)
        = occurrences C (filter (\<lambda>(k, _). k < t) (time_map m)) x"
      by (simp add: occurrences_def case_prod_unfold comp_def)
    then show ?thesis using assms occurrences_filter [of C "time_map m" x t]
      by (simp add: tfm_filter_def Let_def tfm_ok_def ms_count_fold_removed)
  qed
  then show ?thesis using assms
    by (auto simp: tfm_ok_def tfm_filter_def Let_def ms_ok_fold_removed
        intro: distinct_filter_map)
qed

lemma filter_holds:
  assumes "tfm_ok C m"
  shows "tfm_holds C (tfm_filter C m t) ts x \<longleftrightarrow> t \<le> ts \<and> tfm_holds C m ts x"
proof -
  have "map_of (filter (\<lambda>(k, _). \<not> k < t) (time_map m)) ts
      = (if t \<le> ts then map_of (time_map m) ts else None)"
    using map_of_filter_key [of "\<lambda>k. \<not> k < t" "time_map m" ts] by (auto simp: not_less)
  then show ?thesis by (simp add: tfm_holds_def tfm_filter_def Let_def)
qed

lemma contains_insert:
  "tfm_ok C m \<Longrightarrow> tfm_contains (tfm_insert C m ts v) v"
  by (auto simp: contains_iff [OF insert_ok] insert_holds)

lemma contains_filter:
  "tfm_ok C m \<Longrightarrow> tfm_contains (tfm_filter C m t) v \<longleftrightarrow> (\<exists>ts \<ge> t. tfm_holds C m ts v)"
  by (auto simp: contains_iff [OF filter_ok] filter_holds)

end

interpretation identity_c: container_laws identity_container
  by unfold_locales (simp add: identity_container_def)

interpretation hash_set_c: container_laws hash_set_container
  by unfold_locales (simp add: hash_set_container_def)

text \<open>Containers that can be appended to. Adding an item that is already in the container leaves it
  unchanged, so the laws about adding an item ask for a new one.\<close>

locale appending_laws = container_laws +
  assumes iter_default [simp]: "iter_items C (default_c C) = []"
    and iter_append_once [simp]: "v \<notin> set (iter_items C c) \<Longrightarrow>
      count_list (iter_items C (append_c C c (once C v))) x = count_list (iter_items C c) x + (if x = v then 1 else 0)"
begin

lemma iter_append_set:
  assumes "v \<notin> set (iter_items C c)"
  shows "x \<in> set (iter_items C (append_c C c (once C v))) \<longleftrightarrow> x = v \<or> x \<in> set (iter_items C c)"
proof -
  have "x \<in> set (iter_items C (append_c C c (once C v))) \<longleftrightarrow>
      0 < count_list (iter_items C (append_c C c (once C v))) x"
    using count_list_0_iff [of "iter_items C (append_c C c (once C v))" x] by auto
  also have "\<dots> \<longleftrightarrow> x = v \<or> x \<in> set (iter_items C c)" using assms count_list_0_iff [of "iter_items C c" x] by auto
  finally show ?thesis .
qed

lemma absent_items:
  "tfm_ok C m \<Longrightarrow> \<not> tfm_contains m v \<Longrightarrow> map_of (time_map m) ts = Some c \<Longrightarrow> v \<notin> set (iter_items C c)"
  using contains_iff by (auto simp: tfm_holds_def)

lemma upsert_one_ok:
  assumes "tfm_ok C m" "\<not> tfm_contains m v"
  shows "tfm_ok C (tfm_upsert_one C m ts v)"
proof -
  have "ms_count (tfm_set (tfm_upsert_one C m ts v)) x = occurrences C (time_map (tfm_upsert_one C m ts v)) x" for x
    using assms(1) absent_items [OF assms, of ts]
      occurrences_update [of C ts "append_c C (case map_of (time_map m) ts of Some c \<Rightarrow> c | None \<Rightarrow> default_c C) (once C v)"
        "time_map m" x]
    by (cases "map_of (time_map m) ts")
      (auto simp: tfm_upsert_one_def tfm_upsert_def tfm_ok_def)
  then show ?thesis using assms
    by (auto simp: tfm_ok_def tfm_upsert_one_def tfm_upsert_def Let_def distinct_update ms_ok_folds)
qed

lemma upsert_one_holds:
  assumes "tfm_ok C m" "\<not> tfm_contains m v"
  shows "tfm_holds C (tfm_upsert_one C m ts v) t x \<longleftrightarrow> t = ts \<and> x = v \<or> tfm_holds C m t x"
  using absent_items [OF assms, of ts]
  by (cases "map_of (time_map m) ts")
    (auto simp: tfm_holds_def tfm_upsert_one_def tfm_upsert_def Let_def update_conv' iter_append_set)

end

lemma count_list_insert_absent: "v \<notin> set xs \<Longrightarrow> count_list (List.insert v xs) x = count_list xs x + (if x = v then 1 else 0)"
  by simp

interpretation hash_set_a: appending_laws hash_set_container
  by unfold_locales (simp_all add: hash_set_container_def)

section \<open>Properties\<close>

text \<open>C40: after inserting and filtering, a time filter map contains exactly the items last inserted
  at a timestamp at or after the cutoff, and looking up a timestamp that is present returns the
  item inserted there.\<close>

theorem insert_filter_contains:
  assumes "tfm_ok identity_container m"
  shows "(tfm_contains (tfm_filter identity_container (tfm_insert identity_container m ts v) cutoff) x \<longleftrightarrow>
      x = v \<and> cutoff \<le> ts \<or> (\<exists>t \<ge> cutoff. t \<noteq> ts \<and> tfm_holds identity_container m t x)) \<and>
    tfm_get (tfm_insert identity_container m ts v) ts = Some v"
proof
  show "tfm_contains (tfm_filter identity_container (tfm_insert identity_container m ts v) cutoff) x \<longleftrightarrow>
      x = v \<and> cutoff \<le> ts \<or> (\<exists>t \<ge> cutoff. t \<noteq> ts \<and> tfm_holds identity_container m t x)"
    using assms by (auto simp: identity_c.contains_filter identity_c.insert_ok identity_c.insert_holds)
  show "tfm_get (tfm_insert identity_container m ts v) ts = Some v"
    by (simp add: tfm_get_def tfm_insert_def Let_def update_conv' identity_container_def)
qed

theorem insert_filter_contains_witness:
  "tfm_ok identity_container (tfm_new :: (nat, nat) time_filter_map) \<and>
   tfm_contains (tfm_filter identity_container (tfm_insert identity_container tfm_new 3 (8::nat)) 3) 8"
  using insert_filter_contains [OF identity_c.new_ok, of 3 "8::nat" 3 8] identity_c.new_ok by simp

text \<open>upserting the same item twice at one timestamp counts it twice although the container holds
  it once; filtering the timestamp out removes one of the two, and the item stays a member for ever.\<close>

theorem double_upsert_leaks:
  "let m = tfm_upsert_one hash_set_container (tfm_upsert_one hash_set_container tfm_new ts v) ts v;
       m' = tfm_filter hash_set_container m (ts + 1)
   in time_map m' = [] \<and> tfm_contains m' v"
  by (simp add: Let_def tfm_upsert_one_def tfm_upsert_def tfm_new_def ms_new_def hash_set_container_def
      tfm_filter_def tfm_contains_def ms_member_def ms_insert_def ms_count_def ms_remove_def ms_remove_n_def
      checked_sub_def)

end
