(* ===== verification/Replay_Protection.thy ===== *)
theory Replay_Protection
  imports Time_Filter
begin

text \<open>
  Replay protection of intents: \<^verbatim>\<open>ReplayProtectionState\<close> of \<^verbatim>\<open>ledger/src/structure.rs\<close> and its
  operations in \<^verbatim>\<open>ledger/src/semantics.rs\<close>. The hash of an intent (independent of its segment)
  and its time to live are function arguments; the history of a chain is a step relation whose
  clock never runs backwards.
\<close>

section \<open>State and operations\<close>

datatype transaction_application_error =
    IntentTtlExpired timestamp timestamp
  | IntentTtlTooFarInFuture timestamp timestamp
  | IntentAlreadyExists

type_synonym 'h replay_protection_state = "('h list, 'h) time_filter_map"

definition rp_new :: "'h replay_protection_state" where
  "rp_new = tfm_new"

definition apply_member ::
  "'h replay_protection_state \<Rightarrow> 'h \<Rightarrow> timestamp \<Rightarrow> timestamp \<Rightarrow> duration \<Rightarrow>
   (transaction_application_error, 'h replay_protection_state) result" where
  "apply_member rps hash ttl tblock global_ttl =
     (if tfm_contains rps hash then Err IntentAlreadyExists
      else if ttl < tblock then Err (IntentTtlExpired ttl tblock)
      else if ttl > ts_add tblock global_ttl
      then Err (IntentTtlTooFarInFuture ttl (ts_add tblock global_ttl))
      else Ok (tfm_upsert_one hash_set_container rps ttl hash))"

definition apply_intent ::
  "('i \<Rightarrow> 'h) \<Rightarrow> ('i \<Rightarrow> timestamp) \<Rightarrow> 'h replay_protection_state \<Rightarrow> 'i \<Rightarrow> timestamp \<Rightarrow> duration \<Rightarrow>
   (transaction_application_error, 'h replay_protection_state) result" where
  "apply_intent intent_hash ttl rps intent tblock global_ttl =
     apply_member rps (intent_hash intent) (ttl intent) tblock global_ttl"

definition rp_apply_tx ::
  "('i \<Rightarrow> 'h) \<Rightarrow> ('i \<Rightarrow> timestamp) \<Rightarrow> 'h replay_protection_state \<Rightarrow> 'i list \<Rightarrow> timestamp \<Rightarrow> duration \<Rightarrow>
   (transaction_application_error, 'h replay_protection_state) result" where
  "rp_apply_tx intent_hash ttl rps intents tblock global_ttl =
     try_fold (\<lambda>st intent. apply_intent intent_hash ttl st intent tblock global_ttl) rps intents"

definition rp_post_block_update :: "'h replay_protection_state \<Rightarrow> timestamp \<Rightarrow> 'h replay_protection_state" where
  "rp_post_block_update rps tblock = tfm_filter hash_set_container rps tblock"

definition ttl_check_weak ::
  "('i \<Rightarrow> timestamp) \<Rightarrow> 'i list \<Rightarrow> timestamp \<Rightarrow> duration \<Rightarrow> (transaction_application_error, unit) result" where
  "ttl_check_weak ttl intents tblock global_ttl =
     try_fold (\<lambda>_ intent.
        if ttl intent < tblock then Err (IntentTtlExpired (ttl intent) tblock)
        else if ttl intent > ts_add tblock global_ttl
        then Err (IntentTtlTooFarInFuture (ttl intent) (ts_add tblock global_ttl))
        else Ok ()) () intents"

section \<open>Histories\<close>

text \<open>A history: the clock, the state and the intents accepted so far. The transactions of a block
  are applied at its time, the block ends by pruning at that time, and a later block has a later or
  equal time.\<close>

inductive rp_reaches ::
  "('i \<Rightarrow> 'h) \<Rightarrow> ('i \<Rightarrow> timestamp) \<Rightarrow> duration \<Rightarrow> timestamp \<Rightarrow> 'h replay_protection_state \<Rightarrow> 'i list \<Rightarrow> bool"
  for hash :: "'i \<Rightarrow> 'h" and ttl :: "'i \<Rightarrow> timestamp" and global_ttl :: duration where
  start: "rp_reaches hash ttl global_ttl now rp_new []"
| transaction: "rp_reaches hash ttl global_ttl now rps acc \<Longrightarrow>
    rp_apply_tx hash ttl rps intents now global_ttl = Ok rps' \<Longrightarrow>
    rp_reaches hash ttl global_ttl now rps' (acc @ intents)"
| end_block: "rp_reaches hash ttl global_ttl now rps acc \<Longrightarrow>
    rp_reaches hash ttl global_ttl now (rp_post_block_update rps now) acc"
| next_block: "rp_reaches hash ttl global_ttl now rps acc \<Longrightarrow> now \<le> now' \<Longrightarrow>
    rp_reaches hash ttl global_ttl now' rps acc"

section \<open>Invariant\<close>

text \<open>The state records, under their times to live, only accepted intents, and all accepted intents
  that have not expired.\<close>

definition rp_inv ::
  "('i \<Rightarrow> 'h) \<Rightarrow> ('i \<Rightarrow> timestamp) \<Rightarrow> timestamp \<Rightarrow> 'h replay_protection_state \<Rightarrow> 'i list \<Rightarrow> bool" where
  "rp_inv hash ttl now rps acc \<longleftrightarrow> tfm_ok hash_set_container rps \<and> distinct (map hash acc) \<and>
     (\<forall>t h. tfm_holds hash_set_container rps t h \<longrightarrow> (\<exists>i \<in> set acc. hash i = h \<and> ttl i = t)) \<and>
     (\<forall>i \<in> set acc. now \<le> ttl i \<longrightarrow> tfm_holds hash_set_container rps (ttl i) (hash i))"

lemma apply_member_Ok:
  "apply_member rps h ttl now g = Ok rps' \<longleftrightarrow> \<not> tfm_contains rps h \<and> now \<le> ttl \<and> ttl \<le> ts_add now g \<and>
     rps' = tfm_upsert_one hash_set_container rps ttl h"
  by (auto simp: apply_member_def)

lemma rp_inv_apply_intent:
  assumes "rp_inv hash ttl now rps acc" "\<forall>i j. hash i = hash j \<longrightarrow> ttl i = ttl j"
    and "apply_intent hash ttl rps i now g = Ok rps'"
  shows "rp_inv hash ttl now rps' (acc @ [i])"
proof -
  have ok: "tfm_ok hash_set_container rps" and absent: "\<not> tfm_contains rps (hash i)" and now: "now \<le> ttl i"
    and rps': "rps' = tfm_upsert_one hash_set_container rps (ttl i) (hash i)"
    using assms(1,3) by (auto simp: rp_inv_def apply_intent_def apply_member_Ok)
  have "hash i \<noteq> hash j" if "j \<in> set acc" for j
  proof
    assume eq: "hash i = hash j"
    then have "now \<le> ttl j" using assms(2) now by metis
    then have "tfm_holds hash_set_container rps (ttl j) (hash j)" using assms(1) that by (simp add: rp_inv_def)
    then show False using absent eq by (auto simp: hash_set_c.contains_iff [OF ok])
  qed
  then show ?thesis using assms(1) hash_set_a.upsert_one_ok [OF ok absent]
    by (auto simp: rp_inv_def rps' hash_set_a.upsert_one_holds [OF ok absent])
qed

lemma rp_inv_apply_tx:
  assumes "\<forall>i j. hash i = hash j \<longrightarrow> ttl i = ttl j"
  shows "rp_inv hash ttl now rps acc \<Longrightarrow> rp_apply_tx hash ttl rps intents now g = Ok rps' \<Longrightarrow>
    rp_inv hash ttl now rps' (acc @ intents)"
proof (induction intents arbitrary: rps acc)
  case (Cons i intents)
  then obtain rps1 where "apply_intent hash ttl rps i now g = Ok rps1"
    "rp_apply_tx hash ttl rps1 intents now g = Ok rps'"
    by (auto simp: rp_apply_tx_def result_simps)
  with Cons.IH [OF rp_inv_apply_intent [OF Cons.prems(1) assms]] show ?case by simp
qed (simp add: rp_apply_tx_def)

lemma rp_inv_reaches:
  assumes "rp_reaches hash ttl g now rps acc" "\<forall>i j. hash i = hash j \<longrightarrow> ttl i = ttl j"
  shows "rp_inv hash ttl now rps acc"
  using assms(1)
proof induction
  case (start now)
  then show ?case by (simp add: rp_inv_def rp_new_def hash_set_c.new_ok) (simp add: tfm_holds_def tfm_new_def)
next
  case (transaction now rps acc intents rps')
  then show ?case using rp_inv_apply_tx [OF assms(2)] by blast
next
  case (end_block now rps acc)
  then have "tfm_ok hash_set_container rps" by (simp add: rp_inv_def)
  with end_block show ?case
    by (auto simp: rp_inv_def rp_post_block_update_def hash_set_c.filter_ok hash_set_c.filter_holds)
next
  case (next_block now rps acc now')
  then show ?case by (auto simp: rp_inv_def)
qed

section \<open>Properties\<close>

text \<open>C26: over the whole history of a chain no intent is accepted twice, although the state forgets
  expired ones, provided the hash of an intent determines its time to live.\<close>

theorem intent_accepted_once:
  assumes "rp_reaches hash ttl g now rps acc" "\<forall>i j. hash i = hash j \<longrightarrow> ttl i = ttl j"
  shows "distinct (map hash acc)"
  using rp_inv_reaches [OF assms] by (simp add: rp_inv_def)

text \<open>an intent that was not accepted before and whose time to live lies between the time of the
  block and the end of the global window is accepted: no history makes the state refuse it.\<close>

theorem fresh_intent_accepted:
  assumes "rp_reaches hash ttl g now rps acc" "\<forall>i j. hash i = hash j \<longrightarrow> ttl i = ttl j"
    and "\<forall>j \<in> set acc. hash j \<noteq> hash i" "now \<le> ttl i" "ttl i \<le> ts_add now g"
  shows "\<exists>rps'. apply_intent hash ttl rps i now g = Ok rps'"
proof -
  have inv: "rp_inv hash ttl now rps acc" by (rule rp_inv_reaches [OF assms(1,2)])
  then have "\<not> tfm_contains rps (hash i)"
    using hash_set_c.contains_iff [of rps "hash i"] assms(3) unfolding rp_inv_def by metis
  then show ?thesis using assms(4,5) by (auto simp: apply_intent_def apply_member_Ok)
qed

text \<open>the states stay small: after a block only intents that have not expired at its time are
  remembered, each of them accepted before.\<close>

theorem replay_state_pruned:
  assumes "rp_reaches hash ttl g now rps acc" "\<forall>i j. hash i = hash j \<longrightarrow> ttl i = ttl j"
  shows "tfm_contains (rp_post_block_update rps now) h \<longleftrightarrow> (\<exists>i \<in> set acc. hash i = h \<and> now \<le> ttl i)"
proof -
  have inv: "rp_inv hash ttl now rps acc" by (rule rp_inv_reaches [OF assms])
  then have "tfm_contains (rp_post_block_update rps now) h \<longleftrightarrow> (\<exists>t \<ge> now. tfm_holds hash_set_container rps t h)"
    by (simp add: rp_post_block_update_def rp_inv_def hash_set_c.contains_filter)
  also have "\<dots> \<longleftrightarrow> (\<exists>i \<in> set acc. hash i = h \<and> now \<le> ttl i)"
    using inv by (fastforce simp: rp_inv_def)
  finally show ?thesis .
qed

lemma sample_history:
  "rp_reaches (\<lambda>i. i) (\<lambda>i. i + 10) 100 7 (tfm_upsert_one hash_set_container rp_new 15 5) [5::nat]"
proof -
  have "rp_apply_tx (\<lambda>i. i) (\<lambda>i. i + 10) rp_new [5::nat] 7 100 = Ok (tfm_upsert_one hash_set_container rp_new 15 5)"
    by (simp add: rp_apply_tx_def apply_intent_def apply_member_def tfm_contains_def rp_new_def tfm_new_def
        ms_new_def ms_member_def ts_add_def sat_add_def int_bounds)
  from rp_reaches.transaction [OF rp_reaches.start this] show ?thesis by simp
qed

theorem intent_accepted_once_witness:
  "rp_reaches (\<lambda>i. i) (\<lambda>i. i + 10) 100 7 (tfm_upsert_one hash_set_container rp_new 15 5) [5::nat] \<and>
   distinct (map (\<lambda>i. i) [5::nat])"
  using intent_accepted_once [OF sample_history] sample_history by simp

theorem fresh_intent_accepted_witness:
  "\<exists>rps'. apply_intent (\<lambda>i. i) (\<lambda>i. i + 10) (tfm_upsert_one hash_set_container rp_new 15 5) (6::nat) 7 100 = Ok rps'"
  by (rule fresh_intent_accepted [OF sample_history]) (simp_all add: ts_add_def sat_add_def int_bounds)

theorem replay_state_pruned_witness:
  "tfm_contains (rp_post_block_update (tfm_upsert_one hash_set_container rp_new 15 5) 7) (5::nat)"
  using replay_state_pruned [OF sample_history, of 5] by simp

end
