(* ===== verification/Zswap_State.thy ===== *)
theory Zswap_State
  imports Merkle_Tree Time_Filter
begin

text \<open>
  The shielded (Zswap) state: the ledger side of \<^verbatim>\<open>zswap/src/ledger.rs\<close> (commitment tree,
  nullifier set and root history) and the wallet side of \<^verbatim>\<open>zswap/src/local.rs\<close> (own coins and
  a blinded copy of the tree).

  Commitments are the hash outputs \<^typ>\<open>'h\<close> stored in the tree; nullifiers, roots, contract
  addresses, ciphertexts, coins and keys are type parameters. What depends on the keys of a
  wallet (decryption, commitments and nullifiers of coins) is the record \<^verbatim>\<open>wallet_keys\<close>. The
  value commitments and proofs of an offer are not read by these operations.
\<close>

section \<open>Offers\<close>

record ('n, 'f, 'c, 'm) z_input =
  zi_nullifier :: 'n
  zi_contract_address :: "'c option"
  zi_merkle_tree_root :: 'f
  zi_memo :: "'m option"

record ('h, 'c, 'x) z_output =
  zo_coin_com :: 'h
  zo_contract_address :: "'c option"
  zo_ciphertext :: "'x option"

record ('n, 'h, 'c, 'x) z_transient =
  zt_nullifier :: 'n
  zt_coin_com :: 'h
  zt_contract_address :: "'c option"
  zt_ciphertext :: "'x option"

record ('i, 'o, 't, 'k) offer =
  inputs :: "'i list"
  outputs :: "'o list"
  transients :: "'t list"
  deltas :: "('k \<times> int) list"

type_synonym ('n, 'h, 'f, 'c, 'm, 'x, 'k) z_offer =
  "(('n, 'f, 'c, 'm) z_input, ('h, 'c, 'x) z_output, ('n, 'h, 'c, 'x) z_transient, 'k) offer"

section \<open>The ledger state\<close>

datatype ('n, 'h, 'f) transaction_invalid =
    NullifierAlreadyPresent 'n
  | CommitmentAlreadyPresent 'h
  | UnknownMerkleRoot 'f
  | MerkleTreeError invalid_update

record ('n, 'h, 'f, 'c) z_state =
  coin_coms :: "('h, 'f, 'c option) mt_node"
  coin_coms_set :: "'h set"
  first_free :: nat
  nullifiers :: "'n set"
  past_roots :: "('f, 'f) time_filter_map"

definition ZSWAP_TREE_HEIGHT :: nat where "ZSWAP_TREE_HEIGHT = 32"

definition zs_new :: "('n, 'h, 'f, 'c) z_state" where
  "zs_new = \<lparr>coin_coms = mt_blank ZSWAP_TREE_HEIGHT, coin_coms_set = {}, first_free = 0,
     nullifiers = {}, past_roots = tfm_new\<rparr>"

fun on_whitelist :: "'c set option \<Rightarrow> 'c option \<Rightarrow> bool" where
  "on_whitelist (Some list) (Some addr) = (addr \<in> list)"
| "on_whitelist (Some _) None = False"
| "on_whitelist None _ = True"

definition apply_input ::
  "('n, 'h, 'f, 'c) z_state \<Rightarrow> ('n, 'f, 'c, 'm) z_input \<Rightarrow> 'c set option \<Rightarrow>
   (('n, 'h, 'f) transaction_invalid, ('n, 'h, 'f, 'c) z_state) result" where
  "apply_input s inp whitelist =
     (if \<not> tfm_contains (past_roots s) (zi_merkle_tree_root inp)
      then Err (UnknownMerkleRoot (zi_merkle_tree_root inp))
      else if zi_nullifier inp \<in> nullifiers s then Err (NullifierAlreadyPresent (zi_nullifier inp))
      else if on_whitelist whitelist (zi_contract_address inp)
      then Ok (s\<lparr>nullifiers := insert (zi_nullifier inp) (nullifiers s)\<rparr>)
      else Ok s)"

text \<open>The insertion of a commitment shared by \<^verbatim>\<open>apply_output\<close> and \<^verbatim>\<open>apply_transient\<close>.\<close>

definition insert_commitment ::
  "('h, 'f) hashing \<Rightarrow> ('n, 'h, 'f, 'c) z_state \<Rightarrow> 'h \<Rightarrow> 'c option \<Rightarrow> 'c set option \<Rightarrow>
   (('n, 'h, 'f) transaction_invalid, ('n, 'h, 'f, 'c) z_state \<times> 'h \<times> nat) result" where
  "insert_commitment H s coin_com contract_address whitelist =
     and_then (map_err MerkleTreeError (try_update_hash (coin_coms s) (first_free s) coin_com contract_address))
       (\<lambda>tree.
          let tree' = (if \<not> on_whitelist whitelist contract_address
                       then mt_collapse H tree (first_free s) (first_free s) else tree)
          in Ok (s\<lparr>coin_coms := tree', coin_coms_set := insert coin_com (coin_coms_set s),
                   first_free := first_free s + 1\<rparr>, coin_com, first_free s))"

definition apply_output ::
  "('h, 'f) hashing \<Rightarrow> ('n, 'h, 'f, 'c) z_state \<Rightarrow> ('h, 'c, 'x) z_output \<Rightarrow> 'c set option \<Rightarrow>
   (('n, 'h, 'f) transaction_invalid, ('n, 'h, 'f, 'c) z_state \<times> 'h \<times> nat) result" where
  "apply_output H s out whitelist =
     (if zo_coin_com out \<in> coin_coms_set s then Err (CommitmentAlreadyPresent (zo_coin_com out))
      else insert_commitment H s (zo_coin_com out) (zo_contract_address out) whitelist)"

definition apply_transient ::
  "('h, 'f) hashing \<Rightarrow> ('n, 'h, 'f, 'c) z_state \<Rightarrow> ('n, 'h, 'c, 'x) z_transient \<Rightarrow> 'c set option \<Rightarrow>
   (('n, 'h, 'f) transaction_invalid, ('n, 'h, 'f, 'c) z_state \<times> 'h \<times> nat) result" where
  "apply_transient H s tr whitelist =
     (if zt_coin_com tr \<in> coin_coms_set s then Err (CommitmentAlreadyPresent (zt_coin_com tr))
      else if zt_nullifier tr \<in> nullifiers s then Err (NullifierAlreadyPresent (zt_nullifier tr))
      else
        let s' = (if on_whitelist whitelist (zt_contract_address tr)
                  then s\<lparr>nullifiers := insert (zt_nullifier tr) (nullifiers s)\<rparr> else s)
        in insert_commitment H s' (zt_coin_com tr) (zt_contract_address tr) whitelist)"

text \<open>The loop bodies of \<^verbatim>\<open>try_apply\<close> over the outputs and the transients.\<close>

definition output_step ::
  "('h, 'f) hashing \<Rightarrow> 'c set option \<Rightarrow> ('n, 'h, 'f, 'c) z_state \<times> ('h \<rightharpoonup> nat) \<Rightarrow> ('h, 'c, 'x) z_output \<Rightarrow>
   (('n, 'h, 'f) transaction_invalid, ('n, 'h, 'f, 'c) z_state \<times> ('h \<rightharpoonup> nat)) result" where
  "output_step H whitelist = (\<lambda>(st, indicies) out.
     and_then (apply_output H st out whitelist) (\<lambda>(st', com, index). Ok (st', indicies(com \<mapsto> index))))"

definition transient_step ::
  "('h, 'f) hashing \<Rightarrow> 'c set option \<Rightarrow> ('n, 'h, 'f, 'c) z_state \<times> ('h \<rightharpoonup> nat) \<Rightarrow> ('n, 'h, 'c, 'x) z_transient \<Rightarrow>
   (('n, 'h, 'f) transaction_invalid, ('n, 'h, 'f, 'c) z_state \<times> ('h \<rightharpoonup> nat)) result" where
  "transient_step H whitelist = (\<lambda>(st, indicies) tr.
     and_then (apply_transient H st tr whitelist) (\<lambda>(st', com, index). Ok (st', indicies(com \<mapsto> index))))"

definition try_apply ::
  "('h, 'f) hashing \<Rightarrow> ('n, 'h, 'f, 'c) z_state \<Rightarrow> ('n, 'h, 'f, 'c, 'm, 'x, 'k) z_offer \<Rightarrow> 'c set option \<Rightarrow>
   (('n, 'h, 'f) transaction_invalid, ('n, 'h, 'f, 'c) z_state \<times> ('h \<rightharpoonup> nat)) result" where
  "try_apply H s ofr whitelist =
     and_then (try_fold (\<lambda>st inp. apply_input st inp whitelist) s (inputs ofr)) (\<lambda>s1.
     and_then (try_fold (output_step H whitelist) (s1, Map.empty) (outputs ofr)) (\<lambda>s2.
     try_fold (transient_step H whitelist) s2 (transients ofr)))"

definition zs_post_block_update ::
  "('h, 'f) hashing \<Rightarrow> ('n, 'h, 'f, 'c) z_state \<Rightarrow> timestamp \<Rightarrow> duration \<Rightarrow> ('n, 'h, 'f, 'c) z_state" where
  "zs_post_block_update H s tblock retention_duration =
     (let tree = mt_rehash H (coin_coms s);
          roots = tfm_insert identity_container (past_roots s) tblock (the (mt_root H tree))
      in s\<lparr>coin_coms := tree,
           past_roots := tfm_filter identity_container roots (ts_sub tblock retention_duration)\<rparr>)"

section \<open>The wallet state\<close>

record ('pk, 'ci, 'x, 'h, 'n) wallet_keys =
  coin_public_key :: 'pk
  try_decrypt :: "'x \<Rightarrow> 'ci option"
  commitment :: "'ci \<Rightarrow> 'pk \<Rightarrow> 'h"
  nullifier :: "'ci \<Rightarrow> 'n"

text \<open>A qualified coin is a coin with its index in the commitment tree.\<close>

type_synonym 'ci qualified_coin_info = "'ci \<times> nat"

record ('n, 'ci, 'h, 'f) local_state =
  coins :: "'n \<rightharpoonup> 'ci qualified_coin_info"
  pending_spends :: "'n \<rightharpoonup> 'ci qualified_coin_info"
  pending_outputs :: "'h \<rightharpoonup> 'ci"
  merkle_tree :: "('h, 'f, unit) mt_node"
  l_first_free :: nat

definition l_new :: "('n, 'ci, 'h, 'f) local_state" where
  "l_new = \<lparr>coins = Map.empty, pending_spends = Map.empty, pending_outputs = Map.empty,
     merkle_tree = mt_blank ZSWAP_TREE_HEIGHT, l_first_free = 0\<rparr>"

definition l_apply_collapsed_update ::
  "('h, 'f) hashing \<Rightarrow> ('n, 'ci, 'h, 'f) local_state \<Rightarrow> 'f collapsed_update \<Rightarrow>
   (invalid_update, ('n, 'ci, 'h, 'f) local_state) result" where
  "l_apply_collapsed_update H l update =
     map_ok (\<lambda>tree. l\<lparr>merkle_tree := mt_rehash H tree, l_first_free := max (l_first_free l) (cu_end update + 1)\<rparr>)
       (apply_collapsed_update (merkle_tree l) update)"

definition l_insert_coin ::
  "('h, 'f) hashing \<Rightarrow> ('pk, 'ci, 'x, 'h, 'n) wallet_keys \<Rightarrow> ('n, 'ci, 'h, 'f) local_state \<Rightarrow> 'ci \<Rightarrow>
   (invalid_update, ('n, 'ci, 'h, 'f) local_state) result" where
  "l_insert_coin H K l coin =
     map_ok (\<lambda>tree. l\<lparr>coins := (coins l)(nullifier K coin \<mapsto> (coin, l_first_free l)),
                      merkle_tree := mt_rehash H tree, l_first_free := l_first_free l + 1\<rparr>)
       (try_update_hash (merkle_tree l) (l_first_free l) (commitment K coin (coin_public_key K)) ())"

definition l_remove_coin_by_nullifier ::
  "('n, 'ci, 'h, 'f) local_state \<Rightarrow> 'n \<Rightarrow> ('n, 'ci, 'h, 'f) local_state" where
  "l_remove_coin_by_nullifier l nul =
     l\<lparr>coins := (coins l)(nul := None), pending_spends := (pending_spends l)(nul := None)\<rparr>"

text \<open>For a claim of someone else the source calls \<^verbatim>\<open>collapse\<close> and drops the collapsed tree.\<close>

definition l_apply_claim ::
  "('h, 'f) hashing \<Rightarrow> ('pk, 'ci, 'x, 'h, 'n) wallet_keys \<Rightarrow> ('n, 'ci, 'h, 'f) local_state \<Rightarrow> 'ci \<Rightarrow> 'pk \<Rightarrow>
   (invalid_update, ('n, 'ci, 'h, 'f) local_state) result" where
  "l_apply_claim H K l coin recipient =
     map_ok (\<lambda>tree.
        let l1 = l\<lparr>merkle_tree := mt_rehash H tree\<rparr>;
            l2 = (if coin_public_key K = recipient
                  then l1\<lparr>coins := (coins l)(nullifier K coin \<mapsto> (coin, l_first_free l))\<rparr>
                  else let _ = mt_collapse H (merkle_tree l1) (l_first_free l) (l_first_free l) in l1)
        in l2\<lparr>l_first_free := l_first_free l + 1\<rparr>)
       (try_update_hash (merkle_tree l) (l_first_free l) (commitment K coin recipient) ())"

definition offer_nullifiers :: "('n, 'h, 'f, 'c, 'm, 'x, 'k) z_offer \<Rightarrow> 'n list" where
  "offer_nullifiers ofr = map zi_nullifier (inputs ofr) @ map zt_nullifier (transients ofr)"

definition offer_commitments :: "('n, 'h, 'f, 'c, 'm, 'x, 'k) z_offer \<Rightarrow> ('h \<times> 'x option) list" where
  "offer_commitments ofr =
     map (\<lambda>out. (zo_coin_com out, zo_ciphertext out)) (outputs ofr) @
     map (\<lambda>io. (zt_coin_com io, zt_ciphertext io)) (transients ofr)"

definition l_apply_failed ::
  "('n, 'ci, 'h, 'f) local_state \<Rightarrow> ('n, 'h, 'f, 'c, 'm, 'x, 'k) z_offer \<Rightarrow> ('n, 'ci, 'h, 'f) local_state" where
  "l_apply_failed l tx =
     (let l1 = fold (\<lambda>nul r. r\<lparr>pending_spends := (pending_spends r)(nul := None)\<rparr>) (offer_nullifiers tx) l
      in fold (\<lambda>com r. r\<lparr>pending_outputs := (pending_outputs r)(com := None)\<rparr>)
           (map fst (offer_commitments tx)) l1)"

text \<open>One iteration of each loop of \<^verbatim>\<open>apply\<close>.\<close>

definition l_receive ::
  "('h, 'f) hashing \<Rightarrow> ('pk, 'ci, 'x, 'h, 'n) wallet_keys \<Rightarrow> ('n, 'ci, 'h, 'f) local_state \<Rightarrow> 'h \<times> 'x option \<Rightarrow>
   (invalid_update, ('n, 'ci, 'h, 'f) local_state) result" where
  "l_receive H K res = (\<lambda>(coin_com, ciph).
     map_ok (\<lambda>tree.
        let res1 = res\<lparr>merkle_tree := tree\<rparr>;
            res2 = (case Option.bind ciph (try_decrypt K) of
                Some ci \<Rightarrow>
                  (if commitment K ci (coin_public_key K) = coin_com
                   then res1\<lparr>coins := (coins res1)(nullifier K ci \<mapsto> (ci, l_first_free res1)),
                             pending_outputs := (pending_outputs res1)(coin_com := None)\<rparr>
                   else res1)
              | None \<Rightarrow>
                  (case pending_outputs res1 coin_com of
                     Some coin \<Rightarrow>
                       res1\<lparr>coins := (coins res1)(nullifier K coin \<mapsto> (coin, l_first_free res1)),
                            pending_outputs := (pending_outputs res1)(coin_com := None)\<rparr>
                   | None \<Rightarrow>
                       res1\<lparr>merkle_tree :=
                         mt_collapse H (merkle_tree res1) (l_first_free res1) (l_first_free res1)\<rparr>))
        in res2\<lparr>l_first_free := l_first_free res2 + 1\<rparr>)
       (try_update_hash (merkle_tree res) (l_first_free res) coin_com ()))"

definition l_spend_nullifier ::
  "'n \<Rightarrow> ('n, 'ci, 'h, 'f) local_state \<Rightarrow> ('n, 'ci, 'h, 'f) local_state" where
  "l_spend_nullifier nul res =
     (let res1 = (if coins res nul \<noteq> None then res\<lparr>coins := (coins res)(nul := None)\<rparr> else res)
      in if pending_spends res1 nul \<noteq> None
         then res1\<lparr>pending_spends := (pending_spends res1)(nul := None)\<rparr> else res1)"

definition l_apply ::
  "('h, 'f) hashing \<Rightarrow> ('pk, 'ci, 'x, 'h, 'n) wallet_keys \<Rightarrow> ('n, 'ci, 'h, 'f) local_state \<Rightarrow>
   ('n, 'h, 'f, 'c, 'm, 'x, 'k) z_offer \<Rightarrow> (invalid_update, ('n, 'ci, 'h, 'f) local_state) result" where
  "l_apply H K l tx =
     map_ok (\<lambda>res.
        let res1 = fold l_spend_nullifier (offer_nullifiers tx) res
        in res1\<lparr>merkle_tree := mt_rehash H (merkle_tree res1)\<rparr>)
       (try_fold (l_receive H K) l (offer_commitments tx))"

definition l_watch_for ::
  "('pk, 'ci, 'x, 'h, 'n) wallet_keys \<Rightarrow> ('n, 'ci, 'h, 'f) local_state \<Rightarrow> 'pk \<Rightarrow> 'ci \<Rightarrow>
   ('n, 'ci, 'h, 'f) local_state" where
  "l_watch_for K l pk coin =
     l\<lparr>pending_outputs := (pending_outputs l)(commitment K coin pk \<mapsto> coin)\<rparr>"

section \<open>The invariant of the ledger state\<close>

text \<open>Of a full node (no whitelist): the tree holds exactly the commitments of the set, each
  once, at the indices below the first free one.\<close>

definition zs_inv :: "('n, 'h, 'f, 'c) z_state \<Rightarrow> bool" where
  "zs_inv s \<longleftrightarrow> mt_balanced (coin_coms s) \<and> first_free s \<le> 2 ^ mt_height (coin_coms s) \<and>
     (\<forall>i < 2 ^ mt_height (coin_coms s). \<not> mt_collapsed_at (coin_coms s) i \<and>
        (mt_index (coin_coms s) i \<noteq> None \<longleftrightarrow> i < first_free s)) \<and>
     coin_coms_set s = {x. \<exists>i a. i < first_free s \<and> mt_index (coin_coms s) i = Some (x, a)} \<and>
     (\<forall>i j x a b. i < first_free s \<longrightarrow> j < first_free s \<longrightarrow> mt_index (coin_coms s) i = Some (x, a) \<longrightarrow>
        mt_index (coin_coms s) j = Some (x, b) \<longrightarrow> i = j)"

lemma zs_inv_new [simp]: "zs_inv zs_new"
  by (simp add: zs_inv_def zs_new_def mt_blank_def)

lemma zs_inv_nullifiers [simp]: "zs_inv (s\<lparr>nullifiers := ns\<rparr>) = zs_inv s"
  by (simp add: zs_inv_def)

text \<open>Appending leaves to a tree.\<close>

fun mt_append :: "('h, 'f, 'a) mt_node \<Rightarrow> nat \<Rightarrow> ('h \<times> 'a) list \<Rightarrow> ('h, 'f, 'a) mt_node" where
  "mt_append t n [] = t"
| "mt_append t n ((x, a) # xs) = mt_append (mt_set t n x a) (n + 1) xs"

lemma mt_append_append: "mt_append t n (xs @ ys) = mt_append (mt_append t n xs) (n + length xs) ys"
  by (induction t n xs rule: mt_append.induct) auto

text \<open>The effect of a part of an offer on the state and on the index map: commitments \<open>xs\<close> are
  appended and nullifiers \<open>ns\<close> spent.\<close>

definition evolves ::
  "('n, 'h, 'f, 'c) z_state \<Rightarrow> ('h \<rightharpoonup> nat) \<Rightarrow> ('n, 'h, 'f, 'c) z_state \<Rightarrow> ('h \<rightharpoonup> nat) \<Rightarrow>
   ('h \<times> 'c option) list \<Rightarrow> 'n list \<Rightarrow> bool" where
  "evolves s m s' m' xs ns \<longleftrightarrow>
     coin_coms s' = mt_append (coin_coms s) (first_free s) xs \<and>
     first_free s' = first_free s + length xs \<and>
     distinct (map fst xs) \<and> fst ` set xs \<inter> coin_coms_set s = {} \<and>
     coin_coms_set s' = coin_coms_set s \<union> fst ` set xs \<and>
     (\<forall>k < length xs. m' (fst (xs ! k)) = Some (first_free s + k)) \<and>
     (\<forall>x. x \<notin> fst ` set xs \<longrightarrow> m' x = m x) \<and>
     distinct ns \<and> set ns \<inter> nullifiers s = {} \<and> nullifiers s' = nullifiers s \<union> set ns \<and>
     past_roots s' = past_roots s"

lemma evolves_refl: "evolves s m s m [] []"
  by (simp add: evolves_def)

lemma evolves_trans:
  assumes "evolves s m s1 m1 xs ns" "evolves s1 m1 s2 m2 ys ms"
  shows "evolves s m s2 m2 (xs @ ys) (ns @ ms)"
proof -
  have "m2 (fst ((xs @ ys) ! k)) = Some (first_free s + k)" if "k < length (xs @ ys)" for k
  proof (cases "k < length xs")
    case True
    then have "xs ! k \<in> set xs" by simp
    then have "fst (xs ! k) \<notin> fst ` set ys" using assms by (auto simp: evolves_def)
    with True show ?thesis using assms by (simp add: nth_append evolves_def)
  next
    case False
    with that have "k - length xs < length ys" by simp
    then have "m2 (fst (ys ! (k - length xs))) = Some (first_free s1 + (k - length xs))"
      using assms(2) by (simp add: evolves_def)
    then show ?thesis using False assms(1) by (simp add: nth_append evolves_def)
  qed
  then show ?thesis using assms by (auto simp: evolves_def mt_append_append image_Un)
qed

lemma zs_inv_append:
  assumes "zs_inv s" "x \<notin> coin_coms_set s" "first_free s < 2 ^ mt_height (coin_coms s)"
    and "coin_coms s' = mt_set (coin_coms s) (first_free s) x a" "first_free s' = first_free s + 1"
    and "coin_coms_set s' = insert x (coin_coms_set s)"
  shows "zs_inv s'"
proof -
  let ?t = "coin_coms s" and ?n = "first_free s"
  note inv = assms(1) [unfolded zs_inv_def]
  have nc: "\<not> mt_collapsed_at ?t ?n" using inv assms(3) by blast
  have idx: "mt_index (coin_coms s') i = (if i = ?n then Some (x, a) else mt_index ?t i)"
    if "i < 2 ^ mt_height ?t" for i
    using that assms(3,4) inv nc by (simp add: mt_index_set_same mt_index_set_other)
  have fresh: "mt_index ?t i \<noteq> Some (x, b)" if "i < ?n" for i b
    using assms(2) inv that by auto
  have "coin_coms_set s' = {y. \<exists>i a. i < first_free s' \<and> mt_index (coin_coms s') i = Some (y, a)}"
    using inv assms(3,5,6) idx by (auto simp: less_Suc_eq)
  moreover have "i = j" if "i < first_free s'" "j < first_free s'"
    "mt_index (coin_coms s') i = Some (y, b)" "mt_index (coin_coms s') j = Some (y, c)" for i j y b c
  proof -
    have ij: "i \<le> ?n" "j \<le> ?n" using that assms(5) by auto
    have "if i = ?n then y = x else mt_index ?t i = Some (y, b) \<and> i < ?n"
      and "if j = ?n then y = x else mt_index ?t j = Some (y, c) \<and> j < ?n"
      using that(3,4) idx [of i] idx [of j] ij assms(3) by auto
    then show ?thesis using fresh inv by (metis (no_types, lifting))
  qed
  moreover have "\<not> mt_collapsed_at (coin_coms s') i \<and> (mt_index (coin_coms s') i \<noteq> None \<longleftrightarrow> i < first_free s')"
    if "i < 2 ^ mt_height ?t" for i
    using that idx [OF that] inv assms(3,4,5) by (auto simp: mt_collapsed_at_set)
  ultimately show ?thesis using inv assms(3,4,5) unfolding zs_inv_def by auto
qed

lemma insert_commitment_evolves:
  assumes "insert_commitment H s x a None = Ok (s', c, i)" "zs_inv s" "x \<notin> coin_coms_set s"
  shows "zs_inv s' \<and> evolves s m s' (m(c \<mapsto> i)) [(x, a)] []"
proof -
  have bal: "mt_balanced (coin_coms s)" using assms(2) by (simp add: zs_inv_def)
  from assms(1) have s': "s' = s\<lparr>coin_coms := mt_set (coin_coms s) (first_free s) x a,
      coin_coms_set := insert x (coin_coms_set s), first_free := first_free s + 1\<rparr>" "c = x"
    "i = first_free s" "first_free s < 2 ^ mt_height (coin_coms s)"
    by (auto simp: insert_commitment_def result_simps try_update_hash_iff [OF bal])
  have "zs_inv s'" by (rule zs_inv_append [OF assms(2,3) s'(4)]) (simp_all add: s')
  then show ?thesis using assms(3) by (simp add: s' evolves_def)
qed

lemma apply_input_evolves:
  "apply_input s inp None = Ok s' \<Longrightarrow> zs_inv s \<Longrightarrow>
   zs_inv s' \<and> evolves s m s' m [] [zi_nullifier inp] \<and> tfm_contains (past_roots s) (zi_merkle_tree_root inp)"
  by (auto simp: apply_input_def evolves_def split: if_splits)

lemma apply_output_evolves:
  "apply_output H s out None = Ok (s', c, i) \<Longrightarrow> zs_inv s \<Longrightarrow>
   zs_inv s' \<and> evolves s m s' (m(c \<mapsto> i)) [(zo_coin_com out, zo_contract_address out)] []"
  using insert_commitment_evolves by (fastforce simp: apply_output_def split: if_splits)

lemma apply_transient_evolves:
  assumes "apply_transient H s tr None = Ok (s', c, i)" "zs_inv s"
  shows "zs_inv s' \<and> evolves s m s' (m(c \<mapsto> i)) [(zt_coin_com tr, zt_contract_address tr)] [zt_nullifier tr]"
proof -
  let ?s = "s\<lparr>nullifiers := insert (zt_nullifier tr) (nullifiers s)\<rparr>"
  have ins: "insert_commitment H ?s (zt_coin_com tr) (zt_contract_address tr) None = Ok (s', c, i)"
    "zt_coin_com tr \<notin> coin_coms_set s" "zt_nullifier tr \<notin> nullifiers s"
    using assms(1) by (auto simp: apply_transient_def split: if_splits)
  have "zs_inv ?s" using assms(2) by simp
  then have "zs_inv s' \<and> evolves ?s m s' (m(c \<mapsto> i)) [(zt_coin_com tr, zt_contract_address tr)] []"
    using insert_commitment_evolves [OF ins(1)] ins(2) by simp
  moreover have "evolves s m ?s m [] [zt_nullifier tr]" using ins(3) by (simp add: evolves_def)
  ultimately show ?thesis using evolves_trans [of s m ?s m "[]" "[zt_nullifier tr]"] by fastforce
qed

definition offer_leaves :: "('n, 'h, 'f, 'c, 'm, 'x, 'k) z_offer \<Rightarrow> ('h \<times> 'c option) list" where
  "offer_leaves ofr = map (\<lambda>out. (zo_coin_com out, zo_contract_address out)) (outputs ofr) @
     map (\<lambda>tr. (zt_coin_com tr, zt_contract_address tr)) (transients ofr)"

lemma offer_leaves_commitments [simp]: "map fst (offer_leaves ofr) = map fst (offer_commitments ofr)"
  by (simp add: offer_leaves_def offer_commitments_def)

lemma inputs_evolve:
  assumes "try_fold (\<lambda>st inp. apply_input st inp None) s ins = Ok s'" "zs_inv s"
  shows "zs_inv s' \<and> evolves s m s' m [] (map zi_nullifier ins)"
  using assms
proof (induction ins arbitrary: s)
  case (Cons inp ins)
  then obtain s1 where "apply_input s inp None = Ok s1"
    "try_fold (\<lambda>st inp. apply_input st inp None) s1 ins = Ok s'"
    by (auto simp: result_simps)
  with Cons apply_input_evolves [of s inp s1 m] show ?case
    using evolves_trans [of s m s1 m "[]" "[zi_nullifier inp]" s' m "[]"] by auto
qed (auto simp: evolves_refl)

lemma input_roots_known:
  assumes "try_fold (\<lambda>st inp. apply_input st inp None) s ins = Ok s'" "zs_inv s"
  shows "\<forall>inp \<in> set ins. tfm_contains (past_roots s) (zi_merkle_tree_root inp)"
  using assms
proof (induction ins arbitrary: s)
  case (Cons inp ins)
  then obtain s1 where s1: "apply_input s inp None = Ok s1"
    "try_fold (\<lambda>st inp. apply_input st inp None) s1 ins = Ok s'"
    by (auto simp: result_simps)
  note ev = apply_input_evolves [OF s1(1) Cons.prems(2), of Map.empty]
  from Cons.IH [OF s1(2) conjunct1 [OF ev]] ev show ?case by (simp add: evolves_def)
qed simp

lemma output_step_evolves:
  "output_step H None (s, m) out = Ok (s', m') \<Longrightarrow> zs_inv s \<Longrightarrow>
   zs_inv s' \<and> evolves s m s' m' [(zo_coin_com out, zo_contract_address out)] []"
  by (auto simp: output_step_def result_simps dest!: apply_output_evolves [where m = m]
      simp del: fun_upd_apply)

lemma transient_step_evolves:
  "transient_step H None (s, m) tr = Ok (s', m') \<Longrightarrow> zs_inv s \<Longrightarrow>
   zs_inv s' \<and> evolves s m s' m' [(zt_coin_com tr, zt_contract_address tr)] [zt_nullifier tr]"
  by (auto simp: transient_step_def result_simps dest!: apply_transient_evolves [where m = m]
      simp del: fun_upd_apply)

lemma outputs_evolve:
  assumes "try_fold (output_step H None) (s, m) outs = Ok (s', m')" "zs_inv s"
  shows "zs_inv s' \<and> evolves s m s' m' (map (\<lambda>out. (zo_coin_com out, zo_contract_address out)) outs) []"
  using assms
proof (induction outs arbitrary: s m)
  case (Cons out outs)
  from Cons.prems(1) obtain s1 m1 where 1: "output_step H None (s, m) out = Ok (s1, m1)"
    and 2: "try_fold (output_step H None) (s1, m1) outs = Ok (s', m')"
    by (auto simp: result_simps)
  note a = output_step_evolves [OF 1 Cons.prems(2)]
  note b = Cons.IH [OF 2 conjunct1 [OF a]]
  show ?case using b evolves_trans [OF conjunct2 [OF a] conjunct2 [OF b]] by simp
qed (auto simp: evolves_refl)

lemma transients_evolve:
  assumes "try_fold (transient_step H None) (s, m) trs = Ok (s', m')" "zs_inv s"
  shows "zs_inv s' \<and> evolves s m s' m' (map (\<lambda>tr. (zt_coin_com tr, zt_contract_address tr)) trs)
    (map zt_nullifier trs)"
  using assms
proof (induction trs arbitrary: s m)
  case (Cons tr trs)
  from Cons.prems(1) obtain s1 m1 where 1: "transient_step H None (s, m) tr = Ok (s1, m1)"
    and 2: "try_fold (transient_step H None) (s1, m1) trs = Ok (s', m')"
    by (auto simp: result_simps)
  note a = transient_step_evolves [OF 1 Cons.prems(2)]
  note b = Cons.IH [OF 2 conjunct1 [OF a]]
  show ?case using b evolves_trans [OF conjunct2 [OF a] conjunct2 [OF b]] by simp
qed (auto simp: evolves_refl)

text \<open>The whole of \<^verbatim>\<open>try_apply\<close> on a full node.\<close>

lemma try_apply_evolves:
  assumes "try_apply H s ofr None = Ok (s', m)" "zs_inv s"
  shows "zs_inv s' \<and> evolves s Map.empty s' m (offer_leaves ofr) (offer_nullifiers ofr)"
proof -
  obtain s1 s2 m2 where
    1: "try_fold (\<lambda>st inp. apply_input st inp None) s (inputs ofr) = Ok s1" and
    2: "try_fold (output_step H None) (s1, Map.empty) (outputs ofr) = Ok (s2, m2)" and
    3: "try_fold (transient_step H None) (s2, m2) (transients ofr) = Ok (s', m)"
    using assms(1) by (auto simp: try_apply_def result_simps)
  note first = inputs_evolve [OF 1 assms(2), of Map.empty]
  note second = outputs_evolve [OF 2 conjunct1 [OF first]]
  note third = transients_evolve [OF 3 conjunct1 [OF second]]
  from first second third show ?thesis
    using evolves_trans [OF evolves_trans [OF conjunct2 [OF first] conjunct2 [OF second]] conjunct2 [OF third]]
    by (simp add: offer_leaves_def offer_nullifiers_def)
qed

section \<open>Appended leaves\<close>

lemma mt_append_fold:
  "mt_balanced t \<Longrightarrow> n + length xs \<le> 2 ^ mt_height t \<Longrightarrow>
   (\<And>i. n \<le> i \<Longrightarrow> i < 2 ^ mt_height t \<Longrightarrow> \<not> mt_collapsed_at t i) \<Longrightarrow>
   try_fold (\<lambda>(t, n) x. map_ok (\<lambda>t'. (t', n + 1)) ((\<lambda>(x, a). try_update_hash t n x a) x)) (t, n) xs
     = Ok (mt_append t n xs, n + length xs)"
proof (induction t n xs rule: mt_append.induct)
  case (2 t n x a xs)
  have n: "n < 2 ^ mt_height t" using "2.prems"(2) by simp
  have "try_update_hash t n x a = Ok (mt_set t n x a)"
    using "2.prems" n by (intro try_update_hash_Ok) auto
  moreover have "\<not> mt_collapsed_at (mt_set t n x a) i" if "n + 1 \<le> i" "i < 2 ^ mt_height t" for i
    using that "2.prems" n by (simp add: mt_collapsed_at_set)
  ultimately show ?case using "2.IH" "2.prems" by simp
qed simp

lemma zs_leaves:
  assumes "zs_inv s" "evolves s m s' m' xs ns" "zs_inv s'"
  shows "(\<forall>k < length xs. mt_index (coin_coms s') (first_free s + k) = Some (xs ! k)) \<and>
    (\<forall>i < first_free s. mt_index (coin_coms s') i = mt_index (coin_coms s) i) \<and>
    mt_height (coin_coms s') = mt_height (coin_coms s)"
proof -
  have height: "mt_height (mt_append t n ys) = mt_height t" for t :: "('b, 'c, 'd option) mt_node" and n ys
    by (induction t n ys rule: mt_append.induct) auto
  have cap: "first_free s + length xs \<le> 2 ^ mt_height (coin_coms s)"
    using assms by (auto simp: zs_inv_def evolves_def height)
  have "mt_balanced (coin_coms s)" "\<And>i. i < 2 ^ mt_height (coin_coms s) \<Longrightarrow> \<not> mt_collapsed_at (coin_coms s) i"
    using assms(1) by (auto simp: zs_inv_def)
  note app = mtree.append_all [OF this(1) mt_append_fold [OF this(1) cap this(2)]]
  have "i < 2 ^ mt_height (coin_coms s)" if "i < first_free s" for i
    using that cap by simp
  then show ?thesis using app assms(2) by (auto simp: evolves_def height)
qed

section \<open>The wallet follows the ledger\<close>

text \<open>The wallet's tree is a consistent blinded copy of the ledger's, open beyond the leaves seen
  so far.\<close>

definition in_sync ::
  "('h, 'f) hashing \<Rightarrow> ('n, 'ci, 'h, 'f) local_state \<Rightarrow> ('h, 'f, 'a) mt_node \<Rightarrow> bool" where
  "in_sync H l t \<longleftrightarrow> mt_ok H (merkle_tree l) \<and> mt_balanced t \<and> blinds H (merkle_tree l) t \<and>
     (\<forall>i. l_first_free l \<le> i \<longrightarrow> i < 2 ^ mt_height t \<longrightarrow> \<not> mt_collapsed_at (merkle_tree l) i)"

text \<open>Every coin of the wallet is the one its nullifier belongs to and its commitment is an open
  leaf of the wallet's tree; every awaited output is for the wallet's own key.\<close>

definition wallet_ok ::
  "('pk, 'ci, 'x, 'h, 'n) wallet_keys \<Rightarrow> ('n, 'ci, 'h, 'f) local_state \<Rightarrow> bool" where
  "wallet_ok K l \<longleftrightarrow>
     (\<forall>nul c i. coins l nul = Some (c, i) \<longrightarrow> nul = nullifier K c \<and> i < l_first_free l \<and>
        mt_index (merkle_tree l) i = Some (commitment K c (coin_public_key K), ())) \<and>
     (\<forall>com c. pending_outputs l com = Some c \<longrightarrow> com = commitment K c (coin_public_key K))"

lemma open_leaf_step:
  assumes "mt_ok H s" "mt_balanced t" "blinds H s t" "n < 2 ^ mt_height t"
    and open_: "\<And>i. n \<le> i \<Longrightarrow> i < 2 ^ mt_height t \<Longrightarrow> \<not> mt_collapsed_at s i"
    and s': "s' = mt_set s n x () \<or> s' = mt_collapse H (mt_set s n x ()) n n"
  shows "mt_ok H s' \<and> blinds H s' (mt_set t n x a) \<and>
    (\<forall>i. n + 1 \<le> i \<longrightarrow> i < 2 ^ mt_height t \<longrightarrow> \<not> mt_collapsed_at s' i) \<and>
    (\<forall>i < n. mt_index s' i = mt_index s i)"
proof -
  let ?s = "mt_set s n x ()"
  have h: "mt_height s = mt_height t" by (rule blinds_height [OF assms(3)])
  have bal: "mt_balanced s" "mt_balanced ?s" using assms(1) by (auto simp: mt_ok_def)
  have nc: "\<not> mt_collapsed_at s n" using assms(4) by (intro open_) simp_all
  have "mt_ok H ?s" using assms(1) by (simp add: mt_ok_def mt_consistent_set)
  moreover have "blinds H ?s (mt_set t n x a)" by (rule blinds_set [OF assms(3) bal(1) nc])
  moreover have idx: "mt_index ?s i = mt_index s i" if "i < n" for i
    using that assms(4) bal h by (intro mt_index_set_other) auto
  moreover have "\<not> mt_collapsed_at ?s i" if "n + 1 \<le> i" "i < 2 ^ mt_height t" for i
    using that assms(4) bal h open_ by (simp add: mt_collapsed_at_set)
  ultimately show ?thesis using s' bal assms(4) h
    by (auto simp: mt_ok_collapse blinds_collapse mt_index_collapse mt_collapsed_at_collapse)
qed

text \<open>The three things a wallet does with an output: keep it as a coin, keep only the leaf, or
  blind the leaf.\<close>

lemma l_receive_shape:
  assumes "try_update_hash (merkle_tree l) (l_first_free l) com () = Ok t1"
    and "\<forall>c. pending_outputs l com = Some c \<longrightarrow> com = commitment K c (coin_public_key K)"
  obtains (coin) c where "com = commitment K c (coin_public_key K)"
      "l_receive H K l (com, ciph) = Ok (l\<lparr>coins := (coins l)(nullifier K c \<mapsto> (c, l_first_free l)),
         pending_outputs := (pending_outputs l)(com := None), merkle_tree := t1,
         l_first_free := l_first_free l + 1\<rparr>)"
    | (leaf) "l_receive H K l (com, ciph) = Ok (l\<lparr>merkle_tree := t1, l_first_free := l_first_free l + 1\<rparr>)"
    | (blind) "l_receive H K l (com, ciph) =
        Ok (l\<lparr>merkle_tree := mt_collapse H t1 (l_first_free l) (l_first_free l),
              l_first_free := l_first_free l + 1\<rparr>)"
proof (cases "Option.bind ciph (try_decrypt K)")
  case None
  show ?thesis
  proof (cases "pending_outputs l com")
    case pend: None
    show ?thesis by (rule blind) (simp add: l_receive_def assms(1) None pend)
  next
    case (Some c)
    show ?thesis by (rule coin [OF assms(2) [rule_format, OF Some]]) (simp add: l_receive_def assms(1) None Some)
  qed
next
  case (Some c)
  show ?thesis
  proof (cases "commitment K c (coin_public_key K) = com")
    case True
    show ?thesis by (rule coin [of c]) (simp_all add: l_receive_def assms(1) Some True)
  next
    case False
    show ?thesis by (rule leaf) (simp add: l_receive_def assms(1) Some False)
  qed
qed

lemma l_receive_sync:
  assumes "in_sync H l t" "wallet_ok K l" "l_first_free l < 2 ^ mt_height t"
  shows "\<exists>l'. l_receive H K l (com, ciph) = Ok l' \<and> in_sync H l' (mt_set t (l_first_free l) com a) \<and>
    wallet_ok K l' \<and> l_first_free l' = l_first_free l + 1"
proof -
  let ?n = "l_first_free l" and ?s = "merkle_tree l"
  note sync = assms(1) [unfolded in_sync_def] and ok = assms(2) [unfolded wallet_ok_def]
  have h: "mt_height ?s = mt_height t" using sync blinds_height by blast
  have bal: "mt_balanced ?s" and nc: "\<not> mt_collapsed_at ?s ?n"
    using sync assms(3) by (auto simp: mt_ok_def)
  have up: "try_update_hash ?s ?n com () = Ok (mt_set ?s ?n com ())"
    using bal nc assms(3) h by (intro try_update_hash_Ok) auto
  have same: "mt_index (mt_set ?s ?n com ()) ?n = Some (com, ())" by (rule mt_index_set_same [OF nc])
  have tree: "mt_ok H s' \<and> blinds H s' (mt_set t ?n com a) \<and>
      (\<forall>i. ?n + 1 \<le> i \<longrightarrow> i < 2 ^ mt_height t \<longrightarrow> \<not> mt_collapsed_at s' i) \<and>
      (\<forall>i < ?n. mt_index s' i = mt_index ?s i)"
    if "s' = mt_set ?s ?n com () \<or> s' = mt_collapse H (mt_set ?s ?n com ()) ?n ?n" for s'
    using open_leaf_step [OF _ _ _ assms(3) _ that] sync by blast
  have pend: "\<forall>c. pending_outputs l com = Some c \<longrightarrow> com = commitment K c (coin_public_key K)"
    using ok by blast
  show ?thesis
  proof (cases rule: l_receive_shape [OF up pend, of H ciph, case_names coin leaf blind])
    case (coin c)
    show ?thesis
      by (rule exI, intro conjI, rule coin(2))
        (use tree [of "mt_set ?s ?n com ()"] sync ok same coin(1) in
          \<open>auto simp: in_sync_def wallet_ok_def less_Suc_eq\<close>)
  next
    case leaf
    show ?thesis
      by (rule exI, intro conjI, rule leaf)
        (use tree [of "mt_set ?s ?n com ()"] sync ok in
          \<open>auto simp: in_sync_def wallet_ok_def less_Suc_eq\<close>)
  next
    case blind
    show ?thesis
      by (rule exI, intro conjI, rule blind)
        (use tree [of "mt_collapse H (mt_set ?s ?n com ()) ?n ?n"] sync ok in
          \<open>auto simp: in_sync_def wallet_ok_def less_Suc_eq\<close>)
  qed
qed

lemma l_receive_all:
  assumes "in_sync H l t" "wallet_ok K l" "l_first_free l + length xs \<le> 2 ^ mt_height t"
    and "map fst xs = map fst coms"
  shows "\<exists>l'. try_fold (l_receive H K) l coms = Ok l' \<and> in_sync H l' (mt_append t (l_first_free l) xs) \<and>
    wallet_ok K l' \<and> l_first_free l' = l_first_free l + length xs"
  using assms
proof (induction xs arbitrary: l t coms)
  case (Cons x xs)
  obtain c coms' where coms: "coms = c # coms'" "fst c = fst x" "map fst xs = map fst coms'"
    using Cons.prems(4) by (cases coms) auto
  have "l_first_free l < 2 ^ mt_height t" using Cons.prems(3) by simp
  from l_receive_sync [OF Cons.prems(1,2) this, of "fst c" "snd c" "snd x"] obtain l1 where
    l1: "l_receive H K l c = Ok l1" "in_sync H l1 (mt_set t (l_first_free l) (fst x) (snd x))"
    "wallet_ok K l1" "l_first_free l1 = l_first_free l + 1"
    unfolding coms(2) [symmetric] prod.collapse by blast
  from Cons.IH [OF l1(2,3) _ coms(3)] Cons.prems(3) l1(4) obtain l' where
    "try_fold (l_receive H K) l1 coms' = Ok l'"
    "in_sync H l' (mt_append (mt_set t (l_first_free l) (fst x) (snd x)) (l_first_free l + 1) xs)"
    "wallet_ok K l'" "l_first_free l' = l_first_free l + 1 + length xs"
    by auto
  then show ?case using l1(1) coms(1) by (cases x) simp
qed simp

lemma l_spend_keeps:
  "merkle_tree (fold l_spend_nullifier ns l) = merkle_tree l"
  "l_first_free (fold l_spend_nullifier ns l) = l_first_free l"
  "pending_outputs (fold l_spend_nullifier ns l) = pending_outputs l"
  by (induction ns arbitrary: l) (auto simp: l_spend_nullifier_def Let_def)

lemma l_spend_one:
  "coins (l_spend_nullifier n l) = (coins l)(n := None)"
  "pending_spends (l_spend_nullifier n l) = (pending_spends l)(n := None)"
  by (cases "coins l n"; cases "pending_spends l n"; simp add: l_spend_nullifier_def Let_def fun_upd_idem)+

lemma l_spend_coins:
  "coins (fold l_spend_nullifier ns l) = (coins l) |` (- set ns)"
  "pending_spends (fold l_spend_nullifier ns l) = (pending_spends l) |` (- set ns)"
  by (induction ns arbitrary: l) (auto simp: l_spend_one restrict_map_def fun_eq_iff)

lemma wallet_paths:
  assumes "in_sync H l t" "wallet_ok K l" "mt_root H (merkle_tree l) = Some d"
    "l_first_free l \<le> 2 ^ mt_height t" "coins l nul = Some (c, i)"
  shows "\<exists>p. path_for_leaf H (merkle_tree l) i (commitment K c (coin_public_key K)) = Ok p \<and>
    merkle_path_root H id p = d"
proof -
  have "mt_ok H (merkle_tree l)" "mt_height (merkle_tree l) = mt_height t"
    using assms(1) blinds_height by (auto simp: in_sync_def)
  moreover have "mt_index (merkle_tree l) i = Some (id (commitment K c (coin_public_key K)), ())"
    "i < l_first_free l"
    using assms(2,5) by (auto simp: wallet_ok_def)
  ultimately show ?thesis
    using path_for_leaf_ok [of H "merkle_tree l" d i id] assms(3,4) by auto
qed

section \<open>Properties\<close>

text \<open>C17: applying an offer on a full node spends each of its nullifiers once: they are pairwise
  different, were not spent before, and are exactly what is added to the nullifier set; and every
  input was proved against a root the node still accepts.\<close>

theorem no_double_spend:
  assumes "zs_inv s" "try_apply H s ofr None = Ok (s', m)"
  shows "distinct (offer_nullifiers ofr) \<and> set (offer_nullifiers ofr) \<inter> nullifiers s = {} \<and>
    nullifiers s' = nullifiers s \<union> set (offer_nullifiers ofr) \<and>
    (\<forall>inp \<in> set (inputs ofr). tfm_contains (past_roots s) (zi_merkle_tree_root inp))"
proof -
  obtain s1 where "try_fold (\<lambda>st inp. apply_input st inp None) s (inputs ofr) = Ok s1"
    using assms(2) by (auto simp: try_apply_def result_simps)
  then have "\<forall>inp \<in> set (inputs ofr). tfm_contains (past_roots s) (zi_merkle_tree_root inp)"
    using assms(1) by (rule input_roots_known)
  then show ?thesis using try_apply_evolves [OF assms(2,1)] by (simp add: evolves_def)
qed

text \<open>C19: applying an offer on a full node appends its commitments in order: they are new and
  pairwise different, the \<open>k\<close>-th one is the leaf at the \<open>k\<close>-th free index, which is also the index
  reported for it, earlier leaves stay, and the invariant tying the tree, the set of commitments
  and the first free index together is kept.\<close>

theorem commitments_appended:
  assumes "zs_inv s" "try_apply H s ofr None = Ok (s', m)"
  shows "zs_inv s' \<and> distinct (map fst (offer_leaves ofr)) \<and>
    fst ` set (offer_leaves ofr) \<inter> coin_coms_set s = {} \<and>
    first_free s' = first_free s + length (offer_leaves ofr) \<and>
    (\<forall>k < length (offer_leaves ofr).
       mt_index (coin_coms s') (first_free s + k) = Some (offer_leaves ofr ! k) \<and>
       m (fst (offer_leaves ofr ! k)) = Some (first_free s + k)) \<and>
    (\<forall>i < first_free s. mt_index (coin_coms s') i = mt_index (coin_coms s) i)"
proof -
  note ev = try_apply_evolves [OF assms(2,1)]
  note leaves = zs_leaves [OF assms(1) conjunct2 [OF ev] conjunct1 [OF ev]]
  show ?thesis using ev leaves by (simp add: evolves_def)
qed

text \<open>C20: an offer that spends or creates anything cannot be applied a second time, whatever
  happened in between, as long as the nullifiers and commitments recorded since are kept.\<close>

theorem offer_not_replayable:
  assumes "zs_inv s" "try_apply H s ofr None = Ok (s', m)"
    and "zs_inv s2" "nullifiers s' \<subseteq> nullifiers s2" "coin_coms_set s' \<subseteq> coin_coms_set s2"
    and "inputs ofr \<noteq> [] \<or> outputs ofr \<noteq> [] \<or> transients ofr \<noteq> []"
  shows "\<not> is_ok (try_apply H s2 ofr None)"
proof
  assume "is_ok (try_apply H s2 ofr None)"
  then obtain s3 m3 where "try_apply H s2 ofr None = Ok (s3, m3)" by (auto simp: is_ok_iff)
  from try_apply_evolves [OF this assms(3)] try_apply_evolves [OF assms(2,1)] assms(4,5,6)
  show False
    by (auto simp: evolves_def offer_nullifiers_def offer_leaves_def neq_Nil_conv)
qed

text \<open>C18: when a wallet in step with the ledger applies the same offer, it succeeds and stays in
  step: its blinded tree has the root that the ledger records at the end of the block, the coins
  the offer spends are gone, and every coin it holds has a membership path to that root, which
  the ledger accepts.\<close>

theorem wallet_follows_ledger:
  assumes "zs_inv s" "try_apply H s ofr None = Ok (s', m)"
    and "in_sync H l (coin_coms s)" "l_first_free l = first_free s" "wallet_ok K l"
    and "tfm_ok identity_container (past_roots s)" "0 \<le> d"
  shows "\<exists>l' r. l_apply H K l ofr = Ok l' \<and> in_sync H l' (coin_coms s') \<and>
    l_first_free l' = first_free s' \<and> wallet_ok K l' \<and>
    mt_root H (merkle_tree l') = Some r \<and>
    mt_root H (coin_coms (zs_post_block_update H s' tblock d)) = Some r \<and>
    tfm_contains (past_roots (zs_post_block_update H s' tblock d)) r \<and>
    (\<forall>nul \<in> set (offer_nullifiers ofr). coins l' nul = None) \<and>
    (\<forall>nul c i. coins l' nul = Some (c, i) \<longrightarrow>
       (\<exists>p. path_for_leaf H (merkle_tree l') i (commitment K c (coin_public_key K)) = Ok p \<and>
            merkle_path_root H id p = r))"
proof -
  note ev = try_apply_evolves [OF assms(2,1)]
  note leaves = zs_leaves [OF assms(1) conjunct2 [OF ev] conjunct1 [OF ev]]
  have cap: "first_free s' \<le> 2 ^ mt_height (coin_coms s)" "first_free s' = first_free s + length (offer_leaves ofr)"
    "coin_coms s' = mt_append (coin_coms s) (first_free s) (offer_leaves ofr)"
    "past_roots s' = past_roots s"
    using ev leaves by (auto simp: zs_inv_def evolves_def)
  have "l_first_free l + length (offer_leaves ofr) \<le> 2 ^ mt_height (coin_coms s)"
    using cap assms(4) by simp
  from l_receive_all [OF assms(3,5) this offer_leaves_commitments] assms(4) cap
  obtain l1 where l1: "try_fold (l_receive H K) l (offer_commitments ofr) = Ok l1"
    "in_sync H l1 (coin_coms s')" "wallet_ok K l1" "l_first_free l1 = first_free s'"
    by auto
  define l' where "l' = (fold l_spend_nullifier (offer_nullifiers ofr) l1)
    \<lparr>merkle_tree := mt_rehash H (merkle_tree l1)\<rparr>"
  have app: "l_apply H K l ofr = Ok l'"
    by (simp add: l_apply_def l1(1) Let_def l'_def l_spend_keeps)
  have sync: "in_sync H l' (coin_coms s')" "l_first_free l' = first_free s'"
    using l1(2,4) by (auto simp: in_sync_def l'_def l_spend_keeps mt_ok_rehash blinds_rehash_left)
  have ok: "wallet_ok K l'"
    using l1(3) by (auto simp: wallet_ok_def l'_def l_spend_keeps l_spend_coins restrict_map_def)
  have root: "mt_root H (merkle_tree l') = Some (mt_digest H (coin_coms s'))"
    using l1(2) by (simp add: l'_def in_sync_def blinds_digest)
  have "tfm_contains (past_roots (zs_post_block_update H s' tblock d)) (mt_digest H (coin_coms s'))"
    using assms(6,7) cap(4) by (auto simp: zs_post_block_update_def Let_def identity_c.contains_filter
        identity_c.insert_ok identity_c.insert_holds ts_sub_def intro!: exI [of _ tblock])
  moreover have "coins l' nul = None" if "nul \<in> set (offer_nullifiers ofr)" for nul
    using that by (simp add: l'_def l_spend_coins)
  ultimately show ?thesis
    using app sync ok root wallet_paths [OF sync(1) ok root] cap leaves
    by (auto simp: zs_post_block_update_def Let_def)
qed

text \<open>after the update at the end of a block the accepted roots are the root of the current
  tree and the roots recorded at other times within the retention window.\<close>

theorem accepted_roots:
  assumes "tfm_ok identity_container (past_roots s)" "0 \<le> d" "d < 2 ^ 64"
  shows "tfm_contains (past_roots (zs_post_block_update H s tblock d)) r \<longleftrightarrow>
    r = mt_digest H (coin_coms s) \<or>
    (\<exists>ts. ts \<noteq> tblock \<and> tblock - nat d \<le> ts \<and> tfm_holds identity_container (past_roots s) ts r)"
proof -
  have cutoff: "ts_sub tblock d = tblock - nat d" using assms(2,3) by (simp add: ts_sub_def)
  show ?thesis using assms(1)
    by (auto simp: zs_post_block_update_def Let_def cutoff identity_c.contains_filter
        identity_c.insert_ok identity_c.insert_holds split: if_splits)
qed

text \<open>a claim for someone else's key leaves its leaf open in the wallet's tree: the collapsed
  tree that the code computes for it is dropped.\<close>

theorem foreign_claim_stays_open:
  assumes "mt_balanced (merkle_tree l)" "coin_public_key K \<noteq> recipient"
    and "l_apply_claim H K l coin recipient = Ok l'"
  shows "mt_index (merkle_tree l') (l_first_free l) = Some (commitment K coin recipient, ()) \<and>
    coins l' = coins l"
  using assms
  by (auto simp: l_apply_claim_def result_simps Let_def try_update_hash_iff mt_index_set_same)

section \<open>Examples\<close>

definition sample_zs :: "(nat, nat, nat, nat) z_state" where
  "sample_zs = \<lparr>coin_coms = Stub 1, coin_coms_set = {}, first_free = 0, nullifiers = {},
     past_roots = \<lparr>time_map = [(5, 9)], tfm_set = [9 \<mapsto> 1]\<rparr>\<rparr>"

definition sample_offer :: "(nat, nat, nat, nat, nat, nat, nat) z_offer" where
  "sample_offer = \<lparr>inputs = [\<lparr>zi_nullifier = 7, zi_contract_address = None, zi_merkle_tree_root = 9,
       zi_memo = None\<rparr>],
     outputs = [\<lparr>zo_coin_com = 4, zo_contract_address = None, zo_ciphertext = Some 3\<rparr>],
     transients = [], deltas = []\<rparr>"

definition sample_zs' :: "(nat, nat, nat, nat) z_state" where
  "sample_zs' = \<lparr>coin_coms = Node None (Leaf 4 None) (Stub 0) 1, coin_coms_set = {4}, first_free = 1,
     nullifiers = {7}, past_roots = \<lparr>time_map = [(5, 9)], tfm_set = [9 \<mapsto> 1]\<rparr>\<rparr>"

definition sample_keys :: "(nat, nat, nat, nat, nat) wallet_keys" where
  "sample_keys = \<lparr>coin_public_key = 1, try_decrypt = (\<lambda>x. Some x), commitment = (\<lambda>c pk. c + pk),
     nullifier = (\<lambda>c. c)\<rparr>"

definition sample_local :: "(nat, nat, nat, nat) local_state" where
  "sample_local = \<lparr>coins = Map.empty, pending_spends = Map.empty, pending_outputs = Map.empty,
     merkle_tree = Stub 1, l_first_free = 0\<rparr>"

lemma sample_apply:
  "try_apply sample_hashing sample_zs sample_offer None = Ok (sample_zs', [4 \<mapsto> 0])"
  by (simp add: try_apply_def sample_zs_def sample_zs'_def sample_offer_def apply_input_def output_step_def
      apply_output_def insert_commitment_def tfm_contains_def ms_member_def try_update_hash.simps(3))

lemma sample_inv: "zs_inv sample_zs" "zs_inv sample_zs'"
  by (auto simp: zs_inv_def sample_zs_def sample_zs'_def less_Suc_eq numeral_2_eq_2)

lemma sample_wallet: "in_sync sample_hashing sample_local (coin_coms sample_zs)" "wallet_ok sample_keys sample_local"
  "tfm_ok identity_container (past_roots sample_zs)"
  by (auto simp: in_sync_def wallet_ok_def sample_local_def sample_zs_def mt_ok_def tfm_ok_def ms_ok_def
      ms_count_def occurrences_def identity_container_def)

theorem no_double_spend_witness:
  "zs_inv sample_zs \<and> nullifiers sample_zs' = nullifiers sample_zs \<union> {7}"
  using no_double_spend [OF sample_inv(1) sample_apply] sample_inv
  by (simp add: sample_offer_def offer_nullifiers_def)

theorem commitments_appended_witness:
  "zs_inv sample_zs' \<and> mt_index (coin_coms sample_zs') 0 = Some (4, None)"
  using commitments_appended [OF sample_inv(1) sample_apply]
  by (simp add: sample_offer_def offer_leaves_def sample_zs_def)

theorem offer_not_replayable_witness:
  "\<not> is_ok (try_apply sample_hashing sample_zs' sample_offer None)"
  using offer_not_replayable [OF sample_inv(1) sample_apply sample_inv(2)]
  by (simp add: sample_offer_def)

theorem wallet_follows_ledger_witness:
  "\<exists>l'. l_apply sample_hashing sample_keys sample_local sample_offer = Ok l' \<and> coins l' 7 = None \<and>
     mt_root sample_hashing (merkle_tree l') = Some 11"
  using wallet_follows_ledger [OF sample_inv(1) sample_apply sample_wallet(1) _ sample_wallet(2,3), of 60 100]
  by (auto simp: sample_local_def sample_zs_def sample_offer_def offer_nullifiers_def sample_zs'_def
      zs_post_block_update_def Let_def sample_hashing_def)

theorem accepted_roots_witness:
  "tfm_contains (past_roots (zs_post_block_update sample_hashing sample_zs 20 15)) 9 \<and>
   \<not> tfm_contains (past_roots (zs_post_block_update sample_hashing sample_zs 20 14)) 9"
  using accepted_roots [OF sample_wallet(3), of 15 sample_hashing 20 9]
    accepted_roots [OF sample_wallet(3), of 14 sample_hashing 20 9]
  by (auto simp: sample_zs_def sample_hashing_def tfm_holds_def identity_container_def split: if_splits)

theorem foreign_claim_stays_open_witness:
  "\<exists>l'. l_apply_claim sample_hashing sample_keys sample_local 5 2 = Ok l' \<and>
     mt_index (merkle_tree l') 0 = Some (7, ())"
proof -
  obtain l' where l': "l_apply_claim sample_hashing sample_keys sample_local 5 2 = Ok l'"
    by (simp add: l_apply_claim_def sample_local_def try_update_hash.simps(3))
  from foreign_claim_stays_open [OF _ _ l'] show ?thesis
    using l' by (auto simp: sample_local_def sample_keys_def)
qed

end
