(* ===== verification/Serialize.thy ===== *)
theory Serialize
  imports Ledger_Prelude "HOL-Library.Word"
begin

text \<open>
  The binary encoding of the \<^verbatim>\<open>serialize\<close> crate (\<^verbatim>\<open>serialize/src/util.rs\<close>,
  \<^verbatim>\<open>serializable.rs\<close>, \<^verbatim>\<open>deserializable.rs\<close>): fixed-width and SCALE integers, booleans,
  vectors, options, pairs and tagged values.

  A writer into memory is the list of bytes it produces; a reader takes the remaining bytes and
  returns a value and the bytes it left. The messages of the errors keep their fixed text. The
  interface \<^verbatim>\<open>codec\<close> states what a type's encoder and decoder owe each other; encodings of
  containers are proved once for every codec of the elements.
\<close>

unbundle bit_operations_syntax

section \<open>Bytes\<close>

type_synonym byte = "8 word"

datatype io_error = UnexpectedEof | InvalidData string | InvalidInput string

type_synonym 'a writer = "'a \<Rightarrow> (io_error, byte list) result"
type_synonym 'a reader = "byte list \<Rightarrow> (io_error, 'a \<times> byte list) result"

definition read_exact :: "nat \<Rightarrow> byte list reader" where
  "read_exact n bs = (if n \<le> length bs then Ok (take n bs, drop n bs) else Err UnexpectedEof)"

definition CHUNK_SIZE :: nat where "CHUNK_SIZE = 4096"

text \<open>The loop of \<^verbatim>\<open>read_exact_to_vec\<close>, which grows its buffer by at most a chunk at a time.\<close>

function read_chunks :: "nat \<Rightarrow> byte list \<Rightarrow> byte list reader" where
  "read_chunks n res bs =
     (if n > length res then
        let new_len = min n (length res + CHUNK_SIZE) in
        and_then (read_exact (new_len - length res) bs) (\<lambda>(chunk, rest). read_chunks n (res @ chunk) rest)
      else Ok (res, bs))"
  by pat_completeness auto
termination
  by (relation "measure (\<lambda>(n, res, _). n - length res)")
    (auto simp: read_exact_def CHUNK_SIZE_def split: if_splits)

declare read_chunks.simps [simp del]

definition read_exact_to_vec :: "nat \<Rightarrow> byte list reader" where
  "read_exact_to_vec n bs = read_chunks n [] bs"

primrec le_bytes :: "nat \<Rightarrow> nat \<Rightarrow> byte list" where
  "le_bytes 0 v = []"
| "le_bytes (Suc n) v = word_of_nat v # le_bytes n (v div 256)"

primrec le_value :: "byte list \<Rightarrow> nat" where
  "le_value [] = 0"
| "le_value (b # bs) = unat b + 256 * le_value bs"

section \<open>Primitive types\<close>

definition RECURSION_LIMIT :: nat where "RECURSION_LIMIT = 250"

definition check_rec :: "nat \<Rightarrow> (io_error, nat) result" where
  "check_rec depth =
     (if depth + 1 > RECURSION_LIMIT then Err (InvalidData ''exceeded recursion depth deserializing'')
      else Ok (depth + 1))"

definition bool_serialize :: "bool writer" where
  "bool_serialize b = Ok [if b then 1 else 0]"

definition bool_deserialize :: "nat \<Rightarrow> bool reader" where
  "bool_deserialize depth bs =
     and_then (read_exact 1 bs) (\<lambda>(buf, rest).
       if buf ! 0 = 0 then Ok (False, rest)
       else if buf ! 0 = 1 then Ok (True, rest)
       else Err (InvalidData ''cannot deserialize as bool''))"

text \<open>Fixed width: the \<open>n\<close> bytes of the unsigned types \<^verbatim>\<open>u8\<close>, \<^verbatim>\<open>u16\<close> and of the signed types in
  two's complement.\<close>

definition fixed_serialize :: "nat \<Rightarrow> nat writer" where
  "fixed_serialize n v = Ok (le_bytes n v)"

definition fixed_deserialize :: "nat \<Rightarrow> nat \<Rightarrow> nat reader" where
  "fixed_deserialize n depth bs = and_then (read_exact n bs) (\<lambda>(buf, rest). Ok (le_value buf, rest))"

definition signed_serialize :: "nat \<Rightarrow> int writer" where
  "signed_serialize n v = Ok (le_bytes n (nat (v mod 2 ^ (8 * n))))"

definition signed_deserialize :: "nat \<Rightarrow> nat \<Rightarrow> int reader" where
  "signed_deserialize n depth bs =
     and_then (read_exact n bs) (\<lambda>(buf, rest).
       let v = int (le_value buf) in Ok (if v < 2 ^ (8 * n - 1) then v else v - 2 ^ (8 * n), rest))"

section \<open>SCALE integers\<close>

definition SCALE_MAX_BYTES :: nat where "SCALE_MAX_BYTES = 67"

text \<open>A \<^verbatim>\<open>ScaleBigInt\<close> is an array of \<^const>\<open>SCALE_MAX_BYTES\<close> bytes; \<open>scale_of\<close> is the zero array with
  its first bytes set.\<close>

definition scale_of :: "byte list \<Rightarrow> byte list" where
  "scale_of bs = bs @ replicate (SCALE_MAX_BYTES - length bs) 0"

definition top2bits :: "byte \<Rightarrow> byte" where "top2bits b = drop_bit 6 (b AND 0b11000000)"
definition bot6bits :: "byte \<Rightarrow> byte" where "bot6bits b = push_bit 2 (b AND 0b00111111)"
definition top6bits :: "byte \<Rightarrow> byte" where "top6bits b = drop_bit 2 (b AND 0b11111100)"
definition bot2bits :: "byte \<Rightarrow> byte" where "bot2bits b = push_bit 6 (b AND 0b00000011)"

definition scale_serialized_size :: "byte list \<Rightarrow> nat" where
  "scale_serialized_size v =
     (let trailing_zeros = length (takeWhile (\<lambda>x. x = 0) (rev v));
          occupied = SCALE_MAX_BYTES - trailing_zeros;
          can_squeeze = v ! (occupied - 1) < 64
      in if occupied = 0 \<or> occupied = 1 \<and> can_squeeze then 1
         else if occupied = 1 \<or> occupied = 2 \<and> can_squeeze then 2
         else if occupied = 2 \<or> occupied = 3 \<or> occupied = 4 \<and> can_squeeze then 4
         else occupied + 1)"

definition scale_serialize :: "byte list writer" where
  "scale_serialize v =
     (let n = scale_serialized_size v in
      Ok (if n = 1 then [bot6bits (v ! 0) OR 0b00]
          else if n = 2 then [bot6bits (v ! 0) OR 0b01, top2bits (v ! 0) OR bot6bits (v ! 1)]
          else if n = 4 then
            [bot6bits (v ! 0) OR 0b10, top2bits (v ! 0) OR bot6bits (v ! 1),
             top2bits (v ! 1) OR bot6bits (v ! 2), top2bits (v ! 2) OR bot6bits (v ! 3)]
          else (push_bit 2 (word_of_nat n - 5) OR 0b11) # take (n - 1) v))"

definition u8_deserialize :: "byte reader" where
  "u8_deserialize bs = and_then (read_exact 1 bs) (\<lambda>(buf, rest). Ok (buf ! 0, rest))"

definition scale_deserialize :: "nat \<Rightarrow> byte list reader" where
  "scale_deserialize depth bs =
     and_then (u8_deserialize bs) (\<lambda>(first, r1).
       let m = first AND 0b11 in
       if m = 0b00 then Ok (scale_of [top6bits first], r1)
       else if m = 0b01 then
         and_then (u8_deserialize r1) (\<lambda>(second, r2).
           if second = 0 then Err (InvalidData ''non-canonical scale encoding'')
           else Ok (scale_of [top6bits first OR bot2bits second, top6bits second], r2))
       else if m = 0b10 then
         and_then (u8_deserialize r1) (\<lambda>(second, r2).
         and_then (u8_deserialize r2) (\<lambda>(third, r3).
         and_then (u8_deserialize r3) (\<lambda>(fourth, r4).
           if third = 0 \<and> fourth = 0 then Err (InvalidData ''non-canonical scale encoding'')
           else Ok (scale_of [top6bits first OR bot2bits second, top6bits second OR bot2bits third,
                              top6bits third OR bot2bits fourth, top6bits fourth], r4))))
       else
         let n = unat (top6bits first) + 4 in
         and_then (read_exact n r1) (\<lambda>(buf, r2).
           if buf ! (n - 1) = 0 then Err (InvalidData ''non-canonical scale encoding'')
           else Ok (scale_of buf, r2)))"

text \<open>The unsigned types of \<open>n\<close> bytes that use it: \<^verbatim>\<open>u32\<close>, \<^verbatim>\<open>u64\<close> and \<^verbatim>\<open>u128\<close>.\<close>

definition uint_serialize :: "nat \<Rightarrow> nat writer" where
  "uint_serialize n v = scale_serialize (scale_of (le_bytes n v))"

definition uint_size :: "nat \<Rightarrow> nat \<Rightarrow> nat" where
  "uint_size n v = scale_serialized_size (scale_of (le_bytes n v))"

definition uint_deserialize :: "nat \<Rightarrow> nat \<Rightarrow> nat reader" where
  "uint_deserialize n depth bs =
     and_then (scale_deserialize depth bs) (\<lambda>(val, rest).
       if list_ex (\<lambda>b. b \<noteq> 0) (drop n val) then Err (InvalidData ''out of range'')
       else Ok (le_value (take n val), rest))"

section \<open>Containers\<close>

fun seq_serialize :: "'a writer \<Rightarrow> 'a list writer" where
  "seq_serialize ser [] = Ok []"
| "seq_serialize ser (x # xs) = and_then (ser x) (\<lambda>b. map_ok (append b) (seq_serialize ser xs))"

fun read_many :: "'a reader \<Rightarrow> nat \<Rightarrow> 'a list reader" where
  "read_many des 0 bs = Ok ([], bs)"
| "read_many des (Suc n) bs =
     and_then (des bs) (\<lambda>(x, r). map_ok (\<lambda>(xs, r'). (x # xs, r')) (read_many des n r))"

definition vec_serialize :: "'a writer \<Rightarrow> 'a list writer" where
  "vec_serialize ser xs =
     and_then (uint_serialize 4 (length xs mod 2 ^ 32)) (\<lambda>b. map_ok (append b) (seq_serialize ser xs))"

definition vec_size :: "('a \<Rightarrow> nat) \<Rightarrow> 'a list \<Rightarrow> nat" where
  "vec_size sz xs = fold (\<lambda>x acc. acc + sz x) xs (uint_size 8 (length xs))"

definition vec_deserialize :: "(nat \<Rightarrow> 'a reader) \<Rightarrow> nat \<Rightarrow> 'a list reader" where
  "vec_deserialize des depth bs =
     and_then (check_rec depth) (\<lambda>depth'.
     and_then (uint_deserialize 4 depth' bs) (\<lambda>(len, r). read_many (des depth') len r))"

fun option_serialize :: "'a writer \<Rightarrow> 'a option writer" where
  "option_serialize ser (Some v) = and_then (fixed_serialize 1 1) (\<lambda>b. map_ok (append b) (ser v))"
| "option_serialize ser None = fixed_serialize 1 0"

fun option_size :: "('a \<Rightarrow> nat) \<Rightarrow> 'a option \<Rightarrow> nat" where
  "option_size sz (Some v) = 1 + sz v"
| "option_size sz None = 1"

definition option_deserialize :: "(nat \<Rightarrow> 'a reader) \<Rightarrow> nat \<Rightarrow> 'a option reader" where
  "option_deserialize des depth bs =
     and_then (check_rec depth) (\<lambda>depth'.
     and_then (fixed_deserialize 1 depth' bs) (\<lambda>(some, r).
       if some = 0 then Ok (None, r)
       else if some = 1 then map_ok (\<lambda>(v, r'). (Some v, r')) (des depth' r)
       else Err (InvalidData ''Invalid discriminant'')))"

definition pair_serialize :: "'a writer \<Rightarrow> 'b writer \<Rightarrow> ('a \<times> 'b) writer" where
  "pair_serialize sa sb p = and_then (sa (fst p)) (\<lambda>b. map_ok (append b) (sb (snd p)))"

definition pair_size :: "('a \<Rightarrow> nat) \<Rightarrow> ('b \<Rightarrow> nat) \<Rightarrow> 'a \<times> 'b \<Rightarrow> nat" where
  "pair_size sa sb p = sa (fst p) + sb (snd p)"

definition pair_deserialize :: "(nat \<Rightarrow> 'a reader) \<Rightarrow> (nat \<Rightarrow> 'b reader) \<Rightarrow> nat \<Rightarrow> ('a \<times> 'b) reader" where
  "pair_deserialize da db depth bs =
     and_then (check_rec depth) (\<lambda>depth'.
     and_then (da depth' bs) (\<lambda>(a, r). map_ok (\<lambda>(b, r'). ((a, b), r')) (db depth' r)))"

section \<open>Tagged values\<close>

definition ascii :: "string \<Rightarrow> byte list" where
  "ascii s = map (\<lambda>c. of_char c) s"

definition GLOBAL_TAG :: string where "GLOBAL_TAG = ''midnight:''"

definition tagged_serialize :: "string \<Rightarrow> 'a writer \<Rightarrow> 'a writer" where
  "tagged_serialize tag ser v = map_ok (append (ascii (GLOBAL_TAG @ tag @ '':''))) (ser v)"

definition tagged_serialized_size :: "string \<Rightarrow> ('a \<Rightarrow> nat) \<Rightarrow> 'a \<Rightarrow> nat" where
  "tagged_serialized_size tag sz v = length tag + length GLOBAL_TAG + 1 + sz v"

definition tagged_deserialize_inner :: "string \<Rightarrow> (nat \<Rightarrow> 'a reader) \<Rightarrow> bool \<Rightarrow> 'a reader" where
  "tagged_deserialize_inner tag des ensure_consumed bs =
     (let tag_expected = ascii (GLOBAL_TAG @ tag @ '':'');
          read_tag = take (length tag_expected) bs;
          reader = drop (length tag_expected) bs
      in if read_tag \<noteq> tag_expected then Err (InvalidData ''expected header tag'')
         else and_then (des 0 reader) (\<lambda>(value, r).
           if \<not> ensure_consumed then Ok (value, r)
           else if length r = 0 then Ok (value, r)
           else Err (InvalidData ''Not all bytes read'')))"

definition tagged_deserialize :: "string \<Rightarrow> (nat \<Rightarrow> 'a reader) \<Rightarrow> byte list \<Rightarrow> (io_error, 'a) result" where
  "tagged_deserialize tag des bs = map_ok fst (tagged_deserialize_inner tag des True bs)"

section \<open>Reading and numbers\<close>

lemma read_exact_append [simp]: "length bs = n \<Longrightarrow> read_exact n (bs @ rest) = Ok (bs, rest)"
  by (auto simp: read_exact_def)

lemma u8_deserialize_Cons [simp]: "u8_deserialize (b # rest) = Ok (b, rest)"
  by (simp add: u8_deserialize_def read_exact_def)

lemma read_exact_Ok: "read_exact n bs = Ok (buf, rest) \<longleftrightarrow> length buf = n \<and> bs = buf @ rest"
  by (auto simp: read_exact_def append_eq_conv_conj)

lemma u8_deserialize_Ok: "u8_deserialize bs = Ok (b, rest) \<longleftrightarrow> bs = b # rest"
  by (cases bs) (auto simp: u8_deserialize_def read_exact_def)

lemma read_exact_split:
  "read_exact (a + b) bs =
     and_then (read_exact a bs) (\<lambda>(x, r). map_ok (\<lambda>(y, r'). (x @ y, r')) (read_exact b r))"
  by (auto simp: read_exact_def take_add add.commute)

text \<open>Reading in chunks is reading at once.\<close>

lemma read_chunks_eq:
  "length res \<le> n \<Longrightarrow> read_chunks n res bs = map_ok (\<lambda>(xs, r). (res @ xs, r)) (read_exact (n - length res) bs)"
proof (induction n res bs rule: read_chunks.induct)
  case (1 n res bs)
  show ?case
  proof (cases "n > length res")
    case True
    define m where "m = min n (length res + CHUNK_SIZE)"
    have m: "length res < m" "m \<le> n" using True by (auto simp: m_def CHUNK_SIZE_def)
    then have n: "n - length res = (m - length res) + (n - m)" by simp
    have unfold: "read_chunks n res bs =
        and_then (read_exact (m - length res) bs) (\<lambda>(chunk, rest). read_chunks n (res @ chunk) rest)"
      using True by (subst read_chunks.simps) (simp add: m_def)
    show ?thesis
    proof (cases "read_exact (m - length res) bs")
      case (Ok p)
      obtain chunk rest where p: "p = (chunk, rest)" by fastforce
      have len: "length chunk = m - length res" using Ok p by (simp add: read_exact_Ok)
      have "read_chunks n (res @ chunk) rest =
          map_ok (\<lambda>(xs, r). ((res @ chunk) @ xs, r)) (read_exact (n - length (res @ chunk)) rest)"
        by (rule "1.IH" [OF True m_def Ok]) (use p len m in auto)
      then show ?thesis
        unfolding unfold n read_exact_split using Ok p len m
        by (cases "read_exact (n - m) rest") auto
    next
      case (Err e)
      then show ?thesis unfolding unfold n read_exact_split by simp
    next
      case Panic
      then show ?thesis unfolding unfold n read_exact_split by simp
    qed
  next
    case False
    then show ?thesis using "1.prems" by (subst read_chunks.simps) (simp add: read_exact_def)
  qed
qed

lemma read_exact_to_vec_eq: "read_exact_to_vec n bs = read_exact n bs"
  by (cases "read_exact n bs") (auto simp: read_exact_to_vec_def read_chunks_eq)

lemma length_le_bytes [simp]: "length (le_bytes n v) = n"
  by (induction n arbitrary: v) auto

lemma le_value_le_bytes: "le_value (le_bytes n v) = v mod 256 ^ n"
proof (induction n arbitrary: v)
  case (Suc n)
  have "v mod 256 ^ Suc n = v mod 256 + 256 * (v div 256 mod 256 ^ n)"
    by (simp add: mod_mult2_eq)
  then show ?case using Suc by (simp add: unsigned_of_nat take_bit_eq_mod)
qed simp

lemma le_value_bound: "le_value bs < 256 ^ length bs"
proof (induction bs)
  case (Cons b bs)
  have "unat b < 256" using unsigned_less [of b] by simp
  then show ?case using Cons by simp
qed simp

lemma le_bytes_le_value: "le_bytes (length bs) (le_value bs) = bs"
proof (induction bs)
  case (Cons b bs)
  have "unat b < 256" using unsigned_less [of b] by simp
  then have "(unat b + 256 * le_value bs) div 256 = le_value bs" by simp
  moreover have "word_of_nat (unat b + 256 * le_value bs) = b"
    using \<open>unat b < 256\<close> by (simp add: word_unat_eq_iff unsigned_of_nat take_bit_eq_mod del: of_nat_add)
  ultimately show ?case using Cons by (simp del: of_nat_add)
qed simp

section \<open>SCALE integers\<close>

lemma byte_eqI:
  assumes "bit (a :: byte) 0 = bit b 0" "bit a 1 = bit b 1" "bit a 2 = bit b 2" "bit a 3 = bit b 3"
    "bit a 4 = bit b 4" "bit a 5 = bit b 5" "bit a 6 = bit b 6" "bit a 7 = bit b 7"
  shows "a = b"
proof (rule bit_word_eqI)
  fix n
  assume "n < LENGTH(8)"
  then have "n = 0 \<or> n = 1 \<or> n = 2 \<or> n = 3 \<or> n = 4 \<or> n = 5 \<or> n = 6 \<or> n = 7" by auto
  then show "bit a n = bit b n" using assms by auto
qed

lemma byte_bit_high: "8 \<le> n \<Longrightarrow> \<not> bit (a :: byte) n"
  using bit_imp_le_length [of a n] by auto

lemmas bits_defs = top2bits_def bot6bits_def top6bits_def bot2bits_def

lemma bits_0 [simp]: "bot6bits 0 = 0" "top2bits 0 = 0"
  by (simp_all add: bits_defs)

lemma bits_join:
  "top6bits (bot6bits a OR 1) OR bot2bits (top2bits a OR bot6bits b) = a"
  "top6bits (bot6bits a OR 2) OR bot2bits (top2bits a OR bot6bits b) = a"
  "b AND 0x3f OR bot2bits (top2bits b OR bot6bits c) = b"
  "top6bits (top2bits a OR bot6bits b) = b AND 0x3f"
  "top6bits (bot6bits a) = a AND 0x3f"
  by (rule byte_eqI; simp add: bits_defs bit_simps)+

lemma bits_split:
  "first AND 3 = 1 \<Longrightarrow> bot6bits (top6bits first OR bot2bits second) OR 1 = first"
  "first AND 3 = 2 \<Longrightarrow> bot6bits (top6bits first OR bot2bits second) OR 2 = first"
  "first AND 3 = 0 \<Longrightarrow> bot6bits (top6bits first) = first"
  "top2bits (top6bits first OR bot2bits second) OR bot6bits (top6bits second OR bot2bits third) = second"
  "top2bits (top6bits first OR bot2bits second) OR bot6bits (top6bits second) = second"
proof -
  have b: "bit first 0 \<longleftrightarrow> bit (first AND 3) 0" "bit first 1 \<longleftrightarrow> bit (first AND 3) 1"
    by (simp_all add: bit_simps)
  show "first AND 3 = 1 \<Longrightarrow> bot6bits (top6bits first OR bot2bits second) OR 1 = first"
    "first AND 3 = 2 \<Longrightarrow> bot6bits (top6bits first OR bot2bits second) OR 2 = first"
    "first AND 3 = 0 \<Longrightarrow> bot6bits (top6bits first) = first"
    by (rule byte_eqI; use b in \<open>simp add: bits_defs bit_simps\<close>)+
qed (rule byte_eqI; simp add: bits_defs bit_simps)+

lemma marker:
  "bot6bits a AND 3 = 0" "(bot6bits a OR 1) AND 3 = 1" "(bot6bits a OR 2) AND 3 = 2"
  "(push_bit 2 a OR 3) AND 3 = (3 :: byte)"
  by (rule byte_eqI; simp add: bits_defs bit_simps)+

lemma and_63: "b < 64 \<Longrightarrow> b AND 0x3f = (b :: byte)"
proof -
  assume "b < 64"
  then have "unat b < 64" by (simp add: word_less_nat_alt)
  then have "take_bit 6 b = b" by (simp add: word_unat_eq_iff unsigned_take_bit_eq take_bit_nat_eq_self)
  then show ?thesis by (simp add: take_bit_eq_mask mask_numeral)
qed

lemma top2bits_eq: "top2bits a = drop_bit 6 a"
  by (rule byte_eqI; simp add: bits_defs bit_simps byte_bit_high)

lemma top2bits_0_iff: "top2bits a = 0 \<longleftrightarrow> a < 64"
proof -
  have "unat (top2bits a) = unat a div 64"
    unfolding top2bits_eq by (simp add: drop_bit_eq_div unat_div_distrib)
  then show ?thesis by (simp add: word_less_nat_alt word_unat_eq_iff div_eq_0_iff)
qed

lemma top6bits_eq: "unat (top6bits a) = unat a div 4"
proof -
  have "top6bits a = drop_bit 2 a" by (rule byte_eqI; simp add: bits_defs bit_simps byte_bit_high)
  then show ?thesis by (simp add: drop_bit_eq_div unat_div_distrib)
qed

lemma top6bits_less [simp]: "top6bits a < 64"
proof -
  have "unat a < 256" using unsigned_less [of a] by simp
  then show ?thesis by (simp add: word_less_nat_alt top6bits_eq)
qed

lemma bits_zero:
  "top2bits a OR bot6bits b = 0 \<longleftrightarrow> a < 64 \<and> b AND 0x3f = 0"
proof -
  have "bot6bits b = 0 \<longleftrightarrow> b AND 0x3f = 0"
  proof
    assume "bot6bits b = 0"
    then have "top6bits (bot6bits b) = 0" by (simp add: top6bits_def)
    then show "b AND 0x3f = 0" by (simp add: bits_join)
  qed (simp add: bot6bits_def)
  then show ?thesis by (simp add: or_eq_0_iff top2bits_0_iff)
qed

lemma byte_zero: "b AND 0x3f = 0 \<Longrightarrow> b < 64 \<Longrightarrow> b = (0 :: byte)"
  using and_63 [of b] by simp

text \<open>An array is its significant bytes followed by zeros.\<close>

lemma trailing_zeros:
  obtains u k where "v = u @ replicate k (0 :: byte)" "u = [] \<or> last u \<noteq> 0"
    "length (takeWhile (\<lambda>x. x = 0) (rev v)) = k"
proof
  define z where "z = takeWhile (\<lambda>x. x = 0) (rev v)"
  define w where "w = dropWhile (\<lambda>x. x = 0) (rev v)"
  have "rev v = z @ w" by (simp add: z_def w_def)
  moreover have "z = replicate (length z) 0"
    by (rule replicate_length_same [symmetric]) (auto simp: z_def dest: set_takeWhileD)
  ultimately have "v = rev w @ replicate (length z) 0" by (metis rev_append rev_replicate rev_rev_ident)
  then show "v = rev w @ replicate (length (takeWhile (\<lambda>x. x = 0) (rev v))) 0" by (simp add: z_def)
  show "rev w = [] \<or> last (rev w) \<noteq> 0"
    using hd_dropWhile [of "\<lambda>x. x = 0" "rev v"] by (auto simp: w_def last_rev)
qed simp

lemma takeWhile_replicate_Cons: "x \<noteq> z \<Longrightarrow> takeWhile (\<lambda>y. y = z) (replicate k z @ x # xs) = replicate k z"
  by (induction k) auto

lemma takeWhile_zeros:
  assumes "u = [] \<or> last u \<noteq> (0 :: byte)"
  shows "takeWhile (\<lambda>x. x = 0) (rev (u @ replicate k 0)) = replicate k 0"
proof (cases "u = []")
  case False
  then obtain x u' where "rev u = x # u'" "x \<noteq> 0" using assms by (cases "rev u") (auto simp: last_rev)
  then show ?thesis by (simp add: takeWhile_replicate_Cons)
qed simp

lemma scale_size_sig:
  assumes "u = [] \<or> last u \<noteq> (0 :: byte)" "length u \<le> SCALE_MAX_BYTES"
  shows "scale_serialized_size (scale_of u) =
    (if length u = 0 \<or> length u = 1 \<and> last u < 64 then 1
     else if length u = 1 \<or> length u = 2 \<and> last u < 64 then 2
     else if length u = 2 \<or> length u = 3 \<or> length u = 4 \<and> last u < 64 then 4
     else length u + 1)"
proof -
  have tz: "length (takeWhile (\<lambda>x. x = 0) (rev (scale_of u))) = SCALE_MAX_BYTES - length u"
    using takeWhile_zeros [OF assms(1)] by (simp add: scale_of_def)
  have occ: "SCALE_MAX_BYTES - (SCALE_MAX_BYTES - length u) = length u" using assms(2) by simp
  show ?thesis
  proof (cases "u = []")
    case False
    then have nth: "scale_of u ! (length u - 1) = last u"
      by (simp add: scale_of_def nth_append last_conv_nth)
    show ?thesis unfolding scale_serialized_size_def Let_def tz occ nth ..
  next
    case True
    show ?thesis unfolding scale_serialized_size_def Let_def tz occ using True by simp
  qed
qed

lemma scale_of_nth: "i < length u \<Longrightarrow> scale_of u ! i = u ! i"
  "length u \<le> i \<Longrightarrow> i < SCALE_MAX_BYTES \<Longrightarrow> scale_of u ! i = 0"
  by (auto simp: scale_of_def nth_append)

lemma scale_of_pad: "k \<le> SCALE_MAX_BYTES - length u \<Longrightarrow> scale_of (u @ replicate k 0) = scale_of u"
  by (auto simp: scale_of_def simp flip: replicate_add)

text \<open>The four forms of an encoding.\<close>

lemma scale_of_drop0: "length u < SCALE_MAX_BYTES \<Longrightarrow> scale_of (u @ [0]) = scale_of u"
  using scale_of_pad [of 1 u] by simp

lemma scale_of_zeros:
  "scale_of [0] = scale_of []" "scale_of [a, 0] = scale_of [a]" "scale_of [a, b, 0] = scale_of [a, b]"
  "scale_of [a, b, c, 0] = scale_of [a, b, c]"
  using scale_of_drop0 [of "[]"] scale_of_drop0 [of "[a]"] scale_of_drop0 [of "[a, b]"]
    scale_of_drop0 [of "[a, b, c]"] by (simp_all add: SCALE_MAX_BYTES_def)

lemma scale_size_1: "a < 64 \<Longrightarrow> scale_serialized_size (scale_of [a]) = 1"
  using scale_size_sig [of "[a]"] scale_size_sig [of "[]"]
  by (cases "a = 0") (simp_all add: scale_of_zeros SCALE_MAX_BYTES_def)

lemma not_less_64: "\<not> a < 64 \<Longrightarrow> a \<noteq> (0 :: byte)"
  by auto

lemma scale_size_2: "b < 64 \<Longrightarrow> b \<noteq> 0 \<or> \<not> a < 64 \<Longrightarrow> scale_serialized_size (scale_of [a, b]) = 2"
  using scale_size_sig [of "[a, b]"] scale_size_sig [of "[a]"] not_less_64 [of a]
  by (cases "b = 0") (auto simp: scale_of_zeros SCALE_MAX_BYTES_def)

lemma scale_size_4:
  assumes "d < 64" "d \<noteq> 0 \<or> c \<noteq> 0 \<or> \<not> b < 64"
  shows "scale_serialized_size (scale_of [a, b, c, d]) = 4"
proof -
  consider "d \<noteq> 0" | "d = 0" "c \<noteq> 0" | "d = 0" "c = 0" "b \<noteq> 0" "\<not> b < 64" using assms by fastforce
  then show ?thesis
  proof cases
    case 1
    then show ?thesis using assms scale_size_sig [of "[a, b, c, d]"] by (simp add: SCALE_MAX_BYTES_def)
  next
    case 2
    then show ?thesis using scale_size_sig [of "[a, b, c]"] by (simp add: scale_of_zeros SCALE_MAX_BYTES_def)
  next
    case 3
    then show ?thesis using scale_size_sig [of "[a, b]"] by (simp add: scale_of_zeros SCALE_MAX_BYTES_def)
  qed
qed

lemma scale_size_n:
  assumes "4 \<le> length u" "last u \<noteq> 0" "length u \<le> SCALE_MAX_BYTES" "length u = 4 \<longrightarrow> \<not> last u < 64"
  shows "scale_serialized_size (scale_of u) = length u + 1"
proof -
  have "u \<noteq> []" using assms(1) by auto
  then show ?thesis using assms scale_size_sig [of u] by (cases "length u = 4") auto
qed

lemmas scale_sizes = scale_size_1 scale_size_2 scale_size_4 scale_size_n

lemma scale_nths:
  "scale_of (a # u) ! 0 = a" "scale_of (a # b # u) ! 1 = b" "scale_of (a # b # c # u) ! 2 = c"
  "scale_of (a # b # c # d # u) ! 3 = d"
  by (simp_all add: scale_of_def)

lemma scale_encode_1: "a < 64 \<Longrightarrow> scale_serialize (scale_of [a]) = Ok [bot6bits a]"
  by (simp add: scale_serialize_def scale_size_1 scale_nths)

lemma scale_encode_2:
  "b < 64 \<Longrightarrow> b \<noteq> 0 \<or> \<not> a < 64 \<Longrightarrow>
     scale_serialize (scale_of [a, b]) = Ok [bot6bits a OR 1, top2bits a OR bot6bits b]"
  by (simp only: scale_serialize_def scale_size_2 Let_def scale_nths) simp

lemma scale_encode_4:
  "d < 64 \<Longrightarrow> d \<noteq> 0 \<or> c \<noteq> 0 \<or> \<not> b < 64 \<Longrightarrow>
     scale_serialize (scale_of [a, b, c, d]) =
       Ok [bot6bits a OR 2, top2bits a OR bot6bits b, top2bits b OR bot6bits c, top2bits c OR bot6bits d]"
  by (simp only: scale_serialize_def scale_size_4 Let_def scale_nths) simp

lemma scale_encode_n:
  assumes "4 \<le> length u" "last u \<noteq> 0" "length u \<le> SCALE_MAX_BYTES" "length u = 4 \<longrightarrow> \<not> last u < 64"
  shows "scale_serialize (scale_of u) = Ok ((push_bit 2 (word_of_nat (length u - 4)) OR 3) # u)"
proof -
  have "word_of_nat (length u + 1) - 5 = (word_of_nat (length u - 4) :: byte)"
    using assms(1) by (simp add: of_nat_diff)
  moreover have "take (length u) (scale_of u) = u" by (simp add: scale_of_def)
  moreover have "u \<noteq> []" using assms(1) by auto
  ultimately show ?thesis using assms(1) by (simp add: scale_serialize_def scale_size_n [OF assms])
qed

lemma scale_decode_1: "a < 64 \<Longrightarrow> scale_deserialize depth (bot6bits a # rest) = Ok (scale_of [a], rest)"
  by (simp add: scale_deserialize_def marker bits_join and_63)

lemma scale_decode_2:
  assumes "b < 64" "b \<noteq> 0 \<or> \<not> a < 64"
  shows "scale_deserialize depth ((bot6bits a OR 1) # (top2bits a OR bot6bits b) # rest) = Ok (scale_of [a, b], rest)"
proof -
  have "top2bits a OR bot6bits b \<noteq> 0" using assms byte_zero [of b] unfolding bits_zero by auto
  then show ?thesis by (simp add: scale_deserialize_def marker bits_join and_63 assms(1))
qed

lemma scale_decode_4:
  assumes "d < 64" "d \<noteq> 0 \<or> c \<noteq> 0 \<or> \<not> b < 64"
  shows "scale_deserialize depth ((bot6bits a OR 2) # (top2bits a OR bot6bits b) # (top2bits b OR bot6bits c) #
    (top2bits c OR bot6bits d) # rest) = Ok (scale_of [a, b, c, d], rest)"
proof -
  have "\<not> (top2bits b OR bot6bits c = 0 \<and> top2bits c OR bot6bits d = 0)"
    using assms byte_zero [of c] byte_zero [of d] unfolding bits_zero by auto
  then show ?thesis by (simp add: scale_deserialize_def marker bits_join and_63 assms(1))
qed

lemma scale_decode_n:
  assumes "4 \<le> length u" "last u \<noteq> 0" "length u \<le> SCALE_MAX_BYTES"
  shows "scale_deserialize depth ((push_bit 2 (word_of_nat (length u - 4)) OR 3) # u @ rest) = Ok (scale_of u, rest)"
proof -
  define k where "k = length u - 4"
  have k: "k < 64" using assms(3) by (simp add: k_def SCALE_MAX_BYTES_def)
  have "top6bits (push_bit 2 (word_of_nat k) OR 3) = word_of_nat k AND 0x3f"
    by (rule byte_eqI; simp add: bits_defs bit_simps)
  also have "\<dots> = word_of_nat k"
    by (rule and_63) (use k in \<open>simp add: word_less_nat_alt unsigned_of_nat take_bit_eq_mod\<close>)
  finally have "unat (top6bits (push_bit 2 (word_of_nat k) OR 3)) = k"
    using k by (simp add: unsigned_of_nat take_bit_eq_mod)
  moreover have "u ! (length u - 1) \<noteq> 0" using assms(1,2) last_conv_nth [of u] by fastforce
  ultimately show ?thesis using assms(1)
    by (simp add: scale_deserialize_def marker Let_def flip: k_def) (simp add: k_def)
qed

text \<open>Every array has exactly one of the four forms.\<close>

lemma scale_forms:
  assumes "length v = SCALE_MAX_BYTES"
  obtains a where "v = scale_of [a]" "a < 64"
  | a b where "v = scale_of [a, b]" "b < 64" "b \<noteq> 0 \<or> \<not> a < 64"
  | a b c d where "v = scale_of [a, b, c, d]" "d < 64" "d \<noteq> 0 \<or> c \<noteq> 0 \<or> \<not> b < 64"
  | u where "v = scale_of u" "4 \<le> length u" "last u \<noteq> 0" "length u \<le> SCALE_MAX_BYTES"
      "length u = 4 \<longrightarrow> \<not> last u < 64"
proof -
  obtain u k where u: "v = u @ replicate k 0" "u = [] \<or> last u \<noteq> 0" by (rule trailing_zeros)
  then have v: "v = scale_of u" and len: "length u \<le> SCALE_MAX_BYTES"
    using assms by (auto simp: scale_of_def)
  consider "u = []" | a where "u = [a]" | a b where "u = [a, b]" | a b c where "u = [a, b, c]"
    | a b c d where "u = [a, b, c, d]" | "4 < length u"
    by (cases u rule: remdups_adj.cases; cases "tl (tl u)" rule: remdups_adj.cases; cases "tl (tl (tl (tl u)))")
      auto
  then show thesis
  proof cases
    case 1
    then show thesis using v that(1) [of 0] by (simp add: scale_of_zeros)
  next
    case (2 a)
    then show thesis using v that(1) [of a] that(2) [of a 0] by (cases "a < 64") (simp_all add: scale_of_zeros)
  next
    case (3 a b)
    then show thesis using v u(2) that(2) [of a b] that(3) [of a b 0 0]
      by (cases "b < 64") (simp_all add: scale_of_zeros)
  next
    case (4 a b c)
    then show thesis using v u(2) that(3) [of a b c 0] by (simp add: scale_of_zeros)
  next
    case (5 a b c d)
    then show thesis using v u(2) len that(3) [of a b c d] that(4) [of u] by (cases "d < 64") simp_all
  next
    case 6
    then show thesis using v u(2) len that(4) [of u] by auto
  qed
qed

lemma scale_round_trip:
  assumes "length v = SCALE_MAX_BYTES"
  shows "\<exists>bs. scale_serialize v = Ok bs \<and> length bs = scale_serialized_size v \<and>
    scale_deserialize depth (bs @ rest) = Ok (v, rest)"
proof (rule scale_forms [OF assms])
  fix a
  assume "v = scale_of [a]" "a < 64"
  then show ?thesis by (simp add: scale_encode_1 scale_decode_1 scale_size_1)
next
  fix a b
  assume "v = scale_of [a, b]" "b < 64" "b \<noteq> 0 \<or> \<not> a < 64"
  then show ?thesis by (simp only: scale_encode_2 scale_size_2) (simp add: scale_decode_2)
next
  fix a b c d
  assume "v = scale_of [a, b, c, d]" "d < 64" "d \<noteq> 0 \<or> c \<noteq> 0 \<or> \<not> b < 64"
  then show ?thesis by (simp only: scale_encode_4 scale_size_4) (simp add: scale_decode_4)
next
  fix u :: "byte list"
  assume u: "4 \<le> length u" "last u \<noteq> 0" "length u \<le> SCALE_MAX_BYTES" "length u = 4 \<longrightarrow> \<not> last u < 64"
  assume "v = scale_of u"
  then show ?thesis using scale_encode_n [OF u] scale_size_n [OF u] scale_decode_n [OF u(1-3)] by simp
qed

text \<open>What the decoder accepts is what the encoder produces, with one exception: four bytes in the
  long form although they fit the four-byte form.\<close>

definition scale_overlong :: "byte list \<Rightarrow> byte list \<Rightarrow> bool" where
  "scale_overlong bs rest \<longleftrightarrow> (\<exists>a b c d. bs = 3 # a # b # c # d # rest \<and> d \<noteq> 0 \<and> d < 64)"

lemma long_form_marker:
  assumes "first AND 3 = 3"
  shows "push_bit 2 (word_of_nat (unat (top6bits first))) OR 3 = (first :: byte)"
proof -
  have b: "bit first 0 \<longleftrightarrow> bit (first AND 3) 0" "bit first 1 \<longleftrightarrow> bit (first AND 3) 1"
    by (simp_all add: bit_simps)
  have "push_bit 2 (top6bits first) OR 3 = first"
    by (rule byte_eqI; use b assms in \<open>simp add: bits_defs bit_simps\<close>)
  then show ?thesis by simp
qed

lemma scale_canonical_2:
  assumes "second \<noteq> 0" "first AND 3 = 1"
  shows "scale_serialize (scale_of [top6bits first OR bot2bits second, top6bits second]) = Ok [first, second]"
proof -
  have "top6bits second \<noteq> 0 \<or> \<not> top6bits first OR bot2bits second < 64"
    using assms(1) bits_split(5) [of first second] by (auto simp flip: top2bits_0_iff)
  then show ?thesis using assms(2) by (simp add: scale_encode_2 bits_split)
qed

lemma scale_canonical_4:
  assumes "\<not> (third = 0 \<and> fourth = 0)" "first AND 3 = 2"
  shows "scale_serialize (scale_of [top6bits first OR bot2bits second, top6bits second OR bot2bits third,
    top6bits third OR bot2bits fourth, top6bits fourth]) = Ok [first, second, third, fourth]"
proof -
  have "top6bits fourth \<noteq> 0 \<or> top6bits third OR bot2bits fourth \<noteq> 0 \<or> \<not> top6bits second OR bot2bits third < 64"
    using assms(1) bits_split(4) [of second third fourth] bits_split(5) [of third fourth]
    by (auto simp flip: top2bits_0_iff)
  then show ?thesis using assms(2) by (simp add: scale_encode_4 bits_split)
qed

lemma scale_canonical_n:
  assumes "first AND 3 = 3" "length buf = unat (top6bits first) + 4" "buf ! (length buf - 1) \<noteq> 0"
  shows "scale_serialize (scale_of buf) = Ok (first # buf) \<or> scale_overlong (first # buf @ rest) rest"
proof (cases "length buf = 4 \<longrightarrow> \<not> last buf < 64")
  case True
  have "last buf \<noteq> 0" using assms(2,3) last_conv_nth [of buf] by fastforce
  moreover have "unat (top6bits first) < 64"
    using top6bits_less [of first] unfolding word_less_nat_alt by simp
  ultimately have "scale_serialize (scale_of buf) = Ok ((push_bit 2 (word_of_nat (length buf - 4)) OR 3) # buf)"
    using scale_encode_n [of buf] True assms(2) by (simp add: SCALE_MAX_BYTES_def)
  then show ?thesis using long_form_marker [OF assms(1)] assms(2) by simp
next
  case False
  then have "unat (top6bits first) = 0" using assms(2) by simp
  then have "first = 3" using long_form_marker [OF assms(1)] by simp
  moreover obtain a b c d where "buf = [a, b, c, d]"
    using False by (auto simp: length_Suc_conv numeral_eq_Suc)
  ultimately show ?thesis using False assms(3) by (simp add: scale_overlong_def)
qed

lemma scale_decode_canonical:
  assumes "scale_deserialize depth bs = Ok (v, rest)"
  shows "(\<exists>cs. scale_serialize v = Ok cs \<and> bs = cs @ rest) \<or> scale_overlong bs rest"
proof -
  obtain first r1 where bs: "bs = first # r1" using assms
    by (auto simp: scale_deserialize_def result_simps u8_deserialize_Ok)
  consider "first AND 3 = 0" | "first AND 3 = 1" | "first AND 3 = 2" | "first AND 3 = 3"
  proof -
    have "first AND 3 = take_bit 2 first" by (simp add: take_bit_eq_mask mask_numeral)
    then have "unat (first AND 3) < 4"
      using take_bit_nat_less_exp [of 2 "unat first"] by (simp add: unsigned_take_bit_eq)
    then have "unat (first AND 3) = 0 \<or> unat (first AND 3) = 1 \<or> unat (first AND 3) = 2 \<or> unat (first AND 3) = 3"
      by linarith
    then show thesis using that by (auto simp: word_unat_eq_iff)
  qed
  then show ?thesis
  proof cases
    case 1
    then show ?thesis using assms by (auto simp: bs scale_deserialize_def scale_encode_1 bits_split)
  next
    case 2
    then show ?thesis using assms
      by (auto simp: bs scale_deserialize_def result_simps u8_deserialize_Ok scale_canonical_2 split: if_splits)
  next
    case 3
    then show ?thesis using assms
      by (auto simp: bs scale_deserialize_def result_simps u8_deserialize_Ok scale_canonical_4 split: if_splits)
  next
    case 4
    then obtain buf where buf: "length buf = unat (top6bits first) + 4" "r1 = buf @ rest" "v = scale_of buf"
        "buf ! (unat (top6bits first) + 4 - 1) \<noteq> 0"
      using assms by (auto simp: bs scale_deserialize_def Let_def result_simps read_exact_Ok split: if_splits)
    from scale_canonical_n [OF 4 buf(1), of rest] buf show ?thesis by (auto simp: bs)
  qed
qed

section \<open>The contract of a codec\<close>

text \<open>What an encoder, a decoder and a size function owe each other: on values \<open>ok\<close> at a recursion
  depth, decoding an encoding gives the value back and leaves what follows, and the size is the
  number of bytes written.\<close>

lemma seq_elements_law:
  assumes "\<And>x bs rest. x \<in> set xs \<Longrightarrow> ser x = Ok bs \<Longrightarrow> des (bs @ rest) = Ok (x, rest) \<and> length bs = sz x"
    and "seq_serialize ser xs = Ok bs"
  shows "read_many des (length xs) (bs @ rest) = Ok (xs, rest) \<and> length bs = sum_list (map sz xs)"
  using assms
proof (induction xs arbitrary: bs)
  case (Cons x xs)
  from Cons.prems(2) obtain b c where bc: "ser x = Ok b" "seq_serialize ser xs = Ok c" "bs = b @ c"
    by (auto simp: result_simps)
  have "read_many des (length xs) (c @ rest) = Ok (xs, rest) \<and> length c = sum_list (map sz xs)"
    by (rule Cons.IH [OF _ bc(2)]) (rule Cons.prems(1); simp)
  then show ?case using Cons.prems(1) [OF _ bc(1), of "c @ rest"] bc(3) by simp
qed simp

locale codec =
  fixes ser :: "'a writer" and des :: "nat \<Rightarrow> 'a reader" and sz :: "'a \<Rightarrow> nat" and ok :: "nat \<Rightarrow> 'a \<Rightarrow> bool"
  assumes round_trip: "ok depth x \<Longrightarrow> ser x = Ok bs \<Longrightarrow> des depth (bs @ rest) = Ok (x, rest)"
    and size_law: "ok depth x \<Longrightarrow> ser x = Ok bs \<Longrightarrow> length bs = sz x"
begin

lemma seq_law:
  "list_all (ok depth) xs \<Longrightarrow> seq_serialize ser xs = Ok bs \<Longrightarrow>
     read_many (des depth) (length xs) (bs @ rest) = Ok (xs, rest) \<and> length bs = sum_list (map sz xs)"
  by (rule seq_elements_law) (auto simp: list_all_iff round_trip size_law)

lemma tagged_law:
  assumes "ok 0 x" "tagged_serialize tag ser x = Ok bs"
  shows "tagged_deserialize tag des bs = Ok x \<and> length bs = tagged_serialized_size tag sz x"
proof -
  obtain b where b: "ser x = Ok b" "bs = ascii (GLOBAL_TAG @ tag @ '':'') @ b"
    using assms(2) by (auto simp: tagged_serialize_def result_simps)
  then show ?thesis using round_trip [OF assms(1) b(1), of "[]"] size_law [OF assms(1) b(1)]
    by (simp add: tagged_deserialize_def tagged_deserialize_inner_def tagged_serialized_size_def ascii_def)
qed

end

text \<open>Containers of a codec are codecs.\<close>

lemma check_rec_Ok [simp]: "depth < RECURSION_LIMIT \<Longrightarrow> check_rec depth = Ok (depth + 1)"
  by (simp add: check_rec_def)

lemma le_bytes_zero: "le_bytes n 0 = replicate n 0"
  by (induction n) auto

lemma le_bytes_more: "v < 256 ^ n \<Longrightarrow> le_bytes (n + k) v = le_bytes n v @ replicate k 0"
proof (induction n arbitrary: v)
  case (Suc n)
  have "v div 256 < 256 ^ n" using Suc.prems by (simp add: less_mult_imp_div_less mult.commute)
  then show ?case using Suc.IH by simp
qed (simp add: le_bytes_zero)

lemma scale_of_le_bytes:
  "v < 256 ^ n \<Longrightarrow> n + k \<le> SCALE_MAX_BYTES \<Longrightarrow> scale_of (le_bytes (n + k) v) = scale_of (le_bytes n v)"
  by (simp add: le_bytes_more scale_of_pad)

lemma length_scale_of [simp]: "length u \<le> SCALE_MAX_BYTES \<Longrightarrow> length (scale_of u) = SCALE_MAX_BYTES"
  by (simp add: scale_of_def)

lemma uint_law:
  assumes "v < 256 ^ n" "n \<le> SCALE_MAX_BYTES"
  shows "\<exists>bs. uint_serialize n v = Ok bs \<and> length bs = uint_size n v \<and>
    uint_deserialize n depth (bs @ rest) = Ok (v, rest)"
proof -
  obtain bs where "scale_serialize (scale_of (le_bytes n v)) = Ok bs"
    "length bs = scale_serialized_size (scale_of (le_bytes n v))"
    "scale_deserialize depth (bs @ rest) = Ok (scale_of (le_bytes n v), rest)"
    using scale_round_trip [of "scale_of (le_bytes n v)" depth rest] assms(2) by auto
  moreover have "\<not> list_ex (\<lambda>b. b \<noteq> 0) (drop n (scale_of (le_bytes n v)))"
    "take n (scale_of (le_bytes n v)) = le_bytes n v"
    by (simp_all add: scale_of_def list_ex_iff)
  ultimately show ?thesis using assms(1)
    by (simp add: uint_serialize_def uint_size_def uint_deserialize_def le_value_le_bytes)
qed

text \<open>The encoders of the library under the contract.\<close>

interpretation scale_c: codec scale_serialize scale_deserialize scale_serialized_size
  "\<lambda>depth v. length v = SCALE_MAX_BYTES"
  by unfold_locales (use scale_round_trip in fastforce)+

interpretation uint_c: codec "uint_serialize n" "uint_deserialize n" "uint_size n"
  "\<lambda>depth v. v < 256 ^ n \<and> n \<le> SCALE_MAX_BYTES" for n
  by unfold_locales (use uint_law in fastforce)+

interpretation bool_c: codec bool_serialize bool_deserialize "\<lambda>b. 1" "\<lambda>depth b. True"
  by unfold_locales (auto simp: bool_serialize_def bool_deserialize_def read_exact_def split: if_splits)

interpretation fixed_c: codec "fixed_serialize n" "fixed_deserialize n" "\<lambda>v. n" "\<lambda>depth v. v < 256 ^ n" for n
  by unfold_locales (auto simp: fixed_serialize_def fixed_deserialize_def le_value_le_bytes)

lemma signed_law:
  assumes "- (2 ^ (8 * n - 1)) \<le> v" "v < 2 ^ (8 * n - 1)" "0 < n"
  shows "signed_deserialize n depth (le_bytes n (nat (v mod 2 ^ (8 * n))) @ rest) = Ok (v, rest)"
proof -
  define h :: int where "h = 2 ^ (8 * n - 1)"
  have two: "(2 :: int) ^ (8 * n) = 2 * h" unfolding h_def using assms(3) power_Suc [of "2 :: int" "8 * n - 1"] by simp
  have "(256 :: nat) ^ n = 2 ^ (8 * n)" by (simp add: power_mult)
  then have "int (256 ^ n) = 2 * h" using two by simp
  then have val: "int (nat (v mod (2 * h)) mod 256 ^ n) = v mod (2 * h)"
    by (simp add: zmod_int h_def)
  have bounds: "- h \<le> v" "v < h" using assms(1,2) by (simp_all add: h_def)
  have mod: "v mod (2 * h) = (if 0 \<le> v then v else v + 2 * h)"
  proof (cases "0 \<le> v")
    case True
    then show ?thesis using bounds by simp
  next
    case False
    then have "(v + 2 * h) mod (2 * h) = v + 2 * h" using bounds by (intro mod_pos_pos_trivial) linarith+
    then show ?thesis using False by simp
  qed
  show ?thesis
    unfolding signed_deserialize_def two h_def [symmetric] using bounds
    by (simp add: le_value_le_bytes val) (simp add: mod)
qed

interpretation signed_c: codec "signed_serialize n" "signed_deserialize n" "\<lambda>v. n"
  "\<lambda>depth v. - (2 ^ (8 * n - 1)) \<le> v \<and> v < 2 ^ (8 * n - 1) \<and> 0 < n" for n
  by unfold_locales (auto simp: signed_serialize_def signed_law)

context codec
begin

lemma vec_size_sum: "vec_size sz xs = uint_size 8 (length xs) + sum_list (map sz xs)"
proof -
  have "fold (\<lambda>x acc. acc + sz x) xs n = n + sum_list (map sz xs)" for n
    by (induction xs arbitrary: n) auto
  then show ?thesis by (simp add: vec_size_def)
qed

lemma vec_codec:
  "codec (vec_serialize ser) (vec_deserialize des) (vec_size sz)
     (\<lambda>depth xs. depth < RECURSION_LIMIT \<and> length xs < 2 ^ 32 \<and> list_all (ok (depth + 1)) xs)"
proof
  fix depth xs bs rest
  assume wf: "depth < RECURSION_LIMIT \<and> length xs < 2 ^ 32 \<and> list_all (ok (depth + 1)) xs"
  assume "vec_serialize ser xs = Ok bs"
  then obtain b c where bc: "uint_serialize 4 (length xs) = Ok b" "seq_serialize ser xs = Ok c" "bs = b @ c"
    using wf by (auto simp: vec_serialize_def result_simps)
  have len: "length xs < 256 ^ 4 \<and> (4::nat) \<le> SCALE_MAX_BYTES" using wf by (simp add: SCALE_MAX_BYTES_def)
  have seq: "read_many (des (depth + 1)) (length xs) (c @ rest) = Ok (xs, rest) \<and> length c = sum_list (map sz xs)"
    using wf bc(2) by (intro seq_law) simp_all
  have "uint_deserialize 4 (depth + 1) (b @ c @ rest) = Ok (length xs, c @ rest)"
    using uint_c.round_trip [OF len bc(1)] .
  then show "vec_deserialize des depth (bs @ rest) = Ok (xs, rest)"
    using wf bc(3) seq by (simp add: vec_deserialize_def)
  have "uint_size 4 (length xs) = uint_size 8 (length xs)"
    using scale_of_le_bytes [of "length xs" 4 4] len by (simp add: uint_size_def SCALE_MAX_BYTES_def)
  then show "length bs = vec_size sz xs"
    using bc(3) seq uint_c.size_law [OF len bc(1)] by (simp add: vec_size_sum)
qed

lemma option_codec:
  "codec (option_serialize ser) (option_deserialize des) (option_size sz)
     (\<lambda>depth x. depth < RECURSION_LIMIT \<and> (\<forall>v. x = Some v \<longrightarrow> ok (depth + 1) v))"
proof
  fix depth x bs rest
  assume wf: "depth < RECURSION_LIMIT \<and> (\<forall>v. x = Some v \<longrightarrow> ok (depth + 1) v)"
  assume ser: "option_serialize ser x = Ok bs"
  show "option_deserialize des depth (bs @ rest) = Ok (x, rest)"
    using wf ser round_trip
    by (cases x) (auto simp: option_deserialize_def fixed_serialize_def fixed_deserialize_def result_simps
        read_exact_def le_value_def)
  show "length bs = option_size sz x"
    using wf ser size_law by (cases x) (auto simp: fixed_serialize_def result_simps)
qed

end

lemma pair_codec:
  assumes "codec sa da za oka" "codec sb db zb okb"
  shows "codec (pair_serialize sa sb) (pair_deserialize da db) (pair_size za zb)
    (\<lambda>depth p. depth < RECURSION_LIMIT \<and> oka (depth + 1) (fst p) \<and> okb (depth + 1) (snd p))"
proof
  fix depth p bs rest
  assume wf: "depth < RECURSION_LIMIT \<and> oka (depth + 1) (fst p) \<and> okb (depth + 1) (snd p)"
  assume "pair_serialize sa sb p = Ok bs"
  then obtain b c where bc: "sa (fst p) = Ok b" "sb (snd p) = Ok c" "bs = b @ c"
    by (auto simp: pair_serialize_def result_simps)
  show "pair_deserialize da db depth (bs @ rest) = Ok (p, rest)"
    using wf bc codec.round_trip [OF assms(1), of "depth + 1" "fst p" b "c @ rest"]
      codec.round_trip [OF assms(2), of "depth + 1" "snd p" c rest]
    by (simp add: pair_deserialize_def)
  show "length bs = pair_size za zb p"
    using wf bc codec.size_law [OF assms(1), of "depth + 1" "fst p" b]
      codec.size_law [OF assms(2), of "depth + 1" "snd p" c]
    by (simp add: pair_size_def)
qed

text \<open>Vectors of bytes and of 64-bit integers.\<close>

interpretation byte_vec_c: codec "vec_serialize (fixed_serialize 1)" "vec_deserialize (fixed_deserialize 1)"
  "vec_size (\<lambda>v. 1)"
  "\<lambda>depth xs. depth < RECURSION_LIMIT \<and> length xs < 2 ^ 32 \<and> list_all (\<lambda>v. v < 256 ^ 1) xs"
  by (rule fixed_c.vec_codec)

interpretation u64_vec_c: codec "vec_serialize (uint_serialize 8)" "vec_deserialize (uint_deserialize 8)"
  "vec_size (uint_size 8)"
  "\<lambda>depth xs. depth < RECURSION_LIMIT \<and> length xs < 2 ^ 32 \<and>
     list_all (\<lambda>v. v < 256 ^ 8 \<and> 8 \<le> SCALE_MAX_BYTES) xs"
  by (rule uint_c.vec_codec)

section \<open>Properties\<close>

text \<open>C37: an unsigned integer of \<open>n\<close> bytes is always encoded, in as many bytes as announced and at
  most one more than its width, and decoding the encoding gives it back and leaves the bytes that
  follow.\<close>

theorem uint_round_trip:
  assumes "v < 256 ^ n" "4 \<le> n" "n \<le> 16"
  shows "\<exists>bs. uint_serialize n v = Ok bs \<and> length bs = uint_size n v \<and> 1 \<le> length bs \<and> length bs \<le> n + 1 \<and>
    uint_deserialize n depth (bs @ rest) = Ok (v, rest)"
proof -
  have n: "n \<le> SCALE_MAX_BYTES" using assms(3) by (simp add: SCALE_MAX_BYTES_def)
  obtain u k where u: "le_bytes n v = u @ replicate k 0" "u = [] \<or> last u \<noteq> 0" by (rule trailing_zeros)
  have "length (u @ replicate k 0) = n" using u(1) by (metis length_le_bytes)
  then have len: "length u \<le> n" "k \<le> SCALE_MAX_BYTES - length u" using n by auto
  then have "uint_size n v = scale_serialized_size (scale_of u)"
    using u(1) by (simp add: uint_size_def scale_of_pad)
  then have "1 \<le> uint_size n v" "uint_size n v \<le> n + 1"
    using scale_size_sig [OF u(2)] len n assms(2) by auto
  then show ?thesis using uint_law [OF assms(1) n, of depth rest] by auto
qed

theorem uint_round_trip_witness:
  "\<exists>bs. uint_serialize 8 1000000 = Ok bs \<and> length bs = uint_size 8 1000000 \<and> 1 \<le> length bs \<and> length bs \<le> 8 + 1 \<and>
    uint_deserialize 8 0 (bs @ [7]) = Ok (1000000, [7])"
  by (rule uint_round_trip) simp_all

text \<open>the decoder of SCALE integers accepts nothing but the encoder's output, with one exception:
  the long form of four bytes whose top byte is below 64.\<close>

theorem scale_accepts_canonical:
  assumes "scale_deserialize depth bs = Ok (v, rest)"
  shows "(\<exists>cs. scale_serialize v = Ok cs \<and> bs = cs @ rest) \<or>
    (\<exists>a b c d. bs = 3 # a # b # c # d # rest \<and> d \<noteq> 0 \<and> d < 64)"
  using scale_decode_canonical [OF assms] by (simp add: scale_overlong_def)

theorem scale_accepts_canonical_witness:
  "scale_deserialize 0 [5, 1] = Ok (scale_of [0x41, 0], []) \<and>
   ((\<exists>cs. scale_serialize (scale_of [0x41, 0]) = Ok cs \<and> [5, 1] = cs @ []) \<or>
    (\<exists>a b c d. [5, 1] = 3 # a # b # c # d # [] \<and> d \<noteq> 0 \<and> d < 64))"
proof -
  have dec: "scale_deserialize 0 [5, 1] = Ok (scale_of [0x41, 0], [])"
    by (simp add: scale_deserialize_def bits_defs)
  from scale_accepts_canonical [OF dec] dec show ?thesis by blast
qed

text \<open>the exception is real: such an overlong encoding is accepted, so that two different byte
  strings decode to the same integer.\<close>

theorem scale_accepts_overlong:
  assumes "d \<noteq> 0" "d < 64"
  shows "scale_deserialize depth (3 # a # b # c # d # rest) = Ok (scale_of [a, b, c, d], rest) \<and>
    (\<exists>cs. scale_serialize (scale_of [a, b, c, d]) = Ok cs \<and> length cs = 4 \<and>
      scale_deserialize depth (cs @ rest) = Ok (scale_of [a, b, c, d], rest))"
  using assms scale_decode_n [of "[a, b, c, d]" depth rest]
  by (simp add: SCALE_MAX_BYTES_def scale_encode_4 scale_decode_4)

theorem scale_accepts_overlong_witness:
  "scale_deserialize 0 [3, 1, 0, 0, 1] = Ok (scale_of [1, 0, 0, 1], []) \<and>
   (\<exists>cs. scale_serialize (scale_of [1, 0, 0, 1]) = Ok cs \<and> length cs = 4 \<and>
     scale_deserialize 0 (cs @ []) = Ok (scale_of [1, 0, 0, 1], []))"
  by (rule scale_accepts_overlong) simp_all

end
