(* ===== verification/Fab.thy ===== *)
theory Fab
  imports Serialize
begin

text \<open>
  Field-aligned binary values (\<^verbatim>\<open>base-crypto/src/fab\<close>): values, alignments and when a value fits
  an alignment (\<^verbatim>\<open>encoding.rs\<close>), the conversions of built-in types (\<^verbatim>\<open>conversions.rs\<close>,
  \<^verbatim>\<open>alignments.rs\<close>). Their binary encoding is the theory \<^verbatim>\<open>Fab_Serialize\<close>.

  Atoms are lists of bytes, values lists of atoms, alignments lists of segments. Borrowed slices
  are the lists themselves. The types without a fixed width (field elements) are not converted
  here.
\<close>

section \<open>Values and alignments\<close>

type_synonym value_atom = "byte list"
type_synonym fab_value = "value_atom list"

datatype alignment_atom = Compress | Bytes nat | Field_atom

datatype alignment_segment = Atom alignment_atom | Option_of "alignment_segment list list"

type_synonym alignment = "alignment_segment list"

record aligned_value =
  av_value :: fab_value
  av_alignment :: alignment

function atom_normalize :: "value_atom \<Rightarrow> value_atom" where
  "atom_normalize a = (if a \<noteq> [] \<and> last a = 0 then atom_normalize (butlast a) else a)"
  by pat_completeness auto
termination by (relation "measure length") auto

declare atom_normalize.simps [simp del]

definition is_in_normal_form :: "value_atom \<Rightarrow> bool" where
  "is_in_normal_form a \<longleftrightarrow> \<not> (a \<noteq> [] \<and> last a = 0)"

definition FIELD_BYTE_LIMIT :: nat where "FIELD_BYTE_LIMIT = 64"

fun atom_fits :: "alignment_atom \<Rightarrow> value_atom \<Rightarrow> bool" where
  "atom_fits Compress a = True"
| "atom_fits (Bytes len) a = (len \<ge> length a mod 2 ^ 32 \<and> is_in_normal_form a)"
| "atom_fits Field_atom a = (FIELD_BYTE_LIMIT \<ge> length a \<and> is_in_normal_form a)"

section \<open>Conversions\<close>

datatype invalid_builtin_decode = InvalidBuiltinDecode string

definition atom_of_uint :: "nat \<Rightarrow> value_atom" where
  "atom_of_uint v = atom_normalize (le_bytes 16 v)"

definition u128_of_atom :: "value_atom \<Rightarrow> (invalid_builtin_decode, nat) result" where
  "u128_of_atom a =
     (if length a \<le> 16 then Ok (le_value (a @ replicate (16 - length a) 0))
      else Err (InvalidBuiltinDecode ''Fr''))"

text \<open>The unsigned types of \<open>n\<close> bytes, named \<open>ty\<close>, decoded through 128 bits.\<close>

definition uint_of_atom :: "nat \<Rightarrow> string \<Rightarrow> value_atom \<Rightarrow> (invalid_builtin_decode, nat) result" where
  "uint_of_atom n ty a =
     and_then (u128_of_atom a) (\<lambda>v. if v < 256 ^ n then Ok v else Err (InvalidBuiltinDecode ty))"

definition atom_of_bool :: "bool \<Rightarrow> value_atom" where
  "atom_of_bool b = atom_normalize [if b then 1 else 0]"

definition bool_of_atom :: "value_atom \<Rightarrow> (invalid_builtin_decode, bool) result" where
  "bool_of_atom a =
     and_then (uint_of_atom 1 ''u8'' a) (\<lambda>byte.
       if byte = 0 then Ok False else if byte = 1 then Ok True else Err (InvalidBuiltinDecode ''bool''))"

definition PERSISTENT_HASH_BYTES :: nat where "PERSISTENT_HASH_BYTES = 32"

type_synonym hash_output = "byte list"

definition atom_of_hash :: "hash_output \<Rightarrow> value_atom" where
  "atom_of_hash h = atom_normalize h"

definition hash_of_atom :: "value_atom \<Rightarrow> (invalid_builtin_decode, hash_output) result" where
  "hash_of_atom a =
     (if length a \<le> PERSISTENT_HASH_BYTES then Ok (a @ replicate (PERSISTENT_HASH_BYTES - length a) 0)
      else Err (InvalidBuiltinDecode ''HashOutput''))"

text \<open>A primitive type occupies a value of exactly one atom.\<close>

definition prim_of_value ::
  "string \<Rightarrow> (value_atom \<Rightarrow> (invalid_builtin_decode, 'a) result) \<Rightarrow> fab_value \<Rightarrow> (invalid_builtin_decode, 'a) result" where
  "prim_of_value ty f v = (if length v = 1 then f (v ! 0) else Err (InvalidBuiltinDecode ty))"

definition u8_of_value :: "fab_value \<Rightarrow> (invalid_builtin_decode, nat) result" where
  "u8_of_value = prim_of_value ''u8'' (uint_of_atom 1 ''u8'')"
definition u16_of_value :: "fab_value \<Rightarrow> (invalid_builtin_decode, nat) result" where
  "u16_of_value = prim_of_value ''u16'' (uint_of_atom 2 ''u16'')"
definition u32_of_value :: "fab_value \<Rightarrow> (invalid_builtin_decode, nat) result" where
  "u32_of_value = prim_of_value ''u32'' (uint_of_atom 4 ''u32'')"
definition u64_of_value :: "fab_value \<Rightarrow> (invalid_builtin_decode, nat) result" where
  "u64_of_value = prim_of_value ''u64'' (uint_of_atom 8 ''u64'')"
definition bool_of_value :: "fab_value \<Rightarrow> (invalid_builtin_decode, bool) result" where
  "bool_of_value = prim_of_value ''bool'' bool_of_atom"
definition hash_of_value :: "fab_value \<Rightarrow> (invalid_builtin_decode, hash_output) result" where
  "hash_of_value = prim_of_value ''HashOutput'' hash_of_atom"

section \<open>Fitting a value into an alignment\<close>

text \<open>The accumulator, its update and the number of atoms it stands for are arguments, as in the
  source.\<close>

function consume_internal ::
  "('t \<Rightarrow> alignment_atom \<Rightarrow> 't) \<Rightarrow> ('t \<Rightarrow> nat) \<Rightarrow> alignment \<Rightarrow> fab_value \<Rightarrow> 't \<Rightarrow> 't option" where
  "consume_internal f len [] v acc = Some acc"
| "consume_internal f len (Atom pty # ts) v acc =
     (if v = [] \<or> \<not> atom_fits pty (hd v) then None
      else consume_internal f len ts (tl v) (f acc pty))"
| "consume_internal f len (Option_of tys # ts) v acc =
     (if v = [] \<or> \<not> atom_fits (Bytes 2) (hd v) then None
      else
        (case u16_of_value [hd v] of
           Ok branch \<Rightarrow>
             if branch < length tys then
               (case consume_internal f len (tys ! branch) (tl v) (f acc (Bytes 2)) of
                  None \<Rightarrow> None
                | Some acc' \<Rightarrow> consume_internal f len ts (drop (len acc' - len (f acc (Bytes 2))) (tl v)) acc')
             else None
         | _ \<Rightarrow> None))"
  by pat_completeness auto
termination
proof (relation "measure (\<lambda>(f, len, al, v, acc). size_list size al)", goal_cases)
  case (3 f len tys ts v acc branch)
  have "size_list size (tys ! branch) \<le> size_list (size_list size) tys"
    using 3 by (meson nth_mem size_list_estimation' order_refl)
  then show ?case by simp
qed auto

definition consume :: "alignment \<Rightarrow> fab_value \<Rightarrow> (fab_value \<times> fab_value) option" where
  "consume al v =
     map_option (\<lambda>split_point. (take split_point v, drop split_point v))
       (consume_internal (\<lambda>ctr _. ctr + 1) (\<lambda>ctr. ctr) al v 0)"

definition fits :: "alignment \<Rightarrow> fab_value \<Rightarrow> bool" where
  "fits al v \<longleftrightarrow> map_option (\<lambda>(_, res). res = []) (consume al v) = Some True"

fun alignment_default :: "alignment \<Rightarrow> fab_value" where
  "alignment_default [] = []"
| "alignment_default (Atom _ # ts) = [] # alignment_default ts"
| "alignment_default (Option_of [] # ts) = alignment_default ts"
| "alignment_default (Option_of (ty # tys) # ts) = alignment_default ty @ alignment_default ts"

definition aligned_value_new :: "fab_value \<Rightarrow> alignment \<Rightarrow> aligned_value option" where
  "aligned_value_new v al = (if fits al v then Some \<lparr>av_value = v, av_alignment = al\<rparr> else None)"

definition aligned_value_concat :: "aligned_value list \<Rightarrow> aligned_value" where
  "aligned_value_concat avs = \<lparr>av_value = concat (map av_value avs), av_alignment = concat (map av_alignment avs)\<rparr>"

text \<open>The checked construction used when reading from self-describing formats.\<close>

definition aligned_value_try_from :: "fab_value \<Rightarrow> alignment \<Rightarrow> (string, aligned_value) result" where
  "aligned_value_try_from v al =
     (if \<not> fits al v then Err ''value deserialized as aligned failed alignment check''
      else if \<not> list_all is_in_normal_form v then Err ''aligned value is not in normal form (has trailing zero bytes)''
      else Ok \<lparr>av_value = v, av_alignment = al\<rparr>)"

text \<open>\<^verbatim>\<open>From<T> for AlignedValue\<close> at a static alignment, and its instances.\<close>

definition aligned_from :: "fab_value \<Rightarrow> alignment \<Rightarrow> ('e, aligned_value) result" where
  "aligned_from v al = expect (aligned_value_new v al)"

definition aligned_of_uint :: "nat \<Rightarrow> nat \<Rightarrow> ('e, aligned_value) result" where
  "aligned_of_uint n v = aligned_from [atom_of_uint v] [Atom (Bytes n)]"

definition aligned_of_bool :: "bool \<Rightarrow> ('e, aligned_value) result" where
  "aligned_of_bool b = aligned_from [atom_of_bool b] [Atom (Bytes 1)]"

definition aligned_of_hash :: "hash_output \<Rightarrow> ('e, aligned_value) result" where
  "aligned_of_hash h = aligned_from [atom_of_hash h] [Atom (Bytes PERSISTENT_HASH_BYTES)]"

definition aligned_of_unit :: "('e, aligned_value) result" where
  "aligned_of_unit = aligned_from [] []"

section \<open>Normal forms and conversions\<close>

lemma atom_normalize_split: "\<exists>k. a = atom_normalize a @ replicate k 0"
proof (induction a rule: atom_normalize.induct)
  case (1 a)
  show ?case
  proof (cases "a \<noteq> [] \<and> last a = 0")
    case True
    then obtain k where "butlast a = atom_normalize (butlast a) @ replicate k 0" using 1 by blast
    then have "a = atom_normalize (butlast a) @ replicate k 0 @ [0]"
      using True by (metis append.assoc append_butlast_last_id)
    then have "a = atom_normalize (butlast a) @ replicate (Suc k) 0"
      by (simp add: replicate_append_same)
    moreover have "atom_normalize a = atom_normalize (butlast a)"
      using True by (subst atom_normalize.simps) simp
    ultimately show ?thesis by metis
  next
    case False
    then have "atom_normalize a = a" by (subst atom_normalize.simps) auto
    then show ?thesis by (metis append_Nil2 replicate_0)
  qed
qed

lemma atom_normalize_nf [simp]: "is_in_normal_form (atom_normalize a)"
proof (induction a rule: atom_normalize.induct)
  case (1 a)
  then show ?case by (subst atom_normalize.simps) (simp add: is_in_normal_form_def)
qed

lemma atom_normalize_id: "is_in_normal_form a \<Longrightarrow> atom_normalize a = a"
  by (subst atom_normalize.simps) (auto simp: is_in_normal_form_def)

lemma atom_normalize_zeros: "atom_normalize (a @ replicate k 0) = atom_normalize a"
proof (induction k)
  case (Suc k)
  have "atom_normalize (a @ replicate (Suc k) 0) = atom_normalize (butlast (a @ replicate (Suc k) 0))"
    by (subst atom_normalize.simps) simp
  also have "butlast (a @ replicate (Suc k) 0) = a @ replicate k 0"
    by (simp add: butlast_append flip: replicate_append_same)
  finally show ?case using Suc by simp
qed simp

lemma length_atom_normalize: "length (atom_normalize a) \<le> length a"
  using atom_normalize_split [of a] by (metis length_append le_add1)

lemma le_value_zeros [simp]: "le_value (a @ replicate k 0) = le_value a"
proof (induction a)
  case Nil
  show ?case by (induction k) auto
qed simp

lemma le_value_normalize: "le_value (atom_normalize a) = le_value a"
  using atom_normalize_split [of a] le_value_zeros by metis

lemma atom_of_uint_short:
  assumes "v < 256 ^ n" "n \<le> 16"
  shows "length (atom_of_uint v) \<le> n"
proof -
  have "le_bytes 16 v = le_bytes n v @ replicate (16 - n) 0"
    using le_bytes_more [OF assms(1), of "16 - n"] assms(2) by simp
  then have "atom_of_uint v = atom_normalize (le_bytes n v)"
    by (simp add: atom_of_uint_def atom_normalize_zeros)
  then show ?thesis using length_atom_normalize [of "le_bytes n v"] by simp
qed

lemma uint_of_atom_of_uint:
  assumes "v < 256 ^ n" "n \<le> 16"
  shows "uint_of_atom n ty (atom_of_uint v) = Ok v"
proof -
  have "length (atom_of_uint v) \<le> 16" using atom_of_uint_short [OF assms] assms(2) by simp
  moreover have "le_value (atom_of_uint v) = v"
  proof -
    have "v < 256 ^ 16" using assms less_le_trans power_increasing [of n 16 "256 :: nat"] by simp
    then show ?thesis by (simp add: atom_of_uint_def le_value_normalize le_value_le_bytes)
  qed
  ultimately show ?thesis using assms(1) by (simp add: uint_of_atom_def u128_of_atom_def)
qed

lemma uint_of_atom_less: "uint_of_atom n ty a = Ok v \<Longrightarrow> v < 256 ^ n"
  by (auto simp: uint_of_atom_def result_simps split: if_splits)

lemma uint_of_atom_no_panic [simp]: "uint_of_atom n ty a \<noteq> Panic"
  by (auto simp: uint_of_atom_def u128_of_atom_def)

lemma bool_of_atom_no_panic [simp]: "bool_of_atom a \<noteq> Panic"
  by (auto simp: bool_of_atom_def result_simps)

lemma prim_of_value_no_panic: "(\<And>a. f a \<noteq> Panic) \<Longrightarrow> prim_of_value ty f v \<noteq> Panic"
  by (simp add: prim_of_value_def)

lemma of_value_no_panic [simp]:
  "u8_of_value v \<noteq> Panic" "u16_of_value v \<noteq> Panic" "u32_of_value v \<noteq> Panic" "u64_of_value v \<noteq> Panic"
  "bool_of_value v \<noteq> Panic" "hash_of_value v \<noteq> Panic"
  by (simp_all add: u8_of_value_def u16_of_value_def u32_of_value_def u64_of_value_def bool_of_value_def
      hash_of_value_def prim_of_value_no_panic hash_of_atom_def)

lemma prim_of_value_Ok:
  "prim_of_value ty f v = Ok x \<longleftrightarrow> (\<exists>a. v = [a] \<and> f a = Ok x)"
  by (cases v; cases "tl v") (auto simp: prim_of_value_def)

lemma of_value_less:
  "u8_of_value v = Ok x \<Longrightarrow> x < 256" "u64_of_value v = Ok x \<Longrightarrow> x < 2 ^ 64"
  using uint_of_atom_less [of 1] uint_of_atom_less [of 8]
  by (fastforce simp: u8_of_value_def u64_of_value_def prim_of_value_Ok)+

lemma hash_of_value_length: "hash_of_value v = Ok h \<Longrightarrow> length h = PERSISTENT_HASH_BYTES"
  by (auto simp: hash_of_value_def prim_of_value_Ok hash_of_atom_def split: if_splits)

lemma hash_of_atom_of_hash:
  assumes "length h = PERSISTENT_HASH_BYTES"
  shows "hash_of_atom (atom_of_hash h) = Ok h"
proof -
  obtain k where k: "h = atom_normalize h @ replicate k 0" using atom_normalize_split by blast
  then have "length (atom_normalize h) + k = PERSISTENT_HASH_BYTES" using assms by (metis length_append length_replicate)
  then have "k = PERSISTENT_HASH_BYTES - length (atom_normalize h)" "length (atom_normalize h) \<le> PERSISTENT_HASH_BYTES"
    by auto
  then show ?thesis using k by (simp add: hash_of_atom_def atom_of_hash_def)
qed

section \<open>Fitting\<close>

text \<open>What is left of a value after the part that an alignment describes.\<close>

function rest_of :: "alignment \<Rightarrow> fab_value \<Rightarrow> fab_value option" where
  "rest_of [] v = Some v"
| "rest_of (Atom pty # ts) v = (if v = [] \<or> \<not> atom_fits pty (hd v) then None else rest_of ts (tl v))"
| "rest_of (Option_of tys # ts) v =
     (if v = [] \<or> \<not> atom_fits (Bytes 2) (hd v) then None
      else
        (case u16_of_value [hd v] of
           Ok branch \<Rightarrow>
             if branch < length tys then Option.bind (rest_of (tys ! branch) (tl v)) (rest_of ts) else None
         | _ \<Rightarrow> None))"
  by pat_completeness auto
termination
proof (relation "measure (\<lambda>(al, v). size_list size al)", goal_cases)
  case (3 tys ts v branch)
  have "size_list size (tys ! branch) \<le> size_list (size_list size) tys"
    using 3 by (meson nth_mem size_list_estimation' order_refl)
  then show ?case by simp
qed auto

lemma rest_of_append: "rest_of (a @ b) v = Option.bind (rest_of a v) (rest_of b)"
proof (induction a arbitrary: v)
  case (Cons t a)
  then show ?case by (cases t) (auto split: result.splits bind_split)
qed simp

lemma rest_of_extend: "rest_of al v = Some r \<Longrightarrow> rest_of al (v @ w) = Some (r @ w)"
proof (induction al v arbitrary: r rule: rest_of.induct)
  case (3 tys ts v)
  then obtain branch r' where "v \<noteq> []" "atom_fits (Bytes 2) (hd v)" "u16_of_value [hd v] = Ok branch"
    "branch < length tys" "rest_of (tys ! branch) (tl v) = Some r'" "rest_of ts r' = Some r"
    by (auto split: if_splits result.splits bind_splits)
  then show ?case using "3.IH" by simp
qed (auto split: if_splits)

text \<open>With an accumulator that grows by one for every atom, \<^const>\<open>consume_internal\<close> counts the atoms
  taken.\<close>

lemma consume_internal_rest:
  assumes "\<And>a p. len (f a p) = len a + (1 :: nat)"
  shows "case consume_internal f len al v acc of
      None \<Rightarrow> rest_of al v = None
    | Some acc' \<Rightarrow> len acc \<le> len acc' \<and> len acc' - len acc \<le> length v \<and>
        rest_of al v = Some (drop (len acc' - len acc) v)"
  using assms
proof (induction f len al v acc rule: consume_internal.induct)
  case (2 f len pty ts v acc)
  show ?case
  proof (cases "v = [] \<or> \<not> atom_fits pty (hd v)")
    case False
    have IH: "case consume_internal f len ts (tl v) (f acc pty) of
      None \<Rightarrow> rest_of ts (tl v) = None
    | Some acc' \<Rightarrow> len (f acc pty) \<le> len acc' \<and> len acc' - len (f acc pty) \<le> length (tl v) \<and>
        rest_of ts (tl v) = Some (drop (len acc' - len (f acc pty)) (tl v))"
      by (rule "2.IH" [OF False "2.prems"])
    show ?thesis
    proof (cases "consume_internal f len ts (tl v) (f acc pty)")
      case None
      then show ?thesis using False IH by simp
    next
      case (Some acc')
      have "len acc' - len acc = Suc (len acc' - len (f acc pty))" "len acc \<le> len acc'"
        using IH Some "2.prems" [of acc pty] by auto
      then show ?thesis using False IH Some by (simp add: drop_Suc) (cases v; simp)
    qed
  qed simp
next
  case (3 f len tys ts v acc)
  show ?case
  proof (cases "v = [] \<or> \<not> atom_fits (Bytes 2) (hd v)")
    case False
    note v = False
    show ?thesis
    proof (cases "u16_of_value [hd v]")
      case (Ok branch)
      show ?thesis
      proof (cases "branch < length tys")
        case True
        note IH = "3.IH" [OF v Ok True]
        show ?thesis
        proof (cases "consume_internal f len (tys ! branch) (tl v) (f acc (Bytes 2))")
          case None
          then show ?thesis using v Ok True IH(1) "3.prems" by simp
        next
          case (Some acc1)
          define k where "k = len acc1 - len (f acc (Bytes 2))"
          have k: "len (f acc (Bytes 2)) \<le> len acc1" "k \<le> length (tl v)"
            "rest_of (tys ! branch) (tl v) = Some (drop k (tl v))"
            using IH(1) Some "3.prems" by (simp_all add: k_def)
          have IH2: "case consume_internal f len ts (drop k (tl v)) acc1 of
              None \<Rightarrow> rest_of ts (drop k (tl v)) = None
            | Some acc' \<Rightarrow> len acc1 \<le> len acc' \<and> len acc' - len acc1 \<le> length (drop k (tl v)) \<and>
                rest_of ts (drop k (tl v)) = Some (drop (len acc' - len acc1) (drop k (tl v)))"
            by (rule IH(2) [OF Some, folded k_def]) (rule "3.prems")
          show ?thesis
          proof (cases "consume_internal f len ts (drop k (tl v)) acc1")
            case None
            then show ?thesis using v Ok True Some IH2 k by (simp add: k_def)
          next
            case (Some acc2)
            have "len acc2 - len acc = Suc ((len acc2 - len acc1) + k)" "len acc \<le> len acc2"
              using IH2 Some k "3.prems" [of acc "Bytes 2"] by (auto simp: k_def)
            moreover have "Suc ((len acc2 - len acc1) + k) \<le> length v"
              using IH2 Some k v by (cases v) auto
            ultimately show ?thesis
              using v Ok True \<open>consume_internal f len (tys ! branch) (tl v) (f acc (Bytes 2)) = Some acc1\<close> Some IH2 k
              by (simp add: k_def [symmetric] drop_Suc)
          qed
        qed
      qed (use v Ok in simp)
    qed (use v in simp_all)
  qed simp
qed simp

lemma consume_rest:
  "consume al v = (case rest_of al v of None \<Rightarrow> None | Some r \<Rightarrow> Some (take (length v - length r) v, r))"
proof -
  have "case consume_internal (\<lambda>ctr _. ctr + 1) (\<lambda>ctr. ctr) al v 0 of
      None \<Rightarrow> rest_of al v = None
    | Some n \<Rightarrow> (0 :: nat) \<le> n \<and> n - 0 \<le> length v \<and> rest_of al v = Some (drop (n - 0) v)"
    by (rule consume_internal_rest) simp
  then show ?thesis by (auto simp: consume_def split: option.splits)
qed

lemma rest_of_suffix: "rest_of al v = Some r \<Longrightarrow> \<exists>p. v = p @ r"
  using consume_internal_rest [of "\<lambda>ctr. ctr" "\<lambda>ctr _. ctr + 1" al v 0]
  by (auto split: option.splits) (metis append_take_drop_id)

lemma fits_iff: "fits al v \<longleftrightarrow> rest_of al v = Some []"
  by (auto simp: fits_def consume_rest split: option.splits)

lemma fits_append: "fits a v \<Longrightarrow> fits b w \<Longrightarrow> fits (a @ b) (v @ w)"
  using rest_of_extend [of a v "[]" w] by (simp add: fits_iff rest_of_append)

lemma fits_atom: "fits [Atom p] [a] \<longleftrightarrow> atom_fits p a"
  by (simp add: fits_iff)

lemma aligned_of_uint_Ok:
  assumes "v < 256 ^ n" "n \<le> 16"
  shows "aligned_of_uint n v = Ok \<lparr>av_value = [atom_of_uint v], av_alignment = [Atom (Bytes n)]\<rparr>"
proof -
  have "length (atom_of_uint v) \<le> n" by (rule atom_of_uint_short [OF assms])
  then have "atom_fits (Bytes n) (atom_of_uint v)" using assms(2) by (simp add: atom_of_uint_def)
  then show ?thesis
    by (simp add: aligned_of_uint_def aligned_from_def aligned_value_new_def fits_atom del: atom_fits.simps)
qed

lemma atom_of_bool_eq [simp]: "atom_of_bool True = [1]" "atom_of_bool False = []"
  by (simp_all add: atom_of_bool_def atom_normalize.simps)

lemma aligned_of_bool_Ok:
  "aligned_of_bool b = Ok \<lparr>av_value = [atom_of_bool b], av_alignment = [Atom (Bytes 1)]\<rparr>"
  by (cases b) (simp_all add: aligned_of_bool_def aligned_from_def aligned_value_new_def fits_atom is_in_normal_form_def)

lemma aligned_of_hash_Ok:
  assumes "length h = PERSISTENT_HASH_BYTES"
  shows "aligned_of_hash h =
    Ok \<lparr>av_value = [atom_of_hash h], av_alignment = [Atom (Bytes PERSISTENT_HASH_BYTES)]\<rparr>"
  using assms length_atom_normalize [of h]
  by (simp add: aligned_of_hash_def aligned_from_def aligned_value_new_def fits_atom atom_of_hash_def
      PERSISTENT_HASH_BYTES_def)

lemma aligned_of_unit_Ok: "aligned_of_unit = Ok \<lparr>av_value = [], av_alignment = []\<rparr>"
  by (simp add: aligned_of_unit_def aligned_from_def aligned_value_new_def fits_iff)

section \<open>Properties\<close>

text \<open>concatenating aligned values that fit their alignments gives a value that fits the
  concatenated alignment, and reading the first alignment off the front gives the first value back.\<close>

theorem aligned_concat_fits:
  assumes "list_all (\<lambda>av. fits (av_alignment av) (av_value av)) (av # avs)"
  shows "fits (av_alignment (aligned_value_concat (av # avs))) (av_value (aligned_value_concat (av # avs))) \<and>
    consume (av_alignment av) (av_value (aligned_value_concat (av # avs))) =
      Some (av_value av, av_value (aligned_value_concat avs))"
proof
  show "fits (av_alignment (aligned_value_concat (av # avs))) (av_value (aligned_value_concat (av # avs)))"
    using assms
  proof (induction avs arbitrary: av)
    case Nil
    then show ?case by (simp add: aligned_value_concat_def)
  next
    case (Cons a avs)
    then show ?case using fits_append [of "av_alignment av" "av_value av"]
      by (simp add: aligned_value_concat_def)
  qed
  show "consume (av_alignment av) (av_value (aligned_value_concat (av # avs))) =
      Some (av_value av, av_value (aligned_value_concat avs))"
    using assms rest_of_extend [of "av_alignment av" "av_value av" "[]"]
    by (simp add: consume_rest fits_iff aligned_value_concat_def)
qed

theorem aligned_concat_fits_witness:
  "fits [Atom (Bytes 1), Atom Compress] [[7], [0]]"
  using aligned_concat_fits [of "\<lparr>av_value = [[7]], av_alignment = [Atom (Bytes 1)]\<rparr>"
      "[\<lparr>av_value = [[0]], av_alignment = [Atom Compress]\<rparr>]"]
  by (simp add: aligned_value_concat_def fits_atom is_in_normal_form_def)

text \<open>an unsigned integer of at most 16 bytes is converted to an aligned value without failing,
  the value fits its alignment, and it is converted back to the same integer; conversely a
  conversion that succeeds gives a number in range.\<close>

theorem uint_value_round_trip:
  assumes "v < 256 ^ n" "n \<le> 16"
  shows "\<exists>av. aligned_of_uint n v = Ok av \<and> fits (av_alignment av) (av_value av) \<and>
    prim_of_value ty (uint_of_atom n ty) (av_value av) = Ok v"
proof -
  have "aligned_value_new [atom_of_uint v] [Atom (Bytes n)] = Some \<lparr>av_value = [atom_of_uint v], av_alignment = [Atom (Bytes n)]\<rparr>"
    using aligned_of_uint_Ok [OF assms] by (auto simp: aligned_of_uint_def aligned_from_def result_simps)
  then have "fits [Atom (Bytes n)] [atom_of_uint v]" by (simp add: aligned_value_new_def split: if_splits)
  then show ?thesis
    by (intro exI [of _ "\<lparr>av_value = [atom_of_uint v], av_alignment = [Atom (Bytes n)]\<rparr>"])
      (simp add: aligned_of_uint_Ok [OF assms] uint_of_atom_of_uint [OF assms] prim_of_value_def)
qed

theorem uint_value_round_trip_witness:
  "\<exists>av. aligned_of_uint 8 1234567 = Ok av \<and> fits (av_alignment av) (av_value av) \<and>
    prim_of_value ''u64'' (uint_of_atom 8 ''u64'') (av_value av) = Ok 1234567"
  by (rule uint_value_round_trip) simp_all

text \<open>the default of an alignment with a disjoint union does not fit it, although no union in it
  is empty: the default of the first option is chosen without its discriminant.\<close>

theorem default_misses_discriminant:
  "alignment_default [Option_of [[Atom p]]] = [[]] \<and>
   \<not> fits [Option_of [[Atom p]]] (alignment_default [Option_of [[Atom p]]])"
  by (simp add: fits_iff is_in_normal_form_def u16_of_value_def prim_of_value_def uint_of_atom_def
      u128_of_atom_def le_value_def)

text \<open>Without disjoint unions it does.\<close>

lemma default_fits:
  "list_all (\<lambda>s. \<exists>p. s = Atom p) al \<Longrightarrow> fits al (alignment_default al)"
proof (induction al)
  case (Cons s al)
  then obtain p where "s = Atom p" by auto
  then show ?case using Cons by (cases p) (auto simp: fits_iff is_in_normal_form_def)
qed (simp add: fits_iff)

end
