(* ===== verification/Fab_Serialize.thy ===== *)
theory Fab_Serialize
  imports Fab
begin

text \<open>
  The binary encoding of field-aligned values (\<^verbatim>\<open>base-crypto/src/fab/serialize.rs\<close>): integers with
  two flag bits, atoms, values, alignments and aligned values, with the limit on the recursion of
  the readers.
\<close>

section \<open>Flagged integers\<close>

definition ONE_BYTE_LIMIT :: nat where "ONE_BYTE_LIMIT = 31"
definition TWO_BYTE_LIMIT :: nat where "TWO_BYTE_LIMIT = 4095"
definition THREE_BYTE_LIMIT :: nat where "THREE_BYTE_LIMIT = 524287"

definition flag_u8 :: "bool \<Rightarrow> bool \<Rightarrow> byte" where
  "flag_u8 x y = push_bit 7 (of_bool x) OR push_bit 6 (of_bool y)"

definition write_flagged_int :: "bool \<Rightarrow> bool \<Rightarrow> nat \<Rightarrow> (io_error, byte list) result" where
  "write_flagged_int x y i =
     (if i \<le> ONE_BYTE_LIMIT then Ok [flag_u8 x y OR word_of_nat i]
      else if i \<le> TWO_BYTE_LIMIT then
        Ok [flag_u8 x y OR 0x20 OR word_of_nat (i mod 0x20), word_of_nat (drop_bit 5 i)]
      else if i \<le> THREE_BYTE_LIMIT then
        Ok [flag_u8 x y OR 0x20 OR word_of_nat (i mod 0x20), 0x80 OR word_of_nat (drop_bit 5 i mod 0x80),
            word_of_nat (drop_bit 12 i)]
      else Err (InvalidInput ''integer out of three-byte limit''))"

definition flagged_int_size :: "nat \<Rightarrow> nat" where
  "flagged_int_size i =
     (if i \<le> ONE_BYTE_LIMIT then 1 else if i \<le> TWO_BYTE_LIMIT then 2 else if i \<le> THREE_BYTE_LIMIT then 3
      else 1000)"

definition read_flagged_int :: "(bool \<times> bool \<times> nat) reader" where
  "read_flagged_int bs =
     and_then (u8_deserialize bs) (\<lambda>(b0, r1).
       let x = b0 AND 0x80 \<noteq> 0; y = b0 AND 0x40 \<noteq> 0; a = unat (b0 mod 0x20) in
       if b0 AND 0x20 = 0 then Ok ((x, y, a), r1)
       else and_then (u8_deserialize r1) (\<lambda>(b1, r2).
         let b = unat (b1 mod 0x80) in
         if b1 AND 0x80 = 0 then
           (if b = 0 then Err (InvalidInput ''use of longer encoding than necessary for flagged int'')
            else Ok ((x, y, a OR push_bit 5 b), r2))
         else and_then (u8_deserialize r2) (\<lambda>(b2, r3).
           let c = unat (b2 mod 0x80) in
           if b2 AND 0x80 = 0 then
             (if c = 0 then Err (InvalidInput ''use of longer encoding than necessary for flagged int'')
              else Ok ((x, y, a OR push_bit 5 b OR push_bit 12 c), r3))
           else Err (InvalidInput ''use of reserved flag in three-byte flagged int encoding''))))"

section \<open>Atoms and values\<close>

definition value_atom_serialize :: "value_atom writer" where
  "value_atom_serialize atom =
     (let a = (if is_in_normal_form atom then atom else atom_normalize atom) in
      if length a = 1 \<and> a ! 0 < 32 then write_flagged_int False False (unat (a ! 0))
      else map_ok (\<lambda>b. b @ a) (write_flagged_int False True (length a mod 2 ^ 32)))"

definition value_atom_size :: "value_atom \<Rightarrow> nat" where
  "value_atom_size atom =
     (let a = (if is_in_normal_form atom then atom else atom_normalize atom) in
      if length a = 1 \<and> a ! 0 < 32 then flagged_int_size (unat (a ! 0))
      else flagged_int_size (length a mod 2 ^ 32) + length a)"

definition value_atom_deserialize_flagged :: "bool \<Rightarrow> bool \<Rightarrow> nat \<Rightarrow> value_atom reader" where
  "value_atom_deserialize_flagged x y i bs =
     (if x then Err (InvalidData ''x-flag may not be 1 for value atom'')
      else if y then
        and_then (read_exact_to_vec i bs) (\<lambda>(res, r).
          if i > 0 \<and> res ! (i - 1) = 0 then Err (InvalidData ''ValueAtom ended with zero byte'')
          else Ok (res, r))
      else if i < 32 \<and> i > 0 then Ok ([word_of_nat i], bs)
      else Err (InvalidData ''singleton ValueAtom out of range''))"

definition value_atom_deserialize :: "nat \<Rightarrow> value_atom reader" where
  "value_atom_deserialize depth bs =
     and_then (read_flagged_int bs) (\<lambda>((x, y, i), r). value_atom_deserialize_flagged x y i r)"

definition value_serialize :: "fab_value writer" where
  "value_serialize v =
     (if length v = 1 then value_atom_serialize (v ! 0)
      else and_then (write_flagged_int True False (length v mod 2 ^ 32)) (\<lambda>b.
        map_ok (append b) (seq_serialize value_atom_serialize v)))"

definition value_size :: "fab_value \<Rightarrow> nat" where
  "value_size v =
     (if length v = 1 then value_atom_size (v ! 0)
      else flagged_int_size (length v mod 2 ^ 32) + sum_list (map value_atom_size v))"

definition value_deserialize :: "nat \<Rightarrow> fab_value reader" where
  "value_deserialize depth bs =
     and_then (check_rec depth) (\<lambda>depth'.
     and_then (read_flagged_int bs) (\<lambda>((x, y, i), r).
       if \<not> x then map_ok (\<lambda>(a, r'). ([a], r')) (value_atom_deserialize_flagged x y i r)
       else if \<not> y then read_many (value_atom_deserialize depth') i r
       else Err (InvalidData ''Attempted to decode Value with reserved flags 11'')))"

section \<open>Alignments\<close>

fun alignment_atom_serialize :: "alignment_atom writer" where
  "alignment_atom_serialize Compress = write_flagged_int False True 0"
| "alignment_atom_serialize Field_atom = write_flagged_int False True 1"
| "alignment_atom_serialize (Bytes len) = write_flagged_int False False len"

fun alignment_atom_size :: "alignment_atom \<Rightarrow> nat" where
  "alignment_atom_size (Bytes len) = flagged_int_size len"
| "alignment_atom_size _ = 1"

definition alignment_atom_deserialize_flagged :: "bool \<Rightarrow> bool \<Rightarrow> nat \<Rightarrow> alignment_atom reader" where
  "alignment_atom_deserialize_flagged x y i bs =
     (if \<not> x \<and> \<not> y then Ok (Bytes i, bs)
      else if \<not> x \<and> y \<and> i = 0 then Ok (Compress, bs)
      else if \<not> x \<and> y \<and> i = 1 then Ok (Field_atom, bs)
      else Err (InvalidData ''illegal value for alignment atom''))"

lemma seq_serialize_cong [fundef_cong]:
  "xs = ys \<Longrightarrow> (\<And>x. x \<in> set ys \<Longrightarrow> f x = g x) \<Longrightarrow> seq_serialize f xs = seq_serialize g ys"
  by (induction ys arbitrary: xs) auto

lemma read_many_cong [fundef_cong]:
  "n = m \<Longrightarrow> bs = cs \<Longrightarrow> (\<And>b. f b = g b) \<Longrightarrow> read_many f n bs = read_many g m cs"
  by (metis ext)

text \<open>A segment and an alignment, which is written as its segment when it has just one.\<close>

lemma segment_size_nested:
  assumes "al \<in> set branches" "s \<in> set al"
  shows "size s < Suc (size_list (size_list size) branches)"
proof -
  have "size s \<le> size_list size al" using assms(2) by (meson size_list_estimation' order_refl)
  also have "\<dots> \<le> size_list (size_list size) branches" using assms(1) by (meson size_list_estimation' order_refl)
  finally show ?thesis by simp
qed

lemma segment_size_nth:
  "al \<in> set branches \<Longrightarrow> length al = Suc 0 \<Longrightarrow> size (al ! 0) < Suc (size_list (size_list size) branches)"
  by (rule segment_size_nested) (auto intro: nth_mem)

function segment_serialize :: "alignment_segment writer" where
  "segment_serialize (Atom atom) = alignment_atom_serialize atom"
| "segment_serialize (Option_of branches) =
     and_then (write_flagged_int True False (length branches mod 2 ^ 32)) (\<lambda>b.
       map_ok (append b)
         (seq_serialize (\<lambda>al.
            if length al = 1 then segment_serialize (al ! 0)
            else and_then (write_flagged_int True True (length al mod 2 ^ 32)) (\<lambda>b'.
              map_ok (append b') (seq_serialize segment_serialize al))) branches))"

  by pat_completeness auto
termination by (relation "measure size") (auto intro: segment_size_nested segment_size_nth)

definition alignment_serialize :: "alignment writer" where
  "alignment_serialize al =
     (if length al = 1 then segment_serialize (al ! 0)
      else and_then (write_flagged_int True True (length al mod 2 ^ 32)) (\<lambda>b.
        map_ok (append b) (seq_serialize segment_serialize al)))"

function segment_size :: "alignment_segment \<Rightarrow> nat" where
  "segment_size (Atom atom) = alignment_atom_size atom"
| "segment_size (Option_of branches) =
     flagged_int_size (length branches mod 2 ^ 32) +
     sum_list (map (\<lambda>al.
       if length al = 1 then segment_size (al ! 0)
       else flagged_int_size (length al mod 2 ^ 32) + sum_list (map segment_size al)) branches)"
  by pat_completeness auto
termination by (relation "measure size") (auto intro: segment_size_nested segment_size_nth)

definition alignment_size :: "alignment \<Rightarrow> nat" where
  "alignment_size al =
     (if length al = 1 then segment_size (al ! 0)
      else flagged_int_size (length al mod 2 ^ 32) + sum_list (map segment_size al))"

lemma check_rec_bound: "check_rec depth = Ok depth' \<longleftrightarrow> depth' = depth + 1 \<and> depth < RECURSION_LIMIT"
  by (auto simp: check_rec_def)

function
  alignment_deserialize :: "nat \<Rightarrow> alignment reader" and
  alignment_deserialize_flagged :: "bool \<Rightarrow> bool \<Rightarrow> nat \<Rightarrow> nat \<Rightarrow> alignment reader" and
  segment_deserialize :: "nat \<Rightarrow> alignment_segment reader" and
  segment_deserialize_flagged :: "bool \<Rightarrow> bool \<Rightarrow> nat \<Rightarrow> nat \<Rightarrow> alignment_segment reader"
  where
  "alignment_deserialize depth bs =
     and_then (check_rec depth) (\<lambda>depth'.
     and_then (read_flagged_int bs) (\<lambda>((x, y, i), r). alignment_deserialize_flagged x y i depth' r))"
| "alignment_deserialize_flagged x y i depth bs =
     (if x \<and> y then
        (if i = 1 then Err (InvalidData ''singleton alignment encoded as multi-entry alignment'')
         else read_many (segment_deserialize depth) i bs)
      else map_ok (\<lambda>(s, r). ([s], r)) (segment_deserialize_flagged x y i depth bs))"
| "segment_deserialize depth bs =
     and_then (check_rec depth) (\<lambda>depth'.
     and_then (read_flagged_int bs) (\<lambda>((x, y, i), r). segment_deserialize_flagged x y i depth' r))"
| "segment_deserialize_flagged x y i depth bs =
     (if \<not> x then map_ok (\<lambda>(a, r). (Atom a, r)) (alignment_atom_deserialize_flagged x y i bs)
      else if \<not> y then map_ok (\<lambda>(branches, r). (Option_of branches, r)) (read_many (alignment_deserialize depth) i bs)
      else Err (InvalidData ''Use of reserved flag 11 in AlignmentSegment''))"
  by pat_completeness auto
termination
  by (relation "measure (\<lambda>q. case q of
      Inl (Inl (depth, _)) \<Rightarrow> 4 * (RECURSION_LIMIT + 1 - depth)
    | Inl (Inr (_, _, _, depth, _)) \<Rightarrow> 4 * (RECURSION_LIMIT + 1 - depth) + 2
    | Inr (Inl (depth, _)) \<Rightarrow> 4 * (RECURSION_LIMIT + 1 - depth)
    | Inr (Inr (_, _, _, depth, _)) \<Rightarrow> 4 * (RECURSION_LIMIT + 1 - depth) + 1)")
    (auto simp: check_rec_bound)

declare alignment_deserialize.simps [simp del] alignment_deserialize_flagged.simps [simp del]
  segment_deserialize.simps [simp del] segment_deserialize_flagged.simps [simp del]

section \<open>Aligned values\<close>

definition aligned_value_serialize :: "aligned_value writer" where
  "aligned_value_serialize av =
     and_then (value_serialize (av_value av)) (\<lambda>b. map_ok (append b) (alignment_serialize (av_alignment av)))"

definition aligned_value_size :: "aligned_value \<Rightarrow> nat" where
  "aligned_value_size av = value_size (av_value av) + alignment_size (av_alignment av)"

definition aligned_value_deserialize :: "nat \<Rightarrow> aligned_value reader" where
  "aligned_value_deserialize depth bs =
     and_then (check_rec depth) (\<lambda>depth'.
     and_then (value_deserialize depth' bs) (\<lambda>(v, r).
     and_then (alignment_deserialize depth' r) (\<lambda>(al, r').
       Ok (\<lparr>av_value = v, av_alignment = al\<rparr>, r'))))"

section \<open>Flagged integers round trip\<close>

lemma and_flag: "b AND 0x80 = 0 \<longleftrightarrow> \<not> bit b 7" "b AND 0x40 = 0 \<longleftrightarrow> \<not> bit b 6" "b AND 0x20 = 0 \<longleftrightarrow> \<not> bit b 5"
  for b :: byte
  using and_exp_eq_0_iff_not_bit [of b 7] and_exp_eq_0_iff_not_bit [of b 6] and_exp_eq_0_iff_not_bit [of b 5]
  by simp_all

lemma bit_high: "a < 2 ^ k \<Longrightarrow> k \<le> n \<Longrightarrow> \<not> bit (a :: nat) n"
proof -
  assume "a < 2 ^ k" "k \<le> n"
  then have "a < 2 ^ n" by (meson less_le_trans one_le_numeral power_increasing)
  then show ?thesis by (simp add: bit_iff_odd)
qed

lemma bit_of_nat_byte: "bit (word_of_nat a :: byte) n \<longleftrightarrow> n < 8 \<and> bit a n"
  by (simp add: bit_simps)

lemma byte_mod: "b mod 0x20 = take_bit 5 b" "b mod 0x80 = take_bit 7 b" for b :: byte
  by (simp_all add: take_bit_eq_mod)

lemma flag_byte:
  fixes x y e :: bool
  assumes "a < 32"
  defines "b \<equiv> flag_u8 x y OR (if e then 0x20 else 0) OR word_of_nat a"
  shows "bit b 7 = x" "bit b 6 = y" "bit b 5 = e" "unat (b mod 0x20) = a"
proof -
  have hi: "\<not> bit a 5" "\<not> bit a 6" "\<not> bit a 7" using assms(1) bit_high [of a 5] by simp_all
  then show "bit b 7 = x" "bit b 6 = y" "bit b 5 = e"
    by (simp_all add: b_def flag_u8_def bit_simps)
  have "b mod 0x20 = word_of_nat a"
    unfolding byte_mod by (rule byte_eqI) (use hi in \<open>simp_all add: b_def flag_u8_def bit_simps\<close>)
  then show "unat (b mod 0x20) = a"
    using assms(1) by (simp add: unsigned_of_nat take_bit_eq_mod)
qed

lemma or_push: "a < 2 ^ k \<Longrightarrow> a OR push_bit k b = a + 2 ^ k * (b :: nat)"
proof -
  assume a: "a < 2 ^ k"
  have "a AND push_bit k b = 0"
    by (rule bit_eqI) (use bit_high [OF a] in \<open>auto simp: bit_simps\<close>)
  then show ?thesis by (simp add: disjunctive_add_eq_or [symmetric] push_bit_eq_mult mult.commute)
qed

lemma small_byte:
  assumes "a < 128"
  shows "\<not> bit (word_of_nat a :: byte) 7" "unat (word_of_nat a mod 0x80 :: byte) = a"
    "bit (0x80 OR word_of_nat a :: byte) 7" "unat ((0x80 OR word_of_nat a) mod 0x80 :: byte) = a"
proof -
  have hi: "\<not> bit a 7" using assms bit_high [of a 7] by simp
  then show "\<not> bit (word_of_nat a :: byte) 7" "bit (0x80 OR word_of_nat a :: byte) 7" by (simp_all add: bit_simps)
  have "(0x80 OR word_of_nat a) mod 0x80 = (word_of_nat a :: byte)" "word_of_nat a mod 0x80 = (word_of_nat a :: byte)"
    unfolding byte_mod by (rule byte_eqI; use hi in \<open>simp add: bit_simps\<close>)+
  then show "unat (word_of_nat a mod 0x80 :: byte) = a" "unat ((0x80 OR word_of_nat a) mod 0x80 :: byte) = a"
    using assms by (simp_all add: unsigned_of_nat take_bit_eq_mod)
qed

lemma flagged_round_trip:
  assumes "write_flagged_int x y i = Ok bs"
  shows "read_flagged_int (bs @ rest) = Ok ((x, y, i), rest)" "length bs = flagged_int_size i"
proof -
  have m: "i mod 32 < 32" by simp
  consider (1) "i < 32" | (2) "32 \<le> i" "i < 4096" | (3) "4096 \<le> i" "i < 524288"
    using assms by (fastforce simp: write_flagged_int_def ONE_BYTE_LIMIT_def TWO_BYTE_LIMIT_def
        THREE_BYTE_LIMIT_def split: if_splits)
  then show "read_flagged_int (bs @ rest) = Ok ((x, y, i), rest)"
  proof cases
    case 1
    then have "bs = [flag_u8 x y OR word_of_nat i]" using assms
      by (simp add: write_flagged_int_def ONE_BYTE_LIMIT_def)
    then show ?thesis using flag_byte [OF 1, of x y False] by (simp add: read_flagged_int_def and_flag)
  next
    case 2
    then have "bs = [flag_u8 x y OR 0x20 OR word_of_nat (i mod 0x20), word_of_nat (i div 32)]" using assms
      by (simp add: write_flagged_int_def ONE_BYTE_LIMIT_def TWO_BYTE_LIMIT_def drop_bit_eq_div)
    moreover have "i div 32 < 128" "i div 32 \<noteq> 0" using 2 by auto
    moreover have "i mod 32 OR push_bit 5 (i div 32) = i" using or_push [of "i mod 32" 5] m by simp
    ultimately show ?thesis using flag_byte [OF m, of x y True] small_byte [of "i div 32"]
      by (simp add: read_flagged_int_def and_flag)
  next
    case 3
    then have "bs = [flag_u8 x y OR 0x20 OR word_of_nat (i mod 0x20), 0x80 OR word_of_nat (i div 32 mod 0x80),
        word_of_nat (i div 4096)]" using assms
      by (simp add: write_flagged_int_def ONE_BYTE_LIMIT_def TWO_BYTE_LIMIT_def THREE_BYTE_LIMIT_def drop_bit_eq_div)
    moreover have "i div 4096 < 128" "i div 4096 \<noteq> 0" using 3 by auto
    moreover have "i mod 32 OR push_bit 5 (i div 32 mod 128) OR push_bit 12 (i div 4096) = i"
    proof -
      have "i mod 32 OR push_bit 5 (i div 32 mod 128) = i mod 4096"
        using or_push [of "i mod 32" 5] m mod_mult2_eq [of i 32 128] by simp
      then show ?thesis using or_push [of "i mod 4096" 12 "i div 4096"] by (simp flip: or.assoc)
    qed
    ultimately show ?thesis
      using flag_byte [OF m, of x y True] small_byte [of "i div 4096"] small_byte [of "i div 32 mod 128"]
      by (simp add: read_flagged_int_def and_flag)
  qed
  show "length bs = flagged_int_size i" using assms
    by (auto simp: write_flagged_int_def flagged_int_size_def split: if_splits)
qed

section \<open>Values round trip\<close>

definition atom_ok :: "value_atom \<Rightarrow> bool" where
  "atom_ok a \<longleftrightarrow> is_in_normal_form a \<and> length a < 2 ^ 32"

lemma value_atom_flagged_law:
  assumes "atom_ok a" "value_atom_serialize a = Ok bs"
  shows "\<exists>y i r. read_flagged_int (bs @ rest) = Ok ((False, y, i), r) \<and>
    value_atom_deserialize_flagged False y i r = Ok (a, rest) \<and> length bs = value_atom_size a"
proof (cases "length a = 1 \<and> a ! 0 < 32")
  case True
  then obtain b where a: "a = [b]" "unat b < 32" by (cases a) (auto simp: word_less_nat_alt)
  have "b \<noteq> 0" using assms(1) a(1) by (auto simp: atom_ok_def is_in_normal_form_def)
  then have b: "0 < unat b" "word_of_nat (unat b) = b" by (simp_all add: unat_gt_0)
  have "write_flagged_int False False (unat b) = Ok bs" using assms True a by (simp add: value_atom_serialize_def atom_ok_def)
  from flagged_round_trip [OF this] show ?thesis using assms(1) True a b
    by (auto simp: value_atom_deserialize_flagged_def value_atom_size_def atom_ok_def)
next
  case False
  obtain b where b: "write_flagged_int False True (length a) = Ok b" "bs = b @ a"
    using assms False by (auto simp: value_atom_serialize_def atom_ok_def result_simps Let_def)
  have last: "length a > 0 \<Longrightarrow> a ! (length a - 1) \<noteq> 0"
    using assms(1) last_conv_nth [of a] by (auto simp: atom_ok_def is_in_normal_form_def)
  then have "value_atom_deserialize_flagged False True (length a) (a @ rest) = Ok (a, rest)"
    by (auto simp: value_atom_deserialize_flagged_def read_exact_to_vec_eq)
  then show ?thesis using flagged_round_trip(1) [OF b(1), of "a @ rest"] flagged_round_trip(2) [OF b(1)] b(2) False assms(1)
    by (auto simp: value_atom_size_def atom_ok_def Let_def)
qed

interpretation value_atom_c: codec value_atom_serialize value_atom_deserialize value_atom_size "\<lambda>depth a. atom_ok a"
proof
  fix a bs rest and depth :: nat
  assume "atom_ok a" "value_atom_serialize a = Ok bs"
  from value_atom_flagged_law [OF this, of rest]
  show "value_atom_deserialize depth (bs @ rest) = Ok (a, rest)" "length bs = value_atom_size a"
    by (auto simp: value_atom_deserialize_def)
qed

definition value_ok :: "fab_value \<Rightarrow> bool" where
  "value_ok v \<longleftrightarrow> length v < 2 ^ 32 \<and> list_all atom_ok v"

lemma value_law:
  assumes "depth < RECURSION_LIMIT" "value_ok v" "value_serialize v = Ok bs"
  shows "value_deserialize depth (bs @ rest) = Ok (v, rest) \<and> length bs = value_size v"
proof (cases "length v = 1")
  case True
  then obtain a where a: "v = [a]" by (cases v) auto
  have "value_atom_serialize a = Ok bs" "atom_ok a" using assms a by (simp_all add: value_serialize_def value_ok_def)
  from value_atom_flagged_law [OF this(2,1), of rest] show ?thesis using assms(1) a
    by (auto simp: value_deserialize_def value_size_def)
next
  case False
  then obtain b c where bc: "write_flagged_int True False (length v) = Ok b"
    "seq_serialize value_atom_serialize v = Ok c" "bs = b @ c"
    using assms(2,3) by (auto simp: value_serialize_def value_ok_def result_simps)
  have "list_all atom_ok v" using assms(2) by (simp add: value_ok_def)
  from value_atom_c.seq_law [OF this bc(2), of "depth + 1" rest] flagged_round_trip [OF bc(1)] show ?thesis
    using assms(1,2) False bc(3) by (simp add: value_deserialize_def value_size_def value_ok_def)
qed

interpretation value_c: codec value_serialize value_deserialize value_size
  "\<lambda>depth v. depth < RECURSION_LIMIT \<and> value_ok v"
  by unfold_locales (use value_law in blast)+

section \<open>Alignments round trip\<close>

text \<open>The nesting that the reader admits at a recursion depth.\<close>

function segment_ok :: "nat \<Rightarrow> alignment_segment \<Rightarrow> bool" where
  "segment_ok depth (Atom a) = True"
| "segment_ok depth (Option_of branches) =
     (length branches < 2 ^ 32 \<and>
      (\<forall>al \<in> set branches. depth < RECURSION_LIMIT \<and> length al < 2 ^ 32 \<and>
         (if length al = 1 then segment_ok (depth + 1) (al ! 0)
          else \<forall>s \<in> set al. depth + 1 < RECURSION_LIMIT \<and> segment_ok (depth + 2) s)))"
  by pat_completeness auto
termination by (relation "measure (\<lambda>(_, s). size s)") (auto intro: segment_size_nested segment_size_nth)

definition alignment_ok :: "nat \<Rightarrow> alignment \<Rightarrow> bool" where
  "alignment_ok depth al \<longleftrightarrow> depth < RECURSION_LIMIT \<and> length al < 2 ^ 32 \<and>
     (if length al = 1 then segment_ok (depth + 1) (al ! 0)
      else \<forall>s \<in> set al. depth + 1 < RECURSION_LIMIT \<and> segment_ok (depth + 2) s)"

lemma segment_ok_Option:
  "segment_ok depth (Option_of branches) \<longleftrightarrow>
     length branches < 2 ^ 32 \<and> (\<forall>al \<in> set branches. alignment_ok depth al)"
  by (simp add: alignment_ok_def)

lemma segment_serialize_Option:
  "segment_serialize (Option_of branches) =
     and_then (write_flagged_int True False (length branches mod 2 ^ 32)) (\<lambda>b.
       map_ok (append b) (seq_serialize alignment_serialize branches))"
  unfolding segment_serialize.simps alignment_serialize_def ..

lemma segment_size_Option:
  "segment_size (Option_of branches) =
     flagged_int_size (length branches mod 2 ^ 32) + sum_list (map alignment_size branches)"
  unfolding segment_size.simps alignment_size_def ..

declare segment_serialize.simps(2) [simp del] segment_size.simps(2) [simp del] segment_ok.simps(2) [simp del]

text \<open>A segment is read back after its flagged integer, at the recursion depth after the check.\<close>

definition segment_law :: "alignment_segment \<Rightarrow> bool" where
  "segment_law s \<longleftrightarrow> (\<forall>depth bs rest. segment_ok depth s \<longrightarrow> segment_serialize s = Ok bs \<longrightarrow>
     (\<exists>x y i r. \<not> (x \<and> y) \<and> read_flagged_int (bs @ rest) = Ok ((x, y, i), r) \<and>
        segment_deserialize_flagged x y i depth r = Ok (s, rest) \<and> length bs = segment_size s))"

lemma segment_law_reader:
  assumes "segment_law s" "depth < RECURSION_LIMIT" "segment_ok (depth + 1) s" "segment_serialize s = Ok bs"
  shows "segment_deserialize depth (bs @ rest) = Ok (s, rest) \<and> length bs = segment_size s"
proof -
  obtain x y i r where "read_flagged_int (bs @ rest) = Ok ((x, y, i), r)"
    "segment_deserialize_flagged x y i (depth + 1) r = Ok (s, rest)" "length bs = segment_size s"
    using assms(1,3,4) unfolding segment_law_def by meson
  then show ?thesis using assms(2) by (simp add: segment_deserialize.simps)
qed

lemma alignment_law:
  assumes "\<forall>s \<in> set al. segment_law s" "alignment_ok depth al" "alignment_serialize al = Ok bs"
  shows "alignment_deserialize depth (bs @ rest) = Ok (al, rest) \<and> length bs = alignment_size al"
proof (cases "length al = 1")
  case True
  then obtain s where al: "al = [s]" by (cases al) auto
  have "segment_serialize s = Ok bs" "segment_ok (depth + 1) s" "segment_law s"
    using assms al by (simp_all add: alignment_serialize_def alignment_ok_def)
  then obtain x y i r where "\<not> (x \<and> y)" "read_flagged_int (bs @ rest) = Ok ((x, y, i), r)"
    "segment_deserialize_flagged x y i (depth + 1) r = Ok (s, rest)" "length bs = segment_size s"
    unfolding segment_law_def by meson
  then show ?thesis using assms(2) al
    by (auto simp: alignment_deserialize.simps alignment_deserialize_flagged.simps alignment_ok_def alignment_size_def)
next
  case False
  then obtain b c where bc: "write_flagged_int True True (length al) = Ok b"
    "seq_serialize segment_serialize al = Ok c" "bs = b @ c"
    using assms(2,3) by (auto simp: alignment_serialize_def alignment_ok_def result_simps)
  have "read_many (segment_deserialize (depth + 1)) (length al) (c @ rest) = Ok (al, rest) \<and>
      length c = sum_list (map segment_size al)"
  proof (rule seq_elements_law [OF _ bc(2)])
    fix s bs rest
    assume "s \<in> set al" "segment_serialize s = Ok bs"
    then show "segment_deserialize (depth + 1) (bs @ rest) = Ok (s, rest) \<and> length bs = segment_size s"
      using assms(1,2) False by (intro segment_law_reader) (auto simp: alignment_ok_def)
  qed
  then show ?thesis using flagged_round_trip [OF bc(1)] False bc(3) assms(2)
    by (simp add: alignment_deserialize.simps alignment_deserialize_flagged.simps alignment_size_def alignment_ok_def)
qed

lemma alignment_atom_law:
  assumes "alignment_atom_serialize a = Ok bs"
  shows "\<exists>y i. read_flagged_int (bs @ rest) = Ok ((False, y, i), rest) \<and>
    alignment_atom_deserialize_flagged False y i rest = Ok (a, rest) \<and> length bs = alignment_atom_size a"
proof -
  obtain y i where w: "write_flagged_int False y i = Ok bs"
    and d: "alignment_atom_deserialize_flagged False y i rest = Ok (a, rest)" "flagged_int_size i = alignment_atom_size a"
    using assms
    by (cases a) (auto simp: alignment_atom_deserialize_flagged_def flagged_int_size_def ONE_BYTE_LIMIT_def)
  from flagged_round_trip(1) [OF w, of rest] flagged_round_trip(2) [OF w] d show ?thesis by auto
qed

lemma segment_law_all: "segment_law s"
proof (induction s)
  case (Atom a)
  have "\<exists>x y i r. \<not> (x \<and> y) \<and> read_flagged_int (bs @ rest) = Ok ((x, y, i), r) \<and>
      segment_deserialize_flagged x y i depth r = Ok (Atom a, rest) \<and> length bs = alignment_atom_size a"
    if ser: "alignment_atom_serialize a = Ok bs" for depth bs rest
  proof -
    obtain y i where d: "read_flagged_int (bs @ rest) = Ok ((False, y, i), rest)"
      "alignment_atom_deserialize_flagged False y i rest = Ok (a, rest)" "length bs = alignment_atom_size a"
      using alignment_atom_law [OF ser, of rest] by blast
    show ?thesis
      by (rule exI [of _ False], rule exI [of _ y], rule exI [of _ i], rule exI [of _ rest])
        (simp add: segment_deserialize_flagged.simps d)
  qed
  then show ?case by (simp add: segment_law_def)
next
  case (Option_of branches)
  show ?case unfolding segment_law_def
  proof (intro allI impI)
    fix depth bs rest
    assume ok: "segment_ok depth (Option_of branches)" and "segment_serialize (Option_of branches) = Ok bs"
    then obtain b c where bc: "write_flagged_int True False (length branches) = Ok b"
      "seq_serialize alignment_serialize branches = Ok c" "bs = b @ c"
      by (auto simp: segment_serialize_Option segment_ok_Option result_simps)
    have "read_many (alignment_deserialize depth) (length branches) (c @ rest) = Ok (branches, rest) \<and>
        length c = sum_list (map alignment_size branches)"
    proof (rule seq_elements_law [OF _ bc(2)])
      fix al cs tail
      assume "al \<in> set branches" "alignment_serialize al = Ok cs"
      then show "alignment_deserialize depth (cs @ tail) = Ok (al, tail) \<and> length cs = alignment_size al"
        using ok Option_of by (intro alignment_law) (auto simp: segment_ok_Option)
    qed
    then show "\<exists>x y i r. \<not> (x \<and> y) \<and> read_flagged_int (bs @ rest) = Ok ((x, y, i), r) \<and>
        segment_deserialize_flagged x y i depth r = Ok (Option_of branches, rest) \<and>
        length bs = segment_size (Option_of branches)"
      using flagged_round_trip [OF bc(1)] bc(3) ok
      by (intro exI [of _ True] exI [of _ False] exI [of _ "length branches"] exI [of _ "c @ rest"])
        (simp add: segment_deserialize_flagged.simps segment_size_Option segment_ok_Option)
  qed
qed

interpretation alignment_c: codec alignment_serialize alignment_deserialize alignment_size alignment_ok
  by unfold_locales (use alignment_law segment_law_all in blast)+

section \<open>Aligned values round trip\<close>

definition aligned_value_ok :: "nat \<Rightarrow> aligned_value \<Rightarrow> bool" where
  "aligned_value_ok depth av \<longleftrightarrow>
     depth + 1 < RECURSION_LIMIT \<and> value_ok (av_value av) \<and> alignment_ok (depth + 1) (av_alignment av)"

interpretation aligned_value_c: codec aligned_value_serialize aligned_value_deserialize aligned_value_size
  aligned_value_ok
proof
  fix depth av bs rest
  assume ok: "aligned_value_ok depth av" and "aligned_value_serialize av = Ok bs"
  then obtain b c where bc: "value_serialize (av_value av) = Ok b" "alignment_serialize (av_alignment av) = Ok c"
    "bs = b @ c" by (auto simp: aligned_value_serialize_def result_simps)
  have v: "depth + 1 < RECURSION_LIMIT \<and> value_ok (av_value av)" and al: "alignment_ok (depth + 1) (av_alignment av)"
    using ok by (simp_all add: aligned_value_ok_def)
  show "aligned_value_deserialize depth (bs @ rest) = Ok (av, rest)"
    using value_c.round_trip [OF v bc(1), of "c @ rest"] alignment_c.round_trip [OF al bc(2), of rest] bc(3) ok
    by (simp add: aligned_value_deserialize_def aligned_value_ok_def)
  show "length bs = aligned_value_size av"
    using value_c.size_law [OF v bc(1)] alignment_c.size_law [OF al bc(2)] bc(3)
    by (simp add: aligned_value_size_def)
qed

section \<open>Properties\<close>

text \<open>C36: writing an aligned value under its tag and reading it back gives the same value, and the
  number of bytes is the announced size, for every value in normal form whose alignment is not
  nested deeper than the reader's recursion limit.\<close>

theorem aligned_value_round_trip:
  assumes "aligned_value_ok 0 av" "tagged_serialize ''fab-aligned-value[v1]'' aligned_value_serialize av = Ok bs"
  shows "tagged_deserialize ''fab-aligned-value[v1]'' aligned_value_deserialize bs = Ok av \<and>
    length bs = tagged_serialized_size ''fab-aligned-value[v1]'' aligned_value_size av"
  by (rule aligned_value_c.tagged_law [OF assms])

definition sample_av :: aligned_value where
  "sample_av = \<lparr>av_value = [[5], [], [1, 2]], av_alignment = [Atom (Bytes 1), Option_of [[Atom Compress], []]]\<rparr>"

lemma sample_av_serialize:
  "aligned_value_serialize sample_av = Ok [0x83, 5, 0x40, 0x42, 1, 2, 0xc2, 1, 0x82, 0x40, 0xc0]"
  by (simp add: sample_av_def aligned_value_serialize_def value_serialize_def value_atom_serialize_def
      alignment_serialize_def segment_serialize_Option is_in_normal_form_def write_flagged_int_def
      flag_u8_def ONE_BYTE_LIMIT_def)

theorem aligned_value_round_trip_witness:
  "\<exists>bs. tagged_serialize ''fab-aligned-value[v1]'' aligned_value_serialize sample_av = Ok bs \<and>
     tagged_deserialize ''fab-aligned-value[v1]'' aligned_value_deserialize bs = Ok sample_av"
proof -
  have "aligned_value_ok 0 sample_av"
    by (simp add: sample_av_def aligned_value_ok_def value_ok_def atom_ok_def is_in_normal_form_def
        alignment_ok_def segment_ok_Option RECURSION_LIMIT_def)
  moreover obtain bs where "tagged_serialize ''fab-aligned-value[v1]'' aligned_value_serialize sample_av = Ok bs"
    by (simp add: tagged_serialize_def sample_av_serialize)
  ultimately show ?thesis using aligned_value_round_trip by blast
qed

text \<open>The reader of values is more lenient than the writer: a value of one atom is also read in the
  form for several atoms (for alignments that form is rejected), and the reader of aligned values does
  not check that the value fits its alignment.\<close>

lemma value_reader_accepts_long_singleton:
  "value_serialize [[5]] = Ok [5]" "value_deserialize 0 [5] = Ok ([[5]], [])"
  "value_deserialize 0 [0x81, 5] = Ok ([[5]], [])"
  by (simp_all add: value_serialize_def value_atom_serialize_def is_in_normal_form_def write_flagged_int_def
      flag_u8_def ONE_BYTE_LIMIT_def value_deserialize_def check_rec_def RECURSION_LIMIT_def read_flagged_int_def
      value_atom_deserialize_flagged_def value_atom_deserialize_def)

lemma aligned_reader_accepts_misaligned:
  "\<exists>av. aligned_value_deserialize 0 [0x42, 1, 2, 1] = Ok (av, []) \<and> \<not> fits (av_alignment av) (av_value av)"
  by (rule exI [of _ "\<lparr>av_value = [[1, 2]], av_alignment = [Atom (Bytes 1)]\<rparr>"])
    (simp add: aligned_value_deserialize_def value_deserialize_def check_rec_def RECURSION_LIMIT_def
      read_flagged_int_def value_atom_deserialize_flagged_def read_exact_to_vec_eq read_exact_def
      alignment_deserialize.simps alignment_deserialize_flagged.simps segment_deserialize_flagged.simps
      alignment_atom_deserialize_flagged_def fits_iff)

end
