(* ===== verification/State_Value.thy ===== *)
theory State_Value
  imports Fab_Serialize Merkle_Tree "HOL-Library.AList"
begin

text \<open>
  The values of contract states (\<^verbatim>\<open>onchain-state/src/state.rs\<close>): \<^verbatim>\<open>StateValue\<close> with its invariant and
  logarithmic size, and the length encoding \<^verbatim>\<open>write_int\<close>/\<^verbatim>\<open>read_int\<close>.

  The persistent maps are association lists without repeated keys and the arrays are lists. Field
  elements are a type parameter, as in the theory of Merkle trees; the hashes of a bounded Merkle
  tree are the 32-byte outputs of the persistent hash.
\<close>

section \<open>Values\<close>

definition CELL_BOUND :: nat where "CELL_BOUND = 32768"

type_synonym 'f bmt = "(hash_output, 'f, unit) mt_node"

datatype 'f state_value =
    Null
  | Cell aligned_value
  | Map "(aligned_value \<times> 'f state_value) list"
  | Array "'f state_value list"
  | BoundedMerkleTree "'f bmt"

definition sv_invariant :: "(hash_output, 'f) hashing \<Rightarrow> 'f state_value \<Rightarrow> (io_error, unit) result" where
  "sv_invariant H v =
     (case v of
        Null \<Rightarrow> Ok ()
      | Map _ \<Rightarrow> Ok ()
      | Cell a \<Rightarrow>
          (if aligned_value_size a > CELL_BOUND then Err (InvalidData ''Cell exceeded maximum bound'') else Ok ())
      | Array arr \<Rightarrow>
          (if length arr > 16 then Err (InvalidData ''Array eceeded maximum length of 16'') else Ok ())
      | BoundedMerkleTree t \<Rightarrow>
          (if mt_height t > 32 then Err (InvalidData ''BMT exceeded maximum height of 32'')
           else if mt_height t = 0 then Err (InvalidData ''BMT has invalid height of 0'')
           else if mt_root H t = None then Err (InvalidData ''BMT must be rehashed'')
           else Ok ()))"

text \<open>The integer logarithm and the next power of two of the standard library.\<close>

function ilog2 :: "nat \<Rightarrow> nat" where
  "ilog2 n = (if n \<le> 1 then 0 else ilog2 (n div 2) + 1)"
  by pat_completeness auto
termination by (relation "measure (\<lambda>n. n)") auto

declare ilog2.simps [simp del]

definition next_power_of_two :: "nat \<Rightarrow> nat" where
  "next_power_of_two n = (if n \<le> 1 then 1 else 2 ^ (ilog2 (n - 1) + 1))"

fun log_size :: "'f state_value \<Rightarrow> nat" where
  "log_size Null = 0"
| "log_size (Cell a) = ilog2 (next_power_of_two (aligned_value_size a))"
| "log_size (Map m) = ilog2 (next_power_of_two (length m))"
| "log_size (Array a) = ilog2 (next_power_of_two (length a))"
| "log_size (BoundedMerkleTree t) = mt_height t"

section \<open>Lengths\<close>

definition write_int :: "nat writer" where
  "write_int i =
     (if i \<le> 0x7F then Ok [word_of_nat i]
      else if i \<le> 0x3FFF then Ok [0x80 OR word_of_nat (i mod 0x80), word_of_nat (drop_bit 7 i)]
      else if i \<le> 0x1FFFFF then
        Ok [0x80 OR word_of_nat (i mod 0x80), 0x80 OR word_of_nat (drop_bit 7 i mod 0x80), word_of_nat (drop_bit 14 i)]
      else Err (InvalidData ''too many entries to serialize state value length!''))"

definition int_size :: "nat \<Rightarrow> nat" where
  "int_size i = (if i \<le> 0x7F then 1 else if i \<le> 0x3FFF then 2 else if i \<le> 0x1FFFFF then 3 else 4)"

definition read_int :: "nat reader" where
  "read_int bs =
     and_then (u8_deserialize bs) (\<lambda>(b0, r1).
       if b0 AND 0x80 = 0 then Ok (unat b0, r1)
       else and_then (u8_deserialize r1) (\<lambda>(b1, r2).
         if b1 AND 0x80 = 0 then Ok (unat (b0 AND 0x7f) OR push_bit 7 (unat b1), r2)
         else and_then (u8_deserialize r2) (\<lambda>(b2, r3).
           if b2 AND 0x80 = 0
           then Ok (unat (b0 AND 0x7f) OR push_bit 7 (unat (b1 AND 0x7f)) OR push_bit 14 (unat b2), r3)
           else Err (InvalidData ''reserved range for deserializing state value length''))))"

section \<open>Well-formed values\<close>

text \<open>A tree of the admitted height with a computed root, whose leaves are hash outputs.\<close>

definition bmt_wf :: "(hash_output, 'f) hashing \<Rightarrow> 'f bmt \<Rightarrow> bool" where
  "bmt_wf H t \<longleftrightarrow> mt_balanced t \<and> 1 \<le> mt_height t \<and> mt_height t \<le> 32 \<and> mt_root H t \<noteq> None \<and>
     (\<forall>i < 2 ^ mt_height t. \<forall>h a. mt_index t i = Some (h, a) \<longrightarrow> length h = PERSISTENT_HASH_BYTES)"

text \<open>The invariant at every level of a value, with cells of at most \<open>bound\<close> bytes, and maps without
  repeated keys.\<close>

fun sv_wf :: "(hash_output, 'f) hashing \<Rightarrow> nat \<Rightarrow> 'f state_value \<Rightarrow> bool" where
  "sv_wf H bound Null \<longleftrightarrow> True"
| "sv_wf H bound (Cell a) \<longleftrightarrow> aligned_value_size a \<le> bound"
| "sv_wf H bound (Map m) \<longleftrightarrow> distinct (map fst m) \<and> (\<forall>p \<in> set m. sv_wf H bound (snd p))"
| "sv_wf H bound (Array arr) \<longleftrightarrow> length arr \<le> 16 \<and> (\<forall>v \<in> set arr. sv_wf H bound v)"
| "sv_wf H bound (BoundedMerkleTree t) \<longleftrightarrow> bmt_wf H t"

text \<open>With the bound of the code, the invariant of the code holds.\<close>

lemma sv_wf_invariant: "sv_wf H CELL_BOUND v \<Longrightarrow> sv_invariant H v = Ok ()"
  by (cases v) (auto simp: sv_invariant_def bmt_wf_def)

lemma bmt_wf_blank: "1 \<le> h \<Longrightarrow> h \<le> 32 \<Longrightarrow> bmt_wf H (mt_blank h)"
  by (simp add: bmt_wf_def mt_blank_def)

lemma bmt_wf_update:
  assumes "bmt_wf H t" "try_update_hash t i h () = Ok t'" "length h = PERSISTENT_HASH_BYTES"
  shows "bmt_wf H (mt_rehash H t')"
proof -
  have bal: "mt_balanced t" using assms(1) by (simp add: bmt_wf_def)
  have t': "i < 2 ^ mt_height t" "\<not> mt_collapsed_at t i" "t' = mt_set t i h ()"
    using assms(2) by (auto simp: try_update_hash_iff [OF bal])
  have "mt_balanced t'" "mt_height t' = mt_height t" using t' bal by simp_all
  moreover have "length h' = PERSISTENT_HASH_BYTES"
    if "mt_index t' j = Some (h', a)" "j < 2 ^ mt_height t" for j h' a
    using that assms(1,3) mt_index_set_same [OF t'(2)] mt_index_set_other [OF bal t'(1) that(2)]
    by (cases "j = i") (auto simp: t'(3) bmt_wf_def)
  ultimately show ?thesis using assms(1) by (simp add: bmt_wf_def)
qed

lemma sv_wf_map_of: "sv_wf H b (Map m) \<Longrightarrow> map_of m k = Some v \<Longrightarrow> sv_wf H b v"
  by (fastforce dest: map_of_SomeD)

lemma set_update_snd: "p \<in> set (AList.update k v m) \<Longrightarrow> p \<in> set m \<or> p = (k, v)"
  by (induction m) (auto split: if_splits)

lemma sv_wf_map_update: "sv_wf H b (Map m) \<Longrightarrow> sv_wf H b v \<Longrightarrow> sv_wf H b (Map (AList.update k v m))"
  by (auto simp: distinct_update dest: set_update_snd)

lemma set_delete_sub: "p \<in> set (AList.delete k m) \<Longrightarrow> p \<in> set m"
  by (induction m) (auto split: if_splits)

lemma sv_wf_map_delete: "sv_wf H b (Map m) \<Longrightarrow> sv_wf H b (Map (AList.delete k m))"
  by (auto simp: distinct_delete dest: set_delete_sub)

lemma sv_wf_array_update:
  "sv_wf H b (Array arr) \<Longrightarrow> sv_wf H b v \<Longrightarrow> sv_wf H b (Array (arr[i := v]))"
  by (auto dest!: set_update_subset_insert [THEN subsetD])

section \<open>Sizes\<close>

lemma flagged_int_size_pos [simp]: "0 < flagged_int_size n"
  by (simp add: flagged_int_size_def)

lemma value_atom_size_pos: "0 < value_atom_size a"
  by (auto simp: value_atom_size_def Let_def)

lemma segment_size_pos: "0 < segment_size s"
proof (cases s)
  case (Atom a)
  then show ?thesis by (cases a) simp_all
qed (simp add: segment_size_Option)

lemma sum_list_ge_length: "(\<And>x. 0 < f x) \<Longrightarrow> length xs \<le> sum_list (map f xs)"
proof (induction xs)
  case (Cons x xs)
  have "length xs \<le> sum_list (map f xs)" "0 < f x" using Cons by auto
  then show ?case by simp
qed simp

lemma length_le_value_size: "length v \<le> value_size v"
  using sum_list_ge_length [of value_atom_size v] value_atom_size_pos
  by (cases "length v = 1") (auto simp: value_size_def Suc_le_eq)

lemma length_le_alignment_size: "length al \<le> alignment_size al"
  using sum_list_ge_length [of segment_size al] segment_size_pos
  by (cases "length al = 1") (auto simp: alignment_size_def Suc_le_eq)

text \<open>Joining two sequences with a flagged length costs at most one byte more than the parts.\<close>

definition seq_size :: "('a \<Rightarrow> nat) \<Rightarrow> 'a list \<Rightarrow> nat" where
  "seq_size f xs = (if length xs = 1 then f (xs ! 0) else flagged_int_size (length xs mod 2 ^ 32) + sum_list (map f xs))"

lemma seq_size_eq: "value_size = seq_size value_atom_size" "alignment_size = seq_size segment_size"
  by (auto simp: seq_size_def value_size_def alignment_size_def)

lemma flagged_int_size_add:
  assumes "m + n \<le> THREE_BYTE_LIMIT"
  shows "flagged_int_size (m + n) \<le> (if m = 1 then 0 else flagged_int_size m) + (if n = 1 then 0 else flagged_int_size n) + 1"
  using assms
  by (auto simp: flagged_int_size_def ONE_BYTE_LIMIT_def TWO_BYTE_LIMIT_def THREE_BYTE_LIMIT_def)

lemma seq_size_append:
  assumes "length xs + length ys \<le> THREE_BYTE_LIMIT"
  shows "seq_size f (xs @ ys) \<le> seq_size f xs + seq_size f ys + 1"
proof -
  have one: "seq_size f zs = (if length zs = 1 then 0 else flagged_int_size (length zs)) + sum_list (map f zs)"
    if "length zs \<le> THREE_BYTE_LIMIT" for zs
    using that by (cases zs; cases "tl zs") (auto simp: seq_size_def THREE_BYTE_LIMIT_def)
  have sum: "sum_list (map f (xs @ ys)) = sum_list (map f xs) + sum_list (map f ys)" by simp
  have "(if length (xs @ ys) = 1 then 0 else flagged_int_size (length (xs @ ys))) \<le>
      (if length xs = 1 then 0 else flagged_int_size (length xs)) +
      (if length ys = 1 then 0 else flagged_int_size (length ys)) + 1"
    using flagged_int_size_add [OF assms] by simp
  moreover have "length (xs @ ys) \<le> THREE_BYTE_LIMIT" "length xs \<le> THREE_BYTE_LIMIT" "length ys \<le> THREE_BYTE_LIMIT"
    using assms by simp_all
  ultimately show ?thesis using one [of xs] one [of ys] one [of "xs @ ys"] sum by linarith
qed

lemma aligned_size_append:
  assumes "aligned_value_size a + aligned_value_size b \<le> CELL_BOUND"
  shows "aligned_value_size \<lparr>av_value = av_value a @ av_value b, av_alignment = av_alignment a @ av_alignment b\<rparr>
    \<le> aligned_value_size a + aligned_value_size b + 2"
proof -
  have "length (av_value a) + length (av_value b) \<le> THREE_BYTE_LIMIT"
    "length (av_alignment a) + length (av_alignment b) \<le> THREE_BYTE_LIMIT"
    using assms length_le_value_size [of "av_value a"] length_le_value_size [of "av_value b"]
      length_le_alignment_size [of "av_alignment a"] length_le_alignment_size [of "av_alignment b"]
    by (simp_all add: aligned_value_size_def CELL_BOUND_def THREE_BYTE_LIMIT_def)
  from seq_size_append [OF this(1), of value_atom_size] seq_size_append [OF this(2), of segment_size]
  show ?thesis by (simp add: aligned_value_size_def seq_size_eq)
qed

text \<open>The logarithmic size of \<open>n\<close> entries is the least exponent whose power of two reaches \<open>n\<close>.\<close>

lemma ilog2_bounds: "1 \<le> n \<Longrightarrow> 2 ^ ilog2 n \<le> n \<and> n < 2 ^ (ilog2 n + 1)"
proof (induction n rule: ilog2.induct)
  case (1 n)
  show ?case
  proof (cases "n \<le> 1")
    case True
    then show ?thesis using "1.prems" by (simp add: ilog2.simps)
  next
    case False
    then have "2 ^ ilog2 (n div 2) \<le> n div 2 \<and> n div 2 < 2 ^ (ilog2 (n div 2) + 1)" using "1.IH" by auto
    moreover have "ilog2 n = ilog2 (n div 2) + 1" using False by (subst ilog2.simps) simp
    ultimately show ?thesis by auto
  qed
qed

lemma ilog2_power: "ilog2 (2 ^ k) = k"
proof (induction k)
  case (Suc k)
  have "(1 :: nat) \<le> 2 ^ k" by simp
  then have "\<not> (2 :: nat) ^ Suc k \<le> 1" unfolding power_Suc by linarith
  then have "ilog2 (2 ^ Suc k) = ilog2 (2 ^ Suc k div 2) + 1" by (subst ilog2.simps) (simp del: power_Suc)
  then show ?case using Suc by simp
qed (simp add: ilog2.simps)

lemma next_power_of_two_least:
  "n \<le> 2 ^ ilog2 (next_power_of_two n)" "n \<le> 2 ^ k \<Longrightarrow> ilog2 (next_power_of_two n) \<le> k"
proof -
  show "n \<le> 2 ^ ilog2 (next_power_of_two n)"
  proof (cases "n \<le> 1")
    case False
    then have "n - 1 < 2 ^ (ilog2 (n - 1) + 1)" using ilog2_bounds [of "n - 1"] by simp
    then have "n \<le> 2 ^ (ilog2 (n - 1) + 1)" by linarith
    then show ?thesis using False by (simp add: next_power_of_two_def ilog2_power del: power_Suc)
  qed (simp add: next_power_of_two_def ilog2.simps)
  assume k: "n \<le> 2 ^ k"
  show "ilog2 (next_power_of_two n) \<le> k"
  proof (cases "n \<le> 1")
    case False
    have "(2 :: nat) ^ ilog2 (n - 1) < 2 ^ k" using ilog2_bounds [of "n - 1"] False k by linarith
    then have "ilog2 (n - 1) < k" by simp
    then show ?thesis using False by (simp add: next_power_of_two_def ilog2_power del: power_Suc)
  qed (simp add: next_power_of_two_def ilog2.simps)
qed

lemma and_7f: "b AND 0x7f = b mod 0x80" for b :: byte
  unfolding byte_mod by (simp add: take_bit_eq_mask mask_numeral)

lemma read_write_int:
  assumes "write_int i = Ok bs"
  shows "read_int (bs @ rest) = Ok (i, rest) \<and> length bs = int_size i"
proof -
  have m: "i mod 128 < 128" by simp
  consider (1) "i < 128" | (2) "128 \<le> i" "i < 16384" | (3) "16384 \<le> i" "i < 2097152"
    using assms by (fastforce simp: write_int_def split: if_splits)
  then show ?thesis
  proof cases
    case 1
    then show ?thesis using assms small_byte(1) [OF 1]
      by (auto simp: write_int_def read_int_def int_size_def and_flag unsigned_of_nat take_bit_eq_mod)
  next
    case 2
    then have d: "i div 128 < 128" by auto
    have "bs = [0x80 OR word_of_nat (i mod 0x80), word_of_nat (i div 128)]" using assms 2
      by (simp add: write_int_def drop_bit_eq_div)
    moreover have "i mod 128 OR push_bit 7 (i div 128) = i" using or_push [of "i mod 128" 7] m by simp
    ultimately show ?thesis using 2 small_byte [OF m] small_byte(1) [OF d] d
      by (simp add: read_int_def and_flag and_7f int_size_def unsigned_of_nat take_bit_eq_mod)
  next
    case 3
    then have d: "i div 16384 < 128" by auto
    have e: "i div 128 mod 128 < 128" by simp
    have "bs = [0x80 OR word_of_nat (i mod 0x80), 0x80 OR word_of_nat (i div 128 mod 0x80), word_of_nat (i div 16384)]"
      using assms 3 by (simp add: write_int_def drop_bit_eq_div)
    moreover have "i mod 128 OR push_bit 7 (i div 128 mod 128) OR push_bit 14 (i div 16384) = i"
    proof -
      have "i mod 128 OR push_bit 7 (i div 128 mod 128) = i mod 16384"
        using or_push [of "i mod 128" 7] m mod_mult2_eq [of i 128 128] by simp
      then show ?thesis using or_push [of "i mod 16384" 14 "i div 16384"] by (simp flip: or.assoc)
    qed
    ultimately show ?thesis using 3 small_byte [OF m] small_byte [OF e] small_byte(1) [OF d] d
      by (simp add: read_int_def and_flag and_7f int_size_def unsigned_of_nat take_bit_eq_mod)
  qed
qed

end
