(* ===== verification/Vm_Ops.thy ===== *)
theory Vm_Ops
  imports State_Value Cost_Model
begin

text \<open>
  The instructions of the contract virtual machine (\<^verbatim>\<open>onchain-vm/src/ops.rs\<close>), its values
  (\<^verbatim>\<open>vm_value.rs\<close>), errors (\<^verbatim>\<open>error.rs\<close>), result modes (\<^verbatim>\<open>result_mode.rs\<close>) and cost model
  (\<^verbatim>\<open>cost_model.rs\<close>). The fields of the cost model carry the prefix \<^verbatim>\<open>cm_\<close>.

  What the machine takes from elsewhere is the record \<^verbatim>\<open>vm_env\<close>: the hashing of Merkle trees, the
  value of a tree digest, the serialised size of a state value and the total size of its storage
  nodes up to a bound, and the number of bytes of a field element.
\<close>

section \<open>Values and errors\<close>

datatype value_strength = Weak | Strong

fun strength_and :: "value_strength \<Rightarrow> value_strength \<Rightarrow> value_strength" where
  "strength_and Strong Strong = Strong"
| "strength_and _ _ = Weak"

record 'f vm_value =
  strength :: value_strength
  vm_val :: "'f state_value"

abbreviation vnew :: "value_strength \<Rightarrow> 'f state_value \<Rightarrow> 'f vm_value" where
  "vnew s v \<equiv> \<lparr>strength = s, vm_val = v\<rparr>"

datatype 'f onchain_program_error =
    RanOffStack
  | RanPastProgramEnd
  | ExpectedCell "'f state_value"
  | Decode invalid_builtin_decode
  | ArithmeticOverflow
  | TooLongForEqual
  | TypeError string
  | OutOfGas
  | BoundsExceeded
  | LogBoundExceeded
  | InvalidArgs string
  | MissingKey
  | CacheMiss
  | AttemptedArrayDelete
  | ReadMismatch aligned_value aligned_value
  | CellBoundExceeded
  | StackOverflow
  | VmMerkleTreeError invalid_update

fun as_cell :: "'f state_value \<Rightarrow> ('f onchain_program_error, aligned_value) result" where
  "as_cell (Cell v) = Ok v"
| "as_cell v = Err (ExpectedCell v)"

section \<open>Instructions\<close>

datatype key = Value aligned_value | Stack

datatype log_event_type =
    ShieldedSpend | ShieldedReceive | ShieldedMint | ShieldedBurn
  | UnshieldedSpend | UnshieldedReceive | UnshieldedMint | UnshieldedBurn
  | Paused | Unpaused | Misc

definition log_event_type_of :: "nat \<Rightarrow> (invalid_builtin_decode, log_event_type) result" where
  "log_event_type_of n =
     (if n = 0 then Ok ShieldedSpend
      else if n = 1 then Ok ShieldedReceive
      else if n = 2 then Ok ShieldedMint
      else if n = 3 then Ok ShieldedBurn
      else if n = 4 then Ok UnshieldedSpend
      else if n = 5 then Ok UnshieldedReceive
      else if n = 6 then Ok UnshieldedMint
      else if n = 7 then Ok UnshieldedBurn
      else if n = 8 then Ok Paused
      else if n = 9 then Ok Unpaused
      else if n = 10 then Ok Misc
      else Err (InvalidBuiltinDecode ''unknown LogEventType variant''))"

record 'f versioned_log_item =
  li_version :: nat
  li_event_type :: log_event_type
  li_data :: "'f state_value"

datatype ('r, 'f) op =
    Noop nat
  | Lt
  | Eq
  | Type
  | Size
  | New
  | And
  | Or
  | Neg
  | Log
  | Root
  | Pop
  | Popeq bool 'r
  | Addi nat
  | Subi nat
  | Push bool "'f state_value"
  | Branch nat
  | Jmp nat
  | Add
  | Sub
  | Concat bool nat
  | Member
  | Rem bool
  | Dup nat
  | Swap nat
  | Idx bool bool "key list"
  | Ins bool nat
  | Ckpt

fun translate :: "('r \<Rightarrow> 's) \<Rightarrow> ('r, 'f) op \<Rightarrow> ('s, 'f) op" where
  "translate f (Noop n) = Noop n"
| "translate f Lt = Lt"
| "translate f Eq = Eq"
| "translate f Type = Type"
| "translate f Size = Size"
| "translate f New = New"
| "translate f And = And"
| "translate f Or = Or"
| "translate f Neg = Neg"
| "translate f Log = Log"
| "translate f Root = Root"
| "translate f Pop = Pop"
| "translate f (Popeq cached result) = Popeq cached (f result)"
| "translate f (Addi immediate) = Addi immediate"
| "translate f (Subi immediate) = Subi immediate"
| "translate f (Push storage v) = Push storage v"
| "translate f (Branch skip) = Branch skip"
| "translate f (Jmp skip) = Jmp skip"
| "translate f Add = Add"
| "translate f Sub = Sub"
| "translate f (Concat cached n) = Concat cached n"
| "translate f Member = Member"
| "translate f (Rem cached) = Rem cached"
| "translate f (Dup n) = Dup n"
| "translate f (Swap n) = Swap n"
| "translate f (Idx cached push_path path) = Idx cached push_path path"
| "translate f (Ins cached n) = Ins cached n"
| "translate f Ckpt = Ckpt"

section \<open>Result modes\<close>

record ('r, 'e, 'f) result_mode =
  process_read :: "'r \<Rightarrow> aligned_value \<Rightarrow> ('f onchain_program_error, 'e option) result"
  process_log :: "'f versioned_log_item \<Rightarrow> 'e option"

definition result_mode_verify :: "(aligned_value, 'f versioned_log_item, 'f) result_mode" where
  "result_mode_verify =
     \<lparr>process_read = (\<lambda>expected actual.
        if expected \<noteq> actual then Err (ReadMismatch expected actual) else Ok None),
      process_log = (\<lambda>event. Some event)\<rparr>"

datatype 'f gather_event = GatherRead aligned_value | GatherLog "'f versioned_log_item"

definition result_mode_gather :: "(unit, 'f gather_event, 'f) result_mode" where
  "result_mode_gather =
     \<lparr>process_read = (\<lambda>_ real. Ok (Some (GatherRead real))), process_log = (\<lambda>event. Some (GatherLog event))\<rparr>"

section \<open>Environment and cost model\<close>

record 'f vm_env =
  ve_hashing :: "(hash_output, 'f) hashing"
  digest_value :: "'f \<Rightarrow> aligned_value"
  sv_serialized_size :: "'f state_value \<Rightarrow> nat"
  node_list_size :: "nat \<Rightarrow> 'f state_value \<Rightarrow> nat option"
  fr_bytes :: nat

record cost_model =
  cm_noop_constant :: cost_duration
  cm_noop_coeff_arg :: cost_duration
  cm_lt :: cost_duration
  cm_eq :: cost_duration
  cm_type_null :: cost_duration
  cm_type_cell :: cost_duration
  cm_type_map :: cost_duration
  cm_type_bmt :: cost_duration
  cm_type_array :: cost_duration
  cm_size_map :: cost_duration
  cm_size_bmt :: cost_duration
  cm_size_array :: cost_duration
  cm_new_null :: cost_duration
  cm_new_cell :: cost_duration
  cm_new_map :: cost_duration
  cm_new_bmt :: cost_duration
  cm_new_array :: cost_duration
  cm_and :: cost_duration
  cm_or :: cost_duration
  cm_neg :: cost_duration
  cm_log_null_constant :: cost_duration
  cm_log_null_coeff_value_size :: cost_duration
  cm_log_cell_constant :: cost_duration
  cm_log_cell_coeff_value_size :: cost_duration
  cm_log_map_constant :: cost_duration
  cm_log_map_coeff_value_size :: cost_duration
  cm_log_bmt_constant :: cost_duration
  cm_log_bmt_coeff_value_size :: cost_duration
  cm_log_array_constant :: cost_duration
  cm_log_array_coeff_value_size :: cost_duration
  cm_root :: cost_duration
  cm_pop :: cost_duration
  cm_popeq_constant :: cost_duration
  cm_popeq_coeff_value_size :: cost_duration
  cm_popeqc_constant :: cost_duration
  cm_popeqc_coeff_value_size :: cost_duration
  cm_addi :: cost_duration
  cm_subi :: cost_duration
  cm_push_null :: cost_duration
  cm_push_cell :: cost_duration
  cm_push_map :: cost_duration
  cm_push_bmt :: cost_duration
  cm_push_array :: cost_duration
  cm_pushs_null :: cost_duration
  cm_pushs_cell :: cost_duration
  cm_pushs_map :: cost_duration
  cm_pushs_bmt :: cost_duration
  cm_pushs_array :: cost_duration
  cm_branch_constant :: cost_duration
  cm_branch_coeff_arg :: cost_duration
  cm_jmp_constant :: cost_duration
  cm_jmp_coeff_arg :: cost_duration
  cm_add :: cost_duration
  cm_sub :: cost_duration
  cm_concat_constant :: cost_duration
  cm_concat_coeff_total_size :: cost_duration
  cm_concatc_constant :: cost_duration
  cm_concatc_coeff_total_size :: cost_duration
  cm_member_constant :: cost_duration
  cm_member_coeff_key_size :: cost_duration
  cm_member_coeff_container_log_size :: cost_duration
  cm_rem_map_constant :: cost_duration
  cm_rem_map_coeff_key_size :: cost_duration
  cm_rem_map_coeff_container_log_size :: cost_duration
  cm_rem_bmt_constant :: cost_duration
  cm_rem_bmt_coeff_key_size :: cost_duration
  cm_rem_bmt_coeff_container_log_size :: cost_duration
  cm_remc_map_constant :: cost_duration
  cm_remc_map_coeff_key_size :: cost_duration
  cm_remc_map_coeff_container_log_size :: cost_duration
  cm_remc_bmt_constant :: cost_duration
  cm_remc_bmt_coeff_key_size :: cost_duration
  cm_remc_bmt_coeff_container_log_size :: cost_duration
  cm_dup_constant :: cost_duration
  cm_dup_coeff_arg :: cost_duration
  cm_swap_constant :: cost_duration
  cm_swap_coeff_arg :: cost_duration
  cm_idx_map_constant :: cost_duration
  cm_idx_map_coeff_key_size :: cost_duration
  cm_idx_map_coeff_container_log_size :: cost_duration
  cm_idx_bmt_constant :: cost_duration
  cm_idx_bmt_coeff_key_size :: cost_duration
  cm_idx_bmt_coeff_container_log_size :: cost_duration
  cm_idx_array :: cost_duration
  cm_idxp_map_constant :: cost_duration
  cm_idxp_map_coeff_key_size :: cost_duration
  cm_idxp_map_coeff_container_log_size :: cost_duration
  cm_idxp_bmt_constant :: cost_duration
  cm_idxp_bmt_coeff_key_size :: cost_duration
  cm_idxp_bmt_coeff_container_log_size :: cost_duration
  cm_idxp_array :: cost_duration
  cm_idxc_map_constant :: cost_duration
  cm_idxc_map_coeff_key_size :: cost_duration
  cm_idxc_map_coeff_container_log_size :: cost_duration
  cm_idxc_bmt_constant :: cost_duration
  cm_idxc_bmt_coeff_key_size :: cost_duration
  cm_idxc_bmt_coeff_container_log_size :: cost_duration
  cm_idxc_array :: cost_duration
  cm_idxpc_map_constant :: cost_duration
  cm_idxpc_map_coeff_key_size :: cost_duration
  cm_idxpc_map_coeff_container_log_size :: cost_duration
  cm_idxpc_bmt_constant :: cost_duration
  cm_idxpc_bmt_coeff_key_size :: cost_duration
  cm_idxpc_bmt_coeff_container_log_size :: cost_duration
  cm_idxpc_array :: cost_duration
  cm_ins_map_constant :: cost_duration
  cm_ins_map_coeff_key_size :: cost_duration
  cm_ins_map_coeff_container_log_size :: cost_duration
  cm_ins_bmt_constant :: cost_duration
  cm_ins_bmt_coeff_key_size :: cost_duration
  cm_ins_bmt_coeff_container_log_size :: cost_duration
  cm_ins_array :: cost_duration
  cm_insc_map_constant :: cost_duration
  cm_insc_map_coeff_key_size :: cost_duration
  cm_insc_map_coeff_container_log_size :: cost_duration
  cm_insc_bmt_constant :: cost_duration
  cm_insc_bmt_coeff_key_size :: cost_duration
  cm_insc_bmt_coeff_container_log_size :: cost_duration
  cm_insc_array :: cost_duration
  cm_ckpt :: cost_duration
  cm_signature_verify_constant :: cost_duration
  cm_signature_verify_coeff_size :: cost_duration
  cm_pedersen_valid :: cost_duration
  cm_verifier_key_load :: cost_duration
  cm_proof_verify_constant :: cost_duration
  cm_proof_verify_coeff_size :: cost_duration
  cm_hash_to_curve :: cost_duration
  cm_ec_add :: cost_duration
  cm_ec_mul :: cost_duration
  cm_transient_hash :: cost_duration
  cm_get_writes_constant :: cost_duration
  cm_get_writes_coeff_keys_added_size :: cost_duration
  cm_update_rcmap_constant :: cost_duration
  cm_update_rcmap_coeff_keys_added_size :: cost_duration
  cm_gc_rcmap_constant :: cost_duration
  cm_gc_rcmap_coeff_keys_removed_size :: cost_duration
  cm_read_time_batched_4k :: cost_duration
  cm_read_time_synchronous_4k :: cost_duration

definition BATCHED_4K_READ_TIME :: cost_duration where "BATCHED_4K_READ_TIME = 2000000"
definition SYNCHRONOUS_4K_READ_TIME :: cost_duration where "SYNCHRONOUS_4K_READ_TIME = 85000000"

definition INITIAL_COST_MODEL :: cost_model where
  "INITIAL_COST_MODEL =
     \<lparr>cm_noop_constant = 58049,
      cm_noop_coeff_arg = 0,
      cm_lt = 1004706,
      cm_eq = 1006414,
      cm_type_null = 647378,
      cm_type_cell = 757159,
      cm_type_map = 627432,
      cm_type_bmt = 749668,
      cm_type_array = 583371,
      cm_size_map = 1600393,
      cm_size_bmt = 725665,
      cm_size_array = 1350226,
      cm_new_null = 374871,
      cm_new_cell = 814951,
      cm_new_map = 978652,
      cm_new_bmt = 845753,
      cm_new_array = 842371,
      cm_and = 784624,
      cm_or = 781084,
      cm_neg = 836890,
      cm_log_null_constant = 155124,
      cm_log_null_coeff_value_size = 0,
      cm_log_cell_constant = 314563,
      cm_log_cell_coeff_value_size = 0,
      cm_log_map_constant = 1819826,
      cm_log_map_coeff_value_size = 0,
      cm_log_bmt_constant = 303821,
      cm_log_bmt_coeff_value_size = 1,
      cm_log_array_constant = 610437,
      cm_log_array_coeff_value_size = 18027,
      cm_root = 777264,
      cm_pop = 574527,
      cm_popeq_constant = 385050,
      cm_popeq_coeff_value_size = 15,
      cm_popeqc_constant = 383608,
      cm_popeqc_coeff_value_size = 14,
      cm_addi = 816807,
      cm_subi = 817066,
      cm_push_null = 624886,
      cm_push_cell = 235744,
      cm_push_map = 5763641,
      cm_push_bmt = 238126,
      cm_push_array = 737159,
      cm_pushs_null = 146496,
      cm_pushs_cell = 235886,
      cm_pushs_map = 1005698,
      cm_pushs_bmt = 245902,
      cm_pushs_array = 742982,
      cm_branch_constant = 314875,
      cm_branch_coeff_arg = 8,
      cm_jmp_constant = 54347,
      cm_jmp_coeff_arg = 3,
      cm_add = 1061118,
      cm_sub = 1057552,
      cm_concat_constant = 1283125,
      cm_concat_coeff_total_size = 446,
      cm_concatc_constant = 1293753,
      cm_concatc_coeff_total_size = 447,
      cm_member_constant = 2186970,
      cm_member_coeff_key_size = 1196,
      cm_member_coeff_container_log_size = 1451,
      cm_rem_map_constant = 2636844,
      cm_rem_map_coeff_key_size = 2244,
      cm_rem_map_coeff_container_log_size = 927384,
      cm_rem_bmt_constant = 1232736,
      cm_rem_bmt_coeff_key_size = 0,
      cm_rem_bmt_coeff_container_log_size = 51494566,
      cm_remc_map_constant = 2530191,
      cm_remc_map_coeff_key_size = 2176,
      cm_remc_map_coeff_container_log_size = 927358,
      cm_remc_bmt_constant = 1771176,
      cm_remc_bmt_coeff_key_size = 0,
      cm_remc_bmt_coeff_container_log_size = 51448725,
      cm_dup_constant = 1544062,
      cm_dup_coeff_arg = 455427,
      cm_swap_constant = 1076337,
      cm_swap_coeff_arg = 452216,
      cm_idx_map_constant = 3950157,
      cm_idx_map_coeff_key_size = 2710,
      cm_idx_map_coeff_container_log_size = 771,
      cm_idx_bmt_constant = 3370862,
      cm_idx_bmt_coeff_key_size = 0,
      cm_idx_bmt_coeff_container_log_size = 4721,
      cm_idx_array = 3499242,
      cm_idxp_map_constant = 4790418,
      cm_idxp_map_coeff_key_size = 2942,
      cm_idxp_map_coeff_container_log_size = 0,
      cm_idxp_bmt_constant = 3582794,
      cm_idxp_bmt_coeff_key_size = 0,
      cm_idxp_bmt_coeff_container_log_size = 5227,
      cm_idxp_array = 4206480,
      cm_idxc_map_constant = 3788871,
      cm_idxc_map_coeff_key_size = 2676,
      cm_idxc_map_coeff_container_log_size = 1408,
      cm_idxc_bmt_constant = 3042703,
      cm_idxc_bmt_coeff_key_size = 0,
      cm_idxc_bmt_coeff_container_log_size = 6069,
      cm_idxc_array = 3403868,
      cm_idxpc_map_constant = 4634201,
      cm_idxpc_map_coeff_key_size = 2953,
      cm_idxpc_map_coeff_container_log_size = 1779,
      cm_idxpc_bmt_constant = 3275175,
      cm_idxpc_bmt_coeff_key_size = 0,
      cm_idxpc_bmt_coeff_container_log_size = 6234,
      cm_idxpc_array = 4172169,
      cm_ins_map_constant = 12018964,
      cm_ins_map_coeff_key_size = 1268,
      cm_ins_map_coeff_container_log_size = 1191323,
      cm_ins_bmt_constant = 2961202,
      cm_ins_bmt_coeff_key_size = 0,
      cm_ins_bmt_coeff_container_log_size = 51303653,
      cm_ins_array = 8290200,
      cm_insc_map_constant = 12219353,
      cm_insc_map_coeff_key_size = 2177,
      cm_insc_map_coeff_container_log_size = 1112945,
      cm_insc_bmt_constant = 2866434,
      cm_insc_bmt_coeff_key_size = 0,
      cm_insc_bmt_coeff_container_log_size = 51322518,
      cm_insc_array = 8277527,
      cm_ckpt = 69432,
      cm_signature_verify_constant = 59433142,
      cm_signature_verify_coeff_size = 391,
      cm_pedersen_valid = 178190334,
      cm_verifier_key_load = 3407439241,
      cm_proof_verify_constant = 5825105409,
      cm_proof_verify_coeff_size = 3309321,
      cm_hash_to_curve = 236027131,
      cm_ec_add = 232259,
      cm_ec_mul = 85079549,
      cm_transient_hash = 52808019,
      cm_get_writes_constant = 19261586,
      cm_get_writes_coeff_keys_added_size = 789174,
      cm_update_rcmap_constant = 1055224883,
      cm_update_rcmap_coeff_keys_added_size = 24633794,
      cm_gc_rcmap_constant = 0,
      cm_gc_rcmap_coeff_keys_removed_size = 40271665,
      cm_read_time_batched_4k = BATCHED_4K_READ_TIME,
      cm_read_time_synchronous_4k = SYNCHRONOUS_4K_READ_TIME\<rparr>"

definition read_cell :: "cost_model \<Rightarrow> nat \<Rightarrow> bool \<Rightarrow> running_cost" where
  "read_cell cm sz sync =
     (let blocks = max 1 (div_ceil sz 4096) in
      if sync then
        let time = cd_add (cm_read_time_synchronous_4k cm) (cd_mul (cm_read_time_batched_4k cm) (blocks - 1)) in
        \<lparr>rc_read_time = time, rc_compute_time = time, rc_bytes_written = 0, rc_bytes_deleted = 0\<rparr>
      else
        \<lparr>rc_read_time = cd_mul (cm_read_time_batched_4k cm) blocks, rc_compute_time = 0,
         rc_bytes_written = 0, rc_bytes_deleted = 0\<rparr>)"

definition read_map :: "cost_model \<Rightarrow> nat \<Rightarrow> bool \<Rightarrow> running_cost" where
  "read_map cm log_sz sync = rc_mul (read_cell cm (PERSISTENT_HASH_BYTES * 16) sync) (div_ceil log_sz 4)"

definition read_array :: "cost_model \<Rightarrow> bool \<Rightarrow> running_cost" where
  "read_array cm sync = read_cell cm (PERSISTENT_HASH_BYTES * 16) sync"

definition read_bmt :: "'f vm_env \<Rightarrow> cost_model \<Rightarrow> nat \<Rightarrow> bool \<Rightarrow> running_cost" where
  "read_bmt E cm log_sz sync = rc_mul (read_cell cm (fr_bytes E * 3 + 2) sync) log_sz"

end
