(* ===== verification/Vm.thy ===== *)
theory Vm
  imports Vm_Ops
begin

text \<open>
  The contract virtual machine (\<^verbatim>\<open>onchain-vm/src/vm.rs\<close>): the cache of visited paths, the
  instructions with their gas costs, and the main loop.

  The stack is a list whose head is the top, the reverse of the vector of the source. An instruction
  does not depend on the result mode: it returns the new stack, cache and gas together with what it
  emits, a value read or a log item, which the loop then hands to the result mode, as the last action of
  the instruction. A failed \<^verbatim>\<open>unwrap\<close>, an index out of range and an overflow of an operator are
  \<^const>\<open>Panic\<close>. Error messages are kept without the numbers formatted into them.
\<close>

section \<open>The cache\<close>

datatype inner_cache = InnerCache "(aligned_value \<times> inner_cache) list option"

type_synonym cache = "inner_cache list"
type_synonym cache_key = "(nat \<times> aligned_value list) option"

definition push_key :: "cache_key \<Rightarrow> aligned_value \<Rightarrow> cache_key" where
  "push_key ck k = map_option (\<lambda>(idx, path). (idx, path @ [k])) ck"

fun visit_path :: "aligned_value list \<Rightarrow> inner_cache \<Rightarrow> inner_cache \<times> bool" where
  "visit_path [] c = (c, True)"
| "visit_path (k # ks) (InnerCache None) = (InnerCache None, True)"
| "visit_path (k # ks) (InnerCache (Some m)) =
     (case map_of m k of
        Some c \<Rightarrow> (let (c', found) = visit_path ks c in (InnerCache (Some (AList.update k c' m)), found))
      | None \<Rightarrow>
          (let (c', _) = visit_path ks (InnerCache (Some [])) in (InnerCache (Some (AList.update k c' m)), False)))"

fun visit :: "cache \<Rightarrow> cache_key \<Rightarrow> ('e, cache \<times> bool) result" where
  "visit cache None = Ok (cache, True)"
| "visit cache (Some (n, path)) =
     (if n > length cache then Ok (cache, False)
      else if n < length cache then
        let (c', found) = visit_path path (cache ! n) in Ok (cache[n := c'], found)
      else Panic)"

section \<open>Operations on values\<close>

definition MAX_LOG_SIZE :: nat where "MAX_LOG_SIZE = 524288"
definition MAX_LOG_EMITTED :: nat where "MAX_LOG_EMITTED = 1024"
definition MAX_STACK_HEIGHT :: nat where "MAX_STACK_HEIGHT = 65536"

abbreviation decode ::
  "(invalid_builtin_decode, 'a) result \<Rightarrow> ('f onchain_program_error, 'a) result" where
  "decode \<equiv> map_err Decode"

definition vm_add ::
  "fab_value \<Rightarrow> ('f onchain_program_error, nat) result \<Rightarrow> ('f onchain_program_error, aligned_value) result" where
  "vm_add a b =
     and_then (decode (u64_of_value a)) (\<lambda>a.
     and_then b (\<lambda>b.
     and_then (ok_or (checked_add u64_max a b) ArithmeticOverflow) (\<lambda>r. aligned_of_uint 8 r)))"

definition vm_sub ::
  "fab_value \<Rightarrow> ('f onchain_program_error, nat) result \<Rightarrow> ('f onchain_program_error, aligned_value) result" where
  "vm_sub a b =
     and_then b (\<lambda>b.
     and_then (decode (u64_of_value a)) (\<lambda>a.
     and_then (ok_or (checked_sub a b) ArithmeticOverflow) (\<lambda>r. aligned_of_uint 8 r)))"

definition vm_lt :: "fab_value \<Rightarrow> fab_value \<Rightarrow> ('f onchain_program_error, aligned_value) result" where
  "vm_lt a b =
     and_then (decode (u64_of_value a)) (\<lambda>a.
     and_then (decode (u64_of_value b)) (\<lambda>b. aligned_of_bool (a < b)))"

definition vm_concat ::
  "aligned_value \<Rightarrow> aligned_value \<Rightarrow> nat \<Rightarrow> ('f onchain_program_error, aligned_value) result" where
  "vm_concat a b bound =
     (if aligned_value_size a + aligned_value_size b \<le> bound then
        ok_or (aligned_value_new (concat [av_value a, av_value b]) (concat [av_alignment a, av_alignment b]))
          (TypeError ''alignment doesn't fit in concat'')
      else Err BoundsExceeded)"

definition eq_valid_input :: "aligned_value \<Rightarrow> bool" where
  "eq_valid_input x \<longleftrightarrow> aligned_value_size x \<le> 64"

definition vm_eq :: "aligned_value \<Rightarrow> aligned_value \<Rightarrow> ('f onchain_program_error, aligned_value) result" where
  "vm_eq a b =
     (case (eq_valid_input a, eq_valid_input b) of
        (False, False) \<Rightarrow> Err TooLongForEqual
      | (True, True) \<Rightarrow> aligned_of_bool (a = b)
      | _ \<Rightarrow> aligned_of_bool False)"

text \<open>Looking up a key in a container; the cache is updated even when the lookup fails.\<close>

definition vm_idx ::
  "'f vm_value \<times> cache_key \<Rightarrow> aligned_value \<Rightarrow> cache \<Rightarrow> bool \<Rightarrow>
   ('f onchain_program_error, ('f vm_value \<times> cache_key) \<times> cache) result" where
  "vm_idx v k cache cached =
     (let ck = push_key (snd v) k in
      and_then (visit cache ck) (\<lambda>(cache', hit).
        let cache_miss = \<not> hit in
        case vm_val (fst v) of
          Array arr \<Rightarrow>
            and_then (decode (u8_of_value (av_value k))) (\<lambda>idx.
              if idx \<ge> length arr then Err (TypeError ''index out of bounds in idx'')
              else if cached \<and> cache_miss then Err CacheMiss
              else Ok ((vnew (strength (fst v)) (arr ! idx), ck), cache'))
        | Map m \<Rightarrow>
            (let res = (case map_of m k of Some x \<Rightarrow> x | None \<Rightarrow> Null) in
             if cached \<and> cache_miss then Err CacheMiss
             else Ok ((vnew (strength (fst v)) res, ck), cache'))
        | BoundedMerkleTree tree \<Rightarrow>
            and_then (decode (u64_of_value (av_value k))) (\<lambda>key.
              if mt_height tree \<ge> 64 then Panic
              else if key \<ge> 2 ^ mt_height tree then Err MissingKey
              else
                (case mt_index tree key of
                   Some (hash, ()) \<Rightarrow>
                     and_then (aligned_of_hash hash) (\<lambda>c. Ok ((vnew (strength (fst v)) (Cell c), ck), cache'))
                 | None \<Rightarrow> Ok ((vnew (strength (fst v)) Null, ck), cache')))
        | _ \<Rightarrow> Err (TypeError ''tried to idx, only map, array, and bmt are supported'')))"

section \<open>Log events\<close>

definition try_decode_event :: "'f state_value \<Rightarrow> 'f versioned_log_item option" where
  "try_decode_event v =
     (case v of
        Array [Cell version_raw, Cell event_type_raw, data] \<Rightarrow>
          (case (u32_of_value (av_value version_raw),
                 and_then (u8_of_value (av_value event_type_raw)) log_event_type_of) of
             (Ok version, Ok event_type) \<Rightarrow>
               Some \<lparr>li_version = version, li_event_type = event_type, li_data = data\<rparr>
           | _ \<Rightarrow> None)
      | _ \<Rightarrow> None)"

definition decode_event :: "'f vm_env \<Rightarrow> 'f state_value \<Rightarrow> 'f versioned_log_item option" where
  "decode_event E v =
     (let candidate = (case try_decode_event v of
           Some item \<Rightarrow> item
         | None \<Rightarrow> \<lparr>li_version = 0, li_event_type = Misc, li_data = v\<rparr>)
      in case node_list_size E MAX_LOG_EMITTED (li_data candidate) of
           Some _ \<Rightarrow> Some candidate
         | None \<Rightarrow> None)"

section \<open>Machine states\<close>

record 'f vm_core =
  vs_stack :: "('f vm_value \<times> cache_key) list"
  vs_cache :: cache
  vs_gas :: running_cost

text \<open>What an instruction hands to the result mode: nothing, the operand of \<^const>\<open>Popeq\<close> with the value
  read, or a log item.\<close>

datatype ('r, 'f) emission = Silent | ReadOf 'r aligned_value | LogOf "'f versioned_log_item"

type_synonym 'f vm_result = "('f onchain_program_error, 'f vm_core) result"

definition incr_gas_full :: "running_cost option \<Rightarrow> running_cost \<Rightarrow> 'f vm_core \<Rightarrow> 'f vm_result" where
  "incr_gas_full gas_limit by s =
     (let gas = rc_add (vs_gas s) by in
      case gas_limit of
        Some limit \<Rightarrow>
          if rc_compute_time gas > rc_compute_time limit \<or> rc_read_time gas > rc_read_time limit
          then Err OutOfGas else Ok (s\<lparr>vs_gas := gas\<rparr>)
      | None \<Rightarrow> Ok (s\<lparr>vs_gas := gas\<rparr>))"

definition incr_gas :: "running_cost option \<Rightarrow> cost_duration \<Rightarrow> 'f vm_core \<Rightarrow> 'f vm_result" where
  "incr_gas gas_limit by s =
     incr_gas_full gas_limit
       \<lparr>rc_read_time = 0, rc_compute_time = by, rc_bytes_written = 0, rc_bytes_deleted = 0\<rparr> s"

definition pop :: "'f vm_core \<Rightarrow> ('f onchain_program_error, ('f vm_value \<times> cache_key) \<times> 'f vm_core) result" where
  "pop s = (case vs_stack s of [] \<Rightarrow> Panic | x # xs \<Rightarrow> Ok (x, s\<lparr>vs_stack := xs\<rparr>))"

definition pop_cell :: "'f vm_core \<Rightarrow> ('f onchain_program_error, aligned_value \<times> 'f vm_core) result" where
  "pop_cell s = and_then (pop s) (\<lambda>(x, s'). and_then (as_cell (vm_val (fst x))) (\<lambda>c. Ok (c, s')))"

definition push :: "'f vm_value \<times> cache_key \<Rightarrow> 'f vm_core \<Rightarrow> 'f vm_core" where
  "push x s = s\<lparr>vs_stack := x # vs_stack s\<rparr>"

text \<open>Pushing the strong cell that an operation computed.\<close>

definition push_cell ::
  "('f onchain_program_error, aligned_value) result \<Rightarrow> 'f vm_core \<Rightarrow> 'f vm_result" where
  "push_cell r s = and_then r (\<lambda>c. Ok (push (vnew Strong (Cell c), None) s))"

fun stack_req :: "('r, 'f) op \<Rightarrow> nat" where
  "stack_req (Noop _) = 0" | "stack_req (Push _ _) = 0" | "stack_req (Jmp _) = 0" | "stack_req Ckpt = 0"
| "stack_req Type = 1" | "stack_req Size = 1" | "stack_req New = 1" | "stack_req Neg = 1" | "stack_req Log = 1"
| "stack_req Root = 1" | "stack_req Pop = 1" | "stack_req (Popeq _ _) = 1" | "stack_req (Addi _) = 1"
| "stack_req (Subi _) = 1" | "stack_req (Branch _) = 1"
| "stack_req Lt = 2" | "stack_req Eq = 2" | "stack_req And = 2" | "stack_req Or = 2" | "stack_req Add = 2"
| "stack_req Sub = 2" | "stack_req (Concat _ _) = 2" | "stack_req Member = 2" | "stack_req (Rem _) = 2"
| "stack_req (Dup n) = n + 1"
| "stack_req (Swap n) = n + 2"
| "stack_req (Idx _ _ path) = length (filter (\<lambda>key. key = Stack) path) + 1"
| "stack_req (Ins _ n) = n * 2 + 1"

section \<open>Instructions\<close>

abbreviation linear :: "cost_duration \<Rightarrow> cost_duration \<Rightarrow> nat \<Rightarrow> cost_duration" where
  "linear c k n \<equiv> cd_add c (cd_mul k n)"

definition exec_lt :: "running_cost option \<Rightarrow> cost_model \<Rightarrow> 'f vm_core \<Rightarrow> 'f vm_result" where
  "exec_lt gl cm s =
     and_then (incr_gas gl (cm_lt cm) s) (\<lambda>s.
     and_then (pop_cell s) (\<lambda>(b, s).
     and_then (pop_cell s) (\<lambda>(a, s). push_cell (vm_lt (av_value a) (av_value b)) s)))"

definition exec_eq :: "running_cost option \<Rightarrow> cost_model \<Rightarrow> 'f vm_core \<Rightarrow> 'f vm_result" where
  "exec_eq gl cm s =
     and_then (incr_gas gl (cm_eq cm) s) (\<lambda>s.
     and_then (pop_cell s) (\<lambda>(a, s).
     and_then (pop_cell s) (\<lambda>(b, s). push_cell (vm_eq a b) s)))"

definition u8_checked :: "nat \<Rightarrow> ('e, nat) result" where
  "u8_checked n = (if n \<le> u8_max then Ok n else Panic)"

definition type_tag :: "cost_model \<Rightarrow> 'f state_value \<Rightarrow> ('f onchain_program_error, nat \<times> cost_duration) result" where
  "type_tag cm v =
     (case v of
        Cell _ \<Rightarrow> Ok (0, cm_type_cell cm)
      | Null \<Rightarrow> Ok (1, cm_type_null cm)
      | Map _ \<Rightarrow> Ok (2, cm_type_map cm)
      | Array a \<Rightarrow> and_then (u8_checked (3 + length a mod 256 * 8)) (\<lambda>t. Ok (t, cm_type_array cm))
      | BoundedMerkleTree t \<Rightarrow> and_then (u8_checked (4 + (mt_height t - 1) * 8)) (\<lambda>t. Ok (t, cm_type_bmt cm)))"

definition exec_type :: "running_cost option \<Rightarrow> cost_model \<Rightarrow> 'f vm_core \<Rightarrow> 'f vm_result" where
  "exec_type gl cm s =
     and_then (pop s) (\<lambda>(x, s).
     and_then (type_tag cm (vm_val (fst x))) (\<lambda>(ty, cost).
     and_then (incr_gas gl cost s) (\<lambda>s. push_cell (aligned_of_uint 1 ty) s)))"

definition exec_size :: "running_cost option \<Rightarrow> cost_model \<Rightarrow> 'f vm_core \<Rightarrow> 'f vm_result" where
  "exec_size gl cm s =
     and_then (pop s) (\<lambda>(x, s).
       case vm_val (fst x) of
         Map m \<Rightarrow>
           and_then (incr_gas gl (cm_size_map cm) s) (\<lambda>s. push_cell (aligned_of_uint 8 (length m mod 2 ^ 64)) s)
       | BoundedMerkleTree t \<Rightarrow>
           and_then (incr_gas gl (cm_size_bmt cm) s) (\<lambda>s. push_cell (aligned_of_uint 8 (mt_height t mod 2 ^ 64)) s)
       | Array a \<Rightarrow>
           and_then (incr_gas gl (cm_size_array cm) s) (\<lambda>s. push_cell (aligned_of_uint 8 (length a mod 2 ^ 64)) s)
       | _ \<Rightarrow> Err (TypeError ''attempted to take size, only map, array, and bmt are supported''))"

definition exec_new :: "running_cost option \<Rightarrow> cost_model \<Rightarrow> 'f vm_core \<Rightarrow> 'f vm_result" where
  "exec_new gl cm s =
     and_then (pop_cell s) (\<lambda>(a, s).
     and_then (decode (u8_of_value (av_value a))) (\<lambda>val.
       let tag = val mod 8; sz = val div 8 in
       if tag = 0 then
         and_then (incr_gas gl (cm_new_cell cm) s) (\<lambda>s. push_cell aligned_of_unit s)
       else if tag = 1 then
         and_then (incr_gas gl (cm_new_null cm) s) (\<lambda>s. Ok (push (vnew Strong Null, None) s))
       else if tag = 2 then
         and_then (incr_gas gl (cm_new_map cm) s) (\<lambda>s. Ok (push (vnew Strong (Map []), None) s))
       else if tag = 3 then
         and_then (incr_gas gl (cm_new_array cm) s) (\<lambda>s.
           if sz > 16 then Err (InvalidArgs ''new: array length > 16'')
           else Ok (push (vnew Strong (Array (replicate sz Null)), None) s))
       else if tag = 4 then
         and_then (incr_gas gl (cm_new_bmt cm) s) (\<lambda>s.
           Ok (push (vnew Strong (BoundedMerkleTree (mt_blank (sz + 1))), None) s))
       else Err (InvalidArgs ''new: type tag > 4'')))"

definition pop_bool :: "'f vm_core \<Rightarrow> ('f onchain_program_error, bool \<times> 'f vm_core) result" where
  "pop_bool s =
     and_then (pop_cell s) (\<lambda>(c, s). and_then (decode (bool_of_value (av_value c))) (\<lambda>b. Ok (b, s)))"

definition exec_and :: "running_cost option \<Rightarrow> cost_model \<Rightarrow> 'f vm_core \<Rightarrow> 'f vm_result" where
  "exec_and gl cm s =
     and_then (incr_gas gl (cm_and cm) s) (\<lambda>s.
     and_then (pop_bool s) (\<lambda>(a, s).
     and_then (pop_bool s) (\<lambda>(b, s). push_cell (aligned_of_bool (a \<and> b)) s)))"

definition exec_or :: "running_cost option \<Rightarrow> cost_model \<Rightarrow> 'f vm_core \<Rightarrow> 'f vm_result" where
  "exec_or gl cm s =
     and_then (incr_gas gl (cm_or cm) s) (\<lambda>s.
     and_then (pop_bool s) (\<lambda>(a, s).
     and_then (pop_bool s) (\<lambda>(b, s). push_cell (aligned_of_bool (a \<or> b)) s)))"

definition exec_neg :: "running_cost option \<Rightarrow> cost_model \<Rightarrow> 'f vm_core \<Rightarrow> 'f vm_result" where
  "exec_neg gl cm s =
     and_then (incr_gas gl (cm_neg cm) s) (\<lambda>s.
     and_then (pop_bool s) (\<lambda>(a, s). push_cell (aligned_of_bool (\<not> a)) s))"

fun log_gas :: "cost_model \<Rightarrow> 'f state_value \<Rightarrow> nat \<Rightarrow> cost_duration" where
  "log_gas cm Null sz = linear (cm_log_null_constant cm) (cm_log_null_coeff_value_size cm) sz"
| "log_gas cm (Cell _) sz = linear (cm_log_cell_constant cm) (cm_log_cell_coeff_value_size cm) sz"
| "log_gas cm (Map _) sz = linear (cm_log_map_constant cm) (cm_log_map_coeff_value_size cm) sz"
| "log_gas cm (BoundedMerkleTree _) sz = linear (cm_log_bmt_constant cm) (cm_log_bmt_coeff_value_size cm) sz"
| "log_gas cm (Array _) sz = linear (cm_log_array_constant cm) (cm_log_array_coeff_value_size cm) sz"

definition exec_log ::
  "'f vm_env \<Rightarrow> running_cost option \<Rightarrow> cost_model \<Rightarrow> 'f vm_core \<Rightarrow>
   ('f onchain_program_error, 'f vm_core \<times> ('r, 'f) emission) result" where
  "exec_log E gl cm s =
     and_then (pop s) (\<lambda>(x, s).
     let val = vm_val (fst x) in
     and_then (ok_or (node_list_size E MAX_LOG_SIZE val) LogBoundExceeded) (\<lambda>sz.
     and_then (incr_gas gl (log_gas cm val sz) s) (\<lambda>s.
     and_then (incr_gas_full gl
        \<lparr>rc_read_time = 0, rc_compute_time = 0, rc_bytes_written = sz, rc_bytes_deleted = sz\<rparr> s) (\<lambda>s.
     Ok (s, case decode_event E val of Some event \<Rightarrow> LogOf event | None \<Rightarrow> Silent)))))"

definition exec_root :: "'f vm_env \<Rightarrow> running_cost option \<Rightarrow> cost_model \<Rightarrow> 'f vm_core \<Rightarrow> 'f vm_result" where
  "exec_root E gl cm s =
     and_then (incr_gas gl (cm_root cm) s) (\<lambda>s.
     and_then (pop s) (\<lambda>(x, s).
       case vm_val (fst x) of
         BoundedMerkleTree t \<Rightarrow>
           and_then (ok_or (mt_root (ve_hashing E) t)
             (TypeError ''attempted to take root of non-rehashed bmt (this should not be possible!)'')) (\<lambda>r.
           push_cell (Ok (digest_value E r)) s)
       | _ \<Rightarrow> Err (TypeError ''attempted to take root of non bmt'')))"

definition exec_pop :: "running_cost option \<Rightarrow> cost_model \<Rightarrow> 'f vm_core \<Rightarrow> 'f vm_result" where
  "exec_pop gl cm s =
     and_then (incr_gas gl (cm_pop cm) s) (\<lambda>s. and_then (pop s) (\<lambda>(_, s). Ok s))"

definition exec_popeq ::
  "running_cost option \<Rightarrow> cost_model \<Rightarrow> 'r \<Rightarrow> 'f vm_core \<Rightarrow>
   ('f onchain_program_error, 'f vm_core \<times> ('r, 'f) emission) result" where
  "exec_popeq gl cm r s =
     and_then (incr_gas gl (cm_popeq_constant cm) s) (\<lambda>s.
     and_then (pop_cell s) (\<lambda>(v, s).
     and_then (incr_gas gl (cd_mul (cm_popeq_coeff_value_size cm) (aligned_value_size v)) s) (\<lambda>s.
     Ok (s, ReadOf r v))))"

definition exec_addi :: "running_cost option \<Rightarrow> cost_model \<Rightarrow> nat \<Rightarrow> 'f vm_core \<Rightarrow> 'f vm_result" where
  "exec_addi gl cm immediate s =
     and_then (incr_gas gl (cm_addi cm) s) (\<lambda>s.
     and_then (pop_cell s) (\<lambda>(a, s). push_cell (vm_add (av_value a) (Ok immediate)) s))"

definition exec_subi :: "running_cost option \<Rightarrow> cost_model \<Rightarrow> nat \<Rightarrow> 'f vm_core \<Rightarrow> 'f vm_result" where
  "exec_subi gl cm immediate s =
     and_then (incr_gas gl (cm_subi cm) s) (\<lambda>s.
     and_then (pop_cell s) (\<lambda>(a, s). push_cell (vm_sub (av_value a) (Ok immediate)) s))"

fun push_cost :: "cost_model \<Rightarrow> bool \<Rightarrow> 'f state_value \<Rightarrow> cost_duration" where
  "push_cost cm True Null = cm_pushs_null cm"
| "push_cost cm False Null = cm_push_null cm"
| "push_cost cm True (Cell _) = cm_pushs_cell cm"
| "push_cost cm False (Cell _) = cm_push_cell cm"
| "push_cost cm True (Map _) = cm_pushs_map cm"
| "push_cost cm False (Map _) = cm_push_map cm"
| "push_cost cm True (BoundedMerkleTree _) = cm_pushs_bmt cm"
| "push_cost cm False (BoundedMerkleTree _) = cm_push_bmt cm"
| "push_cost cm True (Array _) = cm_pushs_array cm"
| "push_cost cm False (Array _) = cm_push_array cm"

definition exec_push ::
  "running_cost option \<Rightarrow> cost_model \<Rightarrow> bool \<Rightarrow> 'f state_value \<Rightarrow> 'f vm_core \<Rightarrow> 'f vm_result" where
  "exec_push gl cm storage v s =
     and_then (incr_gas gl (push_cost cm storage v) s) (\<lambda>s.
     Ok (push (vnew (if storage then Strong else Weak) v, None) s))"

definition exec_add :: "running_cost option \<Rightarrow> cost_model \<Rightarrow> 'f vm_core \<Rightarrow> 'f vm_result" where
  "exec_add gl cm s =
     and_then (incr_gas gl (cm_add cm) s) (\<lambda>s.
     and_then (pop_cell s) (\<lambda>(a, s).
     and_then (pop_cell s) (\<lambda>(b, s). push_cell (vm_add (av_value a) (decode (u64_of_value (av_value b)))) s)))"

definition exec_sub :: "running_cost option \<Rightarrow> cost_model \<Rightarrow> 'f vm_core \<Rightarrow> 'f vm_result" where
  "exec_sub gl cm s =
     and_then (incr_gas gl (cm_sub cm) s) (\<lambda>s.
     and_then (pop_cell s) (\<lambda>(a, s).
     and_then (pop_cell s) (\<lambda>(b, s). push_cell (vm_sub (av_value b) (decode (u64_of_value (av_value a)))) s)))"

definition exec_concat :: "running_cost option \<Rightarrow> cost_model \<Rightarrow> nat \<Rightarrow> 'f vm_core \<Rightarrow> 'f vm_result" where
  "exec_concat gl cm n s =
     (if n > CELL_BOUND then Err CellBoundExceeded
      else
        and_then (pop_cell s) (\<lambda>(a, s).
        and_then (pop_cell s) (\<lambda>(b, s).
        let total_len = aligned_value_size a + aligned_value_size b in
        and_then (incr_gas gl (linear (cm_concat_constant cm) (cm_concat_coeff_total_size cm) total_len) s) (\<lambda>s.
        push_cell (vm_concat b a n) s))))"

definition exec_member :: "running_cost option \<Rightarrow> cost_model \<Rightarrow> 'f vm_core \<Rightarrow> 'f vm_result" where
  "exec_member gl cm s =
     and_then (pop_cell s) (\<lambda>(key, s).
     and_then (pop s) (\<lambda>(x, s).
     let m = vm_val (fst x) in
     and_then (incr_gas gl
        (cd_add (linear (cm_member_constant cm) (cm_member_coeff_key_size cm) (aligned_value_size key))
           (cd_mul (cm_member_coeff_container_log_size cm) (log_size m))) s) (\<lambda>s.
     and_then (incr_gas_full gl (read_map cm (log_size m) True) s) (\<lambda>s.
       case m of
         Map m \<Rightarrow> push_cell (aligned_of_bool (map_of m key \<noteq> None)) s
       | _ \<Rightarrow> Err (TypeError ''attempted to check membership, only map is supported'')))))"

definition rem_cost :: "cost_model \<Rightarrow> aligned_value \<Rightarrow> 'f state_value \<Rightarrow> cost_duration" where
  "rem_cost cm key v =
     (case v of
        Map _ \<Rightarrow>
          cd_add (linear (cm_rem_map_constant cm) (cm_rem_map_coeff_key_size cm) (aligned_value_size key))
            (cd_mul (cm_rem_map_coeff_container_log_size cm) (log_size v))
      | BoundedMerkleTree _ \<Rightarrow>
          linear (cm_rem_bmt_constant cm) (cm_rem_bmt_coeff_container_log_size cm) (log_size v)
      | _ \<Rightarrow> 0)"

definition rem_read_cost :: "'f vm_env \<Rightarrow> cost_model \<Rightarrow> 'f state_value \<Rightarrow> running_cost" where
  "rem_read_cost E cm v =
     (case v of
        Map _ \<Rightarrow> read_map cm (log_size v) True
      | BoundedMerkleTree _ \<Rightarrow> read_bmt E cm (log_size v) True
      | _ \<Rightarrow> rc_ZERO)"

definition rem_container ::
  "'f vm_env \<Rightarrow> aligned_value \<Rightarrow> 'f state_value \<Rightarrow> ('f onchain_program_error, 'f state_value) result" where
  "rem_container E key v =
     (case v of
        Map m \<Rightarrow> Ok (Map (AList.delete key m))
      | BoundedMerkleTree t \<Rightarrow>
          and_then (decode (u64_of_value (av_value key))) (\<lambda>i.
          and_then (map_err VmMerkleTreeError (try_update_hash t i (replicate PERSISTENT_HASH_BYTES 0) ())) (\<lambda>t'.
          Ok (BoundedMerkleTree (mt_rehash (ve_hashing E) t'))))
      | _ \<Rightarrow> Err (TypeError ''attempted to rem, only map and bmt are supported''))"

definition exec_rem ::
  "'f vm_env \<Rightarrow> running_cost option \<Rightarrow> cost_model \<Rightarrow> bool \<Rightarrow> 'f vm_core \<Rightarrow> 'f vm_result" where
  "exec_rem E gl cm cached s =
     and_then (pop_cell s) (\<lambda>(key, s).
     and_then (pop s) (\<lambda>(container, s).
     let v = vm_val (fst container) in
     and_then (incr_gas gl (rem_cost cm key v) s) (\<lambda>s.
     and_then (if cached then Ok s else incr_gas_full gl (rem_read_cost E cm v) s) (\<lambda>s.
     and_then (visit (vs_cache s) (push_key (snd container) key)) (\<lambda>(cache, cache_hit).
     let s = s\<lparr>vs_cache := cache\<rparr> in
     if cached \<and> \<not> cache_hit then Err CacheMiss
     else
       and_then (rem_container E key v) (\<lambda>container_nxt.
       Ok (push (vnew (strength (fst container)) container_nxt, snd container) s)))))))"

definition exec_dup :: "running_cost option \<Rightarrow> cost_model \<Rightarrow> nat \<Rightarrow> 'f vm_core \<Rightarrow> 'f vm_result" where
  "exec_dup gl cm n s =
     and_then (incr_gas gl (linear (cm_dup_constant cm) (cm_dup_coeff_arg cm) n) s) (\<lambda>s.
       if n < length (vs_stack s) then Ok (push (vs_stack s ! n) s) else Panic)"

definition exec_swap :: "running_cost option \<Rightarrow> cost_model \<Rightarrow> nat \<Rightarrow> 'f vm_core \<Rightarrow> 'f vm_result" where
  "exec_swap gl cm n s =
     and_then (incr_gas gl (linear (cm_swap_constant cm) (cm_swap_coeff_arg cm) n) s) (\<lambda>s.
       let xs = vs_stack s in
       if n + 1 < length xs then Ok (s\<lparr>vs_stack := xs[0 := xs ! (n + 1), n + 1 := xs ! 0]\<rparr>) else Panic)"

fun idx_cost :: "cost_model \<Rightarrow> 'f state_value \<Rightarrow> bool \<Rightarrow> bool \<Rightarrow> cost_duration \<times> cost_duration \<times> cost_duration" where
  "idx_cost cm (Map _) True True =
     (cm_idxpc_map_constant cm, cm_idxpc_map_coeff_key_size cm, cm_idxpc_map_coeff_container_log_size cm)"
| "idx_cost cm (Map _) True False =
     (cm_idxc_map_constant cm, cm_idxc_map_coeff_key_size cm, cm_idxc_map_coeff_container_log_size cm)"
| "idx_cost cm (BoundedMerkleTree _) True True =
     (cm_idxpc_bmt_constant cm, cm_idxpc_bmt_coeff_key_size cm, cm_idxpc_bmt_coeff_container_log_size cm)"
| "idx_cost cm (BoundedMerkleTree _) True False =
     (cm_idxc_bmt_constant cm, cm_idxc_bmt_coeff_key_size cm, cm_idxc_bmt_coeff_container_log_size cm)"
| "idx_cost cm (Array _) True True = (cm_idxpc_array cm, 0, 0)"
| "idx_cost cm (Array _) True False = (cm_idxc_array cm, 0, 0)"
| "idx_cost cm (Map _) False True =
     (cm_idxp_map_constant cm, cm_idxp_map_coeff_key_size cm, cm_idxp_map_coeff_container_log_size cm)"
| "idx_cost cm (Map _) False False =
     (cm_idx_map_constant cm, cm_idx_map_coeff_key_size cm, cm_idx_map_coeff_container_log_size cm)"
| "idx_cost cm (BoundedMerkleTree _) False True =
     (cm_idxp_bmt_constant cm, cm_idxp_bmt_coeff_key_size cm, cm_idxp_bmt_coeff_container_log_size cm)"
| "idx_cost cm (BoundedMerkleTree _) False False =
     (cm_idx_bmt_constant cm, cm_idx_bmt_coeff_key_size cm, cm_idx_bmt_coeff_container_log_size cm)"
| "idx_cost cm (Array _) False True = (cm_idxp_array cm, 0, 0)"
| "idx_cost cm (Array _) False False = (cm_idx_array cm, 0, 0)"
| "idx_cost cm Null _ _ = (0, 0, 0)"
| "idx_cost cm (Cell _) _ _ = (0, 0, 0)"

definition container_read_cost :: "'f vm_env \<Rightarrow> cost_model \<Rightarrow> 'f state_value \<Rightarrow> running_cost" where
  "container_read_cost E cm v =
     (case v of
        Array _ \<Rightarrow> read_array cm True
      | Map _ \<Rightarrow> read_map cm (log_size v) True
      | BoundedMerkleTree _ \<Rightarrow> read_bmt E cm (log_size v) True
      | _ \<Rightarrow> rc_ZERO)"

text \<open>The charge for accessing a container at a key, shared by \<^verbatim>\<open>idx\<close> and \<^verbatim>\<open>ins\<close>.\<close>

definition access_gas ::
  "'f vm_env \<Rightarrow> running_cost option \<Rightarrow> cost_model \<Rightarrow> cost_duration \<times> cost_duration \<times> cost_duration \<Rightarrow> bool \<Rightarrow>
   'f state_value \<Rightarrow> 'f state_value \<Rightarrow> 'f vm_core \<Rightarrow> 'f vm_result" where
  "access_gas E gl cm cost cached key container s =
     (case cost of (constant_cost, linear_cost, log_cost) \<Rightarrow>
        and_then (incr_gas gl
          (cd_add (linear constant_cost linear_cost (sv_serialized_size E key))
             (cd_mul log_cost (log_size container))) s) (\<lambda>s.
        if cached then Ok s else incr_gas_full gl (container_read_cost E cm container) s))"

definition read_size :: "'f state_value \<Rightarrow> nat" where
  "read_size v = (case v of Cell val \<Rightarrow> aligned_value_size val | _ \<Rightarrow> 1024)"

definition idx_step ::
  "'f vm_env \<Rightarrow> running_cost option \<Rightarrow> cost_model \<Rightarrow> bool \<Rightarrow> bool \<Rightarrow> 'f vm_value \<Rightarrow> 'f vm_value \<times> cache_key \<Rightarrow> 'f vm_core \<Rightarrow>
   ('f onchain_program_error, ('f vm_value \<times> cache_key) \<times> 'f vm_core) result" where
  "idx_step E gl cm cached push_path key x s =
     (let v = vm_val (fst x) in
      and_then (access_gas E gl cm (idx_cost cm v cached push_path) cached (vm_val key) v s) (\<lambda>s.
      let s = (if push_path then push (key, None) (push x s) else s) in
      and_then (as_cell (vm_val key)) (\<lambda>key_val.
      and_then (vm_idx x key_val (vs_cache s) cached) (\<lambda>(x', cache).
      let s = s\<lparr>vs_cache := cache\<rparr> in
      and_then (if cached then Ok s
                else incr_gas_full gl (read_cell cm (read_size (vm_val (fst x'))) True) s) (\<lambda>s.
      Ok (x', s))))))"

fun next_key :: "key \<Rightarrow> 'f vm_value list \<Rightarrow> ('e, 'f vm_value \<times> 'f vm_value list) result" where
  "next_key Stack [] = Panic"
| "next_key Stack (k # ks) = Ok (k, ks)"
| "next_key (Value v) ks = Ok (vnew Weak (Cell v), ks)"

fun idx_path ::
  "'f vm_env \<Rightarrow> running_cost option \<Rightarrow> cost_model \<Rightarrow> bool \<Rightarrow> bool \<Rightarrow> key list \<Rightarrow> 'f vm_value list \<Rightarrow>
   'f vm_value \<times> cache_key \<Rightarrow> 'f vm_core \<Rightarrow> ('f onchain_program_error, ('f vm_value \<times> cache_key) \<times> 'f vm_core) result" where
  "idx_path E gl cm cached push_path [] keys x s = Ok (x, s)"
| "idx_path E gl cm cached push_path (k # path) keys x s =
     and_then (next_key k keys) (\<lambda>(key, keys).
     and_then (idx_step E gl cm cached push_path key x s) (\<lambda>(x, s).
     idx_path E gl cm cached push_path path keys x s))"

fun pop_keys :: "nat \<Rightarrow> 'f vm_core \<Rightarrow> ('f onchain_program_error, 'f vm_value list \<times> 'f vm_core) result" where
  "pop_keys 0 s = Ok ([], s)"
| "pop_keys (Suc n) s = and_then (pop s) (\<lambda>(x, s). and_then (pop_keys n s) (\<lambda>(ks, s). Ok (fst x # ks, s)))"

definition exec_idx ::
  "'f vm_env \<Rightarrow> running_cost option \<Rightarrow> cost_model \<Rightarrow> bool \<Rightarrow> bool \<Rightarrow> key list \<Rightarrow> 'f vm_core \<Rightarrow> 'f vm_result" where
  "exec_idx E gl cm cached push_path path s =
     and_then (pop_keys (length (filter (\<lambda>key. key = Stack) path)) s) (\<lambda>(stack_keys, s).
     and_then (pop s) (\<lambda>(x, s).
     and_then (idx_path E gl cm cached push_path path stack_keys x s) (\<lambda>(x, s). Ok (push x s))))"

fun ins_cost :: "cost_model \<Rightarrow> 'f state_value \<Rightarrow> bool \<Rightarrow> cost_duration \<times> cost_duration \<times> cost_duration" where
  "ins_cost cm (Map _) False =
     (cm_ins_map_constant cm, cm_ins_map_coeff_key_size cm, cm_ins_map_coeff_container_log_size cm)"
| "ins_cost cm (BoundedMerkleTree _) False =
     (cm_ins_bmt_constant cm, cm_ins_bmt_coeff_key_size cm, cm_ins_bmt_coeff_container_log_size cm)"
| "ins_cost cm (Array _) False = (cm_ins_array cm, 0, 0)"
| "ins_cost cm (Map _) True =
     (cm_insc_map_constant cm, cm_insc_map_coeff_key_size cm, cm_insc_map_coeff_container_log_size cm)"
| "ins_cost cm (BoundedMerkleTree _) True =
     (cm_insc_bmt_constant cm, cm_insc_bmt_coeff_key_size cm, cm_insc_bmt_coeff_container_log_size cm)"
| "ins_cost cm (Array _) True = (cm_insc_array cm, 0, 0)"
| "ins_cost cm Null _ = (0, 0, 0)"
| "ins_cost cm (Cell _) _ = (0, 0, 0)"

definition bmt_insert ::
  "'f vm_env \<Rightarrow> 'f bmt \<Rightarrow> nat \<Rightarrow> 'f state_value \<Rightarrow> ('f onchain_program_error, 'f state_value) result" where
  "bmt_insert E t i v =
     (if mt_height t \<ge> 64 then Panic
      else if i < 2 ^ mt_height t then
        and_then (map_err (\<lambda>_. TypeError ''attempted to ins a non-cell value into a bmt'') (as_cell v)) (\<lambda>c.
        and_then (map_err (\<lambda>_. TypeError ''attempt to ins cell that doesn't repr hash into bmt'')
          (hash_of_value (av_value c))) (\<lambda>hash.
        and_then (map_err VmMerkleTreeError (try_update_hash t i hash ())) (\<lambda>t'.
        Ok (BoundedMerkleTree (mt_rehash (ve_hashing E) t')))))
      else Err BoundsExceeded)"

definition ins_container ::
  "'f vm_env \<Rightarrow> 'f state_value \<Rightarrow> aligned_value \<Rightarrow> 'f state_value \<Rightarrow> ('f onchain_program_error, 'f state_value) result" where
  "ins_container E container key v =
     (case container of
        Array arr \<Rightarrow>
          and_then (decode (u8_of_value (av_value key))) (\<lambda>i.
            if i \<ge> length arr then Err (TypeError ''index out of bounds in array ins'')
            else Ok (Array (arr[i := v])))
      | Map m \<Rightarrow> Ok (Map (AList.update key v m))
      | BoundedMerkleTree t \<Rightarrow> and_then (decode (u64_of_value (av_value key))) (\<lambda>i. bmt_insert E t i v)
      | _ \<Rightarrow> Err (TypeError ''attempted to ins, only array, map, and bmt are supported''))"

definition ins_step ::
  "'f vm_env \<Rightarrow> running_cost option \<Rightarrow> cost_model \<Rightarrow> bool \<Rightarrow> 'f vm_value \<times> cache_key \<Rightarrow> 'f vm_core \<Rightarrow>
   ('f onchain_program_error, ('f vm_value \<times> cache_key) \<times> 'f vm_core) result" where
  "ins_step E gl cm cached x s =
     and_then (pop s) (\<lambda>(k, s).
     and_then (pop s) (\<lambda>(container, s).
     let key = vm_val (fst k); v = vm_val (fst container) in
     and_then (access_gas E gl cm (ins_cost cm v cached) cached key v s) (\<lambda>s.
     and_then (as_cell key) (\<lambda>key_cell.
     and_then (visit (vs_cache s) (push_key (snd container) key_cell)) (\<lambda>(cache, cache_hit).
     let s = s\<lparr>vs_cache := cache\<rparr> in
     if cached \<and> \<not> cache_hit \<and> \<not> (case v of Array _ \<Rightarrow> True | _ \<Rightarrow> False) then Err CacheMiss
     else
       and_then (ins_container E v key_cell (vm_val (fst x))) (\<lambda>nxt.
       Ok ((vnew (strength_and (strength (fst x)) (strength (fst container))) nxt, snd container), s)))))))"

fun ins_loop ::
  "'f vm_env \<Rightarrow> running_cost option \<Rightarrow> cost_model \<Rightarrow> bool \<Rightarrow> nat \<Rightarrow> 'f vm_value \<times> cache_key \<Rightarrow> 'f vm_core \<Rightarrow>
   ('f onchain_program_error, ('f vm_value \<times> cache_key) \<times> 'f vm_core) result" where
  "ins_loop E gl cm cached 0 x s = Ok (x, s)"
| "ins_loop E gl cm cached (Suc n) x s =
     and_then (ins_step E gl cm cached x s) (\<lambda>(x, s). ins_loop E gl cm cached n x s)"

definition exec_ins ::
  "'f vm_env \<Rightarrow> running_cost option \<Rightarrow> cost_model \<Rightarrow> bool \<Rightarrow> nat \<Rightarrow> 'f vm_core \<Rightarrow> 'f vm_result" where
  "exec_ins E gl cm cached n s =
     and_then (pop s) (\<lambda>(x, s).
     and_then (ins_loop E gl cm cached n x s) (\<lambda>(x, s). Ok (push x s)))"

abbreviation silent ::
  "'f vm_result \<Rightarrow> ('f onchain_program_error, 'f vm_core \<times> ('r, 'f) emission) result" where
  "silent \<equiv> map_ok (\<lambda>s. (s, Silent))"

definition exec_op ::
  "'f vm_env \<Rightarrow> running_cost option \<Rightarrow> cost_model \<Rightarrow> ('r, 'f) op \<Rightarrow> 'f vm_core \<Rightarrow>
   ('f onchain_program_error, 'f vm_core \<times> ('r, 'f) emission) result" where
  "exec_op E gl cm op s =
     (case op of
        Noop n \<Rightarrow> silent (incr_gas gl (linear (cm_noop_constant cm) (cm_noop_coeff_arg cm) n) s)
      | Branch skip \<Rightarrow> silent (incr_gas gl (linear (cm_branch_constant cm) (cm_branch_coeff_arg cm) skip) s)
      | Jmp skip \<Rightarrow> silent (incr_gas gl (linear (cm_jmp_constant cm) (cm_jmp_coeff_arg cm) skip) s)
      | Ckpt \<Rightarrow> silent (incr_gas gl (cm_ckpt cm) s)
      | Lt \<Rightarrow> silent (exec_lt gl cm s)
      | Eq \<Rightarrow> silent (exec_eq gl cm s)
      | Type \<Rightarrow> silent (exec_type gl cm s)
      | Size \<Rightarrow> silent (exec_size gl cm s)
      | New \<Rightarrow> silent (exec_new gl cm s)
      | And \<Rightarrow> silent (exec_and gl cm s)
      | Or \<Rightarrow> silent (exec_or gl cm s)
      | Neg \<Rightarrow> silent (exec_neg gl cm s)
      | Root \<Rightarrow> silent (exec_root E gl cm s)
      | Pop \<Rightarrow> silent (exec_pop gl cm s)
      | Addi immediate \<Rightarrow> silent (exec_addi gl cm immediate s)
      | Subi immediate \<Rightarrow> silent (exec_subi gl cm immediate s)
      | Push storage v \<Rightarrow> silent (exec_push gl cm storage v s)
      | Add \<Rightarrow> silent (exec_add gl cm s)
      | Sub \<Rightarrow> silent (exec_sub gl cm s)
      | Concat _ n \<Rightarrow> silent (exec_concat gl cm n s)
      | Member \<Rightarrow> silent (exec_member gl cm s)
      | Rem cached \<Rightarrow> silent (exec_rem E gl cm cached s)
      | Dup n \<Rightarrow> silent (exec_dup gl cm n s)
      | Swap n \<Rightarrow> silent (exec_swap gl cm n s)
      | Idx cached push_path path \<Rightarrow> silent (exec_idx E gl cm cached push_path path s)
      | Ins cached n \<Rightarrow> silent (exec_ins E gl cm cached n s)
      | Log \<Rightarrow> exec_log E gl cm s
      | Popeq _ r \<Rightarrow> exec_popeq gl cm r s)"

section \<open>The main loop\<close>

definition emit ::
  "('r, 'e, 'f) result_mode \<Rightarrow> ('r, 'f) emission \<Rightarrow> 'e list \<Rightarrow> ('f onchain_program_error, 'e list) result" where
  "emit M em events =
     (case em of
        Silent \<Rightarrow> Ok events
      | ReadOf r v \<Rightarrow>
          and_then (process_read M r v) (\<lambda>ev. Ok (case ev of Some event \<Rightarrow> events @ [event] | None \<Rightarrow> events))
      | LogOf item \<Rightarrow> Ok (case process_log M item of Some event \<Rightarrow> events @ [event] | None \<Rightarrow> events))"

fun op_skip :: "('r, 'f) op \<Rightarrow> 'f vm_core \<Rightarrow> ('f onchain_program_error, nat \<times> 'f vm_core) result" where
  "op_skip (Branch skip) s =
     and_then (pop_cell s) (\<lambda>(a, s). Ok (if av_value a = [[]] then 0 else skip, s))"
| "op_skip (Jmp skip) s = Ok (skip, s)"
| "op_skip _ s = Ok (0, s)"

text \<open>One iteration: what remains of the program, the new state and the events.\<close>

definition run_step ::
  "'f vm_env \<Rightarrow> ('r, 'e, 'f) result_mode \<Rightarrow> running_cost option \<Rightarrow> cost_model \<Rightarrow> ('r, 'f) op list \<Rightarrow> 'f vm_core \<Rightarrow> 'e list \<Rightarrow>
   ('f onchain_program_error, ('r, 'f) op list \<times> 'f vm_core \<times> 'e list) result" where
  "run_step E M gl cm program s events =
     (let op = hd program in
      if length (vs_stack s) < stack_req op then Err RanOffStack
      else
        and_then (exec_op E gl cm op s) (\<lambda>(s, em).
        and_then (emit M em events) (\<lambda>events.
        and_then (op_skip op s) (\<lambda>(n, s).
        let skip = 1 + n in
        if skip > length program then Err RanPastProgramEnd
        else if length (vs_stack s) > MAX_STACK_HEIGHT then Err StackOverflow
        else Ok (drop skip program, s, events)))))"

lemma run_step_shorter:
  "run_step E M gl cm program s events = Ok (program', s', events') \<Longrightarrow> program \<noteq> [] \<Longrightarrow>
   length program' < length program"
  by (auto simp: run_step_def Let_def result_simps split: if_splits prod.splits result.splits)

function run_program_internal ::
  "'f vm_env \<Rightarrow> ('r, 'e, 'f) result_mode \<Rightarrow> running_cost option \<Rightarrow> cost_model \<Rightarrow> nat option \<Rightarrow> nat \<Rightarrow>
   ('r, 'f) op list \<Rightarrow> 'f vm_core \<Rightarrow> 'e list \<Rightarrow> ('f onchain_program_error, 'f vm_core \<times> 'e list) result" where
  "run_program_internal E M gl cm step_limit steps_executed program s events =
     (if program = [] \<or> (case step_limit of Some limit \<Rightarrow> steps_executed \<ge> limit | None \<Rightarrow> False)
      then Ok (s, events)
      else
        (case run_step E M gl cm program s events of
           Ok (program, s, events) \<Rightarrow>
             run_program_internal E M gl cm step_limit (steps_executed + 1) program s events
         | Err e \<Rightarrow> Err e
         | Panic \<Rightarrow> Panic))"
  by pat_completeness auto
termination
  by (relation "measure (\<lambda>(E, M, gl, cm, lim, n, program, s, ev). length program)")
    (auto dest: run_step_shorter)

declare run_program_internal.simps [simp del]

record ('e, 'f) vm_results =
  vr_stack :: "'f vm_value list"
  vr_events :: "'e list"
  vr_gas_cost :: running_cost

definition initial_cache :: "'f vm_value list \<Rightarrow> cache" where
  "initial_cache initial = map (\<lambda>v. if strength v = Weak then InnerCache None else InnerCache (Some [])) initial"

definition initial_state :: "'f vm_value list \<Rightarrow> 'f vm_core" where
  "initial_state initial =
     \<lparr>vs_stack = rev (map (\<lambda>(i, v). (v, Some (i, []))) (enumerate 0 initial)),
      vs_cache = initial_cache initial, vs_gas = rc_ZERO\<rparr>"

definition vm_results_of :: "'f vm_core \<times> 'e list \<Rightarrow> ('e, 'f) vm_results" where
  "vm_results_of r =
     \<lparr>vr_stack = rev (map fst (vs_stack (fst r))), vr_events = snd r, vr_gas_cost = vs_gas (fst r)\<rparr>"

definition run_program_step_limited ::
  "'f vm_env \<Rightarrow> ('r, 'e, 'f) result_mode \<Rightarrow> 'f vm_value list \<Rightarrow> ('r, 'f) op list \<Rightarrow> nat option \<Rightarrow> running_cost option \<Rightarrow>
   cost_model \<Rightarrow> ('f onchain_program_error, ('e, 'f) vm_results) result" where
  "run_program_step_limited E M initial program step_limit gl cm =
     map_ok vm_results_of (run_program_internal E M gl cm step_limit 0 program (initial_state initial) [])"

definition run_program ::
  "'f vm_env \<Rightarrow> ('r, 'e, 'f) result_mode \<Rightarrow> 'f vm_value list \<Rightarrow> ('r, 'f) op list \<Rightarrow> running_cost option \<Rightarrow>
   cost_model \<Rightarrow> ('f onchain_program_error, ('e, 'f) vm_results) result" where
  "run_program E M initial program gl cm = run_program_step_limited E M initial program None gl cm"

end
