(* ===== verification/Vm_Safety.thy ===== *)
theory Vm_Safety
  imports Vm
begin

text \<open>
  The virtual machine does not go wrong: on a well-formed stack every instruction returns or fails
  with an error, never panics, and leaves a well-formed stack within the gas limit.

  The proofs use a small logic for results: \<^verbatim>\<open>safe r P\<close> says that \<open>r\<close> does not panic and that \<open>P\<close> holds
  of its value. The collection \<^verbatim>\<open>safe_rules\<close> has one rule for each helper of the machine, over the
  assertion \<^verbatim>\<open>vm_ok E gl L n s\<close>: the state is well formed and its stack has at least \<open>n\<close> elements.
\<close>

named_theorems safe_rules \<open>introduction rules of the result logic\<close>

section \<open>A logic of results\<close>

definition safe :: "('e, 'a) result \<Rightarrow> ('a \<Rightarrow> bool) \<Rightarrow> bool" where
  "safe r P \<longleftrightarrow> (case r of Ok x \<Rightarrow> P x | Err _ \<Rightarrow> True | Panic \<Rightarrow> False)"

lemma safe_simps [simp]: "safe (Ok x) P = P x" "safe (Err e) P" "\<not> safe Panic P"
  by (simp_all add: safe_def)

lemma safe_iff: "safe r P \<longleftrightarrow> r \<noteq> Panic \<and> (\<forall>x. r = Ok x \<longrightarrow> P x)"
  by (cases r) auto

lemma safe_and_then: "safe r Q \<Longrightarrow> (\<And>x. Q x \<Longrightarrow> safe (f x) P) \<Longrightarrow> safe (and_then r f) P"
  by (cases r) auto

lemma safe_weaken: "safe r Q \<Longrightarrow> (\<And>x. Q x \<Longrightarrow> P x) \<Longrightarrow> safe r P"
  by (cases r) auto

lemma safe_map_ok: "safe r (\<lambda>x. P (f x)) \<Longrightarrow> safe (map_ok f r) P"
  by (cases r) auto

lemma safe_map_err: "safe r P \<Longrightarrow> safe (map_err f r) P"
  by (cases r) auto

lemma safe_ok_or: "safe (ok_or opt e) (\<lambda>x. opt = Some x)"
  by (cases opt) auto

lemma safe_and_then_pair:
  "safe r (\<lambda>(x, y). Q x y) \<Longrightarrow> (\<And>x y. Q x y \<Longrightarrow> safe (f x y) P) \<Longrightarrow> safe (and_then r (\<lambda>(x, y). f x y)) P"
  by (cases r) auto

lemma safe_if: "(c \<Longrightarrow> safe a P) \<Longrightarrow> (\<not> c \<Longrightarrow> safe b P) \<Longrightarrow> safe (if c then a else b) P"
  by simp

lemmas safe_struct = safe_and_then_pair safe_and_then safe_map_err safe_ok_or

section \<open>Conversions\<close>

lemma uint_of_atom_safe: "safe (uint_of_atom n ty a) (\<lambda>v. v < 256 ^ n)"
  by (auto simp: safe_iff uint_of_atom_def u128_of_atom_def split: if_splits)

lemma uint_of_value_safe [safe_rules]:
  "safe (u8_of_value v) (\<lambda>n. n < 256)" "safe (u64_of_value v) (\<lambda>n. n \<le> u64_max)"
  using uint_of_atom_safe [of 1 "''u8''" "v ! 0"] uint_of_atom_safe [of 8 "''u64''" "v ! 0"]
  by (auto simp: safe_iff u8_of_value_def u64_of_value_def prim_of_value_def u64_max_def)

lemma bool_of_value_safe [safe_rules]: "safe (bool_of_value v) (\<lambda>_. True)"
  using uint_of_atom_safe [of 1 "''u8''" "v ! 0"]
  by (auto simp: safe_iff bool_of_value_def bool_of_atom_def prim_of_value_def result_simps split: if_splits)

lemma hash_of_value_safe [safe_rules]:
  "safe (hash_of_value v) (\<lambda>h. length h = PERSISTENT_HASH_BYTES)"
  by (auto simp: safe_iff hash_of_value_def hash_of_atom_def prim_of_value_def split: if_splits)

definition cell_limit :: nat where "cell_limit = CELL_BOUND + 2"

lemma flagged_int_size_le: "flagged_int_size n \<le> 1000"
  by (simp add: flagged_int_size_def)

lemma value_atom_size_le: "value_atom_size a \<le> length a + 1000"
proof -
  define b where "b = (if is_in_normal_form a then a else atom_normalize a)"
  have "length b \<le> length a" using length_atom_normalize [of a] by (simp add: b_def)
  then show ?thesis
    using flagged_int_size_le [of "unat (b ! 0)"] flagged_int_size_le [of "length b mod 2 ^ 32"]
    unfolding value_atom_size_def b_def [symmetric] Let_def
    by (cases "length b = 1 \<and> b ! 0 < 32") auto
qed

text \<open>A cell of one short atom.\<close>

lemma short_cell:
  assumes "length a \<le> 32"
  shows "aligned_value_size \<lparr>av_value = [a], av_alignment = [Atom (Bytes n)]\<rparr> \<le> cell_limit"
  using assms value_atom_size_le [of a] flagged_int_size_le [of n]
  by (simp add: aligned_value_size_def value_size_def alignment_size_def cell_limit_def CELL_BOUND_def)

lemma aligned_of_uint_safe [safe_rules]:
  assumes "v < 256 ^ n" "n \<le> 16"
  shows "safe (aligned_of_uint n v) (\<lambda>c. aligned_value_size c \<le> cell_limit)"
  using short_cell [of "atom_of_uint v"] atom_of_uint_short [OF assms] assms(2)
  by (simp add: aligned_of_uint_Ok [OF assms])

lemma aligned_of_bool_safe [safe_rules]:
  "safe (aligned_of_bool b) (\<lambda>c. aligned_value_size c \<le> cell_limit)"
  using short_cell [of "atom_of_bool b"] length_atom_normalize [of "[if b then 1 else 0]"]
  by (simp add: aligned_of_bool_Ok atom_of_bool_def)

lemma aligned_of_hash_safe [safe_rules]:
  assumes "length h = PERSISTENT_HASH_BYTES"
  shows "safe (aligned_of_hash h) (\<lambda>c. aligned_value_size c \<le> cell_limit)"
  using assms short_cell [of "atom_of_hash h"] length_atom_normalize [of h]
  by (simp add: aligned_of_hash_Ok atom_of_hash_def PERSISTENT_HASH_BYTES_def)

lemma aligned_of_unit_safe [safe_rules]:
  "safe aligned_of_unit (\<lambda>c. aligned_value_size c \<le> cell_limit)"
  by (simp add: aligned_of_unit_Ok aligned_value_size_def value_size_def alignment_size_def
      cell_limit_def CELL_BOUND_def flagged_int_size_def)

section \<open>Operations on values\<close>

lemma vm_add_safe [safe_rules]:
  "safe b (\<lambda>_. True) \<Longrightarrow> safe (vm_add a b) (\<lambda>c. aligned_value_size c \<le> cell_limit)"
  unfolding vm_add_def
  by (rule safe_and_then [OF safe_map_err [OF uint_of_value_safe(2)]], rule safe_and_then, assumption,
      rule safe_and_then [OF safe_ok_or], rule safe_rules)
    (auto simp: arith_defs u64_max_def split: if_splits)

lemma vm_sub_safe [safe_rules]:
  "safe b (\<lambda>_. True) \<Longrightarrow> safe (vm_sub a b) (\<lambda>c. aligned_value_size c \<le> cell_limit)"
  unfolding vm_sub_def
  by (rule safe_and_then, assumption, rule safe_and_then [OF safe_map_err [OF uint_of_value_safe(2)]],
      rule safe_and_then [OF safe_ok_or], rule safe_rules)
    (auto simp: arith_defs u64_max_def split: if_splits)

lemma vm_lt_safe [safe_rules]: "safe (vm_lt a b) (\<lambda>c. aligned_value_size c \<le> cell_limit)"
  unfolding vm_lt_def by (rule safe_rules safe_struct)+

lemma vm_eq_safe [safe_rules]: "safe (vm_eq a b) (\<lambda>c. aligned_value_size c \<le> cell_limit)"
  using aligned_of_bool_safe by (auto simp: vm_eq_def split: bool.splits)

text \<open>The bound checked by the concatenation does not count the new length prefixes.\<close>

lemma vm_concat_safe [safe_rules]:
  "n \<le> CELL_BOUND \<Longrightarrow> safe (vm_concat a b n) (\<lambda>c. aligned_value_size c \<le> cell_limit)"
  using aligned_size_append [of a b]
  by (auto simp: vm_concat_def aligned_value_new_def cell_limit_def split: if_splits)

section \<open>Well-formed states\<close>

definition key_ok :: "nat \<Rightarrow> cache_key \<Rightarrow> bool" where
  "key_ok L ck \<longleftrightarrow> (case ck of Some (i, _) \<Rightarrow> i < L | None \<Rightarrow> True)"

definition entry_ok :: "'f vm_env \<Rightarrow> nat \<Rightarrow> 'f vm_value \<times> cache_key \<Rightarrow> bool" where
  "entry_ok E L x \<longleftrightarrow> sv_wf (ve_hashing E) cell_limit (vm_val (fst x)) \<and> key_ok L (snd x)"

definition gas_within :: "running_cost option \<Rightarrow> running_cost \<Rightarrow> bool" where
  "gas_within gl g \<longleftrightarrow>
     (case gl of Some limit \<Rightarrow> rc_compute_time g \<le> rc_compute_time limit \<and> rc_read_time g \<le> rc_read_time limit
      | None \<Rightarrow> True)"

definition vm_ok :: "'f vm_env \<Rightarrow> running_cost option \<Rightarrow> nat \<Rightarrow> nat \<Rightarrow> 'f vm_core \<Rightarrow> bool" where
  "vm_ok E gl L n s \<longleftrightarrow>
     list_all (entry_ok E L) (vs_stack s) \<and> n \<le> length (vs_stack s) \<and> length (vs_cache s) = L \<and>
     gas_within gl (vs_gas s)"

definition env_ok :: "'f vm_env \<Rightarrow> bool" where
  "env_ok E \<longleftrightarrow> (\<forall>d. aligned_value_size (digest_value E d) \<le> CELL_BOUND)"

lemma vm_ok_mono: "vm_ok E gl L n s \<Longrightarrow> m \<le> n \<Longrightarrow> vm_ok E gl L m s"
  by (simp add: vm_ok_def)

lemma vm_ok_zero: "vm_ok E gl L n s \<Longrightarrow> vm_ok E gl L 0 s"
  by (simp add: vm_ok_def)

lemma vm_ok_nth: "vm_ok E gl L n s \<Longrightarrow> i < length (vs_stack s) \<Longrightarrow> entry_ok E L (vs_stack s ! i)"
  by (simp add: vm_ok_def list_all_length)

lemma vm_ok_height: "vm_ok E gl L (Suc n) s \<Longrightarrow> n < length (vs_stack s)"
  by (simp add: vm_ok_def)

lemma key_ok_simps [simp]: "key_ok L None" "key_ok L (Some (i, p)) = (i < L)" "key_ok L (push_key ck k) = key_ok L ck"
  by (auto simp: key_ok_def push_key_def split: option.splits)

lemma entry_ok_pair [simp]: "entry_ok E L (v, ck) \<longleftrightarrow> sv_wf (ve_hashing E) cell_limit (vm_val v) \<and> key_ok L ck"
  by (simp add: entry_ok_def)

lemma incr_gas_full_safe [safe_rules]: "vm_ok E gl L n s \<Longrightarrow> safe (incr_gas_full gl by s) (vm_ok E gl L n)"
  by (auto simp: incr_gas_full_def Let_def vm_ok_def gas_within_def split: option.splits)

lemma incr_gas_safe [safe_rules]: "vm_ok E gl L n s \<Longrightarrow> safe (incr_gas gl by s) (vm_ok E gl L n)"
  unfolding incr_gas_def by (rule incr_gas_full_safe)

lemma pop_safe [safe_rules]:
  "vm_ok E gl L (Suc n) s \<Longrightarrow> safe (pop s) (\<lambda>(x, s). entry_ok E L x \<and> vm_ok E gl L n s)"
  by (auto simp: pop_def vm_ok_def split: list.splits)

lemma as_cell_safe [safe_rules]:
  "sv_wf H cell_limit v \<Longrightarrow> safe (as_cell v) (\<lambda>c. v = Cell c \<and> aligned_value_size c \<le> cell_limit)"
  by (cases v) auto

lemma pop_cell_safe [safe_rules]:
  assumes "vm_ok E gl L (Suc n) s"
  shows "safe (pop_cell s) (\<lambda>(c, s). aligned_value_size c \<le> cell_limit \<and> vm_ok E gl L n s)"
  unfolding pop_cell_def
  by (rule safe_and_then_pair [OF pop_safe [OF assms]], rule safe_and_then, rule as_cell_safe) (auto simp: entry_ok_def)

lemma vm_ok_push: "vm_ok E gl L n s \<Longrightarrow> entry_ok E L x \<Longrightarrow> vm_ok E gl L (Suc n) (push x s)"
  by (simp add: vm_ok_def push_def)

lemma vm_ok_cache: "vm_ok E gl L n s \<Longrightarrow> length c = L \<Longrightarrow> vm_ok E gl L n (s\<lparr>vs_cache := c\<rparr>)"
  by (simp add: vm_ok_def)

lemma push_cell_safe [safe_rules]:
  "safe r (\<lambda>c. aligned_value_size c \<le> cell_limit) \<Longrightarrow> vm_ok E gl L n s \<Longrightarrow> safe (push_cell r s) (vm_ok E gl L 0)"
  unfolding push_cell_def by (rule safe_and_then, assumption) (auto intro!: vm_ok_zero [OF vm_ok_push])

lemma pop_bool_safe [safe_rules]:
  assumes "vm_ok E gl L (Suc n) s"
  shows "safe (pop_bool s) (\<lambda>(_, s). vm_ok E gl L n s)"
  unfolding pop_bool_def
  by (rule safe_and_then_pair [OF pop_cell_safe [OF assms]], rule safe_and_then [OF safe_map_err [OF bool_of_value_safe]])
    simp

lemma visit_safe [safe_rules]:
  "key_ok (length cache) ck \<Longrightarrow> safe (visit cache ck) (\<lambda>(c, _). length c = length cache)"
  by (cases "(cache, ck)" rule: visit.cases) (auto simp: Let_def split: prod.splits)

section \<open>Instructions\<close>

lemma exec_arith_safe [safe_rules]:
  "vm_ok E gl L (Suc (Suc 0)) s \<Longrightarrow> safe (exec_lt gl cm s) (vm_ok E gl L 0)"
  "vm_ok E gl L (Suc (Suc 0)) s \<Longrightarrow> safe (exec_eq gl cm s) (vm_ok E gl L 0)"
  "vm_ok E gl L (Suc (Suc 0)) s \<Longrightarrow> safe (exec_and gl cm s) (vm_ok E gl L 0)"
  "vm_ok E gl L (Suc (Suc 0)) s \<Longrightarrow> safe (exec_or gl cm s) (vm_ok E gl L 0)"
  "vm_ok E gl L (Suc 0) s \<Longrightarrow> safe (exec_neg gl cm s) (vm_ok E gl L 0)"
  unfolding exec_lt_def exec_eq_def exec_and_def exec_or_def exec_neg_def
  by (rule safe_rules safe_struct | erule conjE | assumption)+

lemma safe_any: "safe r P \<Longrightarrow> safe r (\<lambda>_. True)"
  by (cases r) auto

lemma exec_sum_safe [safe_rules]:
  "vm_ok E gl L (Suc (Suc 0)) s \<Longrightarrow> safe (exec_add gl cm s) (vm_ok E gl L 0)"
  "vm_ok E gl L (Suc (Suc 0)) s \<Longrightarrow> safe (exec_sub gl cm s) (vm_ok E gl L 0)"
  "vm_ok E gl L (Suc 0) s \<Longrightarrow> safe (exec_addi gl cm i s) (vm_ok E gl L 0)"
  "vm_ok E gl L (Suc 0) s \<Longrightarrow> safe (exec_subi gl cm i s) (vm_ok E gl L 0)"
  unfolding exec_add_def exec_sub_def exec_addi_def exec_subi_def
  by (rule safe_rules safe_struct safe_simps(1) [THEN iffD2] TrueI | erule conjE | assumption
      | rule safe_any)+

lemma type_tag_safe [safe_rules]:
  "sv_wf H cell_limit v \<Longrightarrow> safe (type_tag cm v) (\<lambda>(ty, _). ty < 256 ^ 1)"
  by (cases v) (auto simp: type_tag_def u8_checked_def u8_max_def bmt_wf_def)

lemma exec_type_safe [safe_rules]:
  assumes "vm_ok E gl L (Suc 0) s"
  shows "safe (exec_type gl cm s) (vm_ok E gl L 0)"
  unfolding exec_type_def
  by (rule safe_and_then_pair [OF pop_safe [OF assms]], rule safe_and_then_pair [OF type_tag_safe])
    (auto simp: entry_ok_def intro!: safe_and_then [OF incr_gas_safe] push_cell_safe aligned_of_uint_safe)

lemma exec_size_safe [safe_rules]:
  assumes "vm_ok E gl L (Suc 0) s"
  shows "safe (exec_size gl cm s) (vm_ok E gl L 0)"
  unfolding exec_size_def
  by (rule safe_and_then_pair [OF pop_safe [OF assms]])
    (auto intro!: safe_and_then [OF incr_gas_safe] push_cell_safe aligned_of_uint_safe split: state_value.splits)

lemma high_bits_le: "x < 256 \<Longrightarrow> x div 8 \<le> (31 :: nat)"
  by linarith

lemma exec_new_safe [safe_rules]:
  assumes "vm_ok E gl L (Suc 0) s"
  shows "safe (exec_new gl cm s) (vm_ok E gl L 0)"
  unfolding exec_new_def Let_def
  by (rule safe_and_then_pair [OF pop_cell_safe [OF assms]], rule safe_and_then [OF safe_map_err [OF uint_of_value_safe(1)]])
    (auto intro!: safe_if safe_and_then [OF incr_gas_safe] push_cell_safe aligned_of_unit_safe vm_ok_zero [OF vm_ok_push]
      bmt_wf_blank high_bits_le)

lemma exec_log_safe [safe_rules]:
  assumes "vm_ok E gl L (Suc 0) s"
  shows "safe (exec_log E gl cm s) (\<lambda>(s, _). vm_ok E gl L 0 s)"
  unfolding exec_log_def Let_def
  by (rule safe_and_then_pair [OF pop_safe [OF assms]], rule safe_and_then [OF safe_ok_or])
    (auto intro!: safe_and_then [OF incr_gas_safe] safe_and_then [OF incr_gas_full_safe])

lemma env_ok_digest: "env_ok E \<Longrightarrow> aligned_value_size (digest_value E d) \<le> cell_limit"
  unfolding env_ok_def cell_limit_def by (rule trans_le_add1) (erule spec)

lemma exec_root_safe [safe_rules]:
  assumes "vm_ok E gl L (Suc 0) s" "env_ok E"
  shows "safe (exec_root E gl cm s) (vm_ok E gl L 0)"
  using assms(2) unfolding exec_root_def
  by (intro safe_and_then [OF incr_gas_safe [OF assms(1)]] safe_and_then_pair [OF pop_safe])
    (auto intro!: push_cell_safe safe_and_then [OF safe_ok_or] env_ok_digest split: state_value.splits)

lemma exec_pop_safe [safe_rules]:
  "vm_ok E gl L (Suc 0) s \<Longrightarrow> safe (exec_pop gl cm s) (vm_ok E gl L 0)"
  unfolding exec_pop_def
  by (rule safe_and_then [OF incr_gas_safe], assumption, rule safe_and_then_pair [OF pop_safe]) auto

lemma exec_popeq_safe [safe_rules]:
  "vm_ok E gl L (Suc 0) s \<Longrightarrow> safe (exec_popeq gl cm r s) (\<lambda>(s, _). vm_ok E gl L 0 s)"
  unfolding exec_popeq_def
  by (rule safe_and_then [OF incr_gas_safe], assumption, rule safe_and_then_pair [OF pop_cell_safe], assumption)
    (auto intro!: safe_and_then [OF incr_gas_safe])

lemma exec_push_safe [safe_rules]:
  "vm_ok E gl L n s \<Longrightarrow> sv_wf (ve_hashing E) cell_limit v \<Longrightarrow> safe (exec_push gl cm b v s) (vm_ok E gl L 0)"
  unfolding exec_push_def
  by (rule safe_and_then [OF incr_gas_safe], assumption) (auto intro!: vm_ok_zero [OF vm_ok_push])

lemma exec_concat_safe [safe_rules]:
  "vm_ok E gl L (Suc (Suc 0)) s \<Longrightarrow> safe (exec_concat gl cm n s) (vm_ok E gl L 0)"
  unfolding exec_concat_def Let_def
  by (rule safe_if, simp, rule safe_and_then_pair [OF pop_cell_safe], assumption, erule conjE,
      rule safe_and_then_pair [OF pop_cell_safe], assumption)
    (auto intro!: safe_and_then [OF incr_gas_safe] push_cell_safe vm_concat_safe)

lemma exec_member_safe [safe_rules]:
  "vm_ok E gl L (Suc (Suc 0)) s \<Longrightarrow> safe (exec_member gl cm s) (vm_ok E gl L 0)"
  unfolding exec_member_def Let_def
  by (rule safe_and_then_pair [OF pop_cell_safe], assumption, erule conjE, rule safe_and_then_pair [OF pop_safe], assumption)
    (auto intro!: safe_and_then [OF incr_gas_safe] safe_and_then [OF incr_gas_full_safe] push_cell_safe aligned_of_bool_safe
      split: state_value.splits)

lemma exec_dup_safe [safe_rules]:
  "vm_ok E gl L (Suc n) s \<Longrightarrow> safe (exec_dup gl cm n s) (vm_ok E gl L 0)"
  unfolding exec_dup_def
  by (rule safe_and_then [OF incr_gas_safe], assumption) (auto intro!: vm_ok_zero [OF vm_ok_push] vm_ok_nth simp: vm_ok_height)

lemma list_all_swap:
  "list_all P xs \<Longrightarrow> i < length xs \<Longrightarrow> j < length xs \<Longrightarrow> list_all P (xs[i := xs ! j, j := xs ! i])"
  by (simp add: list_all_length nth_list_update)

lemma exec_swap_safe [safe_rules]:
  "vm_ok E gl L (n + 2) s \<Longrightarrow> safe (exec_swap gl cm n s) (vm_ok E gl L 0)"
  unfolding exec_swap_def
  by (rule safe_and_then [OF incr_gas_safe], assumption)
    (auto simp: vm_ok_def Let_def intro!: list_all_swap)

section \<open>Containers\<close>

lemma try_update_hash_no_panic: "try_update_hash t i h a \<noteq> Panic"
proof (induction t i h a rule: try_update_hash.induct)
  case (3 h i x a)
  then show ?case by (subst try_update_hash.simps(3)) (auto simp: Let_def result_simps)
qed (auto simp: Let_def result_simps)

lemma try_update_hash_safe:
  assumes "bmt_wf H t" "length h = PERSISTENT_HASH_BYTES"
  shows "safe (map_err f (try_update_hash t i h ())) (\<lambda>t'. bmt_wf H (mt_rehash H t'))"
  using bmt_wf_update [OF assms(1) _ assms(2)] by (auto simp: safe_iff result_simps try_update_hash_no_panic)

lemma rem_container_safe [safe_rules]:
  assumes "sv_wf (ve_hashing E) cell_limit v"
  shows "safe (rem_container E key v) (sv_wf (ve_hashing E) cell_limit)"
proof (cases v)
  case (Map m)
  then show ?thesis using sv_wf_map_delete assms by (fastforce simp: rem_container_def)
next
  case (BoundedMerkleTree t)
  then have "bmt_wf (ve_hashing E) t" using assms by simp
  then show ?thesis unfolding rem_container_def BoundedMerkleTree state_value.case
    by (intro safe_and_then [OF safe_map_err [OF uint_of_value_safe(2)]] safe_and_then [OF try_update_hash_safe]) simp_all
qed (auto simp: rem_container_def)

lemma bmt_insert_safe:
  assumes "bmt_wf (ve_hashing E) t" "sv_wf (ve_hashing E) cell_limit v"
  shows "safe (bmt_insert E t i v) (sv_wf (ve_hashing E) cell_limit)"
proof -
  have "\<not> mt_height t \<ge> 64" using assms(1) by (simp add: bmt_wf_def)
  then show ?thesis unfolding bmt_insert_def
    by (auto intro!: safe_and_then [OF safe_map_err [OF as_cell_safe [OF assms(2)]]]
        safe_and_then [OF safe_map_err [OF hash_of_value_safe]] safe_and_then [OF try_update_hash_safe [OF assms(1)]])
qed

lemma ins_container_safe [safe_rules]:
  assumes "sv_wf (ve_hashing E) cell_limit c" "sv_wf (ve_hashing E) cell_limit v"
  shows "safe (ins_container E c key v) (sv_wf (ve_hashing E) cell_limit)"
proof (cases c)
  case (Map m)
  then show ?thesis using sv_wf_map_update assms by (fastforce simp: ins_container_def)
next
  case (Array arr)
  then show ?thesis using sv_wf_array_update assms
    by (fastforce simp: ins_container_def intro: safe_and_then [OF safe_map_err [OF uint_of_value_safe(1)]])
next
  case (BoundedMerkleTree t)
  then show ?thesis using assms
    by (auto simp: ins_container_def intro!: safe_and_then [OF safe_map_err [OF uint_of_value_safe(2)]] bmt_insert_safe)
qed (auto simp: ins_container_def)

lemma bmt_leaf_length:
  "bmt_wf H t \<Longrightarrow> \<not> 2 ^ mt_height t \<le> i \<Longrightarrow> mt_index t i = Some (h, ()) \<Longrightarrow> length h = PERSISTENT_HASH_BYTES"
  by (simp add: bmt_wf_def not_le)

lemma vm_idx_safe [safe_rules]:
  assumes "entry_ok E (length cache) x"
  shows "safe (vm_idx x k cache cached) (\<lambda>(y, c). entry_ok E (length cache) y \<and> length c = length cache)"
proof -
  have key: "key_ok (length cache) (push_key (snd x) k)" and wf: "sv_wf (ve_hashing E) cell_limit (vm_val (fst x))"
    using assms by (simp_all add: entry_ok_def)
  show ?thesis unfolding vm_idx_def Let_def
  proof (rule safe_and_then_pair [OF visit_safe [OF key]], goal_cases)
    case (1 c hit)
    show ?case
    proof (cases "vm_val (fst x)")
      case (Map m)
      have "sv_wf (ve_hashing E) cell_limit (case map_of m k of Some v \<Rightarrow> v | None \<Rightarrow> Null)"
        using sv_wf_map_of wf Map by (fastforce split: option.splits)
      then show ?thesis using 1 key Map by simp
    next
      case (Array arr)
      then show ?thesis using 1 key wf
        by (auto intro!: safe_and_then [OF safe_map_err [OF uint_of_value_safe(1)]])
    next
      case (BoundedMerkleTree t)
      then have "bmt_wf (ve_hashing E) t" "\<not> mt_height t \<ge> 64" using wf by (auto simp: bmt_wf_def)
      then show ?thesis using 1 key BoundedMerkleTree
        by (auto intro!: safe_and_then [OF safe_map_err [OF uint_of_value_safe(2)]] split: option.splits)
          (auto intro!: safe_and_then [OF aligned_of_hash_safe] dest: bmt_leaf_length)
    qed simp_all
  qed
qed

lemma exec_rem_safe [safe_rules]:
  assumes "vm_ok E gl L (Suc (Suc 0)) s"
  shows "safe (exec_rem E gl cm cached s) (vm_ok E gl L 0)"
  unfolding exec_rem_def Let_def
proof (rule safe_and_then_pair [OF pop_cell_safe [OF assms]], erule conjE, rule safe_and_then_pair [OF pop_safe], assumption,
    erule conjE, rule safe_and_then [OF incr_gas_safe], assumption, rule safe_and_then [where Q = "vm_ok E gl L 0"], goal_cases)
  case (1 key s1 x s2 s3)
  then show ?case by (auto intro!: incr_gas_full_safe)
next
  case (2 key s1 x s2 s3 s4)
  then have "key_ok (length (vs_cache s4)) (push_key (snd x) key)" "length (vs_cache s4) = L"
    "sv_wf (ve_hashing E) cell_limit (vm_val (fst x))" "key_ok L (snd x)"
    by (auto simp: entry_ok_def vm_ok_def)
  then show ?case using 2
    by (intro safe_and_then_pair [OF visit_safe])
      (auto intro!: safe_if safe_and_then [OF rem_container_safe] vm_ok_zero [OF vm_ok_push] vm_ok_cache)
qed

lemma access_gas_safe [safe_rules]:
  "vm_ok E gl L n s \<Longrightarrow> safe (access_gas E gl cm cost cached k c s) (vm_ok E gl L n)"
  unfolding access_gas_def
  by (auto split: prod.splits intro!: safe_and_then [OF incr_gas_safe] incr_gas_full_safe)

lemma idx_step_safe:
  assumes ok: "vm_ok E gl L 0 s" and x: "entry_ok E L x" and k: "sv_wf (ve_hashing E) cell_limit (vm_val key)"
  shows "safe (idx_step E gl cm cached pp key x s) (\<lambda>(y, s). entry_ok E L y \<and> vm_ok E gl L 0 s)"
  unfolding idx_step_def Let_def
proof (rule safe_and_then [OF access_gas_safe [OF ok]], rule safe_and_then [OF as_cell_safe [OF k]], goal_cases)
  case (1 s1 kv)
  define s2 where "s2 = (if pp then push (key, None) (push x s1) else s1)"
  have s2: "vm_ok E gl L 0 s2" using 1 x k by (auto simp: s2_def intro!: vm_ok_zero [OF vm_ok_push] vm_ok_push)
  then have "length (vs_cache s2) = L" by (simp add: vm_ok_def)
  then show ?case unfolding s2_def [symmetric] using s2 x
    by (intro safe_and_then_pair [OF vm_idx_safe])
      (auto intro!: safe_and_then [OF incr_gas_full_safe [where n = 0]] vm_ok_cache)
qed

definition stack_keys :: "key list \<Rightarrow> nat" where
  "stack_keys path = length (filter (\<lambda>key. key = Stack) path)"

definition path_ok :: "key list \<Rightarrow> bool" where
  "path_ok path \<longleftrightarrow> list_all (\<lambda>k. case k of Value v \<Rightarrow> aligned_value_size v \<le> cell_limit | Stack \<Rightarrow> True) path"

lemma idx_path_safe:
  assumes "vm_ok E gl L 0 s" "entry_ok E L x" "path_ok path" "stack_keys path \<le> length keys"
    "list_all (\<lambda>k. sv_wf (ve_hashing E) cell_limit (vm_val k)) keys"
  shows "safe (idx_path E gl cm cached pp path keys x s) (\<lambda>(y, s). entry_ok E L y \<and> vm_ok E gl L 0 s)"
  using assms
proof (induction path arbitrary: keys x s)
  case (Cons k path)
  have "safe (next_key k keys) (\<lambda>(v, ks). sv_wf (ve_hashing E) cell_limit (vm_val v) \<and> stack_keys path \<le> length ks \<and>
      list_all (\<lambda>k. sv_wf (ve_hashing E) cell_limit (vm_val k)) ks)"
    using Cons.prems(3-5) by (cases "(k, keys)" rule: next_key.cases) (auto simp: stack_keys_def path_ok_def)
  moreover have "path_ok path" using Cons.prems(3) by (simp add: path_ok_def)
  ultimately show ?case
    by (auto intro!: safe_and_then_pair [OF _ safe_and_then_pair [OF idx_step_safe Cons.IH]] simp: Cons.prems(1,2))
qed simp

lemma pop_keys_safe:
  "vm_ok E gl L (n + m) s \<Longrightarrow>
   safe (pop_keys n s) (\<lambda>(ks, s). length ks = n \<and> list_all (\<lambda>k. sv_wf (ve_hashing E) cell_limit (vm_val k)) ks \<and>
     vm_ok E gl L m s)"
proof (induction n arbitrary: s)
  case (Suc n)
  have "vm_ok E gl L (Suc (n + m)) s" using Suc.prems by simp
  from pop_safe [OF this] show ?case
    by (auto intro!: safe_and_then_pair [OF _ safe_and_then_pair [OF Suc.IH]] simp: entry_ok_def)
qed simp

lemma exec_idx_safe [safe_rules]:
  assumes "vm_ok E gl L (Suc (stack_keys path)) s" "path_ok path"
  shows "safe (exec_idx E gl cm cached pp path s) (vm_ok E gl L 0)"
proof -
  have "vm_ok E gl L (length (filter (\<lambda>key. key = Stack) path) + Suc 0) s" using assms(1) by (simp add: stack_keys_def)
  from pop_keys_safe [OF this] show ?thesis unfolding exec_idx_def
    by (auto intro!: safe_and_then_pair [OF _ safe_and_then_pair [OF pop_safe safe_and_then_pair [OF idx_path_safe]]]
        vm_ok_zero [OF vm_ok_push] simp: assms(2) stack_keys_def)
qed

lemma ins_step_safe:
  assumes "vm_ok E gl L (Suc (Suc n)) s" "entry_ok E L x"
  shows "safe (ins_step E gl cm cached x s) (\<lambda>(y, s). entry_ok E L y \<and> vm_ok E gl L n s)"
  unfolding ins_step_def Let_def
proof (rule safe_and_then_pair [OF pop_safe [OF assms(1)]], erule conjE, rule safe_and_then_pair [OF pop_safe], assumption,
    erule conjE, rule safe_and_then [OF access_gas_safe], assumption, goal_cases)
  case (1 k s1 c s2 s3)
  then have wf: "sv_wf (ve_hashing E) cell_limit (vm_val (fst k))" "sv_wf (ve_hashing E) cell_limit (vm_val (fst c))"
    "key_ok L (snd c)" "sv_wf (ve_hashing E) cell_limit (vm_val (fst x))" "length (vs_cache s3) = L"
    using assms(2) by (simp_all add: entry_ok_def vm_ok_def)
  show ?case
    by (rule safe_and_then [OF as_cell_safe [OF wf(1)]], rule safe_and_then_pair [OF visit_safe])
      (use 1 wf in \<open>auto intro!: safe_if safe_and_then [OF ins_container_safe] vm_ok_cache\<close>)
qed

lemma ins_loop_safe:
  "vm_ok E gl L (n * 2 + m) s \<Longrightarrow> entry_ok E L x \<Longrightarrow>
   safe (ins_loop E gl cm cached n x s) (\<lambda>(y, s). entry_ok E L y \<and> vm_ok E gl L m s)"
proof (induction n arbitrary: x s)
  case (Suc n)
  have "vm_ok E gl L (Suc (Suc (n * 2 + m))) s" using Suc.prems(1) by simp
  then show ?case unfolding ins_loop.simps
    by (intro safe_and_then_pair [OF ins_step_safe Suc.IH]) (auto intro: Suc.prems(2))
qed simp

lemma exec_ins_safe [safe_rules]:
  assumes "vm_ok E gl L (Suc (n * 2)) s"
  shows "safe (exec_ins E gl cm cached n s) (vm_ok E gl L 0)"
  unfolding exec_ins_def
  by (rule safe_and_then_pair [OF pop_safe [OF assms]], rule safe_and_then_pair [OF ins_loop_safe [where m = 0]])
    (auto intro!: vm_ok_zero [OF vm_ok_push])

section \<open>The main loop\<close>

fun op_ok :: "'f vm_env \<Rightarrow> ('r, 'f) op \<Rightarrow> bool" where
  "op_ok E (Push _ v) = sv_wf (ve_hashing E) cell_limit v"
| "op_ok E (Idx _ _ path) = path_ok path"
| "op_ok E _ = True"

text \<open>A branch finds its condition on the stack after it has been charged.\<close>

fun left_over :: "('r, 'f) op \<Rightarrow> nat" where
  "left_over (Branch _) = Suc 0"
| "left_over _ = 0"

lemma exec_op_safe:
  assumes "vm_ok E gl L (stack_req op) s" "op_ok E op" "env_ok E"
  shows "safe (exec_op E gl cm op s) (\<lambda>(s, _). vm_ok E gl L (left_over op) s)"
  using assms
  by (cases op)
    (auto simp: exec_op_def numeral_2_eq_2 stack_keys_def intro!: safe_map_ok safe_rules)

lemma op_skip_safe:
  "vm_ok E gl L (left_over op) s \<Longrightarrow> safe (op_skip op s) (\<lambda>(_, s). vm_ok E gl L 0 s)"
  by (cases op) (auto intro!: safe_and_then_pair [OF pop_cell_safe])

lemma initial_state_ok:
  assumes "list_all (\<lambda>v. sv_wf (ve_hashing E) cell_limit (vm_val v)) initial"
  shows "vm_ok E gl (length initial) 0 (initial_state initial)"
  using assms
  by (auto simp: vm_ok_def initial_state_def initial_cache_def gas_within_def rc_ZERO_def list_all_iff in_set_enumerate_eq
      split: option.splits)

text \<open>Result modes whose reads do not panic.\<close>

locale safe_mode =
  fixes M :: "('r, 'e, 'f) result_mode"
  assumes process_read_safe: "process_read M r v \<noteq> Panic"
begin

lemma emit_safe: "safe (emit M em ev) (\<lambda>_. True)"
  by (auto simp: safe_iff emit_def process_read_safe result_simps split: emission.splits)

lemma run_step_safe:
  assumes "vm_ok E gl L 0 s" "program \<noteq> []" "list_all (op_ok E) program" "env_ok E"
  shows "safe (run_step E M gl cm program s ev)
    (\<lambda>(program, s, _). list_all (op_ok E) program \<and> vm_ok E gl L 0 s \<and> length (vs_stack s) \<le> MAX_STACK_HEIGHT)"
  unfolding run_step_def Let_def
proof (rule safe_if, simp, goal_cases)
  case 1
  then have "vm_ok E gl L (stack_req (hd program)) s" using assms(1) by (simp add: vm_ok_def)
  moreover have "op_ok E (hd program)" using assms(2,3) by (cases program) auto
  moreover have "list_all (op_ok E) (drop n program)" for n using assms(3) by (auto simp: list_all_iff dest: in_set_dropD)
  ultimately show ?case
    by (intro safe_and_then_pair [OF exec_op_safe [OF _ _ assms(4)]] safe_and_then [OF emit_safe]
        safe_and_then_pair [OF op_skip_safe])
      (auto simp del: drop_Suc)
qed

lemma run_program_internal_safe:
  assumes "vm_ok E gl L 0 s" "list_all (op_ok E) program" "env_ok E" "length (vs_stack s) \<le> K"
    "MAX_STACK_HEIGHT \<le> K"
  shows "safe (run_program_internal E M gl cm lim steps program s ev)
    (\<lambda>(s, _). vm_ok E gl L 0 s \<and> length (vs_stack s) \<le> K)"
  using assms
proof (induction "length program" arbitrary: program steps s ev rule: less_induct)
  case less
  show ?case
  proof (cases "program = [] \<or> (case lim of Some limit \<Rightarrow> steps \<ge> limit | None \<Rightarrow> False)")
    case True
    then show ?thesis using less.prems by (subst run_program_internal.simps) simp
  next
    case False
    then have "safe (run_step E M gl cm program s ev)
      (\<lambda>(program, s, _). list_all (op_ok E) program \<and> vm_ok E gl L 0 s \<and> length (vs_stack s) \<le> MAX_STACK_HEIGHT)"
      using run_step_safe less.prems by auto
    moreover have "length program' < length program" if "run_step E M gl cm program s ev = Ok (program', s', ev')"
      for program' s' ev' using run_step_shorter [OF that] False by blast
    ultimately show ?thesis using False less.hyps less.prems(3,5)
      by (subst run_program_internal.simps) (auto split: result.splits)
  qed
qed

lemma run_program_safe:
  assumes "env_ok E" "list_all (op_ok E) program"
    "list_all (\<lambda>v. sv_wf (ve_hashing E) cell_limit (vm_val v)) initial"
  shows "safe (run_program_step_limited E M initial program lim gl cm)
    (\<lambda>r. list_all (\<lambda>v. sv_wf (ve_hashing E) cell_limit (vm_val v)) (vr_stack r) \<and>
       length (vr_stack r) \<le> max (length initial) MAX_STACK_HEIGHT \<and> gas_within gl (vr_gas_cost r))"
  unfolding run_program_step_limited_def
  by (rule safe_map_ok, rule safe_weaken [OF run_program_internal_safe
      [OF initial_state_ok [OF assms(3)] assms(2,1), where K = "max (length initial) MAX_STACK_HEIGHT"]])
    (auto simp: initial_state_def vm_ok_def vm_results_of_def list_all_iff entry_ok_def)

end

interpretation verify_mode: safe_mode result_mode_verify
  by unfold_locales (simp add: result_mode_verify_def)

interpretation gather_mode: safe_mode result_mode_gather
  by unfold_locales (simp add: result_mode_gather_def)

section \<open>Step limits\<close>

lemma step_limit_enough:
  assumes "length program + steps \<le> limit"
  shows "run_program_internal E M gl cm (Some limit) steps program s ev =
    run_program_internal E M gl cm None k program s ev"
  using assms
proof (induction E M gl cm "Some limit" steps program s ev arbitrary: k rule: run_program_internal.induct)
  case (1 E M gl cm steps program s ev)
  show ?case
  proof (cases "program = []")
    case True
    then show ?thesis by (simp add: run_program_internal.simps)
  next
    case False
    then have run: "\<not> (program = [] \<or> (case Some limit of Some limit \<Rightarrow> steps \<ge> limit | None \<Rightarrow> False))"
      using "1.prems" by (cases program) auto
    show ?thesis
    proof (cases "run_step E M gl cm program s ev")
      case (Ok x)
      obtain program' s' ev' where x: "x = (program', s', ev')" by (cases x)
      then have "length program' < length program" using Ok False run_step_shorter by blast
      then have "run_program_internal E M gl cm (Some limit) (steps + 1) program' s' ev' =
          run_program_internal E M gl cm None (k + 1) program' s' ev'"
        using "1.hyps" [OF run Ok x [symmetric] refl] "1.prems" by auto
      then show ?thesis using run Ok x
        by (simp add: run_program_internal.simps [of E M gl cm "Some limit" steps program s ev]
            run_program_internal.simps [of E M gl cm None k program s ev])
    qed (use run in \<open>simp_all add: run_program_internal.simps\<close>)
  qed
qed

end
