(* ===== verification/Vm_Props.thy ===== *)
theory Vm_Props
  imports Vm_Safety
begin

text \<open>
  Properties of the virtual machine: it never panics, keeps values well formed up to the bound of a
  concatenation, respects the gas limit and the stack height, takes at most as many steps as the
  program has instructions, and accepts in the verifying mode exactly what the gathering mode
  recorded.
\<close>

section \<open>The two result modes\<close>

fun gathered_logs :: "'f gather_event list \<Rightarrow> 'f versioned_log_item list" where
  "gathered_logs [] = []"
| "gathered_logs (GatherLog item # es) = item # gathered_logs es"
| "gathered_logs (GatherRead _ # es) = gathered_logs es"

abbreviation erase :: "('r, 'f) op \<Rightarrow> (unit, 'f) op" where
  "erase \<equiv> translate (\<lambda>_. ())"

lemma gathered_logs_append [simp]: "gathered_logs (xs @ ys) = gathered_logs xs @ gathered_logs ys"
  by (induction xs rule: gathered_logs.induct) auto

lemma translate_translate [simp]: "translate f (translate g op) = translate (f \<circ> g) op"
  by (cases op) auto

lemma erase_unit [simp]: "translate (f :: unit \<Rightarrow> unit) op = op"
  by (cases op) auto

lemma translate_req [simp]: "stack_req (translate f op) = stack_req op" "op_skip (translate f op) s = op_skip op s"
  by (cases op; simp)+

lemma map_ok_and_then: "map_ok g (and_then r f) = and_then r (\<lambda>x. map_ok g (f x))"
  by (cases r) auto

lemma map_ok_map_ok: "map_ok f (map_ok g r) = map_ok (f \<circ> g) r"
  by (cases r) auto

lemma op_ok_translate: "op_ok E (translate f op) = op_ok E op"
  by (cases op) auto

lemma exec_log_map: "exec_log E gl cm s = map_ok (\<lambda>(s, em). (s, map_emission f em)) (exec_log E gl cm s)"
  by (auto simp: exec_log_def map_ok_and_then Let_def split: option.splits prod.splits intro!: and_then_cong)

lemma exec_op_translate:
  "exec_op E gl cm (translate f op) s = map_ok (\<lambda>(s, em). (s, map_emission f em)) (exec_op E gl cm op s)"
proof (cases op)
  case Log
  then show ?thesis using exec_log_map by (auto simp: exec_op_def)
next
  case (Popeq cached r)
  then show ?thesis
    by (auto simp: exec_op_def exec_popeq_def map_ok_and_then split: prod.splits intro!: and_then_cong)
qed (simp_all add: exec_op_def map_ok_map_ok comp_def)

lemma run_step_Ok:
  "run_step E M gl cm program s ev = Ok (program', s', ev') \<longleftrightarrow>
     stack_req (hd program) \<le> length (vs_stack s) \<and>
     (\<exists>s1 em n. exec_op E gl cm (hd program) s = Ok (s1, em) \<and> emit M em ev = Ok ev' \<and>
        op_skip (hd program) s1 = Ok (n, s') \<and> n < length program \<and> length (vs_stack s') \<le> MAX_STACK_HEIGHT \<and>
        program' = drop (Suc n) program)"
  by (auto simp: run_step_def Let_def and_then_def not_less Suc_le_eq split: if_splits prod.splits result.splits)

lemma emit_gather:
  "emit result_mode_gather em evg = Ok evg' \<Longrightarrow>
     \<exists>v. emit result_mode_verify (map_emission (\<lambda>_. v) em) (gathered_logs evg) = Ok (gathered_logs evg')"
  by (cases em) (auto simp: emit_def result_mode_verify_def result_mode_gather_def)

lemma run_step_record:
  assumes "run_step E result_mode_gather gl cm program s evg = Ok (map erase rest, s', evg')" "program \<noteq> []"
  shows "\<exists>program'. map erase program' = program \<and>
    run_step E result_mode_verify gl cm program' s (gathered_logs evg) = Ok (rest, s', gathered_logs evg')"
proof -
  obtain s1 em n where run: "stack_req (hd program) \<le> length (vs_stack s)" "exec_op E gl cm (hd program) s = Ok (s1, em)"
    "emit result_mode_gather em evg = Ok evg'" "op_skip (hd program) s1 = Ok (n, s')" "n < length program"
    "length (vs_stack s') \<le> MAX_STACK_HEIGHT" "map erase rest = drop (Suc n) program"
    using assms(1) by (auto simp: run_step_Ok)
  obtain v where v: "emit result_mode_verify (map_emission (\<lambda>_. v) em) (gathered_logs evg) = Ok (gathered_logs evg')"
    using emit_gather [OF run(3)] by blast
  define program' where "program' = map (translate (\<lambda>_. v)) (take (Suc n) program) @ rest"
  have "map erase program' = program" using run(7) by (simp add: program'_def comp_def)
  moreover have "hd program' = translate (\<lambda>_. v) (hd program)" using assms(2) by (cases program) (auto simp: program'_def)
  moreover have "drop (Suc n) program' = rest" "n < length program'" using run(5) by (auto simp: program'_def)
  ultimately show ?thesis using run v by (auto simp: run_step_Ok exec_op_translate)
qed

lemma run_None:
  "run_program_internal E M gl cm None k program s ev = Ok r \<longleftrightarrow>
     (if program = [] then r = (s, ev)
      else \<exists>program' s' ev'. run_step E M gl cm program s ev = Ok (program', s', ev') \<and>
        run_program_internal E M gl cm None (k + 1) program' s' ev' = Ok r)"
  by (subst run_program_internal.simps) (auto split: result.splits)

lemma run_record:
  assumes "run_program_internal E result_mode_gather gl cm None k program s evg = Ok (s', evg')"
  shows "\<exists>program'. map erase program' = program \<and>
    run_program_internal E result_mode_verify gl cm None k program' s (gathered_logs evg) = Ok (s', gathered_logs evg')"
  using assms
proof (induction "length program" arbitrary: program k s evg rule: less_induct)
  case less
  show ?case
  proof (cases "program = []")
    case True
    then show ?thesis using less.prems by (auto simp: run_None)
  next
    case False
    then obtain program1 s1 evg1 where step: "run_step E result_mode_gather gl cm program s evg = Ok (program1, s1, evg1)"
      and rest: "run_program_internal E result_mode_gather gl cm None (k + 1) program1 s1 evg1 = Ok (s', evg')"
      using less.prems by (auto simp: run_None [of _ _ _ _ k])
    obtain rest' where rest': "map erase rest' = program1" "run_program_internal E result_mode_verify gl cm None (k + 1) rest' s1
        (gathered_logs evg1) = Ok (s', gathered_logs evg')"
      using less.hyps [OF run_step_shorter [OF step False] rest] by blast
    then obtain program' where "map erase program' = program"
      "run_step E result_mode_verify gl cm program' s (gathered_logs evg) = Ok (rest', s1, gathered_logs evg1)"
      using run_step_record step False by blast
    then show ?thesis using rest'(2) False by (intro exI [of _ program']) (auto simp: run_None [of _ _ _ _ k])
  qed
qed

text \<open>The run that records the operands of \<^const>\<open>Popeq\<close> in place of the values read.\<close>

definition result_mode_expected :: "(aligned_value, 'f gather_event, 'f) result_mode" where
  "result_mode_expected =
     \<lparr>process_read = (\<lambda>r _. Ok (Some (GatherRead r))), process_log = (\<lambda>event. Some (GatherLog event))\<rparr>"

lemma emit_prefix: "emit M em ev = Ok ev' \<Longrightarrow> \<exists>xs. ev' = ev @ xs"
  by (auto simp: emit_def result_simps split: emission.splits option.splits)

lemma run_prefix: "run_program_internal E M gl cm None k program s ev = Ok (s', ev') \<Longrightarrow> \<exists>xs. ev' = ev @ xs"
proof (induction "length program" arbitrary: program k s ev rule: less_induct)
  case less
  show ?case
  proof (cases "program = []")
    case True
    then show ?thesis using less.prems by (auto simp: run_None)
  next
    case False
    then obtain program1 s1 ev1 where step: "run_step E M gl cm program s ev = Ok (program1, s1, ev1)"
      and rest: "run_program_internal E M gl cm None (k + 1) program1 s1 ev1 = Ok (s', ev')"
      using less.prems by (auto simp: run_None [of _ _ _ _ k])
    obtain em where "emit M em ev = Ok ev1" using step by (auto simp: run_step_Ok)
    then obtain xs where "ev1 = ev @ xs" using emit_prefix by blast
    then show ?thesis using less.hyps [OF run_step_shorter [OF step False] rest] by auto
  qed
qed

lemma emit_expected:
  assumes "gathered_logs evg = ev"
  shows "emit result_mode_verify em ev = Ok ev' \<longleftrightarrow>
    (\<exists>evg'. emit result_mode_gather (map_emission (\<lambda>_. ()) em) evg = Ok evg' \<and> emit result_mode_expected em evg = Ok evg' \<and>
       gathered_logs evg' = ev')"
  using assms
  by (cases em) (auto simp: emit_def result_mode_verify_def result_mode_gather_def result_mode_expected_def)

text \<open>A step of the recording runs that disagrees is not mended later, since events are only appended.\<close>

lemma emit_same_length:
  "emit result_mode_gather (map_emission (\<lambda>_. ()) em) evg = Ok ev1 \<Longrightarrow> emit result_mode_expected em evg = Ok ev2 \<Longrightarrow>
   ev1 @ xs = ev2 @ ys \<Longrightarrow> ev1 = ev2"
  by (cases em) (auto simp: emit_def result_mode_gather_def result_mode_expected_def)

lemma run_step_common:
  assumes "program \<noteq> []"
  shows "run_step E M gl cm program s ev = Ok (program1, s1, ev1) \<longleftrightarrow>
      (\<exists>s0 em n. exec_op E gl cm (hd program) s = Ok (s0, em) \<and> emit M em ev = Ok ev1 \<and>
        stack_req (hd program) \<le> length (vs_stack s) \<and> op_skip (hd program) s0 = Ok (n, s1) \<and> n < length program \<and>
        length (vs_stack s1) \<le> MAX_STACK_HEIGHT \<and> program1 = drop (Suc n) program)"
    "run_step E result_mode_gather gl cm (map erase program) s evg = Ok (program2, s1, ev1') \<longleftrightarrow>
      (\<exists>s0 em n. exec_op E gl cm (hd program) s = Ok (s0, em) \<and>
        emit result_mode_gather (map_emission (\<lambda>_. ()) em) evg = Ok ev1' \<and>
        stack_req (hd program) \<le> length (vs_stack s) \<and> op_skip (hd program) s0 = Ok (n, s1) \<and> n < length program \<and>
        length (vs_stack s1) \<le> MAX_STACK_HEIGHT \<and> program2 = map erase (drop (Suc n) program))"
  using assms by (auto simp: run_step_Ok hd_map exec_op_translate drop_map result_simps)

lemma run_expected:
  assumes "run_program_internal E result_mode_verify gl cm None k program s ev = Ok (s', ev')" "gathered_logs evg = ev"
  shows "\<exists>evg'. run_program_internal E result_mode_gather gl cm None k (map erase program) s evg = Ok (s', evg') \<and>
    run_program_internal E result_mode_expected gl cm None k program s evg = Ok (s', evg') \<and> gathered_logs evg' = ev'"
  using assms
proof (induction "length program" arbitrary: program k s ev evg rule: less_induct)
  case less
  show ?case
  proof (cases "program = []")
    case True
    then show ?thesis using less.prems by (auto simp: run_None)
  next
    case False
    then obtain program1 s1 ev1 where step: "run_step E result_mode_verify gl cm program s ev = Ok (program1, s1, ev1)"
      and rest: "run_program_internal E result_mode_verify gl cm None (k + 1) program1 s1 ev1 = Ok (s', ev')"
      using less.prems(1) by (auto simp: run_None [of _ _ _ _ k])
    then obtain evg1 where evg1:
      "run_step E result_mode_gather gl cm (map erase program) s evg = Ok (map erase program1, s1, evg1)"
      "run_step E result_mode_expected gl cm program s evg = Ok (program1, s1, evg1)" "gathered_logs evg1 = ev1"
      by (auto simp: run_step_common [OF False] emit_expected [OF less.prems(2)])
    show ?thesis using less.hyps [OF run_step_shorter [OF step False] rest evg1(3)] evg1(1,2) False
      by (fastforce simp: run_None [of _ _ _ _ k])
  qed
qed

lemma run_agree:
  assumes "run_program_internal E result_mode_gather gl cm None k (map erase program) s evg = Ok (s', evg')"
    "run_program_internal E result_mode_expected gl cm None k program s evg = Ok (t, evg')"
  shows "run_program_internal E result_mode_verify gl cm None k program s (gathered_logs evg) = Ok (s', gathered_logs evg')"
  using assms
proof (induction "length program" arbitrary: program k s evg rule: less_induct)
  case less
  show ?case
  proof (cases "program = []")
    case True
    then show ?thesis using less.prems by (auto simp: run_None)
  next
    case False
    then obtain program1 s1 ev1 where step: "run_step E result_mode_expected gl cm program s evg = Ok (program1, s1, ev1)"
      and rest: "run_program_internal E result_mode_expected gl cm None (k + 1) program1 s1 ev1 = Ok (t, evg')"
      using less.prems(2) by (auto simp: run_None [of _ _ _ _ k])
    obtain program2 s2 ev2 where step2: "run_step E result_mode_gather gl cm (map erase program) s evg = Ok (program2, s2, ev2)"
      and rest2: "run_program_internal E result_mode_gather gl cm None (k + 1) program2 s2 ev2 = Ok (s', evg')"
      using less.prems(1) False by (auto simp: run_None [of _ _ _ _ k])
    have same: "program2 = map erase program1" "s2 = s1"
      using step step2 unfolding run_step_common [OF False] by auto
    obtain s0 em where em: "emit result_mode_gather (map_emission (\<lambda>_. ()) em) evg = Ok ev2" "emit result_mode_expected em evg = Ok ev1"
      using step step2 unfolding run_step_common [OF False] by auto
    obtain xs ys where "evg' = ev1 @ xs" "evg' = ev2 @ ys" using run_prefix rest rest2 by metis
    then have ev: "ev2 = ev1" using emit_same_length [OF em] by metis
    then have "run_step E result_mode_verify gl cm program s (gathered_logs evg) = Ok (program1, s1, gathered_logs ev1)"
      using step step2 same by (auto simp: run_step_common [OF False] emit_expected [OF refl])
    then show ?thesis using less.hyps [OF run_step_shorter [OF step False]] rest rest2 same ev False
      by (auto simp: run_None [of _ _ _ _ k])
  qed
qed

lemma run_results:
  "run_program E M initial program gl cm = Ok \<lparr>vr_stack = st, vr_events = ev, vr_gas_cost = g\<rparr> \<longleftrightarrow>
     (\<exists>s. run_program_internal E M gl cm None 0 program (initial_state initial) [] = Ok (s, ev) \<and>
        st = rev (map fst (vs_stack s)) \<and> g = vs_gas s)"
  by (auto simp: run_program_def run_program_step_limited_def result_simps vm_results_of_def)

section \<open>Containers\<close>

text \<open>The value that a lookup returns after an insertion: a tree holds the hash of the cell.\<close>

definition stored_value :: "'f state_value \<Rightarrow> 'f state_value \<Rightarrow> 'f state_value" where
  "stored_value c v =
     (case c of
        BoundedMerkleTree _ \<Rightarrow>
          (case and_then (as_cell v) (\<lambda>a. and_then (decode (hash_of_value (av_value a))) aligned_of_hash) of
             Ok a \<Rightarrow> Cell a
           | _ \<Rightarrow> Null)
      | _ \<Rightarrow> v)"

lemma visit_total: "key_ok (length cache) ck \<Longrightarrow> \<exists>c hit. visit cache ck = Ok (c, hit)"
  by (cases "(cache, ck)" rule: visit.cases) (auto simp: Let_def split: prod.splits)

lemma hash_round: "hash_of_value v = Ok h \<Longrightarrow> length h = PERSISTENT_HASH_BYTES"
  using hash_of_value_safe [of v] by (simp add: safe_iff)

lemma bmt_ins_idx:
  assumes "bmt_wf (ve_hashing E) t" "bmt_insert E t i v = Ok c'"
  shows "\<exists>t' h. c' = BoundedMerkleTree t' \<and> mt_height t' = mt_height t \<and> i < 2 ^ mt_height t \<and>
    mt_index t' i = Some (h, ()) \<and> and_then (as_cell v) (\<lambda>a. decode (hash_of_value (av_value a))) = Ok h"
proof -
  have bal: "mt_balanced t" using assms(1) by (simp add: bmt_wf_def)
  show ?thesis using assms(2)
    by (auto simp: bmt_insert_def result_simps try_update_hash_iff [OF bal] mt_index_set_same bal split: if_splits)
qed

lemma ins_idx_bmt:
  assumes "bmt_wf (ve_hashing E) t" "ins_container E (BoundedMerkleTree t) key v = Ok c'" "key_ok (length cache) ck"
  shows "\<exists>cache'. vm_idx (vnew st c', ck) key cache False =
    Ok ((vnew st (stored_value (BoundedMerkleTree t) v), push_key ck key), cache')"
proof -
  obtain i where i: "decode (u64_of_value (av_value key)) = Ok i" "bmt_insert E t i v = Ok c'"
    using assms(2) by (auto simp: ins_container_def result_simps)
  obtain t' h where t': "c' = BoundedMerkleTree t'" "mt_height t' = mt_height t" "i < 2 ^ mt_height t"
    "mt_index t' i = Some (h, ())" "and_then (as_cell v) (\<lambda>a. decode (hash_of_value (av_value a))) = Ok h"
    using bmt_ins_idx [OF assms(1) i(2)] by blast
  obtain a where a: "as_cell v = Ok a" "hash_of_value (av_value a) = Ok h" using t'(5) by (auto simp: result_simps)
  have u: "u64_of_value (av_value key) = Ok i" using i(1) by (simp add: result_simps)
  obtain c hit where "visit cache (push_key ck key) = (Ok (c, hit) :: ('a onchain_program_error, _) result)"
    using visit_total [of cache "push_key ck key"] assms(3) by auto
  then show ?thesis using u t' a assms(1)
    by (simp add: vm_idx_def stored_value_def bmt_wf_def aligned_of_hash_Ok [OF hash_round [OF a(2)]])
qed

section \<open>Properties\<close>

text \<open>A concrete environment, for the examples: a digest is the field element zero, and every value
  takes one node of eight bytes.\<close>

definition sample_vm_env :: "nat vm_env" where
  "sample_vm_env =
     \<lparr>ve_hashing = \<lparr>transient_hash = sum_list, degrade_to_transient = length, fr_default = 0\<rparr>,
      digest_value = (\<lambda>_. \<lparr>av_value = [[]], av_alignment = [Atom Field_atom]\<rparr>),
      sv_serialized_size = (\<lambda>_. 8),
      node_list_size = (\<lambda>bound _. if 40 \<le> bound then Some 40 else None),
      fr_bytes = 32\<rparr>"

definition sample_cell :: "nat \<Rightarrow> aligned_value" where
  "sample_cell n = \<lparr>av_value = [atom_of_uint n], av_alignment = [Atom (Bytes 1)]\<rparr>"

definition sample_initial :: "nat vm_value list" where
  "sample_initial = [vnew Strong (Array [Null, Cell (sample_cell 5)])]"

definition sample_program :: "(aligned_value, nat) op list" where
  "sample_program = [Dup 0, Idx False False [Value (sample_cell 1)], Popeq False (sample_cell 5)]"

lemma sample_cell_size: "n < 256 \<Longrightarrow> aligned_value_size (sample_cell n) \<le> cell_limit"
  using short_cell [of "atom_of_uint n" 1] atom_of_uint_short [of n 1] by (simp add: sample_cell_def)

lemma sample_env_ok: "env_ok sample_vm_env"
  by (simp add: env_ok_def sample_vm_env_def aligned_value_size_def value_size_def alignment_size_def value_atom_size_def
      is_in_normal_form_def flagged_int_size_def CELL_BOUND_def ONE_BYTE_LIMIT_def)

lemma sample_initial_ok: "list_all (\<lambda>v. sv_wf (ve_hashing sample_vm_env) cell_limit (vm_val v)) sample_initial"
  by (simp add: sample_initial_def sample_cell_size)

lemma sample_program_ok: "list_all (op_ok sample_vm_env) sample_program"
  by (simp add: sample_program_def path_ok_def sample_cell_size)

lemma sample_cell_u8: "n < 256 \<Longrightarrow> u8_of_value (av_value (sample_cell n)) = Ok n"
  using uint_of_atom_of_uint [of n 1] by (simp add: sample_cell_def u8_of_value_def prim_of_value_def)

lemmas vm_defs = run_program_def run_program_step_limited_def run_program_internal.simps initial_state_def initial_cache_def
  run_step_def exec_op_def incr_gas_def incr_gas_full_def pop_def push_def pop_cell_def emit_def MAX_STACK_HEIGHT_def
  exec_dup_def exec_idx_def idx_step_def access_gas_def vm_idx_def push_key_def exec_popeq_def result_mode_verify_def

lemma sample_run:
  "\<exists>r. run_program sample_vm_env result_mode_verify sample_initial sample_program None INITIAL_COST_MODEL = Ok r"
  by (simp add: vm_defs sample_initial_def sample_program_def sample_cell_u8)

text \<open>C11: on well-formed stacks and programs no instruction makes the machine panic, in either result
  mode and whatever the gas and step limits: every failure is an error of the program.\<close>

theorem vm_never_panics:
  assumes "env_ok E" "list_all (op_ok E) program"
    "list_all (\<lambda>v. sv_wf (ve_hashing E) cell_limit (vm_val v)) initial"
  shows "run_program_step_limited E result_mode_verify initial program lim gl cm \<noteq> Panic \<and>
    run_program_step_limited E result_mode_gather initial (map erase program) lim gl cm \<noteq> Panic"
proof -
  have "list_all (op_ok E) (map erase program)"
    using assms(2) by (induction program) (auto simp: op_ok_translate)
  then show ?thesis
    using verify_mode.run_program_safe [OF assms] gather_mode.run_program_safe [OF assms(1) _ assms(3)]
    by (auto simp: safe_iff)
qed

theorem vm_never_panics_witness:
  "env_ok sample_vm_env \<and> list_all (op_ok sample_vm_env) sample_program \<and>
   run_program_step_limited sample_vm_env result_mode_verify sample_initial sample_program (Some 2) None INITIAL_COST_MODEL \<noteq> Panic"
  using vm_never_panics [OF sample_env_ok sample_program_ok sample_initial_ok, of "Some 2" None INITIAL_COST_MODEL]
    sample_env_ok sample_program_ok by simp

text \<open>C12: the values a program leaves on the stack satisfy the invariant of state values at every level
  (arrays of at most 16 elements, rehashed trees of height 1 to 32), with cells of at most two bytes
  above the cell bound.\<close>

theorem vm_keeps_values:
  assumes "env_ok E" "list_all (op_ok E) program"
    "list_all (\<lambda>v. sv_wf (ve_hashing E) (CELL_BOUND + 2) (vm_val v)) initial"
    "run_program E result_mode_verify initial program gl cm = Ok r"
  shows "list_all (\<lambda>v. sv_wf (ve_hashing E) (CELL_BOUND + 2) (vm_val v)) (vr_stack r)"
  using verify_mode.run_program_safe [OF assms(1,2), of initial None gl cm] assms(3,4)
  by (simp add: safe_iff run_program_def cell_limit_def)

theorem vm_keeps_values_witness:
  "\<exists>r. run_program sample_vm_env result_mode_verify sample_initial sample_program None INITIAL_COST_MODEL = Ok r \<and>
     list_all (\<lambda>v. sv_wf (ve_hashing sample_vm_env) (CELL_BOUND + 2) (vm_val v)) (vr_stack r)"
proof -
  obtain r where r: "run_program sample_vm_env result_mode_verify sample_initial sample_program None INITIAL_COST_MODEL = Ok r"
    using sample_run by blast
  show ?thesis using vm_keeps_values [OF sample_env_ok sample_program_ok _ r] sample_initial_ok r
    by (simp add: cell_limit_def)
qed

text \<open>C13: a run that returns stays within the compute and read times of its gas limit, and its stack is
  not higher than the greater of the initial one and 65536 entries.\<close>

theorem vm_resources:
  assumes "env_ok E" "list_all (op_ok E) program"
    "list_all (\<lambda>v. sv_wf (ve_hashing E) cell_limit (vm_val v)) initial"
    "run_program E result_mode_verify initial program (Some limit) cm = Ok r"
  shows "rc_compute_time (vr_gas_cost r) \<le> rc_compute_time limit \<and> rc_read_time (vr_gas_cost r) \<le> rc_read_time limit \<and>
    length (vr_stack r) \<le> max (length initial) 65536"
  using verify_mode.run_program_safe [OF assms(1-3), of None "Some limit" cm] assms(4)
  by (simp add: safe_iff run_program_def gas_within_def MAX_STACK_HEIGHT_def)

theorem vm_resources_witness:
  "\<exists>r limit. run_program sample_vm_env result_mode_verify sample_initial [Dup 0, Pop] (Some limit) INITIAL_COST_MODEL = Ok r \<and>
     rc_compute_time limit = 10000000 \<and> rc_compute_time (vr_gas_cost r) \<le> 10000000 \<and> length (vr_stack r) \<le> 65536"
proof -
  define limit where "limit = \<lparr>rc_read_time = 0, rc_compute_time = 10000000, rc_bytes_written = 0, rc_bytes_deleted = 0\<rparr>"
  obtain r where r:
    "run_program sample_vm_env result_mode_verify sample_initial [Dup 0, Pop] (Some limit) INITIAL_COST_MODEL = Ok r"
    by (simp add: vm_defs exec_pop_def sample_initial_def limit_def INITIAL_COST_MODEL_def rc_ZERO_def cd_add_def cd_mul_def
        arith_defs u64_max_def)
  have "list_all (op_ok sample_vm_env) [Dup 0, Pop :: (aligned_value, nat) op]" by simp
  from vm_resources [OF sample_env_ok this sample_initial_ok r]
  show ?thesis using r by (intro exI [of _ r] exI [of _ limit]) (simp add: limit_def sample_initial_def)
qed

text \<open>running a program ends after at most as many steps as it has instructions: a step limit of that
  many changes nothing.\<close>

theorem vm_steps_bounded:
  "run_program_step_limited E M initial program (Some (length program)) gl cm = run_program E M initial program gl cm"
  by (simp add: run_program_def run_program_step_limited_def step_limit_enough [where k = 0])

text \<open>C14: the verifying mode accepts a program exactly when the gathering run of the same instructions
  succeeds with the same final stack, gas cost and log and every value read is the operand of its
  \<^verbatim>\<open>popeq\<close>; and every successful gathering run is accepted once its reads are filled in.\<close>

theorem gather_verify:
  "(run_program E result_mode_verify initial program gl cm = Ok \<lparr>vr_stack = st, vr_events = logs, vr_gas_cost = g\<rparr> \<longleftrightarrow>
    (\<exists>ev. run_program E result_mode_gather initial (map erase program) gl cm = Ok \<lparr>vr_stack = st, vr_events = ev, vr_gas_cost = g\<rparr> \<and>
       run_program E result_mode_expected initial program gl cm = Ok \<lparr>vr_stack = st, vr_events = ev, vr_gas_cost = g\<rparr> \<and>
       gathered_logs ev = logs)) \<and>
   ((\<exists>ev. run_program E result_mode_gather initial ops gl cm = Ok \<lparr>vr_stack = st, vr_events = ev, vr_gas_cost = g\<rparr> \<and>
       gathered_logs ev = logs) \<longleftrightarrow>
    (\<exists>program'. map erase program' = ops \<and>
       run_program E result_mode_verify initial program' gl cm = Ok \<lparr>vr_stack = st, vr_events = logs, vr_gas_cost = g\<rparr>))"
proof (intro conjI iffI; (elim exE conjE)?)
  fix ev
  assume "run_program E result_mode_gather initial (map erase program) gl cm = Ok \<lparr>vr_stack = st, vr_events = ev, vr_gas_cost = g\<rparr>"
    "run_program E result_mode_expected initial program gl cm = Ok \<lparr>vr_stack = st, vr_events = ev, vr_gas_cost = g\<rparr>"
    "gathered_logs ev = logs"
  then show "run_program E result_mode_verify initial program gl cm = Ok \<lparr>vr_stack = st, vr_events = logs, vr_gas_cost = g\<rparr>"
    using run_agree [of E gl cm 0 program _ "[]"] by (fastforce simp: run_results)
next
  assume "run_program E result_mode_verify initial program gl cm = Ok \<lparr>vr_stack = st, vr_events = logs, vr_gas_cost = g\<rparr>"
  then show "\<exists>ev. run_program E result_mode_gather initial (map erase program) gl cm = Ok \<lparr>vr_stack = st, vr_events = ev, vr_gas_cost = g\<rparr> \<and>
      run_program E result_mode_expected initial program gl cm = Ok \<lparr>vr_stack = st, vr_events = ev, vr_gas_cost = g\<rparr> \<and>
      gathered_logs ev = logs"
    using run_expected [of E gl cm 0 program _ "[]" _ logs "[]"] by (fastforce simp: run_results)
next
  fix ev
  assume "run_program E result_mode_gather initial ops gl cm = Ok \<lparr>vr_stack = st, vr_events = ev, vr_gas_cost = g\<rparr>"
    "gathered_logs ev = logs"
  then show "\<exists>program'. map erase program' = ops \<and>
      run_program E result_mode_verify initial program' gl cm = Ok \<lparr>vr_stack = st, vr_events = logs, vr_gas_cost = g\<rparr>"
    using run_record [of E gl cm 0 ops _ "[]"] by (fastforce simp: run_results)
next
  fix program'
  assume "map erase program' = ops"
    "run_program E result_mode_verify initial program' gl cm = Ok \<lparr>vr_stack = st, vr_events = logs, vr_gas_cost = g\<rparr>"
  then show "\<exists>ev. run_program E result_mode_gather initial ops gl cm = Ok \<lparr>vr_stack = st, vr_events = ev, vr_gas_cost = g\<rparr> \<and>
      gathered_logs ev = logs"
    using run_expected [of E gl cm 0 program' _ "[]" _ logs "[]"] by (fastforce simp: run_results)
qed

text \<open>C15: what \<^verbatim>\<open>ins\<close> stores in a well-formed container \<^verbatim>\<open>idx\<close> finds again under the same key: the value
  itself in arrays and maps, the hash that the cell represents in Merkle trees.\<close>

theorem ins_then_idx:
  assumes "sv_wf (ve_hashing E) cell_limit c" "ins_container E c key v = Ok c'" "key_ok (length cache) ck"
  shows "\<exists>cache'. vm_idx (vnew st c', ck) key cache False = Ok ((vnew st (stored_value c v), push_key ck key), cache')"
proof -
  obtain cache' hit where hit: "visit cache (push_key ck key) = (Ok (cache', hit) :: ('a onchain_program_error, _) result)"
    using visit_total [of cache "push_key ck key"] assms(3) by auto
  show ?thesis
  proof (cases c)
    case (Array arr)
    then show ?thesis using assms(2) hit
      by (auto simp: ins_container_def vm_idx_def stored_value_def result_simps split: if_splits)
  next
    case (Map m)
    then show ?thesis using assms(2) hit
      by (auto simp: ins_container_def vm_idx_def stored_value_def update_conv)
  next
    case (BoundedMerkleTree t)
    then show ?thesis using assms ins_idx_bmt by simp
  qed (use assms(2) in \<open>auto simp: ins_container_def\<close>)
qed

theorem ins_then_idx_witness:
  "\<exists>c' cache'. ins_container sample_vm_env (Array [Null, Null]) (sample_cell 1) (Cell (sample_cell 7)) = Ok c' \<and>
     vm_idx (vnew Strong c', None) (sample_cell 1) [] False = Ok ((vnew Strong (Cell (sample_cell 7)), None), cache')"
proof -
  have ins: "ins_container sample_vm_env (Array [Null, Null]) (sample_cell 1) (Cell (sample_cell 7)) =
      Ok (Array [Null, Cell (sample_cell 7)])"
    by (simp add: ins_container_def sample_cell_u8)
  show ?thesis using ins_then_idx [OF _ ins, of "[]" None Strong] ins by (simp add: stored_value_def push_key_def)
qed

definition long_cell :: "nat \<Rightarrow> aligned_value" where
  "long_cell n = \<lparr>av_value = [replicate n 1], av_alignment = [Atom Compress]\<rparr>"

definition joined_cell :: aligned_value where
  "joined_cell = \<lparr>av_value = [replicate 16379 1, replicate 16381 1], av_alignment = [Atom Compress, Atom Compress]\<rparr>"

lemma replicate_one_nf: "is_in_normal_form (replicate n 1)"
  by (cases "n = 0") (simp_all add: is_in_normal_form_def)

lemma long_atom_size: "8192 < n \<Longrightarrow> n < 2 ^ 16 \<Longrightarrow> value_atom_size (replicate n 1) = n + 3"
  by (simp add: value_atom_size_def replicate_one_nf flagged_int_size_def ONE_BYTE_LIMIT_def TWO_BYTE_LIMIT_def
      THREE_BYTE_LIMIT_def)

lemma long_cell_size: "8192 < n \<Longrightarrow> n < 2 ^ 16 \<Longrightarrow> aligned_value_size (long_cell n) = n + 4"
  by (simp add: long_cell_def aligned_value_size_def value_size_def alignment_size_def long_atom_size)

lemma joined_cell_size: "aligned_value_size joined_cell = 32770"
  by (simp add: joined_cell_def aligned_value_size_def value_size_def alignment_size_def long_atom_size flagged_int_size_def
      ONE_BYTE_LIMIT_def)

text \<open>C16: the bound that \<^verbatim>\<open>concat\<close> checks is on the sum of the sizes of its operands, but the length
  prefixes of the result add up to two bytes: two admissible cells of 16383 and 16385 bytes
  concatenate within the bound 32768 to a cell of 32770 bytes, which the invariant of state values
  rejects.\<close>

theorem concat_exceeds_cell_bound:
  "sv_invariant (ve_hashing E) (Cell (long_cell 16379)) = Ok () \<and>
   sv_invariant (ve_hashing E) (Cell (long_cell 16381)) = Ok () \<and>
   (\<exists>r. run_program E result_mode_verify [vnew Strong (Cell (long_cell 16379)), vnew Strong (Cell (long_cell 16381))]
          [Concat False CELL_BOUND] None cm = Ok r \<and>
      vr_stack r = [vnew Strong (Cell joined_cell)]) \<and>
   sv_invariant (ve_hashing E) (Cell joined_cell) = Err (InvalidData ''Cell exceeded maximum bound'')"
proof -
  have fit: "aligned_value_new (concat [av_value (long_cell 16379), av_value (long_cell 16381)])
      (concat [av_alignment (long_cell 16379), av_alignment (long_cell 16381)]) = Some joined_cell"
    by (simp add: aligned_value_new_def fits_def consume_def long_cell_def joined_cell_def)
  have "vm_concat (long_cell 16379) (long_cell 16381) CELL_BOUND =
      (Ok joined_cell :: ('a onchain_program_error, _) result)"
    using fit by (simp add: vm_concat_def long_cell_size CELL_BOUND_def)
  then have "\<exists>r. run_program E result_mode_verify [vnew Strong (Cell (long_cell 16379)), vnew Strong (Cell (long_cell 16381))]
      [Concat False CELL_BOUND] None cm = Ok r \<and> vr_stack r = [vnew Strong (Cell joined_cell)]"
    by (simp add: vm_defs exec_concat_def push_cell_def vm_results_of_def)
  then show ?thesis by (simp add: sv_invariant_def long_cell_size joined_cell_size CELL_BOUND_def)
qed

end
