(* ===== verification/Unshielded.thy ===== *)
theory Unshielded
  imports Replay_Protection Fab "HOL-Library.AList"
begin

text \<open>
  Unshielded tokens: the token types of \<^verbatim>\<open>coin-structure/src/coin.rs\<close>, the \<^verbatim>\<open>Night\<close> annotation of
  \<^verbatim>\<open>ledger/src/annotation.rs\<close>, the UTXO structures of \<^verbatim>\<open>ledger/src/structure.rs\<close> and
  \<^verbatim>\<open>UtxoState::apply_offer\<close> of \<^verbatim>\<open>ledger/src/semantics.rs\<close>.

  The annotated maps of the ledger are association lists with distinct keys; their annotation is
  the saturating sum over the entries, as the trie computes it from the leaves up. Verifying keys
  are a type parameter, and the address of a key (a hash from an external crate) is an argument.
\<close>

section \<open>Token types\<close>

type_synonym user_address = hash_output
type_synonym intent_hash = hash_output
type_synonym token_hash = hash_output

datatype token_type = UnshieldedToken token_hash | ShieldedToken token_hash | DustToken

definition NIGHT :: token_hash where "NIGHT = replicate 32 0"

abbreviation night_token :: token_type where "night_token \<equiv> UnshieldedToken NIGHT"

section \<open>The Night annotation\<close>

record night_ann =
  na_size :: nat
  na_value :: nat

definition na_append :: "night_ann \<Rightarrow> night_ann \<Rightarrow> night_ann" where
  "na_append a b =
     \<lparr>na_size = sat_add u64_max (na_size a) (na_size b), na_value = sat_add u128_max (na_value a) (na_value b)\<rparr>"

definition na_empty :: night_ann where "na_empty = \<lparr>na_size = 0, na_value = 0\<rparr>"

text \<open>The annotation of a map: the entries are annotated one by one and combined.\<close>

definition ann :: "('e \<Rightarrow> nat) \<Rightarrow> 'e list \<Rightarrow> night_ann" where
  "ann night m = foldr (\<lambda>e. na_append \<lparr>na_size = 1, na_value = night e\<rparr>) m na_empty"

definition amount_ann :: "(user_address \<times> nat) list \<Rightarrow> night_ann" where
  "amount_ann m = ann snd m"

section \<open>Unspent outputs\<close>

record utxo =
  u_value :: nat
  u_owner :: user_address
  u_type :: token_hash
  u_intent_hash :: intent_hash
  u_output_no :: nat

record utxo_output =
  uo_value :: nat
  uo_owner :: user_address
  uo_type :: token_hash

record 'k utxo_spend =
  us_value :: nat
  us_owner :: 'k
  us_type :: token_hash
  us_intent_hash :: intent_hash
  us_output_no :: nat

record utxo_meta = um_ctime :: timestamp

definition utxo_of_spend :: "('k \<Rightarrow> user_address) \<Rightarrow> 'k utxo_spend \<Rightarrow> utxo" where
  "utxo_of_spend addr x =
     \<lparr>u_value = us_value x, u_owner = addr (us_owner x), u_type = us_type x,
      u_intent_hash = us_intent_hash x, u_output_no = us_output_no x\<rparr>"

definition output_of_utxo :: "utxo \<Rightarrow> utxo_output" where
  "output_of_utxo x = \<lparr>uo_value = u_value x, uo_owner = u_owner x, uo_type = u_type x\<rparr>"

record ('k, 's) unshielded_offer =
  uof_inputs :: "'k utxo_spend list"
  uof_outputs :: "utxo_output list"
  uof_signatures :: "'s list"

definition uof_add_signatures :: "('k, 's) unshielded_offer \<Rightarrow> 's list \<Rightarrow> ('k, 's) unshielded_offer" where
  "uof_add_signatures ofr sigs = ofr\<lparr>uof_signatures := uof_signatures ofr @ sigs\<rparr>"

definition uof_erase_signatures :: "('k, 's) unshielded_offer \<Rightarrow> ('k, unit) unshielded_offer" where
  "uof_erase_signatures ofr = \<lparr>uof_inputs = uof_inputs ofr, uof_outputs = uof_outputs ofr, uof_signatures = []\<rparr>"

type_synonym utxo_state = "(utxo \<times> utxo_meta) list"

definition utxo_night :: "utxo \<Rightarrow> nat" where
  "utxo_night u = (if u_type u = NIGHT then u_value u else 0)"

definition utxo_ann :: "utxo_state \<Rightarrow> night_ann" where
  "utxo_ann us = ann (\<lambda>p. utxo_night (fst p)) us"

definition us_insert :: "utxo_state \<Rightarrow> utxo \<Rightarrow> utxo_meta \<Rightarrow> utxo_state" where
  "us_insert us u meta = AList.update u meta us"

definition us_remove :: "utxo_state \<Rightarrow> utxo \<Rightarrow> utxo_state" where
  "us_remove us u = AList.delete u us"

section \<open>Applying an offer\<close>

datatype utxo_error = InputNotInUtxos utxo

definition us_spend :: "('k \<Rightarrow> user_address) \<Rightarrow> utxo_state \<Rightarrow> 'k utxo_spend \<Rightarrow> (utxo_error, utxo_state) result" where
  "us_spend addr res inp =
     (let input_utxo = utxo_of_spend addr inp in
      if map_of res input_utxo = None then Err (InputNotInUtxos input_utxo)
      else Ok (us_remove res input_utxo))"

text \<open>The index of an output is cast to 32 bits.\<close>

definition offer_utxos :: "intent_hash \<Rightarrow> utxo_output list \<Rightarrow> utxo list" where
  "offer_utxos intent_hash outs =
     map (\<lambda>(output_no, out).
        \<lparr>u_value = uo_value out, u_owner = uo_owner out, u_type = uo_type out,
         u_intent_hash = intent_hash, u_output_no = output_no mod 2 ^ 32\<rparr>)
       (enumerate 0 outs)"

definition utxo_apply_offer ::
  "('k \<Rightarrow> user_address) \<Rightarrow> utxo_state \<Rightarrow> ('k, 's) unshielded_offer \<Rightarrow> intent_hash \<Rightarrow> timestamp \<Rightarrow>
   (utxo_error, utxo_state) result" where
  "utxo_apply_offer addr us ofr intent_hash tblock =
     and_then (try_fold (us_spend addr) us (uof_inputs ofr)) (\<lambda>res.
       Ok (fold (\<lambda>u res. us_insert res u \<lparr>um_ctime = tblock\<rparr>) (offer_utxos intent_hash (uof_outputs ofr)) res))"

section \<open>Laws of annotated maps\<close>

text \<open>The exact total a map holds, of which its annotation is the saturated value.\<close>

definition tally :: "('e \<Rightarrow> nat) \<Rightarrow> 'e list \<Rightarrow> nat" where
  "tally night m = sum_list (map night m)"

lemma tally_simps [simp]:
  "tally f [] = 0" "tally f (x # xs) = f x + tally f xs" "tally f (xs @ ys) = tally f xs + tally f ys"
  by (simp_all add: tally_def)

lemma ann_value: "na_value (ann f m) = min (tally f m) u128_max"
  by (induction m) (auto simp: ann_def na_empty_def na_append_def sat_add_def tally_def)

lemma ann_exact: "tally f m \<le> u128_max \<Longrightarrow> na_value (ann f m) = tally f m"
  by (simp add: ann_value)

definition entry :: "('k \<times> 'v) list \<Rightarrow> ('k \<times> 'v \<Rightarrow> nat) \<Rightarrow> 'k \<Rightarrow> nat" where
  "entry m f k = (case map_of m k of Some v \<Rightarrow> f (k, v) | None \<Rightarrow> 0)"

lemma tally_update: "tally f (AList.update k v m) + entry m f k = tally f m + f (k, v)"
  by (induction m) (auto simp: entry_def)

lemma tally_delete: "distinct (map fst m) \<Longrightarrow> tally f (AList.delete k m) + entry m f k = tally f m"
proof (induction m)
  case (Cons p m)
  show ?case
  proof (cases "fst p = k")
    case True
    then have "k \<notin> fst ` set m" using Cons.prems by auto
    then have "AList.delete k m = m" by (simp add: AList.delete_id)
    with True show ?thesis by (cases p) (auto simp: entry_def AList.delete_eq)
  next
    case False
    with Cons show ?thesis by (cases p) (auto simp: entry_def AList.delete_eq)
  qed
qed (simp add: entry_def)

lemma entry_le_tally: "entry m f k \<le> tally f m"
  by (induction m) (auto simp: entry_def)

lemma tally_update_absent: "map_of m k = None \<Longrightarrow> tally f (AList.update k v m) = tally f m + f (k, v)"
  using tally_update [of f k v m] by (simp add: entry_def)

lemma tally_delete_present:
  "distinct (map fst m) \<Longrightarrow> map_of m k = Some v \<Longrightarrow> tally f (AList.delete k m) + f (k, v) = tally f m"
  using tally_delete [of m f k] by (simp add: entry_def)

section \<open>What an offer does to the unspent outputs\<close>

definition us_ok :: "utxo_state \<Rightarrow> bool" where "us_ok us \<longleftrightarrow> distinct (map fst us)"

abbreviation spent :: "('k \<Rightarrow> user_address) \<Rightarrow> ('k, 's) unshielded_offer \<Rightarrow> utxo list" where
  "spent addr ofr \<equiv> map (utxo_of_spend addr) (uof_inputs ofr)"

lemma us_insert_ok [simp]: "us_ok us \<Longrightarrow> us_ok (us_insert us u m)"
  by (simp add: us_ok_def us_insert_def distinct_update)

lemma us_remove_ok [simp]: "us_ok us \<Longrightarrow> us_ok (us_remove us u)"
  by (simp add: us_ok_def us_remove_def AList.distinct_delete)

lemma us_remove_keys: "fst ` set (us_remove us u) = fst ` set us - {u}"
  by (auto simp: us_remove_def AList.delete_eq image_iff)

lemma try_fold_spend:
  assumes "us_ok us"
  shows "try_fold (us_spend addr) us xs = Ok us' \<longleftrightarrow>
    distinct (map (utxo_of_spend addr) xs) \<and> utxo_of_spend addr ` set xs \<subseteq> fst ` set us \<and>
    us' = fold (\<lambda>u us. us_remove us u) (map (utxo_of_spend addr) xs) us"
  using assms
proof (induction xs arbitrary: us)
  case (Cons x xs)
  let ?u = "utxo_of_spend addr x"
  have mem: "map_of us ?u = None \<longleftrightarrow> ?u \<notin> fst ` set us" by (simp add: map_of_eq_None_iff)
  show ?case
  proof (cases "?u \<in> fst ` set us")
    case True
    then have "try_fold (us_spend addr) us (x # xs) = try_fold (us_spend addr) (us_remove us ?u) xs"
      using mem by (auto simp: us_spend_def Let_def)
    with True show ?thesis
      using Cons.IH [of "us_remove us ?u"] Cons.prems by (simp add: us_remove_keys subset_Diff_insert) blast
  qed (use mem in \<open>simp add: us_spend_def Let_def\<close>)
qed auto

lemma fold_remove_ok: "us_ok us \<Longrightarrow> us_ok (fold (\<lambda>u us. us_remove us u) xs us)"
  by (induction xs arbitrary: us) simp_all

lemma fold_remove_map: "map_of (fold (\<lambda>u us. us_remove us u) xs us) v = (if v \<in> set xs then None else map_of us v)"
  by (induction xs arbitrary: us) (auto simp: us_remove_def AList.delete_conv')

lemma fold_remove_total:
  assumes "us_ok us" "distinct xs" "set xs \<subseteq> fst ` set us"
  shows "tally (\<lambda>p. f (fst p)) (fold (\<lambda>u us. us_remove us u) xs us) + tally f xs = tally (\<lambda>p. f (fst p)) us"
  using assms
proof (induction xs arbitrary: us)
  case (Cons x xs)
  then obtain m where "map_of us x = Some m" using weak_map_of_SomeI by fastforce
  then have "tally (\<lambda>p. f (fst p)) (us_remove us x) + f x = tally (\<lambda>p. f (fst p)) us"
    using tally_delete_present [of us x m "\<lambda>p. f (fst p)"] Cons.prems(1) by (simp add: us_ok_def us_remove_def)
  moreover have "set xs \<subseteq> fst ` set (us_remove us x)"
    using Cons.prems(2,3) by (auto simp: us_remove_keys)
  ultimately show ?case using Cons.IH [of "us_remove us x"] Cons.prems by simp
qed simp

abbreviation insert_all :: "utxo_meta \<Rightarrow> utxo list \<Rightarrow> utxo_state \<Rightarrow> utxo_state" where
  "insert_all m xs us \<equiv> fold (\<lambda>u res. us_insert res u m) xs us"

lemma insert_all_ok: "us_ok us \<Longrightarrow> us_ok (insert_all m xs us)"
  by (induction xs arbitrary: us) simp_all

lemma insert_all_map: "map_of (insert_all m xs us) v = (if v \<in> set xs then Some m else map_of us v)"
  by (induction xs arbitrary: us) (auto simp: us_insert_def update_conv)

lemma insert_all_total:
  assumes "distinct xs" "\<And>x. x \<in> set xs \<Longrightarrow> map_of us x = None"
  shows "tally (\<lambda>p. f (fst p)) (insert_all m xs us) = tally (\<lambda>p. f (fst p)) us + tally f xs"
  using assms
proof (induction xs arbitrary: us)
  case (Cons x xs)
  have "tally (\<lambda>p. f (fst p)) (us_insert us x m) = tally (\<lambda>p. f (fst p)) us + f x"
    using tally_update_absent [of us x "\<lambda>p. f (fst p)" m] Cons.prems(2) by (simp add: us_insert_def)
  moreover have "map_of (us_insert us x m) y = None" if "y \<in> set xs" for y
    using Cons.prems that by (auto simp: us_insert_def update_conv)
  ultimately show ?case using Cons.IH [of "us_insert us x m"] Cons.prems(1) by simp
qed simp

lemma offer_utxos_distinct: "length outs \<le> 2 ^ 32 \<Longrightarrow> distinct (offer_utxos ih outs)"
  by (auto simp: offer_utxos_def distinct_conv_nth nth_enumerate_eq split: prod.splits)

lemma offer_utxos_hash: "u \<in> set (offer_utxos ih outs) \<Longrightarrow> u_intent_hash u = ih"
  by (auto simp: offer_utxos_def)

lemma offer_utxos_night: "tally utxo_night (offer_utxos ih outs) =
    tally (\<lambda>out. if uo_type out = NIGHT then uo_value out else 0) outs"
proof -
  have "map (\<lambda>p. utxo_night (case p of (output_no, out) \<Rightarrow>
      \<lparr>u_value = uo_value out, u_owner = uo_owner out, u_type = uo_type out,
       u_intent_hash = ih, u_output_no = output_no mod 2 ^ 32\<rparr>)) (enumerate n outs) =
    map (\<lambda>out. if uo_type out = NIGHT then uo_value out else 0) outs" for n
    by (induction outs arbitrary: n) (auto simp: utxo_night_def)
  then show ?thesis by (simp add: tally_def offer_utxos_def comp_def)
qed

text \<open>The functional behaviour of \<^const>\<open>utxo_apply_offer\<close>, on success and on failure.\<close>

lemma utxo_apply_offer_iff:
  assumes "us_ok us"
  shows "utxo_apply_offer addr us ofr ih tblock = Ok us' \<longleftrightarrow>
    distinct (spent addr ofr) \<and> set (spent addr ofr) \<subseteq> fst ` set us \<and>
    us' = insert_all \<lparr>um_ctime = tblock\<rparr> (offer_utxos ih (uof_outputs ofr))
            (fold (\<lambda>u us. us_remove us u) (spent addr ofr) us)"
  by (auto simp: utxo_apply_offer_def result_simps try_fold_spend [OF assms] image_subset_iff)

lemma utxo_apply_offer_ok:
  "us_ok us \<Longrightarrow> utxo_apply_offer addr us ofr ih tblock = Ok us' \<Longrightarrow> us_ok us'"
  by (simp add: utxo_apply_offer_iff insert_all_ok fold_remove_ok)

lemma utxo_apply_offer_map:
  assumes "us_ok us" "utxo_apply_offer addr us ofr ih tblock = Ok us'"
  shows "map_of us' u =
    (if u \<in> set (offer_utxos ih (uof_outputs ofr)) then Some \<lparr>um_ctime = tblock\<rparr>
     else if u \<in> set (spent addr ofr) then None else map_of us u)"
  using assms by (simp add: utxo_apply_offer_iff insert_all_map fold_remove_map)

lemma utxo_apply_offer_total:
  assumes "us_ok us" "utxo_apply_offer addr us ofr ih tblock = Ok us'"
    and fresh: "\<And>u. u \<in> fst ` set us \<Longrightarrow> u_intent_hash u \<noteq> ih"
    and len: "length (uof_outputs ofr) \<le> 2 ^ 32"
  shows "tally (\<lambda>p. utxo_night (fst p)) us' + tally utxo_night (spent addr ofr) =
    tally (\<lambda>p. utxo_night (fst p)) us + tally utxo_night (offer_utxos ih (uof_outputs ofr))"
proof -
  let ?r = "fold (\<lambda>u us. us_remove us u) (spent addr ofr) us"
  have us': "us' = insert_all \<lparr>um_ctime = tblock\<rparr> (offer_utxos ih (uof_outputs ofr)) ?r"
    and d: "distinct (spent addr ofr)" "set (spent addr ofr) \<subseteq> fst ` set us"
    using assms(2) by (simp_all add: utxo_apply_offer_iff [OF assms(1)])
  have "map_of us u = None" if "u \<in> set (offer_utxos ih (uof_outputs ofr))" for u
    using fresh [of u] offer_utxos_hash [OF that] by (auto simp: map_of_eq_None_iff)
  then have "tally (\<lambda>p. utxo_night (fst p)) us' =
      tally (\<lambda>p. utxo_night (fst p)) ?r + tally utxo_night (offer_utxos ih (uof_outputs ofr))"
    unfolding us' by (intro insert_all_total offer_utxos_distinct len) (simp add: fold_remove_map)
  with fold_remove_total [OF assms(1) d, of utxo_night] show ?thesis by simp
qed

end
