(* ===== verification/Dust.thy ===== *)
theory Dust
  imports Unshielded Merkle_Tree
begin

text \<open>
  Dust, the resource that pays fees, of \<^verbatim>\<open>ledger/src/dust.rs\<close>: the value of a dust output over time,
  the structures of dust spends and registrations, the part of an intent they live in
  (\<^verbatim>\<open>ledger/src/structure.rs\<close>), and the transitions of \<^verbatim>\<open>DustState\<close>.

  Hashes and the encodings into field elements come from external crates; they are the fields of
  the record \<^verbatim>\<open>crypto\<close>, an argument of the operations that use them. An event whose content is
  computed when it is forced keeps the snapshot its closure captures.
\<close>

section \<open>Parameters\<close>

definition STARS_PER_NIGHT :: nat where "STARS_PER_NIGHT = 1000000"
definition SPECKS_PER_DUST :: nat where "SPECKS_PER_DUST = 1000000000000000"
definition DUST_COMMITMENT_TREE_DEPTH :: nat where "DUST_COMMITMENT_TREE_DEPTH = 32"
definition DUST_GENERATION_TREE_DEPTH :: nat where "DUST_GENERATION_TREE_DEPTH = 32"

record dust_parameters =
  night_dust_ratio :: nat
  generation_decay_rate :: nat
  dust_grace_period :: duration

definition time_to_cap :: "dust_parameters \<Rightarrow> duration" where
  "time_to_cap p = int (div_ceil (night_dust_ratio p) (generation_decay_rate p))"

definition INITIAL_DUST_PARAMETERS :: dust_parameters where
  "INITIAL_DUST_PARAMETERS =
     \<lparr>night_dust_ratio = 5 * (SPECKS_PER_DUST div STARS_PER_NIGHT), generation_decay_rate = 8267,
      dust_grace_period = 3 * 60 * 60\<rparr>"

section \<open>Dust outputs\<close>

type_synonym initial_nonce = hash_output

record 'f dust_output =
  do_initial_value :: nat
  do_owner :: 'f
  do_nonce :: 'f
  do_seq :: nat
  do_ctime :: timestamp

record 'f qualified_dust_output =
  qd_initial_value :: nat
  qd_owner :: 'f
  qd_nonce :: 'f
  qd_seq :: nat
  qd_ctime :: timestamp
  qd_backing_night :: initial_nonce
  qd_mt_index :: nat

definition dust_output_of_qualified :: "'f qualified_dust_output \<Rightarrow> 'f dust_output" where
  "dust_output_of_qualified q =
     \<lparr>do_initial_value = qd_initial_value q, do_owner = qd_owner q, do_nonce = qd_nonce q,
      do_seq = qd_seq q, do_ctime = qd_ctime q\<rparr>"

record ('f, 'o) dust_pre_projection =
  pp_initial_value :: nat
  pp_owner :: 'o
  pp_nonce :: 'f
  pp_ctime :: timestamp

record 'f dust_generation_info =
  gi_value :: nat
  gi_owner :: 'f
  gi_nonce :: initial_nonce
  gi_dtime :: timestamp

record 'f dust_generation_uniqueness_info =
  gu_value :: nat
  gu_owner :: 'f
  gu_nonce :: initial_nonce

definition uniqueness :: "'f dust_generation_info \<Rightarrow> 'f dust_generation_uniqueness_info" where
  "uniqueness info = \<lparr>gu_value = gi_value info, gu_owner = gi_owner info, gu_nonce = gi_nonce info\<rparr>"

text \<open>The elapsed time between two timestamps, clamped at zero from below.\<close>

definition elapsed :: "timestamp \<Rightarrow> timestamp \<Rightarrow> nat" where
  "elapsed tend tstart = (let dt = ts_diff tend tstart in if dt \<ge> 0 then nat dt else 0)"

definition updated_value ::
  "'f dust_output \<Rightarrow> 'f dust_generation_info \<Rightarrow> timestamp \<Rightarrow> dust_parameters \<Rightarrow> nat" where
  "updated_value out gen_info now params =
     (let vfull = sat_mul u128_max (gi_value gen_info) (night_dust_ratio params);
          rate = sat_mul u128_max (gi_value gen_info) (generation_decay_rate params);
          tend_phase_12 = min (gi_dtime gen_info) now;
          dt_phase_12 = elapsed tend_phase_12 (do_ctime out);
          value_phase_1_unchecked =
            sat_add u128_max (sat_mul u128_max dt_phase_12 rate) (do_initial_value out);
          value_phase_12 = min value_phase_1_unchecked vfull;
          dt_phase_3 = elapsed now (gi_dtime gen_info)
      in value_phase_12 - sat_mul u128_max dt_phase_3 rate)"

section \<open>Dust actions and intents\<close>

record ('f, 'p) dust_spend =
  ds_v_fee :: nat
  ds_old_nullifier :: 'f
  ds_new_commitment :: 'f
  ds_proof :: 'p

record ('k, 'f, 's) dust_registration =
  dr_night_key :: 'k
  dr_dust_address :: "'f option"
  dr_allow_fee_payment :: nat
  dr_signature :: "'s option"

record ('k, 'f, 's, 'p) dust_actions =
  da_spends :: "('f, 'p) dust_spend list"
  da_registrations :: "('k, 'f, 's) dust_registration list"
  da_ctime :: timestamp

definition ds_erase_proofs :: "('f, 'p) dust_spend \<Rightarrow> ('f, unit) dust_spend" where
  "ds_erase_proofs s =
     \<lparr>ds_v_fee = ds_v_fee s, ds_old_nullifier = ds_old_nullifier s,
      ds_new_commitment = ds_new_commitment s, ds_proof = ()\<rparr>"

definition dr_erase_signatures :: "('k, 'f, 's) dust_registration \<Rightarrow> ('k, 'f, unit) dust_registration" where
  "dr_erase_signatures r =
     \<lparr>dr_night_key = dr_night_key r, dr_dust_address = dr_dust_address r,
      dr_allow_fee_payment = dr_allow_fee_payment r, dr_signature = map_option (\<lambda>_. ()) (dr_signature r)\<rparr>"

definition da_erase_proofs :: "('k, 'f, 's, 'p) dust_actions \<Rightarrow> ('k, 'f, 's, unit) dust_actions" where
  "da_erase_proofs d =
     \<lparr>da_spends = map ds_erase_proofs (da_spends d), da_registrations = da_registrations d,
      da_ctime = da_ctime d\<rparr>"

definition da_erase_signatures :: "('k, 'f, 's, 'p) dust_actions \<Rightarrow> ('k, 'f, unit, 'p) dust_actions" where
  "da_erase_signatures d =
     \<lparr>da_spends = da_spends d, da_registrations = map dr_erase_signatures (da_registrations d),
      da_ctime = da_ctime d\<rparr>"

record ('k, 'f, 's, 'p, 'a, 'b) intent =
  guaranteed_unshielded_offer :: "('k, 's) unshielded_offer option"
  fallible_unshielded_offer :: "('k, 's) unshielded_offer option"
  intent_actions :: "'a list"
  dust_actions :: "('k, 'f, 's, 'p) dust_actions option"
  intent_ttl :: timestamp
  binding_commitment :: 'b

type_synonym ('k, 'f, 'a, 'b) erased_intent = "('k, 'f, unit, unit, 'a, 'b) intent"

record ('k, 'f, 'a, 'b) crypto =
  tree_hashing :: "(hash_output, 'f) hashing"
  upgrade_from_transient :: "'f \<Rightarrow> hash_output"
  persistent_commit :: "nat \<Rightarrow> hash_output \<Rightarrow> hash_output"
  fr_of_nat :: "nat \<Rightarrow> 'f"
  fr_of_bytes :: "byte list \<Rightarrow> 'f list"
  domain_separator :: "string \<Rightarrow> 'f"
  key_address :: "'k \<Rightarrow> user_address"
  intent_hash :: "('k, 'f, 'a, 'b) erased_intent \<Rightarrow> nat \<Rightarrow> hash_output"

abbreviation c_hash :: "('k, 'f, 'a, 'b) crypto \<Rightarrow> 'f list \<Rightarrow> 'f" where
  "c_hash E \<equiv> transient_hash (tree_hashing E)"

definition transient_commit :: "('k, 'f, 'a, 'b) crypto \<Rightarrow> 'f list \<Rightarrow> 'f \<Rightarrow> 'f" where
  "transient_commit E v opening = c_hash E (opening # v)"

definition initial_nonce :: "('k, 'f, 'a, 'b) crypto \<Rightarrow> nat \<Rightarrow> hash_output \<Rightarrow> initial_nonce" where
  "initial_nonce E output_no ih = persistent_commit E output_no ih"

definition spend_nonce :: "('k, 'f, 'a, 'b) crypto \<Rightarrow> 'k utxo_spend \<Rightarrow> initial_nonce" where
  "spend_nonce E i = initial_nonce E (us_output_no i) (us_intent_hash i)"

definition dust_nonce :: "('k, 'f, 'a, 'b) crypto \<Rightarrow> initial_nonce \<Rightarrow> nat \<Rightarrow> 'f \<Rightarrow> 'f" where
  "dust_nonce E nonce sq sk = c_hash E (fr_of_bytes E nonce @ [fr_of_nat E sq, sk])"

definition dust_first_nonce :: "('k, 'f, 'a, 'b) crypto \<Rightarrow> initial_nonce \<Rightarrow> 'f \<Rightarrow> 'f" where
  "dust_first_nonce E nonce dust_addr = c_hash E (fr_of_bytes E nonce @ [fr_of_nat E 0, dust_addr])"

definition dust_public_key :: "('k, 'f, 'a, 'b) crypto \<Rightarrow> 'f \<Rightarrow> 'f" where
  "dust_public_key E sk = c_hash E [domain_separator E ''mdn:dust:pk'', sk]"

definition pp_fields :: "('k, 'f, 'a, 'b) crypto \<Rightarrow> ('f, 'f) dust_pre_projection \<Rightarrow> 'f list" where
  "pp_fields E p = [fr_of_nat E (pp_initial_value p), pp_owner p, pp_nonce p, fr_of_nat E (pp_ctime p)]"

definition dust_commitment :: "('k, 'f, 'a, 'b) crypto \<Rightarrow> ('f, 'f) dust_pre_projection \<Rightarrow> 'f" where
  "dust_commitment E p = transient_commit E (pp_fields E p) (domain_separator E ''mdn:dust:cm'')"

definition dust_nullifier :: "('k, 'f, 'a, 'b) crypto \<Rightarrow> ('f, 'f) dust_pre_projection \<Rightarrow> 'f" where
  "dust_nullifier E p = transient_commit E (pp_fields E p) (domain_separator E ''mdn:dust:nul'')"

definition merkle_hash :: "('k, 'f, 'a, 'b) crypto \<Rightarrow> 'f dust_generation_info \<Rightarrow> hash_output" where
  "merkle_hash E info =
     upgrade_from_transient E (c_hash E
       (fr_of_nat E (gi_value info) # gi_owner info # fr_of_bytes E (gi_nonce info) @ [fr_of_nat E (gi_dtime info)]))"

section \<open>The dust state\<close>

type_synonym 'f root_history = "('f, 'f) time_filter_map"

record 'f dust_utxo_state =
  commitments :: "(hash_output, 'f, unit) mt_node"
  commitments_first_free :: nat
  dust_nullifiers :: "'f set"
  du_root_history :: "'f root_history"

record 'f dust_generation_state =
  address_delegation :: "user_address \<rightharpoonup> 'f"
  generating_tree :: "(hash_output, 'f, 'f dust_generation_info) mt_node"
  generating_tree_first_free :: nat
  generating_set :: "'f dust_generation_uniqueness_info set"
  night_indices :: "initial_nonce \<rightharpoonup> nat"
  dg_root_history :: "'f root_history"

record 'f dust_state =
  d_utxo :: "'f dust_utxo_state"
  d_generation :: "'f dust_generation_state"

definition dust_utxo_state_default :: "'f dust_utxo_state" where
  "dust_utxo_state_default =
     \<lparr>commitments = mt_blank DUST_COMMITMENT_TREE_DEPTH, commitments_first_free = 0,
      dust_nullifiers = {}, du_root_history = tfm_new\<rparr>"

definition dust_generation_state_default :: "'f dust_generation_state" where
  "dust_generation_state_default =
     \<lparr>address_delegation = Map.empty, generating_tree = mt_blank DUST_GENERATION_TREE_DEPTH,
      generating_tree_first_free = 0, generating_set = {}, night_indices = Map.empty,
      dg_root_history = tfm_new\<rparr>"

definition dust_state_default :: "'f dust_state" where
  "dust_state_default = \<lparr>d_utxo = dust_utxo_state_default, d_generation = dust_generation_state_default\<rparr>"

datatype 'f dust_event =
    DustInitialUtxo "'f qualified_dust_output" "'f dust_generation_info" nat timestamp
  | DustSpendProcessed 'f nat 'f nat timestamp timestamp
  | DustGenerationDtimeUpdate "(hash_output, 'f, 'f dust_generation_info) tree_insertion_path" timestamp

datatype 'f deferred_event =
    Ready "'f dust_event"
  | DtimeUpdateOf "(hash_output, 'f, 'f dust_generation_info) mt_node" nat timestamp

definition force_event ::
  "('k, 'f, 'a, 'b) crypto \<Rightarrow> 'f deferred_event \<Rightarrow> ('e, 'f dust_event) result" where
  "force_event E ev =
     (case ev of
        Ready e \<Rightarrow> Ok e
      | DtimeUpdateOf tree idx block_time \<Rightarrow>
          (case insertion_evidence (tree_hashing E) (mt_rehash (tree_hashing E) tree) idx of
             Ok update \<Rightarrow> Ok (DustGenerationDtimeUpdate update block_time)
           | _ \<Rightarrow> Panic))"

datatype 'f dust_state_error =
    GenerationInfoAlreadyPresent "'f dust_generation_info"
  | DustMerkleTreeError invalid_update

datatype 'f dust_error =
    DustDoubleSpend 'f
  | DustDeregistrationNotRegistered user_address
  | DivideByZero
  | DustStateError "'f dust_state_error"

type_synonym 'f dust_step = "'f dust_state \<times> 'f deferred_event list"

section \<open>Transitions\<close>

definition apply_spend ::
  "('k, 'f, 'a, 'b) crypto \<Rightarrow> 'f dust_step \<Rightarrow> ('f, 'p) dust_spend \<Rightarrow> timestamp \<Rightarrow> timestamp \<Rightarrow>
   ('f dust_error, 'f dust_step) result" where
  "apply_spend E = (\<lambda>(s, evs) spend time tblock.
     let u = d_utxo s in
     if ds_old_nullifier spend \<in> dust_nullifiers u then Err (DustDoubleSpend (ds_old_nullifier spend))
     else and_then (map_err (\<lambda>e. DustStateError (DustMerkleTreeError e))
         (try_update_hash (commitments u) (commitments_first_free u)
            (upgrade_from_transient E (ds_new_commitment spend)) ()))
       (\<lambda>tree. Ok (s\<lparr>d_utxo := u\<lparr>commitments := tree, commitments_first_free := commitments_first_free u + 1,
            dust_nullifiers := insert (ds_old_nullifier spend) (dust_nullifiers u)\<rparr>\<rparr>,
          evs @ [Ready (DustSpendProcessed (ds_new_commitment spend) (commitments_first_free u)
            (ds_old_nullifier spend) (ds_v_fee spend) time tblock)])))"

definition fresh_dust_output ::
  "('k, 'f, 'a, 'b) crypto \<Rightarrow> 'f dust_step \<Rightarrow> initial_nonce \<Rightarrow> nat \<Rightarrow> nat \<Rightarrow> 'f \<Rightarrow> timestamp \<Rightarrow> timestamp \<Rightarrow>
   ('f dust_state_error, 'f dust_step) result" where
  "fresh_dust_output E = (\<lambda>(s, evs) init_nonce initial_value night_value dust_addr tnow tblock.
     let u = d_utxo s; g = d_generation s;
         pre = \<lparr>pp_initial_value = initial_value, pp_owner = dust_addr,
                pp_nonce = dust_first_nonce E init_nonce dust_addr, pp_ctime = tnow\<rparr>;
         gen_info = \<lparr>gi_value = night_value, gi_owner = dust_addr, gi_nonce = init_nonce, gi_dtime = u64_max\<rparr>
     in and_then (map_err DustMerkleTreeError
          (try_update_hash (commitments u) (commitments_first_free u)
             (upgrade_from_transient E (dust_commitment E pre)) ()))
     (\<lambda>coms. if uniqueness gen_info \<in> generating_set g then Err (GenerationInfoAlreadyPresent gen_info)
       else and_then (map_err DustMerkleTreeError
          (try_update_hash (generating_tree g) (generating_tree_first_free g) (merkle_hash E gen_info) gen_info))
       (\<lambda>tree. Ok
         (\<lparr>d_utxo = u\<lparr>commitments := coms, commitments_first_free := commitments_first_free u + 1\<rparr>,
           d_generation = g\<lparr>generating_set := insert (uniqueness gen_info) (generating_set g),
             generating_tree := tree, night_indices := (night_indices g)(init_nonce \<mapsto> generating_tree_first_free g),
             generating_tree_first_free := generating_tree_first_free g + 1\<rparr>\<rparr>,
          evs @ [Ready (DustInitialUtxo
            \<lparr>qd_initial_value = initial_value, qd_owner = dust_addr, qd_nonce = pp_nonce pre, qd_seq = 0,
             qd_ctime = tnow, qd_backing_night = init_nonce, qd_mt_index = commitments_first_free u\<rparr>
            gen_info (generating_tree_first_free g) tblock)]))))"

text \<open>The fee a registration can draw on: what the spent Night of the intent would have generated
  had it generated dust, for the inputs that did not.\<close>

definition night_inputs :: "('k, 's) unshielded_offer option \<Rightarrow> 'k utxo_spend list" where
  "night_inputs ofr = filter (\<lambda>i. us_type i = NIGHT) (case ofr of None \<Rightarrow> [] | Some off \<Rightarrow> uof_inputs off)"

definition generationless_value ::
  "('k, 'f, 'a, 'b) crypto \<Rightarrow> utxo_state \<Rightarrow> timestamp \<Rightarrow> dust_parameters \<Rightarrow> 'k utxo_spend \<Rightarrow> nat" where
  "generationless_value E us tend params i =
     (let vfull = sat_mul u128_max (us_value i) (night_dust_ratio params);
          rate = sat_mul u128_max (us_value i) (generation_decay_rate params)
      in case map_of us (utxo_of_spend (key_address E) i) of
           None \<Rightarrow> 0
         | Some meta \<Rightarrow> min (sat_mul u128_max (elapsed tend (um_ctime meta)) rate) vfull)"

definition generationless_fee_availability ::
  "('k, 'f, 'a, 'b) crypto \<Rightarrow> 'f dust_state \<Rightarrow> utxo_state \<Rightarrow> ('k, 'f, 'a, 'b) erased_intent \<Rightarrow> 'k \<Rightarrow>
   dust_parameters \<Rightarrow> nat" where
  "generationless_fee_availability E s us parent_intent night_key params =
     (let generationless_inputs =
            filter (\<lambda>i. us_owner i = night_key \<and> night_indices (d_generation s) (spend_nonce E i) = None)
              (night_inputs (guaranteed_unshielded_offer parent_intent))
      in case dust_actions parent_intent of
           None \<Rightarrow> 0
         | Some da \<Rightarrow> fold (\<lambda>b a. sat_add u128_max a b)
             (map (generationless_value E us (da_ctime da) params) generationless_inputs) 0)"

definition DISTRIBUTION_RESOLUTION :: nat where "DISTRIBUTION_RESOLUTION = 10000"

definition owned_outputs :: "('k, 's) unshielded_offer option \<Rightarrow> user_address \<Rightarrow> (nat \<times> utxo_output) list" where
  "owned_outputs ofr night_address =
     filter (\<lambda>(_, out). uo_owner out = night_address \<and> uo_type out = NIGHT)
       (case ofr of None \<Rightarrow> [] | Some off \<Rightarrow> enumerate 0 (uof_outputs off))"

text \<open>One iteration of the loop that distributes the dust over the registered outputs.\<close>

definition register_output ::
  "('k, 'f, 'a, 'b) crypto \<Rightarrow> hash_output \<Rightarrow> nat \<Rightarrow> nat \<Rightarrow> 'f \<Rightarrow> timestamp \<Rightarrow> timestamp \<Rightarrow> 'f dust_step \<Rightarrow>
   nat \<times> utxo_output \<Rightarrow> ('f dust_error, 'f dust_step) result" where
  "register_output E ih output_sum dust_out dust_addr tnow tblock st = (\<lambda>(output_no, out).
     and_then (ok_or (if output_sum = 0 then None
                      else Some (sat_mul u128_max (uo_value out) DISTRIBUTION_RESOLUTION div output_sum))
                 DivideByZero) (\<lambda>ratio.
       map_err DustStateError (fresh_dust_output E st (initial_nonce E (output_no mod 2 ^ 32) ih)
         (sat_mul u128_max ratio dust_out div DISTRIBUTION_RESOLUTION) (uo_value out) dust_addr tnow tblock)))"

definition update_delegation ::
  "'f dust_state \<Rightarrow> user_address \<Rightarrow> 'f option \<Rightarrow> ('f dust_error, 'f dust_state) result" where
  "update_delegation s night_address dust_address =
     (let g = d_generation s in
      case dust_address of
        None \<Rightarrow>
          if address_delegation g night_address = None then Err (DustDeregistrationNotRegistered night_address)
          else Ok (s\<lparr>d_generation := g\<lparr>address_delegation := (address_delegation g)(night_address := None)\<rparr>\<rparr>)
      | Some dust_addr \<Rightarrow>
          Ok (s\<lparr>d_generation := g\<lparr>address_delegation := (address_delegation g)(night_address \<mapsto> dust_addr)\<rparr>\<rparr>))"

definition apply_registration ::
  "('k, 'f, 'a, 'b) crypto \<Rightarrow> 'f dust_step \<Rightarrow> utxo_state \<Rightarrow> nat \<Rightarrow> ('k, 'f, 'a, 'b) erased_intent \<Rightarrow>
   ('k, 'f, 's) dust_registration \<Rightarrow> dust_parameters \<Rightarrow> timestamp \<Rightarrow> timestamp \<Rightarrow>
   ('f dust_error, 'f dust_step \<times> nat) result" where
  "apply_registration E = (\<lambda>(s, evs) us fees_remaining parent_intent registration params tnow tblock.
     let night_address = key_address E (dr_night_key registration) in
     and_then (update_delegation s night_address (dr_dust_address registration)) (\<lambda>s'.
       let owned = owned_outputs (guaranteed_unshielded_offer parent_intent) night_address;
           dust_in = generationless_fee_availability E s us parent_intent (dr_night_key registration) params;
           fee_paid = min fees_remaining (min (dr_allow_fee_payment registration) dust_in);
           dust_out = dust_in - fee_paid
       in case dr_dust_address registration of
            None \<Rightarrow> Ok ((s', evs), fees_remaining - fee_paid)
          | Some dust_addr \<Rightarrow>
              map_ok (\<lambda>st. (st, fees_remaining - fee_paid))
                (try_fold (register_output E (intent_hash E parent_intent 0)
                    (fold (\<lambda>p a. sat_add u128_max a (uo_value (snd p))) owned 0) dust_out dust_addr tnow tblock)
                  (s', evs) owned)))"

text \<open>The loops of \<^verbatim>\<open>DustState::apply_offer\<close>: a spent output stops generating, a new one starts.\<close>

definition stop_generating ::
  "('k, 'f, 'a, 'b) crypto \<Rightarrow> timestamp \<Rightarrow> 'f dust_step \<Rightarrow> 'k utxo_spend \<Rightarrow> ('f dust_error, 'f dust_step) result" where
  "stop_generating E tblock = (\<lambda>(s, evs) inp.
     let g = d_generation s in
     case night_indices g (spend_nonce E inp) of
       None \<Rightarrow> Ok (s, evs)
     | Some idx \<Rightarrow>
         (case mt_index (generating_tree g) idx of
            None \<Rightarrow> Ok (s, evs)
          | Some (_, old) \<Rightarrow>
              (let gen_info = old\<lparr>gi_dtime := tblock\<rparr> in
               and_then (map_err (\<lambda>e. DustStateError (DustMerkleTreeError e))
                   (try_update_hash (generating_tree g) idx (merkle_hash E gen_info) gen_info))
                 (\<lambda>tree. Ok (s\<lparr>d_generation := g\<lparr>generating_tree := tree\<rparr>\<rparr>,
                    evs @ [DtimeUpdateOf tree idx tblock])))))"

definition start_generating ::
  "('k, 'f, 'a, 'b) crypto \<Rightarrow> ('k, 'f, 'a, 'b) erased_intent \<Rightarrow> nat \<Rightarrow> timestamp \<Rightarrow> 'f dust_step \<Rightarrow>
   nat \<times> utxo_output \<Rightarrow> ('f dust_error, 'f dust_step) result" where
  "start_generating E parent segment tblock st = (\<lambda>(output_no, out).
     case address_delegation (d_generation (fst st)) (uo_owner out) of
       None \<Rightarrow> Ok st
     | Some dust_addr \<Rightarrow>
         (let handled_by_registration = segment = 0 \<and>
                list_ex (\<lambda>reg. uo_owner out = key_address E (dr_night_key reg))
                  (case dust_actions parent of None \<Rightarrow> [] | Some da \<Rightarrow> da_registrations da)
          in if handled_by_registration then Ok st
             else map_err DustStateError
               (fresh_dust_output E st (initial_nonce E (output_no mod 2 ^ 32) (intent_hash E parent segment))
                  0 (uo_value out) dust_addr tblock tblock)))"

definition dust_apply_offer ::
  "('k, 'f, 'a, 'b) crypto \<Rightarrow> 'f dust_step \<Rightarrow> ('k, 's) unshielded_offer \<Rightarrow> ('k, 'f, 'a, 'b) erased_intent \<Rightarrow>
   nat \<Rightarrow> timestamp \<Rightarrow> ('f dust_error, 'f dust_step) result" where
  "dust_apply_offer E st ofr parent segment tblock =
     and_then (try_fold (stop_generating E tblock) st (filter (\<lambda>i. us_type i = NIGHT) (uof_inputs ofr)))
       (\<lambda>st. try_fold (start_generating E parent segment tblock) st
          (filter (\<lambda>(_, out). uo_type out = NIGHT) (enumerate 0 (uof_outputs ofr))))"

text \<open>The rehashed trees have roots (\<open>mt_root_rehash\<close>), so the \<^verbatim>\<open>expect\<close> of the source is met.\<close>

definition record_root ::
  "(hash_output, 'f) hashing \<Rightarrow> (hash_output, 'f, 'x) mt_node \<Rightarrow> 'f root_history \<Rightarrow> timestamp \<Rightarrow> duration \<Rightarrow>
   'f root_history" where
  "record_root H tree history tblock global_ttl =
     tfm_filter identity_container
       (tfm_insert identity_container history tblock (the (mt_root H tree)))
       (ts_sub tblock global_ttl)"

definition dust_post_block_update ::
  "('k, 'f, 'a, 'b) crypto \<Rightarrow> 'f dust_state \<Rightarrow> timestamp \<Rightarrow> duration \<Rightarrow> 'f dust_state" where
  "dust_post_block_update E s tblock global_ttl =
     (let H = tree_hashing E; u = d_utxo s; g = d_generation s;
          coms = mt_rehash H (commitments u); gens = mt_rehash H (generating_tree g)
      in \<lparr>d_utxo = u\<lparr>commitments := coms, du_root_history := record_root H coms (du_root_history u) tblock global_ttl\<rparr>,
          d_generation = g\<lparr>generating_tree := gens,
            dg_root_history := record_root H gens (dg_root_history g) tblock global_ttl\<rparr>\<rparr>)"

end
