(* ===== verification/Dust_Props.thy ===== *)
theory Dust_Props
  imports Dust
begin

text \<open>
  Correctness of the dust state: the value of a dust output over time, the invariant that links the
  trees, the set of generation infos and the index of Night outputs, and what spends, registrations
  and offers do to it.
\<close>

section \<open>The value of a dust output\<close>

lemma elapsed_eq: "elapsed a b = a - b"
  by (auto simp: elapsed_def ts_diff_def Let_def)

text \<open>The reference value without saturation: generation up to the cap, then decay.\<close>

definition ideal_value :: "nat \<Rightarrow> nat \<Rightarrow> timestamp \<Rightarrow> timestamp \<Rightarrow> timestamp \<Rightarrow> dust_parameters \<Rightarrow> nat" where
  "ideal_value night initial ctime dtime now p =
     min (initial + (min dtime now - ctime) * (night * generation_decay_rate p)) (night * night_dust_ratio p)
       - (now - dtime) * (night * generation_decay_rate p)"

definition unsaturated :: "nat \<Rightarrow> nat \<Rightarrow> timestamp \<Rightarrow> timestamp \<Rightarrow> timestamp \<Rightarrow> dust_parameters \<Rightarrow> bool" where
  "unsaturated night initial ctime dtime now p \<longleftrightarrow>
     night * night_dust_ratio p \<le> u128_max \<and> night * generation_decay_rate p \<le> u128_max \<and>
     initial + (min dtime now - ctime) * (night * generation_decay_rate p) \<le> u128_max \<and>
     (now - dtime) * (night * generation_decay_rate p) \<le> u128_max"

lemma updated_value_ideal:
  assumes "unsaturated (gi_value g) (do_initial_value d) (do_ctime d) (gi_dtime g) now p"
  shows "updated_value d g now p = ideal_value (gi_value g) (do_initial_value d) (do_ctime d) (gi_dtime g) now p"
proof -
  have "(min (gi_dtime g) now - do_ctime d) * (gi_value g * generation_decay_rate p) \<le> u128_max"
    using assms unfolding unsaturated_def by linarith
  then show ?thesis
    using assms
    by (simp add: updated_value_def ideal_value_def unsaturated_def elapsed_eq Let_def sat_mul_def sat_add_def
        min_absorb1 add.commute)
qed

lemma updated_value_cap: "updated_value d g now p \<le> gi_value g * night_dust_ratio p"
  unfolding updated_value_def Let_def
  by (rule le_trans [OF diff_le_self], rule le_trans [OF min.cobounded2]) (simp add: sat_mul_def)

text \<open>Spending the output at an earlier time and continuing with the value it had then gives the
  same value later, while its Night is not spent.\<close>

lemma updated_value_compose:
  assumes "do_ctime d \<le> t1" "t1 \<le> t2" "t2 \<le> gi_dtime g"
    and "unsaturated (gi_value g) (do_initial_value d) (do_ctime d) (gi_dtime g) t2 p"
  shows "updated_value (d'\<lparr>do_initial_value := updated_value d g t1 p, do_ctime := t1\<rparr>) g t2 p = updated_value d g t2 p"
proof -
  let ?r = "gi_value g * generation_decay_rate p" and ?cap = "gi_value g * night_dust_ratio p"
  let ?i = "do_initial_value d" and ?c = "do_ctime d"
  have split: "(t2 - ?c) * ?r = (t1 - ?c) * ?r + (t2 - t1) * ?r"
    using assms(1,2) by (metis add_mult_distrib diff_add_inverse2 le_add_diff_inverse ordered_cancel_comm_monoid_diff_class.diff_add_assoc2)
  have m: "min (gi_dtime g) t1 = t1" "min (gi_dtime g) t2 = t2" "t1 - gi_dtime g = 0" "t2 - gi_dtime g = 0"
    using assms(2,3) by auto
  have b: "?i + (t2 - ?c) * ?r \<le> u128_max" "?cap \<le> u128_max" "?r \<le> u128_max"
    using assms(4) m by (simp_all add: unsaturated_def)
  have "unsaturated (gi_value g) ?i ?c (gi_dtime g) t1 p"
    using b split m by (simp add: unsaturated_def)
  from updated_value_ideal [OF this] m
  have v1: "updated_value d g t1 p = min (?i + (t1 - ?c) * ?r) ?cap" by (simp add: ideal_value_def)
  let ?d = "d'\<lparr>do_initial_value := updated_value d g t1 p, do_ctime := t1\<rparr>"
  have le: "updated_value d g t1 p + (t2 - t1) * ?r \<le> u128_max"
    using b(1) split v1 by linarith
  have "unsaturated (gi_value g) (do_initial_value ?d) (do_ctime ?d) (gi_dtime g) t2 p"
    using le b m by (simp add: unsaturated_def)
  from updated_value_ideal [OF this] m
  have "updated_value ?d g t2 p = min (updated_value d g t1 p + (t2 - t1) * ?r) ?cap"
    by (simp add: ideal_value_def)
  also have "\<dots> = min (?i + (t2 - ?c) * ?r) ?cap" unfolding v1 split by linarith
  also have "\<dots> = updated_value d g t2 p"
    using updated_value_ideal [OF assms(4)] m by (simp add: ideal_value_def)
  finally show ?thesis .
qed

section \<open>Trees filled from the left\<close>

definition filled :: "('h, 'f, 'a) mt_node \<Rightarrow> nat \<Rightarrow> bool" where
  "filled t n \<longleftrightarrow> mt_balanced t \<and> 1 \<le> mt_height t \<and> n \<le> 2 ^ mt_height t \<and>
     (\<forall>i < 2 ^ mt_height t. \<not> mt_collapsed_at t i \<and> (mt_index t i \<noteq> None \<longleftrightarrow> i < n))"

lemma filled_blank: "1 \<le> h \<Longrightarrow> filled (mt_blank h) 0"
  by (simp add: filled_def mt_blank_def)

lemma filled_rehash [simp]: "filled (mt_rehash H t) n = filled t n"
  by (simp add: filled_def)

lemma filled_set:
  assumes "filled t n" "try_update_hash t i x a = Ok t'" "i \<le> n"
  shows "t' = mt_set t i x a" "i < 2 ^ mt_height t" "filled t' (max n (Suc i))"
    "mt_index t' i = Some (x, a)" "j < 2 ^ mt_height t \<Longrightarrow> j \<noteq> i \<Longrightarrow> mt_index t' j = mt_index t j"
proof -
  have bal: "mt_balanced t" using assms(1) by (simp add: filled_def)
  then show t': "t' = mt_set t i x a" and i: "i < 2 ^ mt_height t"
    using assms(2) by (simp_all add: try_update_hash_iff)
  have same: "mt_index t' i = Some (x, a)" using assms(1) i t' by (simp add: filled_def mt_index_set_same)
  then show "mt_index t' i = Some (x, a)" .
  have other: "mt_index t' j = mt_index t j" if "j < 2 ^ mt_height t" "j \<noteq> i" for j
    using mt_index_set_other [OF bal i that] t' by simp
  then show "j < 2 ^ mt_height t \<Longrightarrow> j \<noteq> i \<Longrightarrow> mt_index t' j = mt_index t j" .
  show "filled t' (max n (Suc i))"
    unfolding filled_def
  proof (intro conjI allI impI)
    show "max n (Suc i) \<le> 2 ^ mt_height t'" using assms(1) i t' by (simp add: filled_def Suc_le_eq)
    show "\<not> mt_collapsed_at t' j" if "j < 2 ^ mt_height t'" for j
      using that assms(1) i t' by (simp add: filled_def mt_collapsed_at_set)
    show "(mt_index t' j \<noteq> None) = (j < max n (Suc i))" if "j < 2 ^ mt_height t'" for j
    proof (cases "j = i")
      case False
      with that t' other [of j] assms(1,3) show ?thesis by (auto simp: filled_def less_Suc_eq)
    qed (simp add: same)
  qed (use assms(1) t' in \<open>simp_all add: filled_def\<close>)
qed

lemma filled_update_total: "filled t n \<Longrightarrow> i < 2 ^ mt_height t \<Longrightarrow> try_update_hash t i x a = Ok (mt_set t i x a)"
  by (rule try_update_hash_Ok) (simp_all add: filled_def)

lemma filled_full: "filled t n \<Longrightarrow> try_update_hash t n x a = Err e \<longleftrightarrow> n = 2 ^ mt_height t \<and> e = IndexOutOfTree n"
  using filled_update_total [of t n n x a] try_update_hash_out_of_tree [of t n x a]
  by (cases "n < 2 ^ mt_height t") (auto simp: filled_def)

lemma evidence_available:
  assumes "filled t n" "i < n" "try_update_hash t i x a = Ok t'"
  shows "\<exists>ev. insertion_evidence H (mt_rehash H t') i = Ok ev"
proof -
  have i: "i < 2 ^ mt_height t" using assms by (auto simp: filled_def)
  have "mt_index t i \<noteq> None" using assms(1,2) i unfolding filled_def by blast
  then obtain y where y: "mt_index t i = Some y" by blast
  have t': "t' = mt_set t i x a" "\<not> mt_collapsed_at t i" "1 \<le> mt_height t" "mt_balanced t"
    using assms i by (auto simp: filled_def try_update_hash_iff)
  from evidence_loop [OF blinds_refl t'(4) y i t'(3)] obtain path where
    "path_for_index_loop H i False (mt_rehash H t') i = Ok path" unfolding t'(1) by blast
  then show ?thesis using t'
    by (simp add: insertion_evidence_def path_for_index_internal_def mt_index_set_same)
qed

text \<open>The leaves of a filled tree, in order.\<close>

definition leaves :: "('h, 'f, 'a) mt_node \<Rightarrow> nat \<Rightarrow> ('h \<times> 'a) list" where
  "leaves t n = map (\<lambda>i. the (mt_index t i)) [0..<n]"

lemma leaves_length [simp]: "length (leaves t n) = n"
  by (simp add: leaves_def)

lemma leaves_rehash [simp]: "leaves (mt_rehash H t) n = leaves t n"
  by (simp add: leaves_def)

lemma leaves_blank [simp]: "leaves t 0 = []"
  by (simp add: leaves_def)

lemma leaves_nth: "filled t n \<Longrightarrow> i < n \<Longrightarrow> mt_index t i = Some (leaves t n ! i)"
  unfolding filled_def leaves_def by (metis (no_types, lifting) add.left_neutral diff_zero length_upt nth_map
      nth_upt option.collapse order_less_le_trans)

lemma leaves_append:
  assumes "filled t n" "try_update_hash t n x a = Ok t'"
  shows "filled t' (Suc n)" "leaves t' (Suc n) = leaves t n @ [(x, a)]"
proof -
  note f = filled_set [OF assms order_refl]
  show "filled t' (Suc n)" using f(3) by simp
  show "leaves t' (Suc n) = leaves t n @ [(x, a)]" using f(2,4,5) by (auto simp: leaves_def)
qed

lemma leaves_update:
  assumes "filled t n" "try_update_hash t i x a = Ok t'" "i < n"
  shows "filled t' n" "leaves t' n = (leaves t n)[i := (x, a)]"
proof -
  note f = filled_set [OF assms(1,2) less_imp_le [OF assms(3)]]
  have "max n (Suc i) = n" using assms(3) by (simp add: max_absorb1 Suc_le_eq)
  then show "filled t' n" using f(3) by simp
  have n: "n \<le> 2 ^ mt_height t" using assms(1) by (simp add: filled_def)
  show "leaves t' n = (leaves t n)[i := (x, a)]"
  proof (rule nth_equalityI)
    fix j assume "j < length (leaves t' n)"
    then have "j < n" by simp
    then show "leaves t' n ! j = (leaves t n)[i := (x, a)] ! j"
      using f(4) f(5) [of j] n by (cases "j = i") (simp_all add: leaves_def)
  qed simp
qed

section \<open>The invariant of the dust state\<close>

definition infos :: "'f dust_state \<Rightarrow> 'f dust_generation_info list" where
  "infos s = map snd (leaves (generating_tree (d_generation s)) (generating_tree_first_free (d_generation s)))"

definition dust_ok :: "('k, 'f, 'a, 'b) crypto \<Rightarrow> 'f dust_state \<Rightarrow> bool" where
  "dust_ok E s \<longleftrightarrow>
     filled (commitments (d_utxo s)) (commitments_first_free (d_utxo s)) \<and>
     filled (generating_tree (d_generation s)) (generating_tree_first_free (d_generation s)) \<and>
     (\<forall>p \<in> set (leaves (generating_tree (d_generation s)) (generating_tree_first_free (d_generation s))).
        fst p = merkle_hash E (snd p)) \<and>
     distinct (map uniqueness (infos s)) \<and> generating_set (d_generation s) = uniqueness ` set (infos s) \<and>
     (\<forall>n i. night_indices (d_generation s) n = Some i \<longrightarrow> i < length (infos s) \<and> gi_nonce (infos s ! i) = n)"

lemma infos_length [simp]: "length (infos s) = generating_tree_first_free (d_generation s)"
  by (simp add: infos_def)

lemma infos_utxo [simp]: "infos (s\<lparr>d_utxo := u\<rparr>) = infos s"
  by (simp add: infos_def)

lemma dust_ok_default: "dust_ok E dust_state_default"
  by (simp add: dust_ok_def dust_state_default_def dust_utxo_state_default_def dust_generation_state_default_def
      infos_def filled_blank DUST_COMMITMENT_TREE_DEPTH_def DUST_GENERATION_TREE_DEPTH_def)

definition forceable :: "('k, 'f, 'a, 'b) crypto \<Rightarrow> 'f deferred_event \<Rightarrow> bool" where
  "forceable E ev \<longleftrightarrow> (\<exists>e. force_event E ev = (Ok e :: (unit, 'f dust_event) result))"

lemma forceable_Ready [simp]: "forceable E (Ready e)"
  by (simp add: forceable_def force_event_def)

definition step_ok :: "('k, 'f, 'a, 'b) crypto \<Rightarrow> 'f dust_step \<Rightarrow> bool" where
  "step_ok E st \<longleftrightarrow> dust_ok E (fst st) \<and> list_all (forceable E) (snd st)"

lemma apply_spend_iff:
  "apply_spend E (s, evs) sp time tblock = Ok st' \<longleftrightarrow>
     ds_old_nullifier sp \<notin> dust_nullifiers (d_utxo s) \<and>
     (\<exists>tree. try_update_hash (commitments (d_utxo s)) (commitments_first_free (d_utxo s))
        (upgrade_from_transient E (ds_new_commitment sp)) () = Ok tree \<and>
      st' = (s\<lparr>d_utxo := (d_utxo s)\<lparr>commitments := tree,
          commitments_first_free := commitments_first_free (d_utxo s) + 1,
          dust_nullifiers := insert (ds_old_nullifier sp) (dust_nullifiers (d_utxo s))\<rparr>\<rparr>,
        evs @ [Ready (DustSpendProcessed (ds_new_commitment sp) (commitments_first_free (d_utxo s))
          (ds_old_nullifier sp) (ds_v_fee sp) time tblock)]))"
  by (auto simp: apply_spend_def Let_def result_simps)

lemma apply_spend_ok:
  assumes "step_ok E st" "apply_spend E st sp time tblock = Ok st'"
  shows "step_ok E st'"
proof -
  obtain s evs where st: "st = (s, evs)" by (cases st)
  obtain tree where t: "try_update_hash (commitments (d_utxo s)) (commitments_first_free (d_utxo s))
        (upgrade_from_transient E (ds_new_commitment sp)) () = Ok tree"
    and st': "st' = (s\<lparr>d_utxo := (d_utxo s)\<lparr>commitments := tree,
          commitments_first_free := commitments_first_free (d_utxo s) + 1,
          dust_nullifiers := insert (ds_old_nullifier sp) (dust_nullifiers (d_utxo s))\<rparr>\<rparr>,
        evs @ [Ready (DustSpendProcessed (ds_new_commitment sp) (commitments_first_free (d_utxo s))
          (ds_old_nullifier sp) (ds_v_fee sp) time tblock)])"
    using assms(2) unfolding st apply_spend_iff by blast
  have "filled tree (Suc (commitments_first_free (d_utxo s)))"
    using assms(1) leaves_append(1) [OF _ t] by (simp add: st step_ok_def dust_ok_def)
  then show ?thesis using assms(1) by (simp add: st st' step_ok_def dust_ok_def)
qed

text \<open>A new output appends one commitment and one generation info and points the index at it.\<close>

definition grown :: "('k, 'f, 'a, 'b) crypto \<Rightarrow> 'f dust_state \<Rightarrow> initial_nonce \<Rightarrow> nat \<Rightarrow> 'f \<Rightarrow> 'f dust_state \<Rightarrow> bool" where
  "grown E s n v addr s' \<longleftrightarrow>
     (let info = \<lparr>gi_value = v, gi_owner = addr, gi_nonce = n, gi_dtime = u64_max\<rparr> in
      filled (commitments (d_utxo s')) (Suc (commitments_first_free (d_utxo s))) \<and>
      commitments_first_free (d_utxo s') = Suc (commitments_first_free (d_utxo s)) \<and>
      filled (generating_tree (d_generation s')) (Suc (generating_tree_first_free (d_generation s))) \<and>
      generating_tree_first_free (d_generation s') = Suc (generating_tree_first_free (d_generation s)) \<and>
      leaves (generating_tree (d_generation s')) (Suc (generating_tree_first_free (d_generation s))) =
        leaves (generating_tree (d_generation s)) (generating_tree_first_free (d_generation s)) @ [(merkle_hash E info, info)] \<and>
      uniqueness info \<notin> generating_set (d_generation s) \<and>
      generating_set (d_generation s') = insert (uniqueness info) (generating_set (d_generation s)) \<and>
      night_indices (d_generation s') =
        (night_indices (d_generation s))(n \<mapsto> generating_tree_first_free (d_generation s)) \<and>
      dust_nullifiers (d_utxo s') = dust_nullifiers (d_utxo s) \<and>
      address_delegation (d_generation s') = address_delegation (d_generation s))"

lemma fresh_dust_output_grown:
  assumes "dust_ok E s" "fresh_dust_output E (s, evs) n iv v addr tnow tblock = Ok (s', evs')"
  shows "grown E s n v addr s'"
    "\<exists>i. evs' = evs @ [Ready (DustInitialUtxo
        \<lparr>qd_initial_value = iv, qd_owner = addr, qd_nonce = dust_first_nonce E n addr, qd_seq = 0, qd_ctime = tnow,
         qd_backing_night = n, qd_mt_index = commitments_first_free (d_utxo s)\<rparr>
        \<lparr>gi_value = v, gi_owner = addr, gi_nonce = n, gi_dtime = u64_max\<rparr> i tblock)]"
proof -
  let ?info = "\<lparr>gi_value = v, gi_owner = addr, gi_nonce = n, gi_dtime = u64_max\<rparr>"
  obtain h coms gens where
    c: "try_update_hash (commitments (d_utxo s)) (commitments_first_free (d_utxo s)) h () = Ok coms"
    and g: "try_update_hash (generating_tree (d_generation s)) (generating_tree_first_free (d_generation s))
      (merkle_hash E ?info) ?info = Ok gens"
    and u: "uniqueness ?info \<notin> generating_set (d_generation s)"
    and s': "d_utxo s' = (d_utxo s)\<lparr>commitments := coms, commitments_first_free := commitments_first_free (d_utxo s) + 1\<rparr>"
      "d_generation s' = (d_generation s)\<lparr>generating_set := insert (uniqueness ?info) (generating_set (d_generation s)),
         generating_tree := gens,
         night_indices := (night_indices (d_generation s))(n \<mapsto> generating_tree_first_free (d_generation s)),
         generating_tree_first_free := generating_tree_first_free (d_generation s) + 1\<rparr>"
    using assms(2) by (auto simp: fresh_dust_output_def Let_def result_simps split: if_splits)
  have f: "filled (commitments (d_utxo s)) (commitments_first_free (d_utxo s))"
    "filled (generating_tree (d_generation s)) (generating_tree_first_free (d_generation s))"
    using assms(1) by (simp_all add: dust_ok_def)
  show "grown E s n v addr s'"
    unfolding grown_def Let_def s' using leaves_append [OF f(1) c] leaves_append [OF f(2) g] u by simp
  show "\<exists>i. evs' = evs @ [Ready (DustInitialUtxo
        \<lparr>qd_initial_value = iv, qd_owner = addr, qd_nonce = dust_first_nonce E n addr, qd_seq = 0, qd_ctime = tnow,
         qd_backing_night = n, qd_mt_index = commitments_first_free (d_utxo s)\<rparr> ?info i tblock)]"
    using assms(2) by (auto simp: fresh_dust_output_def Let_def result_simps split: if_splits)
qed

lemma fresh_dust_output_total:
  assumes "dust_ok E s"
    and "commitments_first_free (d_utxo s) < 2 ^ mt_height (commitments (d_utxo s))"
    and "generating_tree_first_free (d_generation s) < 2 ^ mt_height (generating_tree (d_generation s))"
    and "\<lparr>gu_value = v, gu_owner = addr, gu_nonce = n\<rparr> \<notin> generating_set (d_generation s)"
  shows "\<exists>s' evs'. fresh_dust_output E (s, evs) n iv v addr tnow tblock = Ok (s', evs')"
proof -
  have "filled (commitments (d_utxo s)) (commitments_first_free (d_utxo s))"
    "filled (generating_tree (d_generation s)) (generating_tree_first_free (d_generation s))"
    using assms(1) by (simp_all add: dust_ok_def)
  from filled_update_total [OF this(1) assms(2)] filled_update_total [OF this(2) assms(3)] assms(4)
  show ?thesis by (simp add: fresh_dust_output_def Let_def uniqueness_def)
qed

lemma grown_ok:
  assumes "dust_ok E s" "grown E s n v addr s'"
  shows "dust_ok E s'"
proof -
  let ?info = "\<lparr>gi_value = v, gi_owner = addr, gi_nonce = n, gi_dtime = u64_max\<rparr>"
  have i: "infos s' = infos s @ [?info]" using assms(2) by (simp add: infos_def grown_def Let_def)
  have "gi_nonce (infos s' ! j) = m \<and> j < length (infos s')" if "night_indices (d_generation s') m = Some j" for m j
  proof (cases "m = n")
    case True
    with that assms(2) have "j = generating_tree_first_free (d_generation s)" by (simp add: grown_def Let_def)
    with True show ?thesis using i by (simp add: nth_append)
  next
    case False
    with that assms(2) have "night_indices (d_generation s) m = Some j" by (simp add: grown_def Let_def)
    with assms(1) have "j < length (infos s) \<and> gi_nonce (infos s ! j) = m" unfolding dust_ok_def by blast
    then show ?thesis using i by (simp add: nth_append)
  qed
  then show ?thesis using assms i unfolding dust_ok_def grown_def Let_def by auto
qed

lemma fresh_dust_output_ok:
  assumes "step_ok E st" "fresh_dust_output E st n iv v addr tnow tblock = Ok st'"
  shows "step_ok E st'"
proof -
  obtain s evs s' evs' where e: "st = (s, evs)" "st' = (s', evs')" by (cases st, cases st')
  have d: "dust_ok E s" "fresh_dust_output E (s, evs) n iv v addr tnow tblock = Ok (s', evs')"
    using assms e by (simp_all add: step_ok_def)
  from grown_ok [OF d(1) fresh_dust_output_grown(1) [OF d]] fresh_dust_output_grown(2) [OF d] assms(1)
  show ?thesis by (auto simp: e step_ok_def)
qed

lemma update_delegation_iff:
  "update_delegation s a d = Ok s' \<longleftrightarrow>
     (d = None \<longrightarrow> address_delegation (d_generation s) a \<noteq> None) \<and>
     s' = s\<lparr>d_generation := (d_generation s)\<lparr>address_delegation := (address_delegation (d_generation s))(a := d)\<rparr>\<rparr>"
  by (auto simp: update_delegation_def Let_def split: option.splits)

lemma infos_delegation [simp]: "infos (s\<lparr>d_generation := (d_generation s)\<lparr>address_delegation := d\<rparr>\<rparr>) = infos s"
  by (simp add: infos_def)

lemma update_delegation_ok: "dust_ok E s \<Longrightarrow> update_delegation s a d = Ok s' \<Longrightarrow> dust_ok E s'"
  by (simp add: update_delegation_iff dust_ok_def)

lemma register_output_ok:
  "step_ok E st \<Longrightarrow> register_output E ih osum dout addr tnow tblock st p = Ok st' \<Longrightarrow> step_ok E st'"
  by (cases p) (auto simp: register_output_def result_simps intro: fresh_dust_output_ok)

text \<open>The parts of a successful registration.\<close>

abbreviation reg_owned ::
  "('k, 'f, 'a, 'b) crypto \<Rightarrow> ('k, 'f, 'a, 'b) erased_intent \<Rightarrow> ('k, 'f, 's) dust_registration \<Rightarrow> (nat \<times> utxo_output) list" where
  "reg_owned E parent reg \<equiv> owned_outputs (guaranteed_unshielded_offer parent) (key_address E (dr_night_key reg))"

abbreviation reg_loop ::
  "('k, 'f, 'a, 'b) crypto \<Rightarrow> ('k, 'f, 'a, 'b) erased_intent \<Rightarrow> ('k, 'f, 's) dust_registration \<Rightarrow> nat \<Rightarrow> 'f \<Rightarrow>
   timestamp \<Rightarrow> timestamp \<Rightarrow> 'f dust_step \<Rightarrow> ('f dust_error, 'f dust_step) result" where
  "reg_loop E parent reg out a tnow tblock st \<equiv>
     try_fold (register_output E (intent_hash E parent 0)
       (fold (\<lambda>p a. sat_add u128_max a (uo_value (snd p))) (reg_owned E parent reg) 0) out a tnow tblock) st
       (reg_owned E parent reg)"

lemma apply_registration_cases:
  assumes "apply_registration E (s, evs) us fees parent reg params tnow tblock = Ok (st', fees')"
  obtains s' dust_in paid where
    "update_delegation s (key_address E (dr_night_key reg)) (dr_dust_address reg) = Ok s'"
    "dust_in = generationless_fee_availability E s us parent (dr_night_key reg) params"
    "paid = min fees (min (dr_allow_fee_payment reg) dust_in)" "fees' = fees - paid"
    "dr_dust_address reg = None \<Longrightarrow> st' = (s', evs)"
    "\<And>a. dr_dust_address reg = Some a \<Longrightarrow>
       reg_loop E parent reg (dust_in - paid) a tnow tblock (s', evs) = Ok st'"
  using assms by (cases "dr_dust_address reg") (auto simp: apply_registration_def Let_def result_simps)

lemma apply_registration_ok:
  assumes "step_ok E st" "apply_registration E st us fees parent reg params tnow tblock = Ok (st', fees')"
  shows "step_ok E st'"
proof -
  obtain s evs where st: "st = (s, evs)" by (cases st)
  show ?thesis
  proof (rule apply_registration_cases [OF assms(2) [unfolded st]])
    fix s' dust_in paid
    assume s': "update_delegation s (key_address E (dr_night_key reg)) (dr_dust_address reg) = Ok s'"
      and none: "dr_dust_address reg = None \<Longrightarrow> st' = (s', evs)"
      and some: "\<And>a. dr_dust_address reg = Some a \<Longrightarrow>
        reg_loop E parent reg (dust_in - paid) a tnow tblock (s', evs) = Ok st'"
    have ok: "step_ok E (s', evs)" using assms(1) update_delegation_ok [OF _ s'] by (auto simp: st step_ok_def)
    show ?thesis
    proof (cases "dr_dust_address reg")
      case (Some a)
      show ?thesis
        using some [OF Some] by (rule try_fold_invariant [where I = "step_ok E"]) (blast intro: ok register_output_ok)+
    qed (simp add: none ok)
  qed
qed

text \<open>Under the invariant a spent output that generated dust is always found in the tree: the branch
  of the source that reports a violated invariant is not taken, and the update cannot fail.\<close>

lemma night_index_backed:
  assumes "dust_ok E s" "night_indices (d_generation s) n = Some idx"
  shows "idx < generating_tree_first_free (d_generation s)"
    "mt_index (generating_tree (d_generation s)) idx = Some (merkle_hash E (infos s ! idx), infos s ! idx)"
    "gi_nonce (infos s ! idx) = n"
proof -
  show i: "idx < generating_tree_first_free (d_generation s)" and "gi_nonce (infos s ! idx) = n"
    using assms unfolding dust_ok_def infos_length by blast+
  let ?L = "leaves (generating_tree (d_generation s)) (generating_tree_first_free (d_generation s))"
  have "mt_index (generating_tree (d_generation s)) idx = Some (?L ! idx)"
    using assms(1) i leaves_nth unfolding dust_ok_def by blast
  moreover have "?L ! idx \<in> set ?L" using i by simp
  then have "fst (?L ! idx) = merkle_hash E (snd (?L ! idx))" using assms(1) unfolding dust_ok_def by blast
  ultimately show "mt_index (generating_tree (d_generation s)) idx = Some (merkle_hash E (infos s ! idx), infos s ! idx)"
    using i by (simp add: infos_def prod_eq_iff)
qed

text \<open>Ending the generation of the entry at an index.\<close>

definition stopped :: "('k, 'f, 'a, 'b) crypto \<Rightarrow> timestamp \<Rightarrow> nat \<Rightarrow> 'f dust_state \<Rightarrow> 'f dust_state" where
  "stopped E t idx s =
     (let g = d_generation s; info = (infos s ! idx)\<lparr>gi_dtime := t\<rparr>
      in s\<lparr>d_generation := g\<lparr>generating_tree := mt_set (generating_tree g) idx (merkle_hash E info) info\<rparr>\<rparr>)"

lemma stopped_update:
  assumes "dust_ok E s" "night_indices (d_generation s) n = Some idx"
  shows "try_update_hash (generating_tree (d_generation s)) idx
      (merkle_hash E ((infos s ! idx)\<lparr>gi_dtime := t\<rparr>)) ((infos s ! idx)\<lparr>gi_dtime := t\<rparr>) =
    Ok (generating_tree (d_generation (stopped E t idx s)))"
proof -
  let ?g = "d_generation s"
  have f: "filled (generating_tree ?g) (generating_tree_first_free ?g)" using assms(1) by (simp add: dust_ok_def)
  have "idx < 2 ^ mt_height (generating_tree ?g)"
    using f night_index_backed(1) [OF assms] by (simp add: filled_def)
  from filled_update_total [OF f this] show ?thesis by (simp add: stopped_def Let_def)
qed

lemma uniqueness_dtime [simp]: "uniqueness (gi\<lparr>gi_dtime := t\<rparr>) = uniqueness gi"
  by (simp add: uniqueness_def)

lemma stopped_infos:
  assumes "dust_ok E s" "night_indices (d_generation s) n = Some idx"
  shows "infos (stopped E t idx s) = (infos s)[idx := (infos s ! idx)\<lparr>gi_dtime := t\<rparr>]"
proof -
  have f: "filled (generating_tree (d_generation s)) (generating_tree_first_free (d_generation s))"
    using assms(1) by (simp add: dust_ok_def)
  note l = leaves_update [OF f stopped_update [OF assms, of t] night_index_backed(1) [OF assms]]
  have "generating_tree_first_free (d_generation (stopped E t idx s)) = generating_tree_first_free (d_generation s)"
    by (simp add: stopped_def Let_def)
  then show ?thesis using l(2) by (simp add: infos_def map_update)
qed

lemma stopped_ok:
  assumes "dust_ok E s" "night_indices (d_generation s) n = Some idx"
  shows "dust_ok E (stopped E t idx s)"
proof -
  let ?s = "stopped E t idx s" and ?g = "d_generation s"
  have keep: "d_utxo ?s = d_utxo s" "generating_tree_first_free (d_generation ?s) = generating_tree_first_free ?g"
    "generating_set (d_generation ?s) = generating_set ?g" "night_indices (d_generation ?s) = night_indices ?g"
    by (simp_all add: stopped_def Let_def)
  have f: "filled (generating_tree ?g) (generating_tree_first_free ?g)" using assms(1) by (simp add: dust_ok_def)
  note l = leaves_update [OF f stopped_update [OF assms, of t] night_index_backed(1) [OF assms]]
  note i = stopped_infos [OF assms, of t]
  have idx: "idx < length (infos s)" using night_index_backed(1) [OF assms] by simp
  have u: "map uniqueness (infos ?s) = map uniqueness (infos s)"
    unfolding i map_update uniqueness_dtime using idx by (metis list_update_id nth_map)
  have "fst p = merkle_hash E (snd p)"
    if "p \<in> set (leaves (generating_tree (d_generation ?s)) (generating_tree_first_free ?g))" for p
    using that assms(1) set_update_subset_insert unfolding l(2) dust_ok_def by fastforce
  moreover have "gi_nonce (infos ?s ! j) = m \<and> j < length (infos ?s)" if "night_indices ?g m = Some j" for m j
    using night_index_backed(1,3) [OF assms(1) that] unfolding i by (cases "j = idx") auto
  ultimately show ?thesis
    using assms(1) l(1) u keep by (simp add: dust_ok_def) (metis image_set list.set_map)
qed

lemma stop_generating_ok:
  assumes "step_ok E st" "stop_generating E tblock st inp = Ok st'"
  shows "step_ok E st'"
proof -
  obtain s evs where st: "st = (s, evs)" by (cases st)
  have ok: "dust_ok E s" using assms(1) by (simp add: st step_ok_def)
  show ?thesis
  proof (cases "night_indices (d_generation s) (spend_nonce E inp)")
    case None
    then show ?thesis using assms by (auto simp: stop_generating_def st)
  next
    case (Some idx)
    note b = night_index_backed [OF ok Some]
    note u = stopped_update [OF ok Some, of tblock]
    have st': "st' = (stopped E tblock idx s, evs @ [DtimeUpdateOf (generating_tree (d_generation (stopped E tblock idx s))) idx tblock])"
      using assms(2) Some b(2) u by (auto simp: stop_generating_def st Let_def stopped_def)
    have "filled (generating_tree (d_generation s)) (generating_tree_first_free (d_generation s))"
      using ok by (simp add: dust_ok_def)
    from evidence_available [OF this b(1) u, of "tree_hashing E"]
    have "forceable E (DtimeUpdateOf (generating_tree (d_generation (stopped E tblock idx s))) idx tblock)"
      by (auto simp: forceable_def force_event_def)
    then show ?thesis using assms(1) stopped_ok [OF ok Some] by (simp add: st st' step_ok_def)
  qed
qed

lemma stop_generating_found:
  assumes "dust_ok E s" "night_indices (d_generation s) (spend_nonce E inp) = Some idx"
  shows "stop_generating E tblock (s, evs) inp =
    Ok (stopped E tblock idx s, evs @ [DtimeUpdateOf (generating_tree (d_generation (stopped E tblock idx s))) idx tblock])"
  using assms(2) night_index_backed(2) [OF assms] stopped_update [OF assms, of tblock]
  by (auto simp: stop_generating_def Let_def stopped_def)

lemma stop_generating_total:
  assumes "dust_ok E s"
  shows "\<exists>st'. stop_generating E tblock (s, evs) inp = Ok st'"
proof (cases "night_indices (d_generation s) (spend_nonce E inp)")
  case (Some idx)
  from stop_generating_found [OF assms Some] show ?thesis by blast
qed (simp add: stop_generating_def)

lemma start_generating_ok:
  "step_ok E st \<Longrightarrow> start_generating E parent segment tblock st p = Ok st' \<Longrightarrow> step_ok E st'"
  by (cases p) (auto simp: start_generating_def Let_def result_simps split: option.splits if_splits
      intro: fresh_dust_output_ok)

lemma dust_apply_offer_ok:
  assumes "step_ok E st" "dust_apply_offer E st ofr parent segment tblock = Ok st'"
  shows "step_ok E st'"
proof -
  obtain st1 where
    1: "try_fold (stop_generating E tblock) st (filter (\<lambda>i. us_type i = NIGHT) (uof_inputs ofr)) = Ok st1" and
    2: "try_fold (start_generating E parent segment tblock) st1
      (filter (\<lambda>(_, out). uo_type out = NIGHT) (enumerate 0 (uof_outputs ofr))) = Ok st'"
    using assms(2) by (auto simp: dust_apply_offer_def result_simps)
  have "step_ok E st1"
    using 1 by (rule try_fold_invariant [where I = "step_ok E"]) (blast intro: assms(1) stop_generating_ok)+
  then show ?thesis
    using 2 by (auto elim!: try_fold_invariant [where I = "step_ok E"] intro: start_generating_ok)
qed

lemma infos_post_block_update [simp]: "infos (dust_post_block_update E s tblock ttl) = infos s"
  by (simp add: dust_post_block_update_def Let_def infos_def)

lemma dust_post_block_update_ok: "dust_ok E s \<Longrightarrow> dust_ok E (dust_post_block_update E s tblock ttl)"
  unfolding dust_ok_def infos_post_block_update by (simp add: dust_post_block_update_def Let_def)

lemmas dust_ok_steps = apply_spend_ok apply_registration_ok dust_apply_offer_ok fresh_dust_output_ok

section \<open>Runs of the dust state\<close>

text \<open>The histories of the dust state: the transitions the ledger makes, in any order, with the
  nullifiers spent and the events emitted.\<close>

inductive dust_run :: "('k, 'f, 'a, 'b) crypto \<Rightarrow> 'f list \<Rightarrow> 'f dust_step \<Rightarrow> bool" for E where
  start: "dust_run E [] (dust_state_default, [])"
| spend: "dust_run E (ns @ [ds_old_nullifier sp]) st'"
    if "dust_run E ns st" "apply_spend E st (sp :: ('f, unit) dust_spend) time tblock = Ok st'"
| register: "dust_run E ns st'"
    if "dust_run E ns st"
      "apply_registration E st us fees parent (reg :: ('k, 'f, unit) dust_registration) params tnow tblock = Ok (st', fees')"
| unshielded: "dust_run E ns st'"
    if "dust_run E ns st" "dust_apply_offer E st (ofr :: ('k, unit) unshielded_offer) parent segment tblock = Ok st'"
| create: "dust_run E ns st'"
    if "dust_run E ns st" "fresh_dust_output E st n iv v addr tnow tblock = Ok st'"
| block: "dust_run E ns (dust_post_block_update E s tblock ttl, evs)"
    if "dust_run E ns (s, evs)"

lemma dust_run_ok: "dust_run E ns st \<Longrightarrow> step_ok E st"
proof (induction rule: dust_run.induct)
  case start
  show ?case by (simp add: step_ok_def dust_ok_default)
next
  case (block ns s evs tblock ttl)
  then show ?case by (simp add: step_ok_def dust_post_block_update_ok)
qed (blast intro: dust_ok_steps)+

abbreviation nulls :: "'f dust_step \<Rightarrow> 'f set" where
  "nulls st \<equiv> dust_nullifiers (d_utxo (fst st))"

lemma apply_spend_nulls:
  "apply_spend E st sp time tblock = Ok st' \<Longrightarrow> ds_old_nullifier sp \<notin> nulls st \<and> nulls st' = insert (ds_old_nullifier sp) (nulls st)"
  by (cases st) (auto simp: apply_spend_iff)

lemma fresh_dust_output_nulls: "fresh_dust_output E st n iv v addr tnow tblock = Ok st' \<Longrightarrow> nulls st' = nulls st"
  by (cases st) (auto simp: fresh_dust_output_def Let_def result_simps split: if_splits)

lemma update_delegation_nulls: "update_delegation s a d = Ok s' \<Longrightarrow> dust_nullifiers (d_utxo s') = dust_nullifiers (d_utxo s)"
  by (simp add: update_delegation_iff)

lemma register_output_nulls:
  "register_output E ih osum dout addr tnow tblock st p = Ok st' \<Longrightarrow> nulls st' = nulls st"
  by (cases p) (auto simp: register_output_def result_simps dest!: fresh_dust_output_nulls)

lemma try_fold_nulls:
  assumes "try_fold f st xs = Ok st'" "\<And>st x st'. f st x = Ok st' \<Longrightarrow> nulls st' = nulls st"
  shows "nulls st' = nulls st"
  using assms(1) by (rule try_fold_invariant [where I = "\<lambda>t. nulls t = nulls st"]) (simp_all add: assms(2))

lemma apply_registration_nulls:
  assumes "apply_registration E st us fees parent reg params tnow tblock = Ok (st', fees')"
  shows "nulls st' = nulls st"
proof -
  obtain s evs where st: "st = (s, evs)" by (cases st)
  show ?thesis
  proof (rule apply_registration_cases [OF assms [unfolded st]])
    fix s' dust_in paid
    assume s': "update_delegation s (key_address E (dr_night_key reg)) (dr_dust_address reg) = Ok s'"
      and none: "dr_dust_address reg = None \<Longrightarrow> st' = (s', evs)"
      and some: "\<And>a. dr_dust_address reg = Some a \<Longrightarrow>
        reg_loop E parent reg (dust_in - paid) a tnow tblock (s', evs) = Ok st'"
    show ?thesis
    proof (cases "dr_dust_address reg")
      case (Some a)
      have "nulls st' = nulls (s', evs)" using some [OF Some] by (rule try_fold_nulls) (rule register_output_nulls)
      then show ?thesis using update_delegation_nulls [OF s'] by (simp add: st)
    qed (simp add: none st update_delegation_nulls [OF s'])
  qed
qed

lemma stop_generating_nulls: "stop_generating E tblock st inp = Ok st' \<Longrightarrow> nulls st' = nulls st"
  by (cases st) (auto simp: stop_generating_def Let_def result_simps split: option.splits prod.splits)

lemma start_generating_nulls: "start_generating E parent segment tblock st p = Ok st' \<Longrightarrow> nulls st' = nulls st"
  by (cases p) (auto simp: start_generating_def Let_def result_simps split: option.splits if_splits
      dest!: fresh_dust_output_nulls)

lemma dust_apply_offer_nulls:
  assumes "dust_apply_offer E st ofr parent segment tblock = Ok st'"
  shows "nulls st' = nulls st"
proof -
  from assms obtain st1 where
    1: "try_fold (stop_generating E tblock) st (filter (\<lambda>i. us_type i = NIGHT) (uof_inputs ofr)) = Ok st1" and
    2: "try_fold (start_generating E parent segment tblock) st1
      (filter (\<lambda>(_, out). uo_type out = NIGHT) (enumerate 0 (uof_outputs ofr))) = Ok st'"
    by (auto simp: dust_apply_offer_def result_simps)
  have "nulls st1 = nulls st" using 1 by (rule try_fold_nulls) (rule stop_generating_nulls)
  moreover have "nulls st' = nulls st1" using 2 by (rule try_fold_nulls) (rule start_generating_nulls)
  ultimately show ?thesis by simp
qed

lemma dust_run_nulls: "dust_run E ns st \<Longrightarrow> distinct ns \<and> set ns = nulls st"
proof (induction rule: dust_run.induct)
  case (spend ns st sp time tblock st')
  with apply_spend_nulls [OF spend.hyps(2)] show ?case by auto
next
  case (block ns s evs tblock ttl)
  then show ?case by (simp add: dust_post_block_update_def Let_def)
qed (simp_all add: dust_state_default_def dust_utxo_state_default_def
    apply_registration_nulls dust_apply_offer_nulls fresh_dust_output_nulls)

section \<open>Registrations conserve dust\<close>

definition initial_value_of :: "'f deferred_event \<Rightarrow> nat" where
  "initial_value_of ev = (case ev of Ready (DustInitialUtxo q _ _ _) \<Rightarrow> qd_initial_value q | _ \<Rightarrow> 0)"

lemma fresh_dust_output_events:
  assumes "fresh_dust_output E st n iv v addr tnow tblock = Ok st'"
  shows "\<exists>ev. snd st' = snd st @ [ev] \<and> initial_value_of ev = iv"
  using assms by (cases st) (auto simp: fresh_dust_output_def Let_def result_simps initial_value_of_def split: if_splits)

lemma sum_div_le: "(\<Sum>x\<leftarrow>xs. f x div (c::nat)) \<le> (\<Sum>x\<leftarrow>xs. f x) div c"
proof (induction xs)
  case (Cons x xs)
  have "a div c + b div c \<le> (a + b) div c" for a b using div_add1_eq [of a b c] by linarith
  from order_trans [OF add_left_mono [OF Cons.IH] this] show ?case by simp
qed simp

lemma distribution_bound:
  assumes "S = (\<Sum>v\<leftarrow>vs. v)" "S \<noteq> 0" "R > (0::nat)"
  shows "(\<Sum>v\<leftarrow>vs. (v * R div S) * D div R) \<le> D"
proof -
  have "(\<Sum>v\<leftarrow>vs. v * R div S) \<le> (\<Sum>v\<leftarrow>vs. v * R) div S" by (rule sum_div_le)
  also have "\<dots> = R" using assms by (simp add: sum_list_mult_const)
  finally have le: "(\<Sum>v\<leftarrow>vs. v * R div S) \<le> R" .
  have "(\<Sum>v\<leftarrow>vs. (v * R div S) * D div R) \<le> (\<Sum>v\<leftarrow>vs. (v * R div S) * D) div R" by (rule sum_div_le)
  also have "\<dots> = (\<Sum>v\<leftarrow>vs. v * R div S) * D div R" by (simp add: sum_list_mult_const)
  also have "\<dots> \<le> R * D div R" by (intro div_le_mono mult_right_mono le) simp
  also have "\<dots> = D" using assms(3) by simp
  finally show ?thesis .
qed

lemma register_outputs_events:
  assumes "try_fold (register_output E ih S D addr tnow tblock) st ps = Ok st'"
  shows "\<exists>evs. snd st' = snd st @ evs \<and> (ps \<noteq> [] \<longrightarrow> S \<noteq> 0) \<and>
    (\<Sum>ev\<leftarrow>evs. initial_value_of ev) \<le>
    (\<Sum>p\<leftarrow>ps. (uo_value (snd p) * DISTRIBUTION_RESOLUTION div S) * D div DISTRIBUTION_RESOLUTION)"
  using assms
proof (induction ps arbitrary: st)
  case (Cons p ps)
  obtain st1 where 1: "register_output E ih S D addr tnow tblock st p = Ok st1"
    and 2: "try_fold (register_output E ih S D addr tnow tblock) st1 ps = Ok st'"
    using Cons.prems by (auto simp: result_simps)
  obtain ev where ev: "snd st1 = snd st @ [ev]" "S \<noteq> 0"
    "initial_value_of ev = sat_mul u128_max (sat_mul u128_max (uo_value (snd p)) DISTRIBUTION_RESOLUTION div S) D
       div DISTRIBUTION_RESOLUTION"
    using 1 by (cases p) (auto simp: register_output_def result_simps split: if_splits dest: fresh_dust_output_events)
  have "initial_value_of ev \<le> (uo_value (snd p) * DISTRIBUTION_RESOLUTION div S) * D div DISTRIBUTION_RESOLUTION"
    unfolding ev(3) sat_mul_def
    by (intro div_le_mono order_trans [OF min.cobounded1] mult_right_mono min.cobounded1) simp
  moreover obtain evs where "snd st' = snd st1 @ evs" "(\<Sum>ev\<leftarrow>evs. initial_value_of ev) \<le>
      (\<Sum>p\<leftarrow>ps. (uo_value (snd p) * DISTRIBUTION_RESOLUTION div S) * D div DISTRIBUTION_RESOLUTION)"
    using Cons.IH [OF 2] by blast
  ultimately show ?case using ev(1,2) by (intro exI [of _ "ev # evs"]) simp
qed simp

lemma fold_sat_add: "(\<Sum>x\<leftarrow>xs. f x) + a \<le> m \<Longrightarrow> fold (\<lambda>x a. sat_add m a (f x)) xs a = (\<Sum>x\<leftarrow>xs. f x) + a"
  by (induction xs arbitrary: a) (auto simp: sat_add_def)

lemma apply_registration_conserves:
  assumes "apply_registration E (s, evs) us fees parent reg params tnow tblock = Ok ((s', evs'), fees')"
    and "(\<Sum>p\<leftarrow>reg_owned E parent reg. uo_value (snd p)) \<le> u128_max"
  shows "\<exists>new. evs' = evs @ new \<and> fees' \<le> fees \<and> fees - fees' \<le> dr_allow_fee_payment reg \<and>
    (\<Sum>ev\<leftarrow>new. initial_value_of ev) + (fees - fees') \<le>
      generationless_fee_availability E s us parent (dr_night_key reg) params"
proof (rule apply_registration_cases [OF assms(1)])
  fix s1 dust_in paid
  let ?S = "fold (\<lambda>p a. sat_add u128_max a (uo_value (snd p))) (reg_owned E parent reg) 0"
  assume d: "dust_in = generationless_fee_availability E s us parent (dr_night_key reg) params"
    and paid: "paid = min fees (min (dr_allow_fee_payment reg) dust_in)" "fees' = fees - paid"
    and none: "dr_dust_address reg = None \<Longrightarrow> (s', evs') = (s1, evs)"
    and some: "\<And>a. dr_dust_address reg = Some a \<Longrightarrow>
      reg_loop E parent reg (dust_in - paid) a tnow tblock (s1, evs) = Ok (s', evs')"
  have "\<exists>new. evs' = evs @ new \<and> (\<Sum>ev\<leftarrow>new. initial_value_of ev) \<le> dust_in - paid"
  proof (cases "dr_dust_address reg")
    case (Some a)
    from register_outputs_events [OF some [OF Some]] obtain new where
      new: "evs' = evs @ new" "reg_owned E parent reg \<noteq> [] \<longrightarrow> ?S \<noteq> 0" "(\<Sum>ev\<leftarrow>new. initial_value_of ev) \<le>
        (\<Sum>p\<leftarrow>reg_owned E parent reg. (uo_value (snd p) * DISTRIBUTION_RESOLUTION div ?S) * (dust_in - paid)
          div DISTRIBUTION_RESOLUTION)" by auto
    have S: "?S = (\<Sum>v\<leftarrow>map (\<lambda>p. uo_value (snd p)) (reg_owned E parent reg). v)"
      using fold_sat_add [of "\<lambda>p. uo_value (snd p)" "reg_owned E parent reg" 0 u128_max] assms(2)
      by (simp add: comp_def)
    have "(\<Sum>p\<leftarrow>reg_owned E parent reg. (uo_value (snd p) * DISTRIBUTION_RESOLUTION div ?S) * (dust_in - paid)
          div DISTRIBUTION_RESOLUTION) \<le> dust_in - paid"
      using distribution_bound [OF S, of DISTRIBUTION_RESOLUTION "dust_in - paid"] new(2)
      by (cases "reg_owned E parent reg = []") (auto simp: DISTRIBUTION_RESOLUTION_def comp_def)
    with new show ?thesis by auto
  qed (use none in simp)
  then obtain new where new: "evs' = evs @ new" "(\<Sum>ev\<leftarrow>new. initial_value_of ev) \<le> dust_in - paid" by blast
  have "paid \<le> dust_in" "fees - fees' = paid" "paid \<le> dr_allow_fee_payment reg" "fees' \<le> fees"
    using paid by auto
  with new d show ?thesis by (intro exI [of _ new]) simp
qed

section \<open>Properties\<close>

definition sample_crypto :: "(nat, nat, unit, unit) crypto" where
  "sample_crypto =
     \<lparr>tree_hashing = \<lparr>transient_hash = sum_list, degrade_to_transient = length, fr_default = 0\<rparr>,
      upgrade_from_transient = (\<lambda>f. [word_of_nat f]), persistent_commit = (\<lambda>n h. word_of_nat n # h),
      fr_of_nat = (\<lambda>n. n), fr_of_bytes = map unat, domain_separator = length,
      key_address = (\<lambda>k. [word_of_nat k]), intent_hash = (\<lambda>i seg. [word_of_nat seg])\<rparr>"

definition sample_params :: dust_parameters where
  "sample_params = \<lparr>night_dust_ratio = 100, generation_decay_rate = 10, dust_grace_period = 60\<rparr>"

definition sample_output :: "nat dust_output" where
  "sample_output = \<lparr>do_initial_value = 5, do_owner = 1, do_nonce = 2, do_seq = 0, do_ctime = 100\<rparr>"

definition sample_info :: "timestamp \<Rightarrow> nat dust_generation_info" where
  "sample_info t = \<lparr>gi_value = 3, gi_owner = 1, gi_nonce = [7], gi_dtime = t\<rparr>"

text \<open>C23: the value of a dust output never exceeds the cap of its backing Night, and while that Night
  is unspent it does not depend on how often the output was spent in between: an output re-created at
  \<open>t1\<close> with the value it had then is worth the same at \<open>t2\<close> as the original (without saturation).\<close>

theorem dust_value_path_independent:
  assumes "do_ctime d \<le> t1" "t1 \<le> t2" "t2 \<le> gi_dtime g"
    and "unsaturated (gi_value g) (do_initial_value d) (do_ctime d) (gi_dtime g) t2 p"
  shows "updated_value (d'\<lparr>do_initial_value := updated_value d g t1 p, do_ctime := t1\<rparr>) g t2 p = updated_value d g t2 p
    \<and> updated_value d g t2 p \<le> gi_value g * night_dust_ratio p"
  using updated_value_compose [OF assms] updated_value_cap by simp

theorem dust_value_path_independent_witness:
  "updated_value (sample_output\<lparr>do_initial_value := updated_value sample_output (sample_info 200) 104 sample_params,
       do_ctime := 104\<rparr>) (sample_info 200) 108 sample_params = 245"
proof -
  have "unsaturated (gi_value (sample_info 200)) (do_initial_value sample_output) (do_ctime sample_output)
      (gi_dtime (sample_info 200)) 108 sample_params"
    by (simp add: unsaturated_def sample_output_def sample_info_def sample_params_def u128_max_def)
  from dust_value_path_independent [OF _ _ _ this, of 104 sample_output]
  have "updated_value (sample_output\<lparr>do_initial_value := updated_value sample_output (sample_info 200) 104 sample_params,
       do_ctime := 104\<rparr>) (sample_info 200) 108 sample_params = updated_value sample_output (sample_info 200) 108 sample_params"
    by (simp add: sample_output_def sample_info_def)
  also have "\<dots> = 245"
    by (simp add: updated_value_def elapsed_eq sample_output_def sample_info_def sample_params_def
        sat_mul_def sat_add_def u128_max_def Let_def)
  finally show ?thesis .
qed

text \<open>once its Night is spent, spending a dust output does change its decay: an output re-created
  at \<open>t1\<close> after the Night was spent decays from the time the Night was spent and not from its own
  creation time, so the decay up to \<open>t1\<close> is subtracted a second time.\<close>

theorem dust_decay_counted_twice:
  assumes "do_ctime d \<le> gi_dtime g" "gi_dtime g \<le> t1" "t1 \<le> t2"
    and "unsaturated (gi_value g) (do_initial_value d) (do_ctime d) (gi_dtime g) t2 p"
  shows "updated_value (d'\<lparr>do_initial_value := updated_value d g t1 p, do_ctime := t1\<rparr>) g t2 p =
    updated_value d g t2 p - (t1 - gi_dtime g) * (gi_value g * generation_decay_rate p)"
proof -
  let ?r = "gi_value g * generation_decay_rate p"
  let ?W = "min (do_initial_value d + (gi_dtime g - do_ctime d) * ?r) (gi_value g * night_dust_ratio p)"
  have m: "min (gi_dtime g) t1 = gi_dtime g" "min (gi_dtime g) t2 = gi_dtime g" "gi_dtime g - t1 = 0"
    using assms(2,3) by auto
  have mono: "(t1 - gi_dtime g) * ?r \<le> (t2 - gi_dtime g) * ?r" using assms(3) by (intro mult_right_mono) auto
  have "(t1 - gi_dtime g) * ?r \<le> u128_max" using order_trans [OF mono] assms(4) unfolding unsaturated_def by blast
  then have u: "unsaturated (gi_value g) (do_initial_value d) (do_ctime d) (gi_dtime g) t1 p"
    using assms(4) m unfolding unsaturated_def by simp
  have v: "updated_value d g t1 p = ?W - (t1 - gi_dtime g) * ?r" "updated_value d g t2 p = ?W - (t2 - gi_dtime g) * ?r"
    using updated_value_ideal [OF u] updated_value_ideal [OF assms(4)] m by (simp_all add: ideal_value_def)
  let ?d = "d'\<lparr>do_initial_value := updated_value d g t1 p, do_ctime := t1\<rparr>"
  have "updated_value d g t1 p \<le> gi_value g * night_dust_ratio p" by (rule updated_value_cap)
  moreover have "unsaturated (gi_value g) (do_initial_value ?d) (do_ctime ?d) (gi_dtime g) t2 p"
    using assms(4) m calculation unfolding unsaturated_def by simp
  from updated_value_ideal [OF this]
  have "updated_value ?d g t2 p = min (updated_value d g t1 p) (gi_value g * night_dust_ratio p) - (t2 - gi_dtime g) * ?r"
    using m by (simp add: ideal_value_def)
  ultimately have "updated_value ?d g t2 p = updated_value d g t1 p - (t2 - gi_dtime g) * ?r"
    by (simp only: min_absorb1)
  also have "\<dots> = updated_value d g t2 p - (t1 - gi_dtime g) * ?r" unfolding v by (simp add: diff_diff_left add.commute)
  finally show ?thesis .
qed

theorem dust_decay_counted_twice_witness:
  "updated_value (sample_output\<lparr>do_initial_value := updated_value sample_output (sample_info 109) 112 sample_params,
       do_ctime := 112\<rparr>) (sample_info 109) 113 sample_params = 65 \<and>
   updated_value sample_output (sample_info 109) 113 sample_params = 155"
proof -
  have "unsaturated (gi_value (sample_info 109)) (do_initial_value sample_output) (do_ctime sample_output)
      (gi_dtime (sample_info 109)) 113 sample_params"
    by (simp add: unsaturated_def sample_output_def sample_info_def sample_params_def u128_max_def)
  from dust_decay_counted_twice [OF _ _ _ this, of 112 sample_output]
  have "updated_value (sample_output\<lparr>do_initial_value := updated_value sample_output (sample_info 109) 112 sample_params,
       do_ctime := 112\<rparr>) (sample_info 109) 113 sample_params =
     updated_value sample_output (sample_info 109) 113 sample_params - 3 * 30"
    by (simp add: sample_output_def sample_info_def sample_params_def)
  moreover have "updated_value sample_output (sample_info 109) 113 sample_params = 155"
    by (simp add: updated_value_def elapsed_eq sample_output_def sample_info_def sample_params_def
        sat_mul_def sat_add_def u128_max_def Let_def)
  ultimately show ?thesis by simp
qed

definition sample_night :: "nat utxo_spend" where
  "sample_night = \<lparr>us_value = 3, us_owner = 4, us_type = NIGHT, us_intent_hash = [0], us_output_no = 0\<rparr>"

definition sample_parent :: "(nat, nat, unit, unit) erased_intent" where
  "sample_parent = \<lparr>guaranteed_unshielded_offer = Some \<lparr>uof_inputs = [sample_night],
       uof_outputs = [\<lparr>uo_value = 3, uo_owner = [4], uo_type = NIGHT\<rparr>, \<lparr>uo_value = 1, uo_owner = [5], uo_type = NIGHT\<rparr>],
       uof_signatures = []\<rparr>, fallible_unshielded_offer = None, intent_actions = [],
     dust_actions = Some \<lparr>da_spends = [], da_registrations = [], da_ctime = 120\<rparr>, intent_ttl = 500, binding_commitment = ()\<rparr>"

text \<open>C21: in every history of the dust state no nullifier is spent twice, every index recorded for a
  Night output points to the generation info of that output with its hash (so the error branches
  of the source for a broken index are never taken), and every event emitted can be produced: no
  insertion evidence is ever missing.\<close>

theorem dust_runs_safe:
  assumes "dust_run E ns (s, evs)"
  shows "distinct ns \<and> set ns = dust_nullifiers (d_utxo s) \<and>
    (\<forall>n idx. night_indices (d_generation s) n = Some idx \<longrightarrow>
      (\<exists>info. mt_index (generating_tree (d_generation s)) idx = Some (merkle_hash E info, info) \<and> gi_nonce info = n)) \<and>
    (\<forall>ev \<in> set evs. \<exists>e. force_event E ev = (Ok e :: (unit, _) result))"
proof -
  have ok: "dust_ok E s" "list_all (forceable E) evs" using dust_run_ok [OF assms] by (simp_all add: step_ok_def)
  show ?thesis
    using dust_run_nulls [OF assms] night_index_backed [OF ok(1)] ok(2)
    by (auto simp: list_all_iff forceable_def)
qed

theorem dust_runs_safe_witness:
  "\<exists>s evs tree e. dust_run sample_crypto [] (s, evs) \<and> evs ! 1 = DtimeUpdateOf tree 0 120 \<and>
     force_event sample_crypto (evs ! 1) = (Ok e :: (unit, _) result)"
proof -
  have "\<exists>s' evs'. fresh_dust_output sample_crypto (dust_state_default, []) [0, 0] 5 3 9 100 100 = Ok (s', evs')"
    by (rule fresh_dust_output_total [OF dust_ok_default])
      (simp_all add: dust_state_default_def dust_utxo_state_default_def dust_generation_state_default_def mt_blank_def)
  then obtain s1 evs1 where
    1: "fresh_dust_output sample_crypto (dust_state_default, []) [0, 0] 5 3 9 100 100 = Ok (s1, evs1)" by blast
  have r1: "dust_run sample_crypto [] (s1, evs1)" by (rule dust_run.create [OF dust_run.start 1])
  then have ok: "dust_ok sample_crypto s1" using dust_run_ok [of sample_crypto "[]" "(s1, evs1)"] by (simp add: step_ok_def)
  have idx: "night_indices (d_generation s1) (spend_nonce sample_crypto sample_night) = Some 0" and len: "length evs1 = 1"
    using fresh_dust_output_grown [OF dust_ok_default 1]
    by (auto simp: grown_def Let_def spend_nonce_def initial_nonce_def sample_crypto_def sample_night_def
        dust_state_default_def dust_generation_state_default_def)
  let ?s2 = "stopped sample_crypto 120 0 s1"
  let ?evs2 = "evs1 @ [DtimeUpdateOf (generating_tree (d_generation ?s2)) 0 120]"
  have "stop_generating sample_crypto 120 (s1, evs1) sample_night = Ok (?s2, ?evs2)"
    using stop_generating_found [OF ok idx] .
  then have "dust_apply_offer sample_crypto (s1, evs1)
      (\<lparr>uof_inputs = [sample_night], uof_outputs = [], uof_signatures = []\<rparr> :: (nat, unit) unshielded_offer)
      sample_parent 1 120 = Ok (?s2, ?evs2)"
    by (simp add: dust_apply_offer_def sample_night_def)
  from dust_run.unshielded [OF r1 this] have r2: "dust_run sample_crypto [] (?s2, ?evs2)" .
  have "?evs2 ! 1 = DtimeUpdateOf (generating_tree (d_generation ?s2)) 0 120" using len by (simp add: nth_append)
  moreover have "?evs2 ! 1 \<in> set ?evs2" using len by (intro nth_mem) simp
  ultimately show ?thesis using r2 dust_runs_safe [OF r2] by metis
qed

text \<open>C22: a registration creates no dust from nothing: the fees it pays and the initial values of
  the outputs it creates together never exceed what the spent Night of the intent would have
  generated, the fees are bounded by what the registration allows, and what remains to be paid
  only decreases (for outputs whose total fits 128 bits).\<close>

theorem registration_conserves_dust:
  assumes "apply_registration E (s, evs) us fees parent reg params tnow tblock = Ok ((s', evs'), fees')"
    and "(\<Sum>p\<leftarrow>reg_owned E parent reg. uo_value (snd p)) \<le> u128_max"
  shows "\<exists>new. evs' = evs @ new \<and> fees' \<le> fees \<and> fees - fees' \<le> dr_allow_fee_payment reg \<and>
    (\<Sum>ev\<leftarrow>new. initial_value_of ev) + (fees - fees') \<le>
      generationless_fee_availability E s us parent (dr_night_key reg) params"
  using apply_registration_conserves [OF assms] .

definition sample_registration :: "(nat, nat, unit) dust_registration" where
  "sample_registration = \<lparr>dr_night_key = 4, dr_dust_address = Some 9, dr_allow_fee_payment = 40, dr_signature = Some ()\<rparr>"

definition sample_utxos :: utxo_state where
  "sample_utxos = [(utxo_of_spend (key_address sample_crypto) sample_night, \<lparr>um_ctime = 115\<rparr>)]"

lemmas sample_defs = sample_crypto_def sample_params_def sample_night_def sample_parent_def sample_registration_def

theorem registration_conserves_dust_witness:
  "\<exists>s' new. apply_registration sample_crypto (dust_state_default, []) sample_utxos 70 sample_parent
      sample_registration sample_params 120 120 = Ok ((s', new), 30) \<and> map initial_value_of new = [110] \<and>
     (\<Sum>ev\<leftarrow>new. initial_value_of ev) + 40 \<le> 150"
proof -
  let ?s = "dust_state_default :: nat dust_state"
  let ?s1 = "?s\<lparr>d_generation := (d_generation ?s)\<lparr>address_delegation := [[4] \<mapsto> 9]\<rparr>\<rparr>"
  have a: "generationless_fee_availability sample_crypto ?s sample_utxos sample_parent 4 sample_params = 150"
    by (simp add: generationless_fee_availability_def sample_utxos_def night_inputs_def generationless_value_def
        elapsed_eq sat_mul_def sat_add_def u128_max_def spend_nonce_def initial_nonce_def utxo_of_spend_def sample_defs
        dust_state_default_def dust_generation_state_default_def)
  have o: "owned_outputs (guaranteed_unshielded_offer sample_parent) [4] = [(0, \<lparr>uo_value = 3, uo_owner = [4], uo_type = NIGHT\<rparr>)]"
    by (simp add: owned_outputs_def sample_defs)
  have "update_delegation ?s [4] (Some 9) = Ok ?s1" by (simp add: update_delegation_iff dust_state_default_def dust_generation_state_default_def)
  moreover from update_delegation_ok [OF dust_ok_default this]
  have "\<exists>s' evs'. fresh_dust_output sample_crypto (?s1, []) [0, 0] 110 3 9 120 120 = Ok (s', evs')"
    by (rule fresh_dust_output_total)
      (simp_all add: dust_state_default_def dust_utxo_state_default_def dust_generation_state_default_def mt_blank_def)
  then obtain s' new where n: "fresh_dust_output sample_crypto (?s1, []) [0, 0] 110 3 9 120 120 = Ok (s', new)" by blast
  moreover have "persistent_commit sample_crypto 0 (intent_hash sample_crypto sample_parent 0) = [0, 0]"
    by (simp add: sample_crypto_def)
  moreover have k: "key_address sample_crypto 4 = [4]" by (simp add: sample_defs)
  ultimately have r: "apply_registration sample_crypto (?s, []) sample_utxos 70 sample_parent
      sample_registration sample_params 120 120 = Ok ((s', new), 30)"
    by (simp add: apply_registration_def Let_def o register_output_def sat_add_def sat_mul_def u128_max_def
        DISTRIBUTION_RESOLUTION_def initial_nonce_def sample_registration_def a)
  moreover have "(\<Sum>ev\<leftarrow>new. initial_value_of ev) + (70 - 30) \<le> 150"
    using registration_conserves_dust [OF r] a by (auto simp: k o u128_max_def sample_registration_def)
  moreover have "map initial_value_of new = [110]" using fresh_dust_output_events [OF n] by auto
  ultimately show ?thesis by auto
qed

end
