(* ===== verification/Delta_Tracking.thy ===== *)
theory Delta_Tracking
  imports Cost_Model Serialize "HOL-Library.AList"
begin

text \<open>
  Write and delete costing of stored data (\<^verbatim>\<open>storage/src/delta_tracking\<close>): the reference counts of
  the charged storage keys, the keys a new state adds, and the garbage collection of the keys it
  no longer reaches.

  The storage arena (\<^verbatim>\<open>storage-core/src/arena.rs\<close>) is an argument: the children and the size of the
  node stored under a hash. The B-tree sets are lists without repetitions, and a B-tree map is an
  association list; no result depends on the order in which they are traversed. The pinning of
  child references in the backend has no effect on the values computed here.
\<close>

section \<open>Storage keys\<close>

datatype 'h arena_key = Ref 'h | Direct "byte list" "'h arena_key list"

text \<open>The loop of \<^verbatim>\<open>ArenaKey::refs\<close>; the head of the frontier is its end.\<close>

function refs_loop :: "'h arena_key list \<Rightarrow> 'h list \<Rightarrow> 'h list" where
  "refs_loop [] res = res"
| "refs_loop (Ref n # frontier) res = refs_loop frontier (res @ [n])"
| "refs_loop (Direct d children # frontier) res = refs_loop (rev children @ frontier) res"
  by pat_completeness auto
termination
proof (relation "measure (\<lambda>(frontier, res). size_list size frontier)", goal_cases)
  case (3 d children frontier res)
  have "size_list size (rev children) = size_list size children" by (induction children) simp_all
  then show ?case by simp
qed auto

definition refs :: "'h arena_key \<Rightarrow> 'h list" where
  "refs key = refs_loop [key] []"

record 'h arena =
  arena_children :: "'h \<Rightarrow> 'h arena_key list option"
  arena_node_size :: "'h \<Rightarrow> nat"
  key_serialized_size :: "'h arena_key \<Rightarrow> nat"

text \<open>The keys an entry refers to: through its node in the arena, or directly.\<close>

definition out_refs :: "'h arena \<Rightarrow> 'h arena_key \<Rightarrow> ('e, 'h list) result" where
  "out_refs A key =
     (case key of
        Ref h \<Rightarrow> map_ok (\<lambda>children. concat (map refs children)) (expect (arena_children A h))
      | Direct _ _ \<Rightarrow> Ok (refs key))"

section \<open>The reference count map\<close>

record 'h rc_map =
  rc_ge_1 :: "'h \<rightharpoonup> nat"
  rc_0 :: "'h arena_key list"

definition rc_default :: "'h rc_map" where
  "rc_default = \<lparr>rc_ge_1 = Map.empty, rc_0 = []\<rparr>"

definition get_rc :: "'h rc_map \<Rightarrow> 'h arena_key \<Rightarrow> nat option" where
  "get_rc m key =
     (case (case key of Ref h \<Rightarrow> rc_ge_1 m h | Direct _ _ \<Rightarrow> None) of
        Some count \<Rightarrow> Some count
      | None \<Rightarrow> if key \<in> set (rc_0 m) then Some 0 else None)"

definition rc_contains :: "'h rc_map \<Rightarrow> 'h arena_key \<Rightarrow> bool" where
  "rc_contains m key \<longleftrightarrow> get_rc m key \<noteq> None"

definition ins_root :: "'h rc_map \<Rightarrow> 'h arena_key \<Rightarrow> 'h rc_map" where
  "ins_root m key = m\<lparr>rc_0 := List.insert key (rc_0 m)\<rparr>"

definition rm_root :: "'h rc_map \<Rightarrow> 'h arena_key \<Rightarrow> 'h rc_map" where
  "rm_root m key = m\<lparr>rc_0 := removeAll key (rc_0 m)\<rparr>"

definition modify_rc :: "'h rc_map \<Rightarrow> 'h \<Rightarrow> nat \<Rightarrow> 'h rc_map" where
  "modify_rc m key updated =
     (let curr = (case rc_ge_1 m key of Some n \<Rightarrow> n | None \<Rightarrow> 0) in
      if curr = 0 \<and> updated = 0 then m\<lparr>rc_0 := List.insert (Ref key) (rc_0 m)\<rparr>
      else if curr = 0 then \<lparr>rc_ge_1 = (rc_ge_1 m)(key \<mapsto> updated), rc_0 = removeAll (Ref key) (rc_0 m)\<rparr>
      else if updated \<noteq> 0 then m\<lparr>rc_ge_1 := (rc_ge_1 m)(key \<mapsto> updated)\<rparr>
      else \<lparr>rc_ge_1 = (rc_ge_1 m)(key := None), rc_0 = List.insert (Ref key) (rc_0 m)\<rparr>)"

definition get_unreachable_keys_not_in :: "'h rc_map \<Rightarrow> 'h arena_key list \<Rightarrow> 'h arena_key list" where
  "get_unreachable_keys_not_in m roots = filter (\<lambda>key. key \<notin> set roots) (rc_0 m)"

definition remove_unreachable_key :: "'h rc_map \<Rightarrow> 'h arena_key \<Rightarrow> 'h rc_map option" where
  "remove_unreachable_key m key =
     (if key \<in> set (rc_0 m) then Some (m\<lparr>rc_0 := removeAll key (rc_0 m)\<rparr>) else None)"

section \<open>Writes\<close>

text \<open>The work list of \<^verbatim>\<open>get_writes\<close>; its head is the end of the queue. \<^const>\<open>None\<close> is a loop that
  does not end.\<close>

partial_function (option) get_writes_loop ::
  "'h arena \<Rightarrow> 'h rc_map \<Rightarrow> 'h arena_key list \<Rightarrow> 'h arena_key list \<Rightarrow>
   (unit, 'h arena_key list) result option" where
  "get_writes_loop A rcmap queue keys_added =
     (case queue of
        [] \<Rightarrow> Some (Ok keys_added)
      | key # rest \<Rightarrow>
          if \<not> rc_contains rcmap key \<and> key \<notin> set keys_added then
            (case out_refs A key of
               Ok rs \<Rightarrow> get_writes_loop A rcmap (rev (map Ref rs) @ rest) (key # keys_added)
             | Err e \<Rightarrow> Some (Err e)
             | Panic \<Rightarrow> Some Panic)
          else get_writes_loop A rcmap rest keys_added)"

definition get_writes ::
  "'h arena \<Rightarrow> 'h rc_map \<Rightarrow> 'h arena_key list \<Rightarrow> (unit, 'h arena_key list) result option" where
  "get_writes A rcmap roots = get_writes_loop A rcmap (rev roots) []"

definition bump :: "'h arena_key \<Rightarrow> ('h arena_key \<times> nat) list \<Rightarrow> ('h arena_key \<times> nat) list" where
  "bump k m = AList.update k ((case map_of m k of Some n \<Rightarrow> n | None \<Rightarrow> 0) + 1) m"

definition count_children ::
  "'h arena \<Rightarrow> ('h arena_key \<times> nat) list \<Rightarrow> 'h arena_key \<Rightarrow> (unit, ('h arena_key \<times> nat) list) result" where
  "count_children A inc_map key = map_ok (\<lambda>rs. fold (\<lambda>r. bump (Ref r)) rs inc_map) (out_refs A key)"

definition apply_inc :: "'h rc_map \<Rightarrow> 'h arena_key \<times> nat \<Rightarrow> 'h rc_map" where
  "apply_inc rcmap = (\<lambda>(k, by).
     case k of
       Ref r \<Rightarrow> modify_rc rcmap r ((case get_rc rcmap k of Some n \<Rightarrow> n | None \<Rightarrow> 0) + by)
     | Direct _ _ \<Rightarrow> ins_root rcmap k)"

definition update_rcmap :: "'h arena \<Rightarrow> 'h rc_map \<Rightarrow> 'h arena_key list \<Rightarrow> (unit, 'h rc_map) result" where
  "update_rcmap A rcmap keys_added =
     map_ok (\<lambda>inc_map. foldl apply_inc rcmap inc_map)
       (try_fold (count_children A) (map (\<lambda>k. (k, 0)) keys_added) keys_added)"

section \<open>Garbage collection\<close>

record 'h gc_state =
  gc_queue :: "'h arena_key list"
  rc_cache :: "'h arena_key \<rightharpoonup> nat"
  update_queue :: "('h arena_key \<times> nat) list"
  keys_removed :: "'h arena_key list"

text \<open>One reference of a collected node: its count is cached and decremented, and a node whose
  references are all gone is queued unless it is a root.\<close>

definition gc_child :: "'h rc_map \<Rightarrow> 'h arena_key list \<Rightarrow> 'h \<Rightarrow> 'h gc_state \<Rightarrow> 'h gc_state" where
  "gc_child rcmap roots r s =
     (let child = Ref r;
          existing = (case rc_cache s child of
                        Some n \<Rightarrow> n
                      | None \<Rightarrow> (case get_rc rcmap child of Some n \<Rightarrow> n | None \<Rightarrow> 0));
          upd = bump child (update_queue s);
          sub = the (map_of upd child)
      in s\<lparr>rc_cache := (rc_cache s)(child \<mapsto> existing), update_queue := upd,
           gc_queue := (if sub \<ge> existing \<and> child \<notin> set roots then child # gc_queue s else gc_queue s)\<rparr>)"

fun gc_loop ::
  "'h arena \<Rightarrow> 'h rc_map \<Rightarrow> 'h arena_key list \<Rightarrow> nat \<Rightarrow> 'h arena_key list \<Rightarrow> 'h gc_state \<Rightarrow>
   (unit, 'h gc_state) result" where
  "gc_loop A rcmap roots steps_left (key # storage_queue) s =
     (case steps_left of
        0 \<Rightarrow> Ok s
      | Suc n \<Rightarrow> and_then (out_refs A key) (\<lambda>rs.
          gc_loop A rcmap roots n storage_queue
            ((fold (gc_child rcmap roots) rs s)\<lparr>keys_removed := List.insert key (keys_removed s)\<rparr>)))"
| "gc_loop A rcmap roots steps_left [] s =
     (case gc_queue s of
        [] \<Rightarrow> Ok s
      | key # queue \<Rightarrow>
          (case steps_left of
             0 \<Rightarrow> Ok s
           | Suc n \<Rightarrow> and_then (out_refs A key) (\<lambda>rs.
               gc_loop A rcmap roots n []
                 ((fold (gc_child rcmap roots) rs (s\<lparr>gc_queue := queue\<rparr>))
                    \<lparr>keys_removed := List.insert key (keys_removed s)\<rparr>))))"

definition apply_dec :: "('h arena_key \<rightharpoonup> nat) \<Rightarrow> 'h rc_map \<Rightarrow> 'h arena_key \<times> nat \<Rightarrow> (unit, 'h rc_map) result" where
  "apply_dec cache rcmap = (\<lambda>(key, update).
     case key of
       Ref r \<Rightarrow> map_ok (\<lambda>original. modify_rc rcmap r (original - update)) (expect (cache key))
     | Direct _ _ \<Rightarrow> Ok (rm_root rcmap key))"

definition remove_key :: "'h rc_map \<Rightarrow> 'h arena_key \<Rightarrow> (unit, 'h rc_map) result" where
  "remove_key rcmap key = expect (remove_unreachable_key rcmap key)"

definition gc_rcmap ::
  "'h arena \<Rightarrow> 'h rc_map \<Rightarrow> 'h arena_key list \<Rightarrow> nat \<Rightarrow> (unit, 'h rc_map \<times> 'h arena_key list) result" where
  "gc_rcmap A rcmap roots step_limit =
     and_then (gc_loop A rcmap roots step_limit (get_unreachable_keys_not_in rcmap roots)
         \<lparr>gc_queue = [], rc_cache = Map.empty, update_queue = [], keys_removed = []\<rparr>) (\<lambda>s.
     and_then (try_fold (apply_dec (rc_cache s)) rcmap (update_queue s)) (\<lambda>rcmap.
     map_ok (\<lambda>rcmap. (rcmap, keys_removed s)) (try_fold remove_key rcmap (keys_removed s))))"

section \<open>Costs\<close>

record 'h write_delete_results =
  wd_bytes_written :: nat
  wd_bytes_deleted :: nat
  wd_nodes_written :: nat
  wd_nodes_deleted :: nat
  wd_processing_cost :: running_cost
  wd_updated_charged_keys :: "'h rc_map"

definition compute_bytes_from_keys :: "'h arena \<Rightarrow> 'h arena_key list \<Rightarrow> nat" where
  "compute_bytes_from_keys A keys =
     sum_list (map (\<lambda>key. case key of
        Ref h \<Rightarrow> arena_node_size A h + 32 + 4
      | Direct _ _ \<Rightarrow> key_serialized_size A key * 2) keys)"

definition wd_new ::
  "'h arena \<Rightarrow> 'h arena_key list \<Rightarrow> 'h arena_key list \<Rightarrow> 'h rc_map \<Rightarrow> (nat \<Rightarrow> nat \<Rightarrow> running_cost) \<Rightarrow> 'h write_delete_results" where
  "wd_new A added removed new_charged_keys cpu_cost =
     \<lparr>wd_bytes_written = compute_bytes_from_keys A added, wd_bytes_deleted = compute_bytes_from_keys A removed,
      wd_nodes_written = length added, wd_nodes_deleted = length removed,
      wd_processing_cost = cpu_cost (length added) (length removed),
      wd_updated_charged_keys = new_charged_keys\<rparr>"

definition wd_running_cost :: "'h write_delete_results \<Rightarrow> running_cost" where
  "wd_running_cost r =
     rc_add \<lparr>rc_read_time = 0, rc_compute_time = 0, rc_bytes_written = wd_bytes_written r,
             rc_bytes_deleted = wd_bytes_deleted r\<rparr> (wd_processing_cost r)"

definition opt_then :: "('e, 'a) result option \<Rightarrow> ('a \<Rightarrow> ('e, 'b) result) \<Rightarrow> ('e, 'b) result option" where
  "opt_then r f = map_option (\<lambda>r. and_then r f) r"

definition initial_write_delete_costs ::
  "'h arena \<Rightarrow> 'h arena_key list \<Rightarrow> (nat \<Rightarrow> nat \<Rightarrow> running_cost) \<Rightarrow> (unit, 'h write_delete_results) result option" where
  "initial_write_delete_costs A r0 cpu_cost =
     opt_then (get_writes A rc_default r0) (\<lambda>keys.
       map_ok (\<lambda>k0. wd_new A keys [] k0 cpu_cost) (update_rcmap A rc_default keys))"

definition incremental_write_delete_costs ::
  "'h arena \<Rightarrow> 'h rc_map \<Rightarrow> 'h arena_key list \<Rightarrow> (nat \<Rightarrow> nat \<Rightarrow> running_cost) \<Rightarrow> (running_cost \<Rightarrow> nat) \<Rightarrow>
   (unit, 'h write_delete_results) result option" where
  "incremental_write_delete_costs A k0 r1 cpu_cost gc_limit =
     opt_then (get_writes A k0 r1) (\<lambda>keys_added.
       and_then (update_rcmap A k0 keys_added) (\<lambda>k.
       map_ok (\<lambda>(k1, removed). wd_new A keys_added removed k1 cpu_cost)
         (gc_rcmap A k r1 (gc_limit (cpu_cost (length keys_added) 0)))))"

end
