(* ===== verification/Delta_Props.thy ===== *)
theory Delta_Props
  imports Delta_Tracking "HOL-Library.Multiset"
begin

text \<open>
  Correctness of the tracking of charged storage keys. The reference count map is related to the
  graph of stored nodes: its counts are exact for the set of charged keys, every operation keeps
  them so, the search for writes finds the uncharged keys below the new roots, and the collector
  removes only keys that are not below them, all of those given enough steps.
\<close>

section \<open>The graph of keys\<close>

definition ref_list :: "'h arena \<Rightarrow> 'h arena_key \<Rightarrow> 'h list" where
  "ref_list A k = (case out_refs A k :: (unit, 'h list) result of Ok rs \<Rightarrow> rs | _ \<Rightarrow> [])"

definition key_edges :: "'h arena \<Rightarrow> ('h arena_key \<times> 'h arena_key) set" where
  "key_edges A = {(k, Ref h) | k h. h \<in> set (ref_list A k)}"

definition below :: "'h arena \<Rightarrow> 'h arena_key set \<Rightarrow> 'h arena_key set" where
  "below A R = (key_edges A)\<^sup>* `` R"

text \<open>A set of keys whose nodes are all present and refer into the set.\<close>

definition key_closed :: "'h arena \<Rightarrow> 'h arena_key set \<Rightarrow> bool" where
  "key_closed A K \<longleftrightarrow>
     (\<forall>k\<in>K. (out_refs A k :: (unit, 'h list) result) = Ok (ref_list A k) \<and> Ref ` set (ref_list A k) \<subseteq> K)"

definition indeg :: "'h arena \<Rightarrow> 'h arena_key set \<Rightarrow> 'h arena_key \<Rightarrow> nat" where
  "indeg A K k = (case k of Ref h \<Rightarrow> (\<Sum>k'\<in>K. count_list (ref_list A k') h) | Direct _ _ \<Rightarrow> 0)"

lemma key_closedD:
  assumes "key_closed A K" "k \<in> K"
  shows "(out_refs A k :: (unit, 'h list) result) = Ok (ref_list A k)" "\<And>h. h \<in> set (ref_list A k) \<Longrightarrow> Ref h \<in> K"
  using assms unfolding key_closed_def by auto

lemma key_closedI:
  assumes "\<And>k. k \<in> K \<Longrightarrow> (out_refs A k :: (unit, 'h list) result) = Ok (ref_list A k)"
    "\<And>k h. k \<in> K \<Longrightarrow> h \<in> set (ref_list A k) \<Longrightarrow> Ref h \<in> K"
  shows "key_closed A K"
  using assms unfolding key_closed_def by auto

lemma key_closed_un: "key_closed A K \<Longrightarrow> key_closed A L \<Longrightarrow> key_closed A (K \<union> L)"
  unfolding key_closed_def by blast

lemma below_subset:
  assumes "key_closed A K" "R \<subseteq> K"
  shows "below A R \<subseteq> K"
proof
  fix k assume "k \<in> below A R"
  then obtain r where "r \<in> R" "(r, k) \<in> (key_edges A)\<^sup>*" unfolding below_def by auto
  from this(2,1) show "k \<in> K"
    by (induction rule: rtrancl_induct) (use assms in \<open>auto simp: key_edges_def dest: key_closedD\<close>)
qed

lemma below_base: "R \<subseteq> below A R"
  unfolding below_def by auto

lemma below_step: "k \<in> below A R \<Longrightarrow> h \<in> set (ref_list A k) \<Longrightarrow> Ref h \<in> below A R"
  unfolding below_def key_edges_def by (auto intro: rtrancl_into_rtrancl)

lemma below_closed: "key_closed A K \<Longrightarrow> R \<subseteq> K \<Longrightarrow> key_closed A (below A R)"
  using below_subset [of A K R] below_step [of _ A R] unfolding key_closed_def by blast

lemma indeg_insert [simp]:
  "finite K \<Longrightarrow> k \<notin> K \<Longrightarrow> indeg A (insert k K) (Ref h) = count_list (ref_list A k) h + indeg A K (Ref h)"
  by (simp add: indeg_def)

lemma indeg_empty [simp]: "indeg A {} k = 0"
  by (simp add: indeg_def split: arena_key.split)

lemma indeg_Direct [simp]: "indeg A K (Direct d cs) = 0"
  by (simp add: indeg_def)

lemma indeg_mono: "finite K \<Longrightarrow> D \<subseteq> K \<Longrightarrow> indeg A D k \<le> indeg A K k"
  by (auto simp: indeg_def split: arena_key.split intro: sum_mono2)

lemma indeg_diff: "finite K \<Longrightarrow> D \<subseteq> K \<Longrightarrow> indeg A (K - D) k = indeg A K k - indeg A D k"
  by (auto simp: indeg_def sum_diff_nat finite_subset split: arena_key.split)

lemma indeg_union:
  "finite K \<Longrightarrow> finite L \<Longrightarrow> K \<inter> L = {} \<Longrightarrow> indeg A (K \<union> L) k = indeg A K k + indeg A L k"
  by (auto simp: indeg_def sum.union_disjoint split: arena_key.split)

lemma indeg_pos: "finite K \<Longrightarrow> 0 < indeg A K (Ref h) \<longleftrightarrow> (\<exists>k\<in>K. h \<in> set (ref_list A k))"
  by (auto simp: indeg_def sum_eq_0_iff count_list_0_iff simp flip: neq0_conv)

lemma indeg_outside: "finite K \<Longrightarrow> key_closed A K \<Longrightarrow> Ref h \<notin> K \<Longrightarrow> indeg A K (Ref h) = 0"
  using indeg_pos [of K A h] key_closedD(2) [of A K] by blast

section \<open>The count map as a function\<close>

definition rc_wf :: "'h rc_map \<Rightarrow> bool" where
  "rc_wf m \<longleftrightarrow> distinct (rc_0 m) \<and> (\<forall>h n. rc_ge_1 m h = Some n \<longrightarrow> 0 < n \<and> Ref h \<notin> set (rc_0 m))"

abbreviation charged :: "'h rc_map \<Rightarrow> 'h arena_key set" where
  "charged m \<equiv> {k. rc_contains m k}"

definition rc_exact :: "'h arena \<Rightarrow> 'h rc_map \<Rightarrow> bool" where
  "rc_exact A m \<longleftrightarrow> rc_wf m \<and> finite (charged m) \<and> key_closed A (charged m) \<and>
     (\<forall>k. rc_contains m k \<longrightarrow> get_rc m k = Some (indeg A (charged m) k))"

lemma charged_dom: "charged m = dom (get_rc m)"
  unfolding rc_contains_def by auto

lemma rc_0_get: "rc_wf m \<Longrightarrow> k \<in> set (rc_0 m) \<longleftrightarrow> get_rc m k = Some 0"
  unfolding rc_wf_def get_rc_def by (cases k) (auto split: option.splits)

lemma modify_rc_wf: "rc_wf m \<Longrightarrow> rc_wf (modify_rc m r v)"
  unfolding rc_wf_def modify_rc_def Let_def by (auto simp: distinct_removeAll split: option.splits)

lemma modify_rc_get: "rc_wf m \<Longrightarrow> get_rc (modify_rc m r v) = (get_rc m)(Ref r \<mapsto> v)"
  unfolding rc_wf_def modify_rc_def get_rc_def Let_def
  by (auto simp: fun_eq_iff split: option.splits arena_key.splits)

lemma ins_root_wf: "rc_wf m \<Longrightarrow> rc_wf (ins_root m (Direct d cs))"
  unfolding rc_wf_def ins_root_def by auto

lemma ins_root_get: "get_rc (ins_root m (Direct d cs)) = (get_rc m)(Direct d cs \<mapsto> 0)"
  unfolding get_rc_def ins_root_def by (auto simp: fun_eq_iff split: option.splits arena_key.splits)

lemma remove_unreachable:
  assumes "rc_wf m" "get_rc m k = Some 0"
  shows "\<exists>m'. remove_unreachable_key m k = Some m' \<and> rc_wf m' \<and> get_rc m' = (get_rc m)(k := None)"
proof (intro exI conjI)
  have k: "k \<in> set (rc_0 m)" using assms rc_0_get by blast
  then show "remove_unreachable_key m k = Some (m\<lparr>rc_0 := removeAll k (rc_0 m)\<rparr>)"
    by (simp add: remove_unreachable_key_def)
  show "rc_wf (m\<lparr>rc_0 := removeAll k (rc_0 m)\<rparr>)"
    using assms by (auto simp: rc_wf_def distinct_removeAll)
  show "get_rc (m\<lparr>rc_0 := removeAll k (rc_0 m)\<rparr>) = (get_rc m)(k := None)"
  proof
    fix x
    show "get_rc (m\<lparr>rc_0 := removeAll k (rc_0 m)\<rparr>) x = ((get_rc m)(k := None)) x"
      using k assms(1) unfolding rc_wf_def by (cases x) (auto simp: get_rc_def split: option.splits)
  qed
qed

section \<open>Finding the writes\<close>

lemma get_writes_loop_unfold:
  "get_writes_loop A m [] added = Some (Ok added)"
  "get_writes_loop A m (k # q) added =
     (if \<not> rc_contains m k \<and> k \<notin> set added then
        (case out_refs A k of
           Ok rs \<Rightarrow> get_writes_loop A m (rev (map Ref rs) @ q) (k # added)
         | Err e \<Rightarrow> Some (Err e)
         | Panic \<Rightarrow> Some Panic)
      else get_writes_loop A m q added)"
  by (subst get_writes_loop.simps, simp)+

text \<open>The invariant of the work list: what is added lies below the roots and is not charged, and refers
  only to what is added, charged or still queued.\<close>

definition writes_inv ::
  "'h arena \<Rightarrow> 'h rc_map \<Rightarrow> 'h arena_key set \<Rightarrow> 'h arena_key list \<Rightarrow> 'h arena_key list \<Rightarrow> bool" where
  "writes_inv A m R queue added \<longleftrightarrow>
     distinct added \<and> set added \<inter> charged m = {} \<and> set added \<union> set queue \<subseteq> below A R \<and>
     R \<subseteq> set added \<union> charged m \<union> set queue \<and>
     (\<forall>k\<in>set added. \<forall>h\<in>set (ref_list A k). Ref h \<in> set added \<union> charged m \<union> set queue)"

lemma writes_inv_skip:
  "writes_inv A m R (k # q) added \<Longrightarrow> rc_contains m k \<or> k \<in> set added \<Longrightarrow> writes_inv A m R q added"
  unfolding writes_inv_def by auto

lemma writes_inv_add:
  assumes "writes_inv A m R (k # q) added" "\<not> rc_contains m k" "k \<notin> set added"
  shows "writes_inv A m R (rev (map Ref (ref_list A k)) @ q) (k # added)"
proof -
  have "\<forall>h\<in>set (ref_list A k). Ref h \<in> below A R"
    using below_step [of k A R] assms(1) unfolding writes_inv_def by auto
  then show ?thesis using assms unfolding writes_inv_def by auto
qed

lemma get_writes_loop_ends:
  assumes K: "finite K" "key_closed A K" "below A R \<subseteq> K"
    and "writes_inv A m R queue added"
  shows "\<exists>added'. get_writes_loop A m queue added = Some (Ok added') \<and> writes_inv A m R [] added'"
  using assms(4)
proof (induction "(card (K - set added), length queue)" arbitrary: queue added
    rule: wf_induct_rule [OF wf_lex_prod [OF wf_less wf_less]])
  case 1
  show ?case
  proof (cases queue)
    case Nil
    with 1(2) show ?thesis by (simp add: get_writes_loop_unfold(1))
  next
    case q: (Cons k q)
    show ?thesis
    proof (cases "rc_contains m k \<or> k \<in> set added")
      case True
      have "\<exists>added'. get_writes_loop A m q added = Some (Ok added') \<and> writes_inv A m R [] added'"
        by (rule 1(1)) (simp add: q, rule writes_inv_skip [OF 1(2) [unfolded q] True])
      then show ?thesis using True by (auto simp: q get_writes_loop_unfold(2))
    next
      case False
      have k: "k \<in> K" using 1(2) K(3) unfolding writes_inv_def q by auto
      have "card (K - set (k # added)) < card (K - set added)"
        by (rule psubset_card_mono) (use K(1) False k in auto)
      then have "\<exists>added'. get_writes_loop A m (rev (map Ref (ref_list A k)) @ q) (k # added) = Some (Ok added') \<and>
          writes_inv A m R [] added'"
        by (intro 1(1)) (simp, rule writes_inv_add [OF 1(2) [unfolded q]], use False in auto)
      then show ?thesis using False key_closedD(1) [OF K(2) k] by (simp add: q get_writes_loop_unfold(2))
    qed
  qed
qed

lemma get_writes_ok:
  assumes "finite K" "key_closed A K" "set roots \<subseteq> K" "rc_exact A m"
  shows "\<exists>added. get_writes A m roots = Some (Ok added) \<and> distinct added \<and>
    set added = below A (set roots) - charged m"
proof -
  have "writes_inv A m (set roots) (rev roots) []"
    using below_base [of "set roots" A] by (simp add: writes_inv_def)
  from get_writes_loop_ends [OF assms(1,2) below_subset [OF assms(2,3)] this]
  obtain added where *: "get_writes A m roots = Some (Ok added)" "distinct added"
    "set added \<inter> charged m = {}" "set added \<subseteq> below A (set roots)" "set roots \<subseteq> set added \<union> charged m"
    "\<forall>k\<in>set added. \<forall>h\<in>set (ref_list A k). Ref h \<in> set added \<union> charged m"
    unfolding get_writes_def writes_inv_def by auto
  have "set added \<subseteq> K" using *(4) below_subset [OF assms(2,3)] by auto
  then have "key_closed A (set added \<union> charged m)"
    using *(6) assms(2,4) by (auto simp: rc_exact_def intro!: key_closedI dest: key_closedD)
  then have "below A (set roots) \<subseteq> set added \<union> charged m" using below_subset *(5) by blast
  then show ?thesis using * by auto
qed

section \<open>Updating the counts\<close>

abbreviation count0 :: "('a \<rightharpoonup> nat) \<Rightarrow> 'a \<Rightarrow> nat" where
  "count0 f k \<equiv> (case f k of Some n \<Rightarrow> n | None \<Rightarrow> 0)"

lemma bump_map_of: "map_of (bump k m) = (map_of m)(k \<mapsto> count0 (map_of m) k + 1)"
  by (simp add: bump_def update_conv')

lemma bump_distinct: "distinct (map fst m) \<Longrightarrow> distinct (map fst (bump k m))"
  by (simp add: bump_def distinct_update)

lemma bumps_distinct: "distinct (map fst m) \<Longrightarrow> distinct (map fst (fold (\<lambda>r. bump (Ref r)) rs m))"
  by (induction rs arbitrary: m) (simp_all add: bump_distinct)

lemma bumps_map_of:
  "map_of (fold (\<lambda>r. bump (Ref r)) rs m) k =
     (case k of
        Ref h \<Rightarrow> (if h \<in> set rs then Some (count0 (map_of m) k + count_list rs h) else map_of m k)
      | Direct _ _ \<Rightarrow> map_of m k)"
  by (induction rs arbitrary: m) (auto simp: bump_map_of count_list_0_iff split: arena_key.splits option.splits)

lemma count_children_ok:
  assumes "key_closed A K" "set ks \<subseteq> K" "distinct ks" "distinct (map fst m)"
  shows "\<exists>m'. try_fold (count_children A) m ks = Ok m' \<and> distinct (map fst m') \<and>
    (\<forall>k. count0 (map_of m') k = count0 (map_of m) k + indeg A (set ks) k) \<and>
    dom (map_of m') = dom (map_of m) \<union> Ref ` (\<Union>k\<in>set ks. set (ref_list A k))"
  using assms(2-)
proof (induction ks arbitrary: m)
  case Nil
  then show ?case by simp
next
  case (Cons k ks)
  let ?m = "fold (\<lambda>r. bump (Ref r)) (ref_list A k) m"
  have step: "count_children A m k = Ok ?m"
    using key_closedD(1) [OF assms(1), of k] Cons.prems by (simp add: count_children_def)
  have c: "count0 (map_of ?m) x = count0 (map_of m) x + (case x of Ref h \<Rightarrow> count_list (ref_list A k) h | _ \<Rightarrow> 0)" for x
    by (auto simp: bumps_map_of count_list_0_iff split: arena_key.splits option.splits)
  have "x \<in> dom (map_of ?m) \<longleftrightarrow> x \<in> dom (map_of m) \<union> Ref ` set (ref_list A k)" for x
    by (cases x) (auto simp: dom_def bumps_map_of)
  then have d: "dom (map_of ?m) = dom (map_of m) \<union> Ref ` set (ref_list A k)" by blast
  obtain m' where m': "try_fold (count_children A) ?m ks = Ok m'" "distinct (map fst m')"
    "\<forall>x. count0 (map_of m') x = count0 (map_of ?m) x + indeg A (set ks) x"
    "dom (map_of m') = dom (map_of ?m) \<union> Ref ` (\<Union>k\<in>set ks. set (ref_list A k))"
    using Cons.IH [of ?m] Cons.prems by (auto simp: bumps_distinct)
  have "count0 (map_of m') x = count0 (map_of m) x + indeg A (set (k # ks)) x" for x
    using Cons.prems by (cases x) (simp_all add: m'(3) c)
  then show ?case using m'(1,2,4) d by (auto simp: step)
qed

lemma apply_inc_get:
  assumes "rc_wf m"
  shows "rc_wf (apply_inc m (k, n)) \<and>
    get_rc (apply_inc m (k, n)) = (get_rc m)(k \<mapsto> (case k of Ref _ \<Rightarrow> count0 (get_rc m) k + n | Direct _ _ \<Rightarrow> 0))"
  using assms by (cases k) (simp_all add: apply_inc_def modify_rc_get modify_rc_wf ins_root_get ins_root_wf)

lemma apply_incs_get:
  assumes "rc_wf m" "distinct (map fst inc)"
  shows "rc_wf (foldl apply_inc m inc) \<and>
    (\<forall>k. get_rc (foldl apply_inc m inc) k =
       (case map_of inc k of
          None \<Rightarrow> get_rc m k
        | Some n \<Rightarrow> Some (case k of Ref _ \<Rightarrow> count0 (get_rc m) k + n | Direct _ _ \<Rightarrow> 0)))"
  using assms
proof (induction inc arbitrary: m)
  case (Cons p inc)
  obtain k n where p: "p = (k, n)" by fastforce
  have k: "map_of inc k = None" using Cons.prems(2) p by (simp add: map_of_eq_None_iff)
  note a = apply_inc_get [OF Cons.prems(1), of k n, folded p]
  have IH: "rc_wf (foldl apply_inc (apply_inc m p) inc)"
    "\<And>x. get_rc (foldl apply_inc (apply_inc m p) inc) x =
       (case map_of inc x of
          None \<Rightarrow> get_rc (apply_inc m p) x
        | Some n \<Rightarrow> Some (case x of Ref _ \<Rightarrow> count0 (get_rc (apply_inc m p)) x + n | Direct _ _ \<Rightarrow> 0))"
    using Cons.IH [of "apply_inc m p"] a Cons.prems(2) by auto
  have g: "get_rc (apply_inc m p) = (get_rc m)(k \<mapsto> (case k of Ref _ \<Rightarrow> count0 (get_rc m) k + n | Direct _ _ \<Rightarrow> 0))"
    using a by simp
  show ?case
  proof (intro conjI allI)
    show "rc_wf (foldl apply_inc m (p # inc))" using IH(1) by simp
    fix x
    show "get_rc (foldl apply_inc m (p # inc)) x =
       (case map_of (p # inc) x of
          None \<Rightarrow> get_rc m x
        | Some n \<Rightarrow> Some (case x of Ref _ \<Rightarrow> count0 (get_rc m) x + n | Direct _ _ \<Rightarrow> 0))"
      using IH(2) [of x] k unfolding g by (cases "map_of inc x"; cases x) (auto simp: p)
  qed
qed simp

lemma count0_map_pairs [simp]: "count0 (map_of (map (\<lambda>k. (k, 0)) ks)) x = 0"
  by (induction ks) auto

lemma update_rcmap_ok:
  assumes m: "rc_exact A m" and ks: "distinct ks" "set ks \<inter> charged m = {}"
    and closed: "key_closed A (charged m \<union> set ks)"
  shows "\<exists>m'. update_rcmap A m ks = Ok m' \<and> rc_exact A m' \<and> charged m' = charged m \<union> set ks"
proof -
  let ?K = "charged m" and ?K' = "charged m \<union> set ks"
  have dist: "distinct (map fst (map (\<lambda>k. (k, 0::nat)) ks))" using ks(1) by (simp add: comp_def)
  obtain inc where inc: "try_fold (count_children A) (map (\<lambda>k. (k, 0)) ks) ks = Ok inc" "distinct (map fst inc)"
    "\<And>k. count0 (map_of inc) k = indeg A (set ks) k"
    "dom (map_of inc) = set ks \<union> Ref ` (\<Union>k\<in>set ks. set (ref_list A k))"
    using count_children_ok [OF closed, of ks "map (\<lambda>k. (k, 0)) ks"] ks(1) dist
    by (auto simp: dom_map_of_conv_image_fst image_image)
  let ?m = "foldl apply_inc m inc"
  have wf: "rc_wf m" and fin: "finite ?K" and cl: "key_closed A ?K"
    and ex: "\<And>k. k \<in> ?K \<Longrightarrow> get_rc m k = Some (indeg A ?K k)"
    using m unfolding rc_exact_def by auto
  note g = apply_incs_get [OF wf inc(2)]
  have refs: "Ref ` (\<Union>k\<in>set ks. set (ref_list A k)) \<subseteq> ?K'"
    using key_closedD(2) [OF closed] by auto
  have dom: "charged ?m = ?K'"
  proof -
    have "k \<in> dom (get_rc ?m) \<longleftrightarrow> k \<in> dom (get_rc m) \<union> dom (map_of inc)" for k
      using conjunct2 [OF g, rule_format, of k] by (cases "map_of inc k") auto
    then have "dom (get_rc ?m) = dom (get_rc m) \<union> dom (map_of inc)" by (rule set_eqI)
    then have "charged ?m = ?K' \<union> Ref ` (\<Union>k\<in>set ks. set (ref_list A k))"
      by (simp only: inc(4) charged_dom Un_assoc)
    then show ?thesis using refs by (simp only: Un_absorb2)
  qed
  have old: "count0 (get_rc m) k = indeg A ?K k" for k
  proof (cases "k \<in> ?K")
    case True
    then show ?thesis using ex by simp
  next
    case False
    then have "get_rc m k = None" by (simp add: rc_contains_def)
    then show ?thesis using False indeg_outside [OF fin cl] by (cases k) auto
  qed
  have "get_rc ?m k = Some (indeg A ?K' k)" if "k \<in> ?K'" for k
  proof (cases "map_of inc k")
    case None
    then have "k \<notin> set ks" using inc(4) domIff [of k "map_of inc"] by blast
    then have "k \<in> ?K" "indeg A (set ks) k = 0" using None that inc(3) [of k] by auto
    then show ?thesis using None g ex ks(2) fin by (simp add: indeg_union Int_commute)
  next
    case (Some n)
    then have "n = indeg A (set ks) k" using inc(3) [of k] by simp
    then show ?thesis using Some g old [of k] ks(2) fin
      by (cases k) (simp_all add: indeg_union Int_commute)
  qed
  then show ?thesis
    using inc(1) g dom fin closed unfolding rc_exact_def by (auto simp: update_rcmap_def)
qed

section \<open>Garbage collection\<close>

text \<open>The tables of the collector: counts are cached as they are in the map, and a decrement is
  recorded only for a charged key.\<close>

definition gc_tables :: "'h arena \<Rightarrow> 'h arena_key set \<Rightarrow> 'h gc_state \<Rightarrow> bool" where
  "gc_tables A K s \<longleftrightarrow>
     distinct (map fst (update_queue s)) \<and> dom (map_of (update_queue s)) \<subseteq> dom (rc_cache s) \<and>
     dom (map_of (update_queue s)) \<subseteq> K \<inter> range Ref \<and>
     (\<forall>k n. rc_cache s k = Some n \<longrightarrow> n = indeg A K k)"

abbreviation decs :: "'h gc_state \<Rightarrow> 'h arena_key \<Rightarrow> nat" where
  "decs s k \<equiv> count0 (map_of (update_queue s)) k"

lemma gc_child_step:
  fixes roots :: "'h arena_key list"
  assumes m: "rc_exact A m" and s: "gc_tables A (charged m) s" and r: "Ref r \<in> charged m"
  defines "s' \<equiv> gc_child m roots r s"
  shows "gc_tables A (charged m) s'" "keys_removed s' = keys_removed s"
    "decs s' k = decs s k + (if k = Ref r then 1 else 0)"
    "gc_queue s' =
       (if indeg A (charged m) (Ref r) \<le> decs s (Ref r) + 1 \<and> Ref r \<notin> set roots then [Ref r] else []) @ gc_queue s"
proof -
  have "get_rc m (Ref r) = Some (indeg A (charged m) (Ref r))" using m r by (simp add: rc_exact_def)
  then have ex: "(case rc_cache s (Ref r) of
      Some n \<Rightarrow> n | None \<Rightarrow> (case get_rc m (Ref r) of Some n \<Rightarrow> n | None \<Rightarrow> 0)) = indeg A (charged m) (Ref r)"
    using s unfolding gc_tables_def by (auto split: option.splits)
  have s': "s' = s\<lparr>rc_cache := (rc_cache s)(Ref r \<mapsto> indeg A (charged m) (Ref r)),
      update_queue := bump (Ref r) (update_queue s),
      gc_queue := (if indeg A (charged m) (Ref r) \<le> decs s (Ref r) + 1 \<and> Ref r \<notin> set roots
                   then Ref r # gc_queue s else gc_queue s)\<rparr>"
    unfolding s'_def gc_child_def Let_def ex by (simp add: bump_map_of)
  show "gc_tables A (charged m) s'"
    using s r unfolding s' gc_tables_def by (auto simp: bump_map_of bump_distinct)
  show "keys_removed s' = keys_removed s" "decs s' k = decs s k + (if k = Ref r then 1 else 0)"
    "gc_queue s' =
       (if indeg A (charged m) (Ref r) \<le> decs s (Ref r) + 1 \<and> Ref r \<notin> set roots then [Ref r] else []) @ gc_queue s"
    unfolding s' by (auto simp: bump_map_of fun_eq_iff)
qed

definition gc_batch ::
  "'h arena \<Rightarrow> 'h rc_map \<Rightarrow> 'h arena_key list \<Rightarrow> 'h list \<Rightarrow> 'h gc_state \<Rightarrow> 'h gc_state \<Rightarrow> 'h arena_key list \<Rightarrow> bool" where
  "gc_batch A m roots rs s s' new \<longleftrightarrow>
     gc_tables A (charged m) s' \<and> keys_removed s' = keys_removed s \<and>
     (\<forall>k. decs s' k = decs s k + (case k of Ref h \<Rightarrow> count_list rs h | Direct _ _ \<Rightarrow> 0)) \<and>
     gc_queue s' = new @ gc_queue s \<and> distinct new \<and>
     set new = {Ref h | h. h \<in> set rs \<and> Ref h \<notin> set roots \<and>
                  decs s (Ref h) + count_list rs h = indeg A (charged m) (Ref h)}"

lemma gc_children:
  assumes "rc_exact A m" "gc_tables A (charged m) s" "\<forall>h\<in>set rs. Ref h \<in> charged m"
    "\<forall>h\<in>set rs. decs s (Ref h) + count_list rs h \<le> indeg A (charged m) (Ref h)"
  shows "\<exists>new. gc_batch A m roots rs s (fold (gc_child m roots) rs s) new"
  using assms(2-)
proof (induction rs arbitrary: s)
  case Nil
  then show ?case by (auto simp: gc_batch_def split: arena_key.split)
next
  case (Cons r rs)
  let ?K = "charged m" and ?s = "gc_child m roots r s"
  let ?s' = "fold (gc_child m roots) rs ?s"
  have r: "Ref r \<in> ?K" using Cons.prems(2) by simp
  note step = gc_child_step [OF assms(1) Cons.prems(1) r, of roots]
  have d: "decs ?s (Ref h) + count_list rs h = decs s (Ref h) + count_list (r # rs) h" for h
    by (simp add: step(3))
  have bound: "\<forall>h\<in>set rs. decs ?s (Ref h) + count_list rs h \<le> indeg A ?K (Ref h)"
    using Cons.prems(3) unfolding d by simp
  have bound_r: "decs s (Ref r) + count_list (r # rs) r \<le> indeg A ?K (Ref r)"
    using Cons.prems(3) by (auto dest: bspec)
  have "\<forall>h\<in>set rs. Ref h \<in> ?K" using Cons.prems(2) by simp
  from Cons.IH [OF step(1) this bound] obtain new where "gc_batch A m roots rs ?s ?s' new" ..
  note new = this [unfolded gc_batch_def d]
  let ?now = "if indeg A ?K (Ref r) \<le> decs s (Ref r) + 1 \<and> Ref r \<notin> set roots then [Ref r] else []"
  have now: "r \<notin> set rs" if "?now \<noteq> []"
  proof -
    have "count_list rs r = 0" using bound_r that by (simp split: if_splits)
    then show ?thesis by (simp add: count_list_0_iff)
  qed
  have "set (new @ ?now) = {Ref h | h. h \<in> set (r # rs) \<and> Ref h \<notin> set roots \<and>
      decs s (Ref h) + count_list (r # rs) h = indeg A ?K (Ref h)}" (is "_ = ?B")
  proof (cases "r \<in> set rs")
    case True
    then have "set (r # rs) = set rs" by auto
    moreover have "?now = []" by (rule ccontr) (use now True in blast)
    ultimately show ?thesis using new by simp
  next
    case False
    then have "count_list rs r = 0" by (simp add: count_list_0_iff)
    then have "set ?now = (if Ref r \<in> ?B then {Ref r} else {})" using bound_r by auto
    then show ?thesis using new False by auto
  qed
  moreover have "distinct (new @ ?now)" using new now by auto
  moreover have "gc_queue ?s' = (new @ ?now) @ gc_queue s" using new step(4) by simp
  moreover have "decs ?s' k = decs s k + (case k of Ref h \<Rightarrow> count_list (r # rs) h | Direct _ _ \<Rightarrow> 0)" for k
    using new by (cases k) (simp_all add: step(3))
  moreover have "gc_tables A ?K ?s'" "keys_removed ?s' = keys_removed s" using new step(2) by auto
  ultimately have "gc_batch A m roots (r # rs) s ?s' (new @ ?now)" unfolding gc_batch_def by blast
  then show ?case by auto
qed

text \<open>A key is ready for collection when it is no root and all references to it come from collected
  keys. The collector has queued or collected exactly the ready keys.\<close>

definition ready :: "'h arena \<Rightarrow> 'h arena_key set \<Rightarrow> 'h arena_key list \<Rightarrow> 'h arena_key set \<Rightarrow> 'h arena_key set" where
  "ready A K roots D = {k \<in> K - set roots. indeg A K k = indeg A D k}"

definition gc_inv :: "'h arena \<Rightarrow> 'h rc_map \<Rightarrow> 'h arena_key list \<Rightarrow> 'h arena_key list \<Rightarrow> 'h gc_state \<Rightarrow> bool" where
  "gc_inv A m roots sq s \<longleftrightarrow>
     gc_tables A (charged m) s \<and> distinct (keys_removed s @ sq @ gc_queue s) \<and>
     set (keys_removed s @ sq @ gc_queue s) = ready A (charged m) roots (set (keys_removed s)) \<and>
     (\<forall>k. decs s k = indeg A (set (keys_removed s)) k)"

lemma ready_insert:
  assumes "finite K" "D \<subseteq> K" "k \<in> K" "k \<notin> D"
  shows "ready A K roots (insert k D) = ready A K roots D \<union>
    {Ref h | h. h \<in> set (ref_list A k) \<and> Ref h \<in> K \<and> Ref h \<notin> set roots \<and> indeg A (insert k D) (Ref h) = indeg A K (Ref h)}"
proof (rule set_eqI)
  fix x
  have fin: "finite D" using assms(1,2) finite_subset by blast
  have le: "indeg A (insert k D) x \<le> indeg A K x" using assms by (intro indeg_mono) auto
  show "x \<in> ready A K roots (insert k D) \<longleftrightarrow> x \<in> ready A K roots D \<union>
    {Ref h | h. h \<in> set (ref_list A k) \<and> Ref h \<in> K \<and> Ref h \<notin> set roots \<and> indeg A (insert k D) (Ref h) = indeg A K (Ref h)}"
  proof (cases x)
    case (Ref h)
    have "count_list (ref_list A k) h = 0" if "h \<notin> set (ref_list A k)" using that by (simp add: count_list_0_iff)
    then show ?thesis using le fin assms(4) unfolding Ref ready_def by (cases "h \<in> set (ref_list A k)") auto
  qed (auto simp: ready_def)
qed

lemma gc_step:
  assumes m: "rc_exact A m" and inv: "gc_inv A m roots (k # sq) s"
  shows "gc_inv A m roots sq
    ((fold (gc_child m roots) (ref_list A k) s)\<lparr>keys_removed := List.insert k (keys_removed s)\<rparr>)"
proof -
  let ?K = "charged m" and ?D = "set (keys_removed s)" and ?rs = "ref_list A k"
  let ?s' = "fold (gc_child m roots) ?rs s"
  have fin: "finite ?K" and cl: "key_closed A ?K" using m by (auto simp: rc_exact_def)
  have tabs: "gc_tables A ?K s" and dist: "distinct (keys_removed s @ (k # sq) @ gc_queue s)"
    and set: "set (keys_removed s @ (k # sq) @ gc_queue s) = ready A ?K roots ?D"
    and cnt: "\<And>x. decs s x = indeg A ?D x"
    using inv unfolding gc_inv_def by blast+
  have sub: "set (keys_removed s @ (k # sq) @ gc_queue s) \<subseteq> ?K" unfolding set by (auto simp: ready_def)
  then have k: "k \<in> ?K" "k \<notin> ?D" "?D \<subseteq> ?K" using dist by auto
  have rs: "\<forall>h\<in>set ?rs. Ref h \<in> ?K" using key_closedD(2) [OF cl k(1)] by blast
  have cnt': "decs s (Ref h) + count_list ?rs h = indeg A (insert k ?D) (Ref h)" for h
    using k by (simp add: cnt)
  have "indeg A (insert k ?D) x \<le> indeg A ?K x" for x using k fin by (intro indeg_mono) auto
  then have "\<forall>h\<in>set ?rs. decs s (Ref h) + count_list ?rs h \<le> indeg A ?K (Ref h)" unfolding cnt' by blast
  from gc_children [OF m tabs rs this, of roots] obtain new where "gc_batch A m roots ?rs s ?s' new" ..
  note new = this [unfolded gc_batch_def cnt']
  have new_set: "set new = {Ref h | h. h \<in> set ?rs \<and> Ref h \<in> ?K \<and> Ref h \<notin> set roots \<and>
      indeg A (insert k ?D) (Ref h) = indeg A ?K (Ref h)}"
    using new rs by blast
  have "set new \<inter> ready A ?K roots ?D = {}"
    unfolding new_set using k by (auto simp: ready_def count_list_0_iff)
  then have "distinct ((k # keys_removed s) @ sq @ new @ gc_queue s)"
    using new dist unfolding set [symmetric] by auto
  moreover have "set ((k # keys_removed s) @ sq @ new @ gc_queue s) = ready A ?K roots (insert k ?D)"
    unfolding ready_insert [OF fin k(3,1,2)] new_set [symmetric] set [symmetric] by auto
  moreover have "decs ?s' x = indeg A (insert k ?D) x" for x
    using new k by (cases x) (simp_all add: cnt)
  moreover let ?t = "?s'\<lparr>keys_removed := k # keys_removed s\<rparr>"
  have t: "keys_removed ?t = k # keys_removed s" "gc_queue ?t = new @ gc_queue s" "update_queue ?t = update_queue ?s'"
    using new by simp_all
  moreover have "gc_tables A ?K ?t" using new by (simp add: gc_tables_def)
  ultimately have "gc_inv A m roots sq ?t"
    unfolding gc_inv_def t by (simp only: list.set(2) simp_thms)
  then show ?thesis using k by simp
qed

lemma gc_inv_length:
  assumes "rc_exact A m" "gc_inv A m roots sq s"
  shows "length (keys_removed s) + length sq + length (gc_queue s) \<le> card (charged m)"
proof -
  have "card (set (keys_removed s @ sq @ gc_queue s)) \<le> card (charged m)"
    using assms by (intro card_mono) (auto simp: gc_inv_def rc_exact_def ready_def)
  then show ?thesis using assms(2) distinct_card [of "keys_removed s @ sq @ gc_queue s"]
    unfolding gc_inv_def by simp
qed

lemma gc_inv_refs:
  "rc_exact A m \<Longrightarrow> gc_inv A m roots (k # sq) s \<Longrightarrow> (out_refs A k :: (unit, 'h list) result) = Ok (ref_list A k)"
  by (rule key_closedD(1) [of A "charged m"]) (auto simp: gc_inv_def rc_exact_def ready_def)

lemma gc_loop_ok:
  assumes m: "rc_exact A m" and inv: "gc_inv A m roots sq s"
  shows "\<exists>s' sq'. gc_loop A m roots n sq s = Ok s' \<and> gc_inv A m roots sq' s' \<and>
    (card (charged m) \<le> n + length (keys_removed s) \<longrightarrow> sq' = [] \<and> gc_queue s' = [])"
  using inv
proof (induction n arbitrary: sq s)
  case 0
  have "card (charged m) \<le> length (keys_removed s) \<longrightarrow> sq = [] \<and> gc_queue s = []"
    using gc_inv_length [OF m 0] by (auto simp flip: length_0_conv)
  moreover have "gc_loop A m roots 0 sq s = Ok s" by (cases sq) (auto split: list.split)
  ultimately show ?case using 0 by auto
next
  case (Suc n)
  have next_step: "\<exists>s' sq'. gc_loop A m roots n q
      ((fold (gc_child m roots) (ref_list A k) t)\<lparr>keys_removed := List.insert k (keys_removed t)\<rparr>) = Ok s' \<and>
      gc_inv A m roots sq' s' \<and>
      (card (charged m) \<le> Suc n + length (keys_removed t) \<longrightarrow> sq' = [] \<and> gc_queue s' = [])"
    if t: "gc_inv A m roots (k # q) t" for k q t
  proof -
    have "k \<notin> set (keys_removed t)" using t by (simp add: gc_inv_def)
    then show ?thesis using Suc.IH [OF gc_step [OF m t]] by simp
  qed
  show ?case
  proof (cases sq)
    case (Cons k q)
    then show ?thesis using next_step [of k q s] Suc.prems gc_inv_refs [OF m, of roots k q s] by simp
  next
    case [simp]: Nil
    show ?thesis
    proof (cases "gc_queue s")
      case Nil
      then show ?thesis using Suc.prems by auto
    next
      case (Cons k q)
      let ?t = "s\<lparr>gc_queue := q\<rparr>"
      have "gc_inv A m roots [k] ?t" using Suc.prems Cons by (simp add: gc_inv_def gc_tables_def)
      then show ?thesis using next_step [of k "[]" ?t] gc_inv_refs [OF m, of roots k "[]" ?t] Cons by simp
    qed
  qed
qed

lemma apply_decs_ok:
  assumes "rc_wf m" "distinct (map fst U)" "\<forall>k\<in>fst ` set U. k \<in> range Ref \<and> cache k = Some (c k)"
  shows "\<exists>m'. try_fold (apply_dec cache) m U = Ok m' \<and> rc_wf m' \<and>
    (\<forall>k. get_rc m' k = (case map_of U k of None \<Rightarrow> get_rc m k | Some u \<Rightarrow> Some (c k - u)))"
  using assms
proof (induction U arbitrary: m)
  case (Cons p U)
  obtain r u where p: "p = (Ref r, u)" using Cons.prems(3) by (cases p) auto
  let ?m = "modify_rc m r (c (Ref r) - u)"
  have step: "apply_dec cache m p = Ok ?m" using Cons.prems(3) by (simp add: p apply_dec_def)
  have r: "map_of U (Ref r) = None" using Cons.prems(2) p by (simp add: map_of_eq_None_iff)
  obtain m' where m': "try_fold (apply_dec cache) ?m U = Ok m'" "rc_wf m'"
    "\<And>k. get_rc m' k = (case map_of U k of None \<Rightarrow> get_rc ?m k | Some u \<Rightarrow> Some (c k - u))"
    using Cons.IH [of ?m] Cons.prems modify_rc_wf [OF Cons.prems(1)] by auto
  have "get_rc m' k = (case map_of (p # U) k of None \<Rightarrow> get_rc m k | Some u \<Rightarrow> Some (c k - u))" for k
    using m'(3) [of k] r modify_rc_get [OF Cons.prems(1), of r] by (cases "k = Ref r"; cases "map_of U k") (simp_all add: p)
  moreover have "try_fold (apply_dec cache) m (p # U) = Ok m'" using m'(1) by (simp add: step)
  ultimately show ?case using m'(2) by blast
qed simp

lemma remove_keys_ok:
  assumes "rc_wf m" "distinct ks" "\<forall>k\<in>set ks. get_rc m k = Some 0"
  shows "\<exists>m'. try_fold remove_key m ks = Ok m' \<and> rc_wf m' \<and>
    (\<forall>k. get_rc m' k = (if k \<in> set ks then None else get_rc m k))"
  using assms
proof (induction ks arbitrary: m)
  case (Cons k ks)
  from remove_unreachable [OF Cons.prems(1)] obtain m1 where
    m1: "remove_unreachable_key m k = Some m1" "rc_wf m1" "get_rc m1 = (get_rc m)(k := None)"
    using Cons.prems(3) by auto
  have "\<forall>x\<in>set ks. get_rc m1 x = Some 0" using Cons.prems(2,3) unfolding m1(3) by auto
  with Cons.IH [OF m1(2)] Cons.prems(2) obtain m' where "try_fold remove_key m1 ks = Ok m'" "rc_wf m'"
    "\<forall>x. get_rc m' x = (if x \<in> set ks then None else get_rc m1 x)" by auto
  moreover have "remove_key m k = Ok m1" by (simp add: remove_key_def m1(1))
  ultimately show ?case by (intro exI [of _ m']) (simp add: m1(3))
qed simp

text \<open>What is left when no key is ready is below the roots: the references form no cycle.\<close>

lemma live_below:
  assumes fin: "finite K" and D: "D \<subseteq> K" and fixp: "ready A K roots D \<subseteq> D" and acyc: "acyclic (key_edges A)"
  shows "K - D \<subseteq> below A (set roots)"
proof
  let ?E = "key_edges A \<inter> (K \<times> K)"
  have "wf ?E" using fin acyc by (intro finite_acyclic_wf) (auto intro: acyclic_subset)
  then have "k \<in> K - D \<longrightarrow> k \<in> below A (set roots)" for k
  proof (induction k rule: wf_induct_rule)
    case (less k)
    show ?case
    proof
      assume k: "k \<in> K - D"
      show "k \<in> below A (set roots)"
      proof (cases "k \<in> set roots")
        case True
        then show ?thesis using below_base [of "set roots" A] by blast
      next
        case False
        then have "indeg A K k \<noteq> indeg A D k" using k fixp by (auto simp: ready_def)
        then obtain h where h: "k = Ref h" and "0 < indeg A (K - D) (Ref h)"
          using indeg_mono [OF fin D, of A k] indeg_diff [OF fin D, of A k] by (cases k) auto
        then obtain p where p: "p \<in> K - D" "h \<in> set (ref_list A p)" using fin by (auto simp: indeg_pos)
        then have "(p, k) \<in> ?E" using k h by (auto simp: key_edges_def)
        then have "p \<in> below A (set roots)" using less p by blast
        then show ?thesis unfolding h by (rule below_step) (rule p(2))
      qed
    qed
  qed
  then show "x \<in> below A (set roots)" if "x \<in> K - D" for x using that by blast
qed

lemma ready_rest_closed:
  fixes A :: "'h arena"
  assumes fin: "finite K" and cl: "key_closed A K" and D: "D \<subseteq> ready A K roots D"
  shows "key_closed A (K - D)"
proof (rule key_closedI)
  have DK: "D \<subseteq> K" using D by (auto simp: ready_def)
  fix k assume k: "k \<in> K - D"
  then show "(out_refs A k :: (unit, 'h list) result) = Ok (ref_list A k)" using key_closedD(1) [OF cl] by blast
  fix h assume h: "h \<in> set (ref_list A k)"
  have "0 < indeg A (K - D) (Ref h)" using fin k h by (auto simp: indeg_pos)
  then have "Ref h \<notin> ready A K roots D" using indeg_diff [OF fin DK, of A "Ref h"] by (simp add: ready_def)
  then show "Ref h \<in> K - D" using key_closedD(2) [OF cl _ h] k D by blast
qed

lemma gc_rcmap_ok:
  assumes m: "rc_exact A m" and roots: "set roots \<subseteq> charged m"
  shows "\<exists>m' removed. gc_rcmap A m roots n = Ok (m', removed) \<and> rc_exact A m' \<and> distinct removed \<and>
    set removed \<subseteq> charged m - below A (set roots) \<and> charged m' = charged m - set removed \<and>
    (card (charged m) \<le> n \<and> acyclic (key_edges A) \<longrightarrow> charged m' = below A (set roots))"
proof -
  let ?K = "charged m" and ?s0 = "\<lparr>gc_queue = [], rc_cache = Map.empty, update_queue = [], keys_removed = []\<rparr>"
  have wf: "rc_wf m" and fin: "finite ?K" and cl: "key_closed A ?K"
    and ex: "\<And>k. k \<in> ?K \<Longrightarrow> get_rc m k = Some (indeg A ?K k)"
    using m unfolding rc_exact_def by auto
  have "get_rc m k = Some 0 \<longleftrightarrow> k \<in> ?K \<and> indeg A ?K k = 0" for k
    using ex [of k] by (cases "get_rc m k") (simp_all add: rc_contains_def)
  then have "set (get_unreachable_keys_not_in m roots) = ready A ?K roots {}"
    by (auto simp: get_unreachable_keys_not_in_def ready_def rc_0_get [OF wf])
  then have "gc_inv A m roots (get_unreachable_keys_not_in m roots) ?s0"
    using wf by (simp add: gc_inv_def gc_tables_def rc_wf_def get_unreachable_keys_not_in_def)
  from gc_loop_ok [OF m this, of n] obtain s sq where loop:
    "gc_loop A m roots n (get_unreachable_keys_not_in m roots) ?s0 = Ok s" "gc_inv A m roots sq s"
    "card ?K \<le> n \<Longrightarrow> sq = [] \<and> gc_queue s = []" by auto
  let ?D = "set (keys_removed s)"
  have dist: "distinct (keys_removed s)" and D: "?D \<subseteq> ready A ?K roots ?D"
    and tabs: "gc_tables A ?K s" and cnt: "\<And>k. decs s k = indeg A ?D k"
    using loop(2) unfolding gc_inv_def by auto
  have DK: "?D \<subseteq> ?K" "?D \<inter> set roots = {}" using D by (auto simp: ready_def)
  have dU: "distinct (map fst (update_queue s))" using tabs unfolding gc_tables_def by blast
  have "\<forall>k\<in>fst ` set (update_queue s). k \<in> range Ref \<and> rc_cache s k = Some (indeg A ?K k)"
    using tabs unfolding gc_tables_def dom_map_of_conv_image_fst [symmetric] by blast
  from apply_decs_ok [OF wf dU this] obtain m1 where m1: "try_fold (apply_dec (rc_cache s)) m (update_queue s) = Ok m1" "rc_wf m1"
    "\<And>k. get_rc m1 k = (case map_of (update_queue s) k of None \<Rightarrow> get_rc m k | Some u \<Rightarrow> Some (indeg A ?K k - u))"
    by blast
  have new: "get_rc m1 k = Some (indeg A (?K - ?D) k)" if "k \<in> ?K" for k
    using m1(3) [of k] cnt [of k] ex [OF that] indeg_diff [OF fin DK(1), of A k] by (auto split: option.splits)
  have out: "get_rc m1 k = None" if "k \<notin> ?K" for k
  proof -
    have "k \<notin> dom (map_of (update_queue s))" using that tabs unfolding gc_tables_def by blast
    then have "map_of (update_queue s) k = None" by (simp add: domIff)
    then show ?thesis using m1(3) [of k] that by (simp add: rc_contains_def)
  qed
  have "\<forall>k\<in>?D. get_rc m1 k = Some 0"
    using new D indeg_diff [OF fin DK(1), of A] by (auto simp: ready_def)
  from remove_keys_ok [OF m1(2) dist this] obtain m2 where m2: "try_fold remove_key m1 (keys_removed s) = Ok m2"
    "rc_wf m2" "\<And>k. get_rc m2 k = (if k \<in> ?D then None else get_rc m1 k)" by blast
  have ch: "charged m2 = ?K - ?D"
  proof (rule set_eqI)
    fix k
    have "get_rc m2 k \<noteq> None \<longleftrightarrow> k \<notin> ?D \<and> k \<in> ?K" using m2(3) [of k] new [of k] out [of k] by (cases "k \<in> ?K") simp_all
    then show "k \<in> charged m2 \<longleftrightarrow> k \<in> ?K - ?D" by (auto simp: rc_contains_def)
  qed
  have closed: "key_closed A (?K - ?D)" by (rule ready_rest_closed [OF fin cl D])
  then have live: "below A (set roots) \<subseteq> ?K - ?D" by (rule below_subset) (use roots DK in auto)
  have "get_rc m2 k = Some (indeg A (?K - ?D) k)" if "k \<in> ?K - ?D" for k
    using that m2(3) [of k] new [of k] by simp
  then have "rc_exact A m2"
    using m2(2) fin closed ch unfolding rc_exact_def by (metis finite_Diff mem_Collect_eq)
  moreover have "?K - ?D \<subseteq> below A (set roots)" if "card ?K \<le> n" "acyclic (key_edges A)"
    by (rule live_below [OF fin DK(1) _ that(2)]) (use loop(2,3) that(1) in \<open>auto simp: gc_inv_def\<close>)
  ultimately show ?thesis
    using loop(1) m1(1) m2(1) dist live ch DK by (auto simp: gc_rcmap_def)
qed

section \<open>The costs of an update\<close>

lemma incremental_ok:
  assumes k0: "rc_exact A k0" and K: "finite K" "key_closed A K" "set r1 \<subseteq> K"
  shows "\<exists>added removed k1. incremental_write_delete_costs A k0 r1 cpu_cost gc_limit = Some (Ok (wd_new A added removed k1 cpu_cost)) \<and>
    rc_exact A k1 \<and> distinct added \<and> set added = below A (set r1) - charged k0 \<and>
    distinct removed \<and> set removed = (charged k0 \<union> below A (set r1)) - charged k1 \<and>
    below A (set r1) \<subseteq> charged k1 \<and> charged k1 \<subseteq> charged k0 \<union> below A (set r1) \<and>
    (card (charged k0 \<union> below A (set r1)) \<le> gc_limit (cpu_cost (length added) 0) \<and> acyclic (key_edges A) \<longrightarrow>
      charged k1 = below A (set r1))"
proof -
  let ?B = "below A (set r1)"
  obtain added where added: "get_writes A k0 r1 = Some (Ok added)" "distinct added" "set added = ?B - charged k0"
    using get_writes_ok [OF K k0] by blast
  have un: "charged k0 \<union> set added = charged k0 \<union> ?B" using added(3) by blast
  have "key_closed A (charged k0 \<union> ?B)"
    using k0 below_closed [OF K(2,3)] by (auto simp: rc_exact_def intro: key_closed_un)
  then obtain k where k: "update_rcmap A k0 added = Ok k" "rc_exact A k" "charged k = charged k0 \<union> ?B"
    using update_rcmap_ok [OF k0 added(2)] added(3) unfolding un by blast
  have "set r1 \<subseteq> charged k" using k(3) below_base [of "set r1" A] by blast
  from gc_rcmap_ok [OF k(2) this, of "gc_limit (cpu_cost (length added) 0)"] obtain k1 removed where
    gc: "gc_rcmap A k r1 (gc_limit (cpu_cost (length added) 0)) = Ok (k1, removed)" "rc_exact A k1" "distinct removed"
      "set removed \<subseteq> charged k - ?B" "charged k1 = charged k - set removed"
      "card (charged k) \<le> gc_limit (cpu_cost (length added) 0) \<and> acyclic (key_edges A) \<longrightarrow> charged k1 = ?B"
    by blast
  have sets: "set removed = (charged k0 \<union> ?B) - charged k1" "?B \<subseteq> charged k1" "charged k1 \<subseteq> charged k0 \<union> ?B"
    using gc(4,5) unfolding k(3) by blast+
  have "incremental_write_delete_costs A k0 r1 cpu_cost gc_limit = Some (Ok (wd_new A added removed k1 cpu_cost))"
    using added(1) k(1) gc(1) by (simp add: incremental_write_delete_costs_def opt_then_def)
  then show ?thesis using gc(2,3,6) added(2,3) sets unfolding k(3) by blast
qed

text \<open>C24: The costs of an update of a contract's storage are always computed, and computed right. If the charged
  keys are counted exactly and the nodes below the new roots are in the arena, the tracker ends without
  a panic, the new map is exact again and charges every key below the new roots and none but these and
  formerly charged ones, the written nodes are the newly charged keys and the deleted nodes the keys
  whose charge is dropped.\<close>

theorem delta_costs_exact:
  assumes "rc_exact A k0" "finite K" "key_closed A K" "set r1 \<subseteq> K"
  shows "\<exists>r. incremental_write_delete_costs A k0 r1 cpu_cost gc_limit = Some (Ok r) \<and>
    rc_exact A (wd_updated_charged_keys r) \<and>
    below A (set r1) \<subseteq> charged (wd_updated_charged_keys r) \<and>
    charged (wd_updated_charged_keys r) \<subseteq> charged k0 \<union> below A (set r1) \<and>
    wd_nodes_written r = card (below A (set r1) - charged k0) \<and>
    wd_nodes_deleted r = card ((charged k0 \<union> below A (set r1)) - charged (wd_updated_charged_keys r))"
proof -
  from incremental_ok [OF assms, of cpu_cost gc_limit] obtain added removed k1 where
    r: "incremental_write_delete_costs A k0 r1 cpu_cost gc_limit = Some (Ok (wd_new A added removed k1 cpu_cost))"
      "rc_exact A k1" "distinct added" "set added = below A (set r1) - charged k0"
      "distinct removed" "set removed = (charged k0 \<union> below A (set r1)) - charged k1"
      "below A (set r1) \<subseteq> charged k1" "charged k1 \<subseteq> charged k0 \<union> below A (set r1)"
    by blast
  have "length added = card (below A (set r1) - charged k0)"
    "length removed = card ((charged k0 \<union> below A (set r1)) - charged k1)"
    using distinct_card [OF r(3)] distinct_card [OF r(5)] unfolding r(4,6) by simp_all
  then show ?thesis using r by (intro exI [of _ "wd_new A added removed k1 cpu_cost"]) (simp add: wd_new_def)
qed

text \<open>C25: Garbage is fully collected when the step limit allows a step per key. Storage references
  form no cycle, since a key is a hash of its node; under this assumption the keys charged after the
  update are exactly those below the new roots.\<close>

theorem delta_collects_garbage:
  assumes "rc_exact A k0" "finite K" "key_closed A K" "set r1 \<subseteq> K" "acyclic (key_edges A)"
    and "\<And>c. card (charged k0 \<union> below A (set r1)) \<le> gc_limit c"
  shows "\<exists>r. incremental_write_delete_costs A k0 r1 cpu_cost gc_limit = Some (Ok r) \<and>
    charged (wd_updated_charged_keys r) = below A (set r1)"
proof -
  from incremental_ok [OF assms(1-4), of cpu_cost gc_limit] obtain added removed k1 where
    "incremental_write_delete_costs A k0 r1 cpu_cost gc_limit = Some (Ok (wd_new A added removed k1 cpu_cost))"
    "charged k1 = below A (set r1)"
    using assms(5,6) by blast
  then show ?thesis by (intro exI [of _ "wd_new A added removed k1 cpu_cost"]) (simp add: wd_new_def)
qed

text \<open>An arena of three nodes for the witnesses: a shared leaf and two roots over it.\<close>

definition demo_arena :: "nat arena" where
  "demo_arena = \<lparr>arena_children = (\<lambda>h. if h = 0 then Some [] else if h \<le> 2 then Some [Ref 0] else None),
     arena_node_size = (\<lambda>_. 10), key_serialized_size = (\<lambda>_. 40)\<rparr>"

definition demo_charge :: "nat rc_map" where
  "demo_charge = \<lparr>rc_ge_1 = [0 \<mapsto> 1], rc_0 = [Ref 1]\<rparr>"

lemma demo_refs [simp]:
  "ref_list demo_arena (Ref 0) = []" "ref_list demo_arena (Ref (Suc 0)) = [0]" "ref_list demo_arena (Ref 2) = [0]"
  by (simp_all add: ref_list_def out_refs_def demo_arena_def refs_def)

lemma demo_contains: "rc_contains demo_charge k \<longleftrightarrow> k = Ref 0 \<or> k = Ref 1"
  by (cases k) (simp_all add: rc_contains_def get_rc_def demo_charge_def)

lemma demo_closed: "K \<subseteq> {Ref 0, Ref 1, Ref 2} \<Longrightarrow> Ref 0 \<in> K \<Longrightarrow> key_closed demo_arena K"
  by (rule key_closedI) (auto simp: out_refs_def demo_arena_def refs_def ref_list_def)

lemma demo_exact: "rc_exact demo_arena demo_charge"
proof -
  have ch: "charged demo_charge = {Ref 0, Ref (Suc 0)}" using demo_contains by auto
  have "rc_wf demo_charge" by (simp add: rc_wf_def demo_charge_def)
  moreover have "get_rc demo_charge k = Some (indeg demo_arena {Ref 0, Ref (Suc 0)} k)" if "k \<in> {Ref 0, Ref (Suc 0)}" for k
    using that by (auto simp: get_rc_def demo_charge_def indeg_def)
  ultimately show ?thesis unfolding rc_exact_def ch using ch by (auto simp: demo_closed)
qed

theorem delta_costs_exact_witness:
  "\<exists>r. incremental_write_delete_costs demo_arena demo_charge [Ref 2] (\<lambda>_ _. rc_ZERO) (\<lambda>_. 5) = Some (Ok r) \<and>
    rc_exact demo_arena (wd_updated_charged_keys r) \<and>
    below demo_arena {Ref 2} \<subseteq> charged (wd_updated_charged_keys r)"
  using delta_costs_exact [OF demo_exact, of "{Ref 0, Ref 2}" "[Ref 2]" "\<lambda>_ _. rc_ZERO" "\<lambda>_. 5"]
  by (auto simp: demo_closed)

lemma demo_acyclic: "acyclic (key_edges demo_arena)"
proof -
  let ?f = "\<lambda>k. (case k of Direct _ _ \<Rightarrow> 2 | Ref h \<Rightarrow> if h = (0::nat) then 0 else (1::nat))"
  have "?f k' < ?f k" if "(k, k') \<in> key_edges demo_arena" for k k'
    using that by (cases k) (auto simp: key_edges_def ref_list_def out_refs_def demo_arena_def refs_def split: if_splits)
  then have "(key_edges demo_arena)\<inverse> \<subseteq> measure ?f" by auto
  then show ?thesis using wf_subset [OF wf_measure] wf_acyclic acyclic_converse by blast
qed

theorem delta_collects_garbage_witness:
  "\<exists>r. incremental_write_delete_costs demo_arena demo_charge [Ref 2] (\<lambda>_ _. rc_ZERO) (\<lambda>_. 5) = Some (Ok r) \<and>
    charged (wd_updated_charged_keys r) = below demo_arena {Ref 2}"
proof -
  have "below demo_arena {Ref 2} \<subseteq> {Ref 0, Ref 2}" by (rule below_subset) (auto simp: demo_closed)
  then have sub: "charged demo_charge \<union> below demo_arena {Ref 2} \<subseteq> {Ref 0, Ref 1, Ref 2}"
    using demo_contains by auto
  have "card (charged demo_charge \<union> below demo_arena {Ref 2}) \<le> card {Ref (0::nat), Ref 1, Ref 2}"
    by (rule card_mono [OF _ sub]) simp
  then have "card (charged demo_charge \<union> below demo_arena (set [Ref 2])) \<le> 5" by simp
  then show ?thesis
    using delta_collects_garbage [OF demo_exact, of "{Ref 0, Ref 2}" "[Ref 2]" "\<lambda>_. 5" "\<lambda>_ _. rc_ZERO"]
    by (simp add: demo_closed demo_acyclic)
qed

end
