(* ===== verification/Field_Repr.thy ===== *)
theory Field_Repr
  imports Fab
begin

text \<open>
  Representations as field elements and as hashed bytes: byte strings and built-in types
  (\<^verbatim>\<open>transient-crypto/src/repr.rs\<close>, \<^verbatim>\<open>curve.rs\<close>, \<^verbatim>\<open>hash.rs\<close>) and field-aligned binary values
  (\<^verbatim>\<open>transient-crypto/src/fab.rs\<close>).

  The scalar field and its hash are external; the record \<^verbatim>\<open>fr_ops\<close> holds the operations the code
  calls, and \<^verbatim>\<open>fr_laws\<close> what their documentation promises: a field element has a canonical
  little-endian representation of 32 bytes, every string of at most 31 bytes is canonical, and
  integers are represented by their value.
\<close>

section \<open>Field elements\<close>

record 'f fr_ops =
  from_repr :: "byte list \<Rightarrow> 'f option"
  to_repr :: "'f \<Rightarrow> byte list"
  from_uniform :: "byte list \<Rightarrow> 'f"
  fr_of_int :: "int \<Rightarrow> 'f"
  poseidon :: "'f list \<Rightarrow> 'f"

definition FR_BYTES :: nat where "FR_BYTES = 32"
definition FR_BYTES_STORED :: nat where "FR_BYTES_STORED = 31"

abbreviation zeros :: "nat \<Rightarrow> byte list" where "zeros n \<equiv> replicate n 0"

definition fr_from_le_bytes :: "'f fr_ops \<Rightarrow> byte list \<Rightarrow> 'f option" where
  "fr_from_le_bytes F bs = (if length bs \<le> FR_BYTES then from_repr F (bs @ zeros (FR_BYTES - length bs)) else None)"

definition u128_of_fr :: "'f fr_ops \<Rightarrow> 'f \<Rightarrow> nat option" where
  "u128_of_fr F f =
     (let limbs = to_repr F f in
      if list_ex (\<lambda>limb. limb \<noteq> 0) (drop 16 limbs) then None else Some (le_value (take 16 limbs)))"

definition uint_of_fr :: "nat \<Rightarrow> 'f fr_ops \<Rightarrow> 'f \<Rightarrow> nat option" where
  "uint_of_fr n F f = (case u128_of_fr F f of Some v \<Rightarrow> if v < 256 ^ n then Some v else None | None \<Rightarrow> None)"

definition bool_of_fr :: "'f fr_ops \<Rightarrow> 'f \<Rightarrow> bool option" where
  "bool_of_fr F f =
     (case uint_of_fr 8 F f of
        Some n \<Rightarrow> if n = 0 then Some False else if n = 1 then Some True else None
      | None \<Rightarrow> None)"

section \<open>Byte strings\<close>

function bytes_field_repr :: "'f fr_ops \<Rightarrow> byte list \<Rightarrow> ('e, 'f list) result" where
  "bytes_field_repr F bs =
     (if bs = [] then Ok []
      else
        let len = length bs; stray = len mod FR_BYTES_STORED;
            start = (if stray \<noteq> 0 then len - stray else len - min FR_BYTES_STORED len)
        in and_then (expect (fr_from_le_bytes F (drop start bs))) (\<lambda>f.
             map_ok (Cons f) (bytes_field_repr F (take start bs))))"
  by pat_completeness auto
termination
  by (relation "measure (\<lambda>(F, bs). length bs)") (auto simp: FR_BYTES_STORED_def split: if_splits)

declare bytes_field_repr.simps [simp del]

definition bytes_field_size :: "nat \<Rightarrow> nat" where
  "bytes_field_size len = div_ceil len FR_BYTES_STORED"

text \<open>The inner closure of \<^verbatim>\<open>bytes_from_field_repr\<close>, and its loop over the full chunks; chunk \<open>i\<close> is read
  from element \<open>chunks - 1 - i\<close>.\<close>

definition bytes_from :: "'f fr_ops \<Rightarrow> nat \<Rightarrow> 'f \<Rightarrow> byte list option" where
  "bytes_from F k f =
     (let r = to_repr F f in if list_ex (\<lambda>b. b \<noteq> 0) (drop k r) then None else Some (take k r))"

fun bytes_from_chunks :: "'f fr_ops \<Rightarrow> 'f list \<Rightarrow> byte list option" where
  "bytes_from_chunks F [] = Some []"
| "bytes_from_chunks F (f # fs) =
     (case bytes_from F FR_BYTES_STORED f of
        None \<Rightarrow> None
      | Some b \<Rightarrow> map_option (\<lambda>bs. b @ bs) (bytes_from_chunks F fs))"

definition bytes_from_field_repr :: "'f fr_ops \<Rightarrow> 'f list \<Rightarrow> nat \<Rightarrow> (byte list \<times> 'f list) option" where
  "bytes_from_field_repr F repr n =
     (let stray = n mod FR_BYTES_STORED; chunks = n div FR_BYTES_STORED;
          expected_size = chunks + (if stray \<noteq> 0 then 1 else 0)
      in if length repr < expected_size then None
         else
           let full = (if stray > 0 then tl repr else repr) in
           case (if stray > 0 then bytes_from F stray (hd repr) else Some []) of
             None \<Rightarrow> None
           | Some tail \<Rightarrow>
               map_option (\<lambda>bs. (bs @ tail, drop chunks full)) (bytes_from_chunks F (rev (take chunks full))))"

definition hash_from_field_repr :: "'f fr_ops \<Rightarrow> 'f list \<Rightarrow> hash_output option" where
  "hash_from_field_repr F repr =
     (if length repr \<noteq> 2 then None
      else
        let repr0 = to_repr F (repr ! 0); repr1 = to_repr F (repr ! 1) in
        if list_ex (\<lambda>ch. ch \<noteq> 0) (drop 1 repr0) then None
        else if list_ex (\<lambda>ch. ch \<noteq> 0) (drop 31 repr1) then None
        else Some (take 31 repr1 @ take 1 repr0))"

section \<open>Hashes\<close>

definition fr_commit :: "'f fr_ops \<Rightarrow> 'f list \<Rightarrow> 'f \<Rightarrow> 'f" where
  "fr_commit F v opening = poseidon F (opening # v)"

definition fr_upgrade :: "'f fr_ops \<Rightarrow> 'f \<Rightarrow> hash_output" where
  "fr_upgrade F f = take FR_BYTES_STORED (to_repr F f) @ zeros (PERSISTENT_HASH_BYTES - FR_BYTES_STORED)"

definition fr_degrade :: "'f fr_ops \<Rightarrow> hash_output \<Rightarrow> ('e, 'f) result" where
  "fr_degrade F h = and_then (bytes_field_repr F h) (\<lambda>v. expect (if 1 < length v then Some (v ! 1) else None))"

definition ascii_bytes :: "string \<Rightarrow> byte list" where
  "ascii_bytes s = map of_char s"

definition hash_to_field :: "'f fr_ops \<Rightarrow> byte list \<Rightarrow> ('e, 'f) result" where
  "hash_to_field F data =
     and_then (bytes_field_repr F (ascii_bytes ''midnight:field_hash'')) (\<lambda>s.
     and_then (bytes_field_repr F data) (\<lambda>d. Ok (poseidon F (s @ d))))"

section \<open>Atoms\<close>

fun chunks_of :: "nat \<Rightarrow> byte list \<Rightarrow> byte list list" where
  "chunks_of n xs = (if xs = [] \<or> n = 0 then [] else take n xs # chunks_of n (drop n xs))"

declare chunks_of.simps [simp del]

fun atom_field_len :: "alignment_atom \<Rightarrow> nat" where
  "atom_field_len (Bytes len) = div_ceil len FR_BYTES_STORED"
| "atom_field_len _ = 1"

fun atom_bin_len :: "alignment_atom \<Rightarrow> nat" where
  "atom_bin_len (Bytes len) = len"
| "atom_bin_len _ = FR_BYTES"

fun segment_field_len :: "alignment_segment \<Rightarrow> nat" where
  "segment_field_len (Atom a) = atom_field_len a"
| "segment_field_len (Option_of options) =
     1 + fold max (map (\<lambda>al. sum_list (map segment_field_len al)) options) 0"

fun segment_bin_len :: "alignment_segment \<Rightarrow> nat" where
  "segment_bin_len (Atom a) = atom_bin_len a"
| "segment_bin_len (Option_of options) =
     2 + fold max (map (\<lambda>al. sum_list (map segment_bin_len al)) options) 0"

definition alignment_field_len :: "alignment \<Rightarrow> nat" where
  "alignment_field_len al = sum_list (map segment_field_len al)"

definition alignment_bin_len :: "alignment \<Rightarrow> nat" where
  "alignment_bin_len al = sum_list (map segment_bin_len al)"

definition value_atom_as_field :: "'f fr_ops \<Rightarrow> value_atom \<Rightarrow> ('e, 'f) result" where
  "value_atom_as_field F a =
     (if length a \<le> FIELD_BYTE_LIMIT then Ok (from_uniform F (a @ zeros (FIELD_BYTE_LIMIT - length a))) else Panic)"

fun atom_field_repr :: "'f fr_ops \<Rightarrow> alignment_atom \<Rightarrow> value_atom \<Rightarrow> ('e, 'f list) result" where
  "atom_field_repr F Compress a =
     (if a = [] then Ok [fr_of_int F 0]
      else map_ok (\<lambda>v. [fr_commit F v (fr_of_int F (int (length a)))]) (bytes_field_repr F a))"
| "atom_field_repr F (Bytes len) a =
     (if div_ceil len FR_BYTES_STORED < div_ceil (length a) FR_BYTES_STORED then Panic
      else
        let prepend_zeros = div_ceil len FR_BYTES_STORED - div_ceil (length a) FR_BYTES_STORED;
            raw = map (fr_from_le_bytes F) (chunks_of FR_BYTES_STORED a)
        in if list_all (\<lambda>f. f \<noteq> None) raw
           then Ok (replicate prepend_zeros (fr_of_int F 0) @ rev (map the raw)) else Panic)"
| "atom_field_repr F Field_atom a = map_ok (\<lambda>f. [f]) (value_atom_as_field F a)"

fun atom_binary_repr :: "'f fr_ops \<Rightarrow> alignment_atom \<Rightarrow> value_atom \<Rightarrow> ('e, byte list) result" where
  "atom_binary_repr F Compress a =
     map_ok (\<lambda>v. to_repr F (fr_commit F v (fr_of_int F (int (length a))))) (bytes_field_repr F a)"
| "atom_binary_repr F (Bytes len) a =
     (if len < length a then Panic else Ok (a @ zeros (len - length a)))"
| "atom_binary_repr F Field_atom a = map_ok (to_repr F) (value_atom_as_field F a)"

fun atom_parse_field_repr :: "'f fr_ops \<Rightarrow> alignment_atom \<Rightarrow> 'f list \<Rightarrow> (value_atom \<times> 'f list) option" where
  "atom_parse_field_repr F Compress repr = None"
| "atom_parse_field_repr F Field_atom repr =
     (case repr of [] \<Rightarrow> None | f # fs \<Rightarrow> Some (atom_normalize (to_repr F f), fs))"
| "atom_parse_field_repr F (Bytes len) repr = bytes_from_field_repr F repr len"

section \<open>Values\<close>

text \<open>\<^verbatim>\<open>Value::repr_traverse\<close>: the representation of the atoms, the length of an alignment and the
  padding element are arguments.\<close>

function repr_traverse ::
  "(alignment_atom \<Rightarrow> value_atom \<Rightarrow> ('e, 'x list) result) \<Rightarrow> (alignment \<Rightarrow> nat) \<Rightarrow> 'x \<Rightarrow> alignment \<Rightarrow> fab_value \<Rightarrow>
   ('e, 'x list \<times> fab_value) result" where
  "repr_traverse f len pad [] v = Ok ([], v)"
| "repr_traverse f len pad (Atom ty # ts) v =
     (case v of
        [] \<Rightarrow> Panic
      | a # rest \<Rightarrow> and_then (f ty a) (\<lambda>xs. map_ok (\<lambda>(ys, r). (xs @ ys, r)) (repr_traverse f len pad ts rest)))"
| "repr_traverse f len pad (Option_of options # ts) v =
     (case v of
        [] \<Rightarrow> Panic
      | a # rest \<Rightarrow>
          (case u16_of_value [a] of
             Ok discriminant \<Rightarrow>
               if discriminant < length options then
                 and_then (f (Bytes 2) a) (\<lambda>xs.
                 and_then (repr_traverse f len pad (options ! discriminant) rest) (\<lambda>(ys, r).
                   let padding = fold max (map len options) 0 - len (options ! discriminant) in
                   map_ok (\<lambda>(zs, r'). (xs @ ys @ replicate padding pad @ zs, r')) (repr_traverse f len pad ts r)))
               else Panic
           | _ \<Rightarrow> Panic))"
  by pat_completeness auto
termination
proof (relation "measure (\<lambda>(f, len, pad, al, v). size_list size al)", goal_cases)
  case (3 f len pad options ts v a rest discriminant)
  then have "size_list size (options ! discriminant) \<le> size_list (size_list size) options"
    by (meson nth_mem order_refl size_list_estimation')
  then show ?case by simp
qed auto

definition value_field_repr :: "'f fr_ops \<Rightarrow> aligned_value \<Rightarrow> ('e, 'f list) result" where
  "value_field_repr F av =
     map_ok fst (repr_traverse (atom_field_repr F) alignment_field_len (fr_of_int F 0) (av_alignment av) (av_value av))"

definition value_binary_repr :: "'f fr_ops \<Rightarrow> aligned_value \<Rightarrow> ('e, byte list) result" where
  "value_binary_repr F av =
     map_ok fst (repr_traverse (atom_binary_repr F) alignment_bin_len 0 (av_alignment av) (av_value av))"

fun atom_descr :: "'f fr_ops \<Rightarrow> alignment_atom \<Rightarrow> 'f list" where
  "atom_descr F (Bytes len) = [fr_of_int F (int len)]"
| "atom_descr F Compress = [fr_of_int F (- 1)]"
| "atom_descr F Field_atom = [fr_of_int F (- 2)]"

fun segment_descr :: "'f fr_ops \<Rightarrow> alignment_segment \<Rightarrow> 'f list" where
  "segment_descr F (Atom a) = atom_descr F a"
| "segment_descr F (Option_of options) =
     [fr_of_int F (- 3), fr_of_int F (int (length options mod 2 ^ 32))] @
     concat (map (\<lambda>al. fr_of_int F (int (length al mod 2 ^ 32)) # concat (map (segment_descr F) al)) options)"

definition alignment_descr :: "'f fr_ops \<Rightarrow> alignment \<Rightarrow> 'f list" where
  "alignment_descr F al = fr_of_int F (int (length al mod 2 ^ 32)) # concat (map (segment_descr F) al)"

definition aligned_value_field_repr :: "'f fr_ops \<Rightarrow> aligned_value \<Rightarrow> ('e, 'f list) result" where
  "aligned_value_field_repr F av = map_ok (\<lambda>v. alignment_descr F (av_alignment av) @ v) (value_field_repr F av)"

function parse_field_repr_inner :: "'f fr_ops \<Rightarrow> alignment \<Rightarrow> 'f list \<Rightarrow> (fab_value \<times> 'f list) option" where
  "parse_field_repr_inner F [] repr = Some ([], repr)"
| "parse_field_repr_inner F (Atom ty # ts) repr =
     (case atom_parse_field_repr F ty repr of
        None \<Rightarrow> None
      | Some (a, r) \<Rightarrow> map_option (\<lambda>(v, r'). (a # v, r')) (parse_field_repr_inner F ts r))"
| "parse_field_repr_inner F (Option_of options # ts) repr =
     (case repr of
        [] \<Rightarrow> None
      | f # rest \<Rightarrow>
          (case uint_of_fr 2 F f of
             None \<Rightarrow> None
           | Some variant \<Rightarrow>
               if variant < length options then
                 (case parse_field_repr_inner F (options ! variant) rest of
                    None \<Rightarrow> None
                  | Some (v, r) \<Rightarrow>
                      let padding = fold max (map alignment_field_len options) 0 - alignment_field_len (options ! variant) in
                      if length r < padding \<or> list_ex (\<lambda>g. g \<noteq> fr_of_int F 0) (take padding r) then None
                      else map_option (\<lambda>(w, r'). (atom_of_uint variant # v @ w, r'))
                             (parse_field_repr_inner F ts (drop padding r)))
               else None))"
  by pat_completeness auto
termination
proof (relation "measure (\<lambda>(F, al, repr). size_list size al)", goal_cases)
  case (3 F options ts repr f rest variant)
  then have "size_list size (options ! variant) \<le> size_list (size_list size) options"
    by (meson nth_mem order_refl size_list_estimation')
  then show ?case by simp
qed auto

definition parse_field_repr :: "'f fr_ops \<Rightarrow> alignment \<Rightarrow> 'f list \<Rightarrow> aligned_value option" where
  "parse_field_repr F al repr =
     map_option (\<lambda>(v, _). \<lparr>av_value = v, av_alignment = al\<rparr>) (parse_field_repr_inner F al repr)"

end
