(* ===== verification/Coin_Structure.thy ===== *)
theory Coin_Structure
  imports Field_Repr Unshielded
begin

text \<open>
  Token types, addresses and shielded coins (\<^verbatim>\<open>coin-structure/src\<close>): their encodings as field-aligned
  values, tagged bytes, field elements and hash preimages (\<^verbatim>\<open>coin.rs\<close>, \<^verbatim>\<open>transfer.rs\<close>, \<^verbatim>\<open>contract.rs\<close>).
  Hashes, addresses and keys are lists of 32 bytes. The persistent hash is a parameter.
\<close>

section \<open>Token types\<close>

definition unit_of_atom :: "value_atom \<Rightarrow> (invalid_builtin_decode, unit) result" where
  "unit_of_atom a = (if a = [] then Ok () else Err (InvalidBuiltinDecode ''()''))"

text \<open>A type that wraps a hash, named \<open>ty\<close>.\<close>

definition id_of_atom :: "string \<Rightarrow> value_atom \<Rightarrow> (invalid_builtin_decode, hash_output) result" where
  "id_of_atom ty a =
     (if length a \<le> PERSISTENT_HASH_BYTES then Ok (a @ zeros (PERSISTENT_HASH_BYTES - length a))
      else Err (InvalidBuiltinDecode ty))"

definition id_of_value :: "string \<Rightarrow> fab_value \<Rightarrow> (invalid_builtin_decode, hash_output) result" where
  "id_of_value ty = prim_of_value ty (id_of_atom ty)"

definition token_alignment :: alignment where
  "token_alignment = [Atom (Bytes 1), Atom (Bytes 32), Atom (Bytes 32)]"

fun value_of_token :: "token_type \<Rightarrow> fab_value" where
  "value_of_token (UnshieldedToken tt) = [atom_of_uint 1, atom_of_hash tt, []]"
| "value_of_token (ShieldedToken tt) = [atom_of_uint 0, [], atom_of_hash tt]"
| "value_of_token DustToken = [atom_of_uint 2, [], []]"

definition token_of_value :: "fab_value \<Rightarrow> (invalid_builtin_decode, token_type) result" where
  "token_of_value v =
     (case v of
        [a0, a1, a2] \<Rightarrow>
          and_then (uint_of_atom 1 ''u8'' a0) (\<lambda>variant.
            if variant = 0 then and_then (unit_of_atom a1) (\<lambda>_. map_ok ShieldedToken (id_of_atom ''ShieldedTokenType'' a2))
            else if variant = 1 then and_then (unit_of_atom a2) (\<lambda>_. map_ok UnshieldedToken (id_of_atom ''UnshieldedTokenType'' a1))
            else if variant = 2 then and_then (unit_of_atom a1) (\<lambda>_. map_ok (\<lambda>_. DustToken) (unit_of_atom a2))
            else Err (InvalidBuiltinDecode ''TokenType''))
      | _ \<Rightarrow> Err (InvalidBuiltinDecode ''TokenType''))"

definition UNSHIELDED_TAG :: byte where "UNSHIELDED_TAG = 0"
definition SHIELDED_TAG :: byte where "SHIELDED_TAG = 1"
definition DUST_TAG :: byte where "DUST_TAG = 2"

text \<open>The tagged bytes serve both \<^verbatim>\<open>Serialize\<close> and \<^verbatim>\<open>BinaryHashRepr\<close>.\<close>

fun token_bytes :: "token_type \<Rightarrow> byte list" where
  "token_bytes (UnshieldedToken h) = UNSHIELDED_TAG # h"
| "token_bytes (ShieldedToken h) = SHIELDED_TAG # h"
| "token_bytes DustToken = [DUST_TAG]"

datatype visit_error = InvalidLength nat | UnknownVariant byte

definition token_of_bytes :: "byte list \<Rightarrow> (visit_error, token_type) result" where
  "token_of_bytes v =
     (if v = [] then Err (InvalidLength 0)
      else
        let tag = hd v in
        if tag = DUST_TAG then (if length v \<noteq> 1 then Err (InvalidLength (length v)) else Ok DustToken)
        else if tag \<noteq> UNSHIELDED_TAG \<and> tag \<noteq> SHIELDED_TAG then Err (UnknownVariant tag)
        else if length v \<noteq> 33 then Err (InvalidLength (length v))
        else if tag = UNSHIELDED_TAG then Ok (UnshieldedToken (tl v))
        else Ok (ShieldedToken (tl v)))"

definition BLANK_HASH :: hash_output where "BLANK_HASH = replicate 32 0"

fun token_field_repr :: "'f fr_ops \<Rightarrow> token_type \<Rightarrow> ('e, 'f list) result" where
  "token_field_repr F (ShieldedToken raw) =
     and_then (bytes_field_repr F raw) (\<lambda>r. and_then (bytes_field_repr F BLANK_HASH) (\<lambda>b.
       Ok (fr_of_int F 1 # r @ b)))"
| "token_field_repr F (UnshieldedToken raw) =
     and_then (bytes_field_repr F BLANK_HASH) (\<lambda>b. and_then (bytes_field_repr F raw) (\<lambda>r.
       Ok (fr_of_int F 0 # b @ r)))"
| "token_field_repr F DustToken =
     and_then (bytes_field_repr F BLANK_HASH) (\<lambda>b. Ok (fr_of_int F 2 # b @ b))"

definition token_of_field_repr :: "'f fr_ops \<Rightarrow> 'f list \<Rightarrow> token_type option" where
  "token_of_field_repr F repr =
     (if length repr \<noteq> 5 then None
      else
        let first = hash_from_field_repr F (take 2 (drop 1 repr));
            second = hash_from_field_repr F (drop 3 repr)
        in case uint_of_fr 1 F (repr ! 0) of
             None \<Rightarrow> None
           | Some variant \<Rightarrow>
               (case (first, second) of
                  (Some h1, Some h2) \<Rightarrow>
                    if variant = 1 \<and> h2 = BLANK_HASH then Some (ShieldedToken h1)
                    else if variant = 0 \<and> h1 = BLANK_HASH then Some (UnshieldedToken h2)
                    else if variant = 2 \<and> h1 = BLANK_HASH \<and> h2 = BLANK_HASH then Some DustToken
                    else None
                | _ \<Rightarrow> None))"

section \<open>Addresses\<close>

type_synonym contract_address = hash_output

datatype public_address = ContractAddr contract_address | UserAddr user_address

definition CONTRACT_TAG :: byte where "CONTRACT_TAG = 0"
definition USER_TAG :: byte where "USER_TAG = 1"

definition address_alignment :: alignment where
  "address_alignment = [Atom (Bytes 1), Atom (Bytes 32), Atom (Bytes 32)]"

fun value_of_address :: "public_address \<Rightarrow> fab_value" where
  "value_of_address (ContractAddr addr) = [atom_of_bool True, atom_of_hash addr, []]"
| "value_of_address (UserAddr addr) = [atom_of_bool False, [], atom_of_hash addr]"

definition address_of_value :: "fab_value \<Rightarrow> (invalid_builtin_decode, public_address) result" where
  "address_of_value v =
     (case v of
        [a0, a1, a2] \<Rightarrow>
          and_then (bool_of_atom a0) (\<lambda>is_left.
            if is_left then and_then (unit_of_atom a2) (\<lambda>_. map_ok ContractAddr (id_of_atom ''ContractAddress'' a1))
            else and_then (unit_of_atom a1) (\<lambda>_. map_ok UserAddr (id_of_atom ''UserAddress'' a2)))
      | _ \<Rightarrow> Err (InvalidBuiltinDecode ''PublicAddress''))"

fun into_tagged_tuple :: "public_address \<Rightarrow> byte \<times> hash_output" where
  "into_tagged_tuple (ContractAddr addr) = (CONTRACT_TAG, addr)"
| "into_tagged_tuple (UserAddr addr) = (USER_TAG, addr)"

definition from_tagged_tuple :: "byte \<Rightarrow> hash_output \<Rightarrow> public_address option" where
  "from_tagged_tuple disc h =
     (if disc = CONTRACT_TAG then Some (ContractAddr h) else if disc = USER_TAG then Some (UserAddr h) else None)"

definition address_bytes :: "public_address \<Rightarrow> byte list" where
  "address_bytes addr = (let (tag, raw) = into_tagged_tuple addr in tag # raw)"

definition address_of_bytes :: "byte list \<Rightarrow> (visit_error, public_address) result" where
  "address_of_bytes v =
     (if length v \<noteq> 33 then Err (InvalidLength (length v))
      else ok_or (from_tagged_tuple (hd v) (tl v)) (UnknownVariant (hd v)))"

section \<open>Coins\<close>

type_synonym persistent_hash = "byte list \<Rightarrow> hash_output"

record coin_info =
  ci_nonce :: hash_output
  ci_type :: token_hash
  ci_value :: nat

record qualified_info = coin_info +
  qi_mt_index :: nat

datatype recipient = RecipientUser hash_output | RecipientContract contract_address
datatype sender_evidence = SenderUser hash_output | SenderContract contract_address

definition value_of_coin :: "coin_info \<Rightarrow> fab_value" where
  "value_of_coin c = [atom_of_hash (ci_nonce c), atom_of_hash (ci_type c), atom_of_uint (ci_value c)]"

definition coin_of_value :: "fab_value \<Rightarrow> (invalid_builtin_decode, coin_info) result" where
  "coin_of_value v =
     (case v of
        [a0, a1, a2] \<Rightarrow>
          and_then (id_of_atom ''Nonce'' a0) (\<lambda>n. and_then (id_of_atom ''ShieldedTokenType'' a1) (\<lambda>t.
          and_then (u128_of_atom a2) (\<lambda>v. Ok \<lparr>ci_nonce = n, ci_type = t, ci_value = v\<rparr>)))
      | _ \<Rightarrow> Err (InvalidBuiltinDecode ''CoinInfo''))"

definition value_of_qualified :: "qualified_info \<Rightarrow> fab_value" where
  "value_of_qualified c =
     [atom_of_hash (ci_nonce c), atom_of_hash (ci_type c), atom_of_uint (ci_value c), atom_of_uint (qi_mt_index c)]"

definition qualified_of_value :: "fab_value \<Rightarrow> (invalid_builtin_decode, qualified_info) result" where
  "qualified_of_value v =
     (case v of
        [a0, a1, a2, a3] \<Rightarrow>
          and_then (id_of_atom ''Nonce'' a0) (\<lambda>n. and_then (id_of_atom ''ShieldedTokenType'' a1) (\<lambda>t.
          and_then (u128_of_atom a2) (\<lambda>v. and_then (uint_of_atom 8 ''u64'' a3) (\<lambda>i.
            Ok \<lparr>ci_nonce = n, ci_type = t, ci_value = v, qi_mt_index = i\<rparr>))))
      | _ \<Rightarrow> Err (InvalidBuiltinDecode ''QualifiedCoinInfo''))"

fun value_of_recipient :: "recipient \<Rightarrow> fab_value" where
  "value_of_recipient (RecipientUser pk) = [atom_of_bool True, atom_of_hash pk, []]"
| "value_of_recipient (RecipientContract addr) = [atom_of_bool False, [], atom_of_hash addr]"

definition recipient_of_value :: "fab_value \<Rightarrow> (invalid_builtin_decode, recipient) result" where
  "recipient_of_value v =
     (case v of
        [a0, a1, a2] \<Rightarrow>
          and_then (bool_of_atom a0) (\<lambda>is_left.
            if is_left then and_then (unit_of_atom a2) (\<lambda>_. map_ok RecipientUser (id_of_atom ''PublicKey'' a1))
            else and_then (unit_of_atom a1) (\<lambda>_. map_ok RecipientContract (id_of_atom ''ContractAddress'' a2)))
      | _ \<Rightarrow> Err (InvalidBuiltinDecode ''Recipient''))"

definition sender_of_value :: "fab_value \<Rightarrow> (invalid_builtin_decode, sender_evidence) result" where
  "sender_of_value v =
     (case v of
        [a0, a1, a2] \<Rightarrow>
          and_then (bool_of_atom a0) (\<lambda>is_left.
            if is_left then and_then (unit_of_atom a2) (\<lambda>_. map_ok SenderUser (id_of_atom ''SecretKey'' a1))
            else and_then (unit_of_atom a1) (\<lambda>_. map_ok SenderContract (id_of_atom ''ContractAddress'' a2)))
      | _ \<Rightarrow> Err (InvalidBuiltinDecode ''SenderEvidence''))"

definition public_key :: "persistent_hash \<Rightarrow> hash_output \<Rightarrow> hash_output" where
  "public_key PH sk = PH (ascii_bytes ''midnight:zswap-pk[v1]'' @ sk)"

definition recipient_of_sender :: "persistent_hash \<Rightarrow> sender_evidence \<Rightarrow> recipient" where
  "recipient_of_sender PH se =
     (case se of
        SenderUser sk \<Rightarrow> RecipientUser (public_key PH sk)
      | SenderContract addr \<Rightarrow> RecipientContract addr)"

definition coin_binary_repr :: "('a) coin_info_scheme \<Rightarrow> byte list" where
  "coin_binary_repr c = ci_nonce c @ ci_type c @ le_bytes 16 (ci_value c)"

definition commitment_preimage :: "coin_info \<Rightarrow> recipient \<Rightarrow> byte list" where
  "commitment_preimage c r =
     ascii_bytes ''midnight:zswap-cc[v1]'' @ coin_binary_repr c @
     (case r of RecipientUser d \<Rightarrow> 1 # d | RecipientContract d \<Rightarrow> 0 # d)"

definition coin_commitment :: "persistent_hash \<Rightarrow> coin_info \<Rightarrow> recipient \<Rightarrow> hash_output" where
  "coin_commitment PH c r = PH (commitment_preimage c r)"

definition nullifier_preimage :: "coin_info \<Rightarrow> sender_evidence \<Rightarrow> byte list" where
  "nullifier_preimage c se =
     ascii_bytes ''midnight:zswap-cn[v1]'' @ coin_binary_repr c @
     (case se of SenderUser d \<Rightarrow> 1 # d | SenderContract d \<Rightarrow> 0 # d)"

definition coin_nullifier :: "persistent_hash \<Rightarrow> coin_info \<Rightarrow> sender_evidence \<Rightarrow> hash_output" where
  "coin_nullifier PH c se = PH (nullifier_preimage c se)"

definition qualify :: "coin_info \<Rightarrow> nat \<Rightarrow> qualified_info" where
  "qualify c mt_index = \<lparr>ci_nonce = ci_nonce c, ci_type = ci_type c, ci_value = ci_value c, qi_mt_index = mt_index\<rparr>"

definition coin_of_qualified :: "qualified_info \<Rightarrow> coin_info" where
  "coin_of_qualified qi = \<lparr>ci_nonce = ci_nonce qi, ci_type = ci_type qi, ci_value = ci_value qi\<rparr>"

definition evolve_from :: "'f fr_ops \<Rightarrow> coin_info \<Rightarrow> byte list \<Rightarrow> nat \<Rightarrow> token_hash \<Rightarrow> ('e, coin_info) result" where
  "evolve_from F c domain_sep value type =
     and_then (expect (fr_from_le_bytes F domain_sep)) (\<lambda>d.
     map_ok (\<lambda>n. \<lparr>ci_nonce = fr_upgrade F (poseidon F [d, n]), ci_type = type, ci_value = value\<rparr>)
       (fr_degrade F (ci_nonce c)))"

definition custom_token_type :: "(byte list \<Rightarrow> hash_output \<Rightarrow> hash_output) \<Rightarrow> contract_address \<Rightarrow> hash_output \<Rightarrow> hash_output" where
  "custom_token_type persistent_commit addr domain_sep =
     persistent_commit (domain_sep @ addr) (ascii_bytes ''midnight:derive_token'' @ zeros 11)"

end
