(* ===== verification/Repr_Props.thy ===== *)
theory Repr_Props
  imports Coin_Structure
begin

text \<open>
  Properties of the field and byte representations: bytes survive the passage through field elements,
  representations of aligned values have the announced lengths, encodings of token types, addresses
  and coins are inverted by their decoders, and the hash preimages of coins are injective and
  separated.
\<close>

section \<open>What the scalar field provides\<close>

definition fr_laws :: "'f fr_ops \<Rightarrow> bool" where
  "fr_laws F \<longleftrightarrow>
     (\<forall>bs. length bs = FR_BYTES \<and> last bs = 0 \<longrightarrow> from_repr F bs \<noteq> None) \<and>
     (\<forall>bs f. length bs = FR_BYTES \<longrightarrow> from_repr F bs = Some f \<longrightarrow> to_repr F f = bs) \<and>
     (\<forall>f. length (to_repr F f) = FR_BYTES) \<and>
     (\<forall>n < 256 ^ FR_BYTES_STORED. from_repr F (le_bytes FR_BYTES n) = Some (fr_of_int F (int n)))"

lemma from_le_bytes_ok:
  assumes "fr_laws F" "length bs \<le> FR_BYTES_STORED"
  shows "\<exists>f. fr_from_le_bytes F bs = Some f \<and> to_repr F f = bs @ zeros (FR_BYTES - length bs)"
proof -
  let ?bs = "bs @ zeros (FR_BYTES - length bs)"
  have "length ?bs = FR_BYTES" "last ?bs = 0" using assms(2) by (simp_all add: FR_BYTES_def FR_BYTES_STORED_def)
  then obtain f where "from_repr F ?bs = Some f" "to_repr F f = ?bs"
    using assms(1) unfolding fr_laws_def by blast
  then show ?thesis using assms(2) by (simp add: fr_from_le_bytes_def FR_BYTES_def FR_BYTES_STORED_def)
qed

lemma length_to_repr: "fr_laws F \<Longrightarrow> length (to_repr F f) = FR_BYTES"
  by (simp add: fr_laws_def)

lemma fr_of_int_repr: "fr_laws F \<Longrightarrow> n < 256 ^ FR_BYTES_STORED \<Longrightarrow> to_repr F (fr_of_int F (int n)) = le_bytes FR_BYTES n"
  unfolding fr_laws_def by (metis length_le_bytes)

section \<open>Bytes\<close>

lemma bytes_from_ok: "to_repr F f = bs @ zeros k \<Longrightarrow> length bs = n \<Longrightarrow> bytes_from F n f = Some bs"
  by (simp add: bytes_from_def list_ex_iff)

lemma bytes_from_chunks_append:
  "bytes_from_chunks F (fs @ gs) =
     (case bytes_from_chunks F fs of
        None \<Rightarrow> None | Some a \<Rightarrow> map_option (\<lambda>b. a @ b) (bytes_from_chunks F gs))"
  by (induction fs) (auto simp: option.map_comp comp_def map_option_case split: option.splits)

lemma bytes_field_repr_chunks:
  fixes F :: "'f fr_ops"
  assumes "fr_laws F" "length bs = FR_BYTES_STORED * n"
  shows "\<exists>fs. (bytes_field_repr F bs :: ('e, 'f list) result) = Ok fs \<and> length fs = n \<and> bytes_from_chunks F (rev fs) = Some bs"
  using assms(2)
proof (induction n arbitrary: bs)
  case 0
  then show ?case by (simp add: bytes_field_repr.simps)
next
  case (Suc n)
  let ?k = "FR_BYTES_STORED * n"
  have len: "length (take ?k bs) = ?k" "length (drop ?k bs) = FR_BYTES_STORED" using Suc.prems by simp_all
  obtain fs where fs: "(bytes_field_repr F (take ?k bs) :: ('e, 'f list) result) = Ok fs" "length fs = n"
    "bytes_from_chunks F (rev fs) = Some (take ?k bs)"
    using Suc.IH [OF len(1)] by blast
  obtain f where f: "fr_from_le_bytes F (drop ?k bs) = Some f" "to_repr F f = drop ?k bs @ zeros (FR_BYTES - FR_BYTES_STORED)"
    using from_le_bytes_ok [OF assms(1), of "drop ?k bs"] len(2) by auto
  have "bs \<noteq> []" using Suc.prems by (auto simp: FR_BYTES_STORED_def)
  then have "(bytes_field_repr F bs :: ('e, 'f list) result) = Ok (f # fs)"
    using Suc.prems fs(1) f(1) by (subst bytes_field_repr.simps) (simp add: Let_def)
  moreover have "bytes_from F FR_BYTES_STORED f = Some (drop ?k bs)" by (rule bytes_from_ok [OF f(2) len(2)])
  ultimately show ?case using fs by (simp add: bytes_from_chunks_append)
qed

lemma bytes_field_repr_ok:
  fixes F :: "'f fr_ops"
  assumes "fr_laws F"
  shows "\<exists>fs. (bytes_field_repr F bs :: ('e, 'f list) result) = Ok fs \<and> length fs = bytes_field_size (length bs) \<and>
    (\<forall>rest. bytes_from_field_repr F (fs @ rest) (length bs) = Some (bs, rest))"
proof -
  let ?s = "length bs mod FR_BYTES_STORED" and ?c = "length bs div FR_BYTES_STORED"
  let ?k = "length bs - ?s"
  have k: "?k = FR_BYTES_STORED * ?c" by (simp add: minus_mod_eq_mult_div)
  have size: "bytes_field_size (length bs) = ?c + (if ?s \<noteq> 0 then 1 else 0)"
    by (simp add: bytes_field_size_def div_ceil_def FR_BYTES_STORED_def)
  obtain fs where fs: "(bytes_field_repr F (take ?k bs) :: ('e, 'f list) result) = Ok fs" "length fs = ?c"
    "bytes_from_chunks F (rev fs) = Some (take ?k bs)"
    using bytes_field_repr_chunks [OF assms, of "take ?k bs" ?c] k by auto
  show ?thesis
  proof (cases "?s = 0")
    case True
    then show ?thesis using fs size by (simp add: bytes_from_field_repr_def Let_def)
  next
    case False
    have len: "length (drop ?k bs) = ?s" by simp
    have "?s \<le> FR_BYTES_STORED" by (simp add: FR_BYTES_STORED_def less_imp_le)
    then obtain f where f: "fr_from_le_bytes F (drop ?k bs) = Some f" "to_repr F f = drop ?k bs @ zeros (FR_BYTES - ?s)"
      using from_le_bytes_ok [OF assms, of "drop ?k bs"] unfolding len by auto
    have "bs \<noteq> []" using False by auto
    then have "(bytes_field_repr F bs :: ('e, 'f list) result) = Ok (f # fs)"
      using False fs(1) f(1) by (subst bytes_field_repr.simps) (simp add: Let_def)
    moreover have "bytes_from F ?s f = Some (drop ?k bs)" by (rule bytes_from_ok [OF f(2) len])
    ultimately show ?thesis using fs size False by (simp add: bytes_from_field_repr_def Let_def)
  qed
qed

section \<open>Aligned values\<close>

lemma div_ceil_step: "0 < n \<Longrightarrow> div_ceil n FR_BYTES_STORED = Suc (div_ceil (n - FR_BYTES_STORED) FR_BYTES_STORED)"
proof -
  assume n: "0 < n"
  show ?thesis
  proof (cases "31 < n")
    case True
    then obtain m where "n = 31 + m" using less_imp_add_positive by blast
    then show ?thesis by (simp add: div_ceil_def FR_BYTES_STORED_def)
  next
    case False
    then have "n < 31 \<or> n = 31" by auto
    then show ?thesis using n by (auto simp: div_ceil_def FR_BYTES_STORED_def)
  qed
qed

lemma length_chunks_of: "length (chunks_of FR_BYTES_STORED a) = div_ceil (length a) FR_BYTES_STORED"
proof (induction a rule: length_induct)
  case (1 a)
  show ?case
  proof (cases "a = []")
    case True
    then show ?thesis by (simp add: chunks_of.simps div_ceil_def FR_BYTES_STORED_def)
  next
    case False
    then have "length (chunks_of FR_BYTES_STORED (drop FR_BYTES_STORED a)) =
        div_ceil (length a - FR_BYTES_STORED) FR_BYTES_STORED"
      using 1 by (auto simp: FR_BYTES_STORED_def)
    then show ?thesis using False
      by (subst chunks_of.simps) (simp add: div_ceil_step [of "length a"], simp add: FR_BYTES_STORED_def)
  qed
qed

lemma chunks_of_short: "c \<in> set (chunks_of n a) \<Longrightarrow> length c \<le> n"
proof (induction n a rule: chunks_of.induct)
  case (1 n xs)
  then show ?case by (subst (asm) (2) chunks_of.simps) (auto split: if_splits)
qed

lemma atom_field_repr_ok:
  fixes F :: "'f fr_ops"
  assumes "fr_laws F" "atom_fits ty a" "length a < 2 ^ 32"
  shows "\<exists>fs. (atom_field_repr F ty a :: ('e, 'f list) result) = Ok fs \<and> length fs = atom_field_len ty"
proof (cases ty)
  case Compress
  moreover obtain fs where "(bytes_field_repr F a :: ('e, 'f list) result) = Ok fs"
    using bytes_field_repr_ok [OF assms(1), of a] by blast
  ultimately show ?thesis by simp
next
  case (Bytes len)
  then have "length a \<le> len" using assms(2,3) by simp
  then have "div_ceil (length a) FR_BYTES_STORED \<le> div_ceil len FR_BYTES_STORED"
    using div_ceil_le_iff [of FR_BYTES_STORED "length a"] div_ceil_le_iff [of FR_BYTES_STORED len]
    by (metis FR_BYTES_STORED_def le_refl order_trans zero_less_numeral)
  moreover have "list_all (\<lambda>f. f \<noteq> None) (map (fr_from_le_bytes F) (chunks_of FR_BYTES_STORED a))"
  proof -
    have "fr_from_le_bytes F c \<noteq> None" if "c \<in> set (chunks_of FR_BYTES_STORED a)" for c
      using from_le_bytes_ok [OF assms(1) chunks_of_short [OF that]] by auto
    then show ?thesis unfolding list_all_iff by auto
  qed
  ultimately show ?thesis by (simp add: Bytes Let_def length_chunks_of)
next
  case Field_atom
  then show ?thesis using assms(2) by (simp add: value_atom_as_field_def)
qed

lemma atom_binary_repr_ok:
  fixes F :: "'f fr_ops"
  assumes "fr_laws F" "atom_fits ty a" "length a < 2 ^ 32"
  shows "\<exists>bs. (atom_binary_repr F ty a :: ('e, byte list) result) = Ok bs \<and> length bs = atom_bin_len ty"
proof (cases ty)
  case Compress
  moreover obtain fs where "(bytes_field_repr F a :: ('e, 'f list) result) = Ok fs"
    using bytes_field_repr_ok [OF assms(1), of a] by blast
  ultimately show ?thesis by (simp add: length_to_repr [OF assms(1)])
next
  case (Bytes len)
  then show ?thesis using assms(2,3) by simp
next
  case Field_atom
  then show ?thesis using assms(2) length_to_repr [OF assms(1)] by (simp add: value_atom_as_field_def)
qed

lemma fold_max_ge: "x \<in> set xs \<or> x \<le> m \<Longrightarrow> x \<le> fold max xs (m :: nat)"
proof (induction xs arbitrary: m)
  case (Cons y ys)
  then have "x \<in> set ys \<or> x \<le> max y m" by auto
  then show ?case using Cons.IH by simp
qed simp

text \<open>The traversal of a value that fits its alignment, for any representation of the atoms with a
  length that depends on the alignment only.\<close>

lemma repr_traverse_ok:
  fixes f :: "alignment_atom \<Rightarrow> value_atom \<Rightarrow> ('e, 'x list) result"
  assumes f: "\<And>ty a. atom_fits ty a \<Longrightarrow> length a < 2 ^ 32 \<Longrightarrow> \<exists>xs. f ty a = Ok xs \<and> length xs = alen ty"
    and len: "\<And>al. len al = sum_list (map slen al)" "\<And>ty. slen (Atom ty) = alen ty"
      "\<And>os. slen (Option_of os) = alen (Bytes 2) + fold max (map len os) 0"
    and "rest_of al v = Some r" "\<forall>a\<in>set v. length a < 2 ^ 32"
  shows "\<exists>xs. repr_traverse f len pad al v = Ok (xs, r) \<and> length xs = len al"
  using assms(5,6)
proof (induction al v arbitrary: r rule: rest_of.induct)
  case (1 v)
  then show ?case by (simp add: len(1))
next
  case (2 ty ts v)
  then obtain a w where v: "v = a # w" "atom_fits ty a" "rest_of ts w = Some r"
    by (cases v) (auto split: if_splits)
  obtain xs where "f ty a = Ok xs" "length xs = alen ty" using f [OF v(2)] 2(3) v(1) by auto
  moreover obtain ys where "repr_traverse f len pad ts w = Ok (ys, r)" "length ys = len ts"
    using 2(1) [of r] 2(3) v by auto
  moreover have "len (Atom ty # ts) = alen ty + len ts" using len(1) [of ts] len(1) [of "Atom ty # ts"] len(2) by simp
  ultimately show ?case by (simp add: v(1))
next
  case (3 os ts v)
  then obtain a w branch r' where v: "v = a # w" "atom_fits (Bytes 2) a" "u16_of_value [a] = Ok branch"
    "branch < length os" "rest_of (os ! branch) w = Some r'" "rest_of ts r' = Some r"
    by (cases v) (auto split: if_splits result.splits bind_splits)
  obtain xs where xs: "f (Bytes 2) a = Ok xs" "length xs = alen (Bytes 2)" using f [OF v(2)] 3(4) v(1) by auto
  obtain ys where ys: "repr_traverse f len pad (os ! branch) w = Ok (ys, r')" "length ys = len (os ! branch)"
    using 3(1) [of branch r'] 3(4) v by auto
  obtain p where "w = p @ r'" using rest_of_suffix [OF v(5)] by blast
  then obtain zs where zs: "repr_traverse f len pad ts r' = Ok (zs, r)" "length zs = len ts"
    using 3(2) [of branch r' r] 3(4) v by auto
  have "len (os ! branch) \<le> fold max (map len os) 0" using v(4) by (intro fold_max_ge) simp
  moreover have "len (Option_of os # ts) = alen (Bytes 2) + fold max (map len os) 0 + len ts"
    using len(1) [of ts] len(1) [of "Option_of os # ts"] len(3) by simp
  ultimately show ?case using xs ys zs v(3,4) by (simp add: v(1) Let_def)
qed

lemma value_reprs_ok:
  fixes F :: "'f fr_ops"
  assumes "fr_laws F" "fits (av_alignment av) (av_value av)" "\<forall>a\<in>set (av_value av). length a < 2 ^ 32"
  shows "\<exists>fs. (value_field_repr F av :: ('e, 'f list) result) = Ok fs \<and> length fs = alignment_field_len (av_alignment av)"
    and "\<exists>bs. (value_binary_repr F av :: ('e, byte list) result) = Ok bs \<and> length bs = alignment_bin_len (av_alignment av)"
proof -
  have rest: "rest_of (av_alignment av) (av_value av) = Some []" using assms(2) by (simp add: fits_iff)
  have "\<exists>fs. (repr_traverse (atom_field_repr F) alignment_field_len (fr_of_int F 0) (av_alignment av) (av_value av)
      :: ('e, 'f list \<times> fab_value) result) = Ok (fs, []) \<and> length fs = alignment_field_len (av_alignment av)"
    by (rule repr_traverse_ok [where slen = segment_field_len, OF atom_field_repr_ok [OF assms(1)] _ _ _ rest assms(3)])
      (auto simp: alignment_field_len_def [abs_def] div_ceil_def FR_BYTES_STORED_def)
  then show "\<exists>fs. (value_field_repr F av :: ('e, 'f list) result) = Ok fs \<and> length fs = alignment_field_len (av_alignment av)"
    by (auto simp: value_field_repr_def)
  have "\<exists>bs. (repr_traverse (atom_binary_repr F) alignment_bin_len 0 (av_alignment av) (av_value av)
      :: ('e, byte list \<times> fab_value) result) = Ok (bs, []) \<and> length bs = alignment_bin_len (av_alignment av)"
    by (rule repr_traverse_ok [where slen = segment_bin_len, OF atom_binary_repr_ok [OF assms(1)] _ _ _ rest assms(3)])
      (auto simp: alignment_bin_len_def [abs_def])
  then show "\<exists>bs. (value_binary_repr F av :: ('e, byte list) result) = Ok bs \<and> length bs = alignment_bin_len (av_alignment av)"
    by (auto simp: value_binary_repr_def)
qed

section \<open>Encodings of tokens, addresses and coins\<close>

definition hash_ok :: "hash_output \<Rightarrow> bool" where "hash_ok h \<longleftrightarrow> length h = 32"

fun token_ok :: "token_type \<Rightarrow> bool" where
  "token_ok (UnshieldedToken h) = hash_ok h"
| "token_ok (ShieldedToken h) = hash_ok h"
| "token_ok DustToken = True"

fun address_ok :: "public_address \<Rightarrow> bool" where
  "address_ok (ContractAddr h) = hash_ok h"
| "address_ok (UserAddr h) = hash_ok h"

fun recipient_ok :: "recipient \<Rightarrow> bool" where
  "recipient_ok (RecipientUser h) = hash_ok h"
| "recipient_ok (RecipientContract h) = hash_ok h"

definition coin_ok :: "('a) coin_info_scheme \<Rightarrow> bool" where
  "coin_ok c \<longleftrightarrow> hash_ok (ci_nonce c) \<and> hash_ok (ci_type c) \<and> ci_value c < 256 ^ 16"

lemma id_of_atom_of_hash [simp]: "hash_ok h \<Longrightarrow> id_of_atom ty (atom_of_hash h) = Ok h"
  using hash_of_atom_of_hash [of h]
  by (simp add: id_of_atom_def hash_of_atom_def hash_ok_def PERSISTENT_HASH_BYTES_def split: if_splits)

lemma unit_of_atom_Nil [simp]: "unit_of_atom [] = Ok ()"
  by (simp add: unit_of_atom_def)

lemma small_uint_of_atom [simp]:
  "uint_of_atom (Suc 0) ty (atom_of_uint 0) = Ok 0" "uint_of_atom (Suc 0) ty (atom_of_uint (Suc 0)) = Ok 1"
  "uint_of_atom (Suc 0) ty (atom_of_uint 2) = Ok 2"
  using uint_of_atom_of_uint [of 0 1 ty] uint_of_atom_of_uint [of 1 1 ty] uint_of_atom_of_uint [of 2 1 ty] by simp_all

lemma le_value_only_zeros [simp]: "le_value (zeros n) = 0"
  by (induction n) simp_all

lemma bool_of_atom_of_bool [simp]: "bool_of_atom [1] = Ok True" "bool_of_atom [] = Ok False"
  by (simp_all add: bool_of_atom_def uint_of_atom_def u128_of_atom_def)

lemma token_value_round_trip: "token_ok t \<Longrightarrow> token_of_value (value_of_token t) = Ok t"
  by (cases t) (simp_all add: token_of_value_def)

lemma address_value_round_trip: "address_ok a \<Longrightarrow> address_of_value (value_of_address a) = Ok a"
  by (cases a) (simp_all add: address_of_value_def)

lemma recipient_value_round_trip: "recipient_ok r \<Longrightarrow> recipient_of_value (value_of_recipient r) = Ok r"
  by (cases r) (simp_all add: recipient_of_value_def)

lemma u128_of_atom_of_uint: "v < 256 ^ 16 \<Longrightarrow> u128_of_atom (atom_of_uint v) = Ok v"
  using uint_of_atom_of_uint [of v 16 "[]"]
  by (auto simp: uint_of_atom_def result_simps split: if_splits)

lemma coin_value_round_trip: "coin_ok c \<Longrightarrow> coin_of_value (value_of_coin c) = Ok c"
  by (simp add: coin_of_value_def value_of_coin_def coin_ok_def u128_of_atom_of_uint)

lemma qualified_value_round_trip:
  "coin_ok c \<Longrightarrow> qi_mt_index c < 256 ^ 8 \<Longrightarrow> qualified_of_value (value_of_qualified c) = Ok c"
  using uint_of_atom_of_uint [of "qi_mt_index c" 8]
  by (simp add: qualified_of_value_def value_of_qualified_def coin_ok_def u128_of_atom_of_uint)

lemma token_bytes_round_trip: "token_ok t \<Longrightarrow> token_of_bytes (token_bytes t) = Ok t"
  by (cases t) (simp_all add: token_of_bytes_def hash_ok_def Let_def UNSHIELDED_TAG_def SHIELDED_TAG_def DUST_TAG_def)

lemma address_bytes_round_trip: "address_ok a \<Longrightarrow> address_of_bytes (address_bytes a) = Ok a"
  by (cases a) (simp_all add: address_of_bytes_def address_bytes_def from_tagged_tuple_def hash_ok_def
    CONTRACT_TAG_def USER_TAG_def)

lemma token_of_bytes_canonical: "token_of_bytes bs = Ok t \<Longrightarrow> token_bytes t = bs \<and> token_ok t"
  by (cases bs) (auto simp: token_of_bytes_def Let_def hash_ok_def split: if_splits)

section \<open>Hash preimages of coins\<close>

lemma of_char_ascii [simp]: "length (ascii_bytes s) = length s"
  by (simp add: ascii_bytes_def)

lemma coin_binary_repr_inj:
  assumes "coin_ok c" "coin_ok c'" "coin_binary_repr c @ xs = coin_binary_repr c' @ ys"
  shows "ci_nonce c = ci_nonce c'" "ci_type c = ci_type c'" "ci_value c = ci_value c'" "xs = ys"
proof -
  have eq: "ci_nonce c = ci_nonce c' \<and> ci_type c = ci_type c' \<and> le_bytes 16 (ci_value c) = le_bytes 16 (ci_value c') \<and> xs = ys"
    using assms by (simp add: coin_binary_repr_def coin_ok_def hash_ok_def)
  then show "ci_nonce c = ci_nonce c'" "ci_type c = ci_type c'" "xs = ys" by auto
  have "le_value (le_bytes 16 (ci_value c)) = le_value (le_bytes 16 (ci_value c'))" using eq by simp
  then show "ci_value c = ci_value c'" using assms by (simp add: coin_ok_def le_value_le_bytes)
qed

lemma preimages_differ: "commitment_preimage c r \<noteq> nullifier_preimage c' se"
proof
  assume "commitment_preimage c r = nullifier_preimage c' se"
  then have "take 21 (commitment_preimage c r) = take 21 (nullifier_preimage c' se)" by simp
  then have "ascii_bytes ''midnight:zswap-cc[v1]'' = ascii_bytes ''midnight:zswap-cn[v1]''"
    by (simp add: commitment_preimage_def nullifier_preimage_def)
  then show False by (simp add: ascii_bytes_def)
qed

lemma hash_field_repr:
  fixes F :: "'f fr_ops"
  assumes "fr_laws F" "hash_ok h"
  shows "\<exists>f g. (bytes_field_repr F h :: ('e, 'f list) result) = Ok [f, g] \<and> hash_from_field_repr F [f, g] = Some h"
proof -
  have len: "length h = 32" using assms(2) by (simp add: hash_ok_def)
  obtain f where f: "fr_from_le_bytes F (drop 31 h) = Some f" "to_repr F f = drop 31 h @ zeros 31"
    using from_le_bytes_ok [OF assms(1), of "drop 31 h"] len by (auto simp: FR_BYTES_def FR_BYTES_STORED_def)
  obtain g where g: "fr_from_le_bytes F (take 31 h) = Some g" "to_repr F g = take 31 h @ zeros 1"
    using from_le_bytes_ok [OF assms(1), of "take 31 h"] len by (auto simp: FR_BYTES_def FR_BYTES_STORED_def)
  have "h \<noteq> []" "take 31 h \<noteq> []" using len by auto
  then have tail: "(bytes_field_repr F (take 31 h) :: ('e, 'f list) result) = Ok [g]"
    using g(1) len by (subst bytes_field_repr.simps) (simp add: FR_BYTES_STORED_def Let_def bytes_field_repr.simps [of F "[]"])
  have "(bytes_field_repr F h :: ('e, 'f list) result) = Ok [f, g]"
    using \<open>h \<noteq> []\<close> f(1) len by (subst bytes_field_repr.simps) (simp add: FR_BYTES_STORED_def Let_def tail)
  moreover have "hash_from_field_repr F [f, g] = Some h"
    using f(2) g(2) len by (simp add: hash_from_field_repr_def list_ex_iff)
  ultimately show ?thesis by blast
qed

lemma small_of_fr:
  assumes "fr_laws F" "n < 256"
  shows "uint_of_fr (Suc 0) F (fr_of_int F (int n)) = Some n"
proof -
  have "n < 256 ^ FR_BYTES_STORED" using assms(2) by (simp add: FR_BYTES_STORED_def)
  then have "to_repr F (fr_of_int F (int n)) = le_bytes FR_BYTES n" using fr_of_int_repr [OF assms(1)] by blast
  also have "\<dots> = le_bytes 16 n @ zeros 16"
    using le_bytes_more [of n 16 16] assms(2) by (simp add: FR_BYTES_def)
  finally show ?thesis using assms(2) by (simp add: uint_of_fr_def u128_of_fr_def list_ex_iff le_value_le_bytes)
qed

lemma token_field_round_trip:
  fixes F :: "'f fr_ops"
  assumes "fr_laws F" "token_ok t"
  shows "\<exists>fs. (token_field_repr F t :: ('e, 'f list) result) = Ok fs \<and> token_of_field_repr F fs = Some t"
proof -
  have "hash_ok BLANK_HASH" by (simp add: hash_ok_def BLANK_HASH_def)
  from hash_field_repr [OF assms(1) this] obtain b b' where
    b: "(bytes_field_repr F BLANK_HASH :: ('e, 'f list) result) = Ok [b, b']" "hash_from_field_repr F [b, b'] = Some BLANK_HASH"
    by blast
  have tags: "uint_of_fr (Suc 0) F (fr_of_int F 0) = Some 0" "uint_of_fr (Suc 0) F (fr_of_int F 1) = Some 1"
    "uint_of_fr (Suc 0) F (fr_of_int F 2) = Some 2"
    using small_of_fr [OF assms(1), of 0] small_of_fr [OF assms(1), of 1] small_of_fr [OF assms(1), of 2] by simp_all
  have hash: "\<exists>f g. (bytes_field_repr F h :: ('e, 'f list) result) = Ok [f, g] \<and> hash_from_field_repr F [f, g] = Some h"
    if "hash_ok h" for h using hash_field_repr [OF assms(1) that] .
  have parse: "token_of_field_repr F [v, a, a', c, c'] =
      (case uint_of_fr (Suc 0) F v of
         None \<Rightarrow> None
       | Some variant \<Rightarrow>
           (case (hash_from_field_repr F [a, a'], hash_from_field_repr F [c, c']) of
              (Some h1, Some h2) \<Rightarrow>
                if variant = 1 \<and> h2 = BLANK_HASH then Some (ShieldedToken h1)
                else if variant = 0 \<and> h1 = BLANK_HASH then Some (UnshieldedToken h2)
                else if variant = 2 \<and> h1 = BLANK_HASH \<and> h2 = BLANK_HASH then Some DustToken
                else None
            | _ \<Rightarrow> None))" for v a a' c c'
    by (simp add: token_of_field_repr_def Let_def)
  show ?thesis
  proof (cases t)
    case (UnshieldedToken h)
    then obtain f g where "(bytes_field_repr F h :: ('e, 'f list) result) = Ok [f, g]" "hash_from_field_repr F [f, g] = Some h"
      using hash [of h] assms(2) by auto
    then show ?thesis unfolding UnshieldedToken
      by (intro exI [of _ "[fr_of_int F 0, b, b', f, g]"]) (simp add: b parse tags)
  next
    case (ShieldedToken h)
    then obtain f g where "(bytes_field_repr F h :: ('e, 'f list) result) = Ok [f, g]" "hash_from_field_repr F [f, g] = Some h"
      using hash [of h] assms(2) by auto
    then show ?thesis unfolding ShieldedToken
      by (intro exI [of _ "[fr_of_int F 1, f, g, b, b']"]) (simp add: b parse tags)
  next
    case DustToken
    show ?thesis unfolding DustToken
      by (intro exI [of _ "[fr_of_int F 2, b, b', b, b']"]) (simp add: b parse tags)
  qed
qed

section \<open>A concrete field\<close>

text \<open>Numbers below the order of the scalar field of BLS12-381, for the witnesses; the hash is a stand-in.\<close>

definition demo_order :: nat where
  "demo_order = 52435875175126190479447740508185965837690552500527637822603658699938581184513"

definition demo_fr :: "nat fr_ops" where
  "demo_fr = \<lparr>from_repr = (\<lambda>bs. if le_value bs < demo_order then Some (le_value bs) else None),
     to_repr = le_bytes FR_BYTES, from_uniform = (\<lambda>bs. le_value bs mod demo_order),
     fr_of_int = (\<lambda>i. nat (i mod int demo_order)), poseidon = (\<lambda>fs. sum_list fs mod demo_order)\<rparr>"

lemma le_value_less: "le_value bs < 256 ^ length bs"
  using le_value_le_bytes [of "length bs" "le_value bs"] mod_less_divisor [of "256 ^ length bs" "le_value bs"]
  by (simp add: le_bytes_le_value)

lemma demo_fr_laws: "fr_laws demo_fr"
proof -
  have "le_value bs < demo_order" if "length bs = FR_BYTES" "last bs = 0" for bs
  proof -
    have "bs \<noteq> []" using that(1) by (auto simp: FR_BYTES_def)
    then have "bs = butlast bs @ zeros 1" using that(2) append_butlast_last_id [of bs] by simp
    then have "le_value bs = le_value (butlast bs)" by (metis le_value_zeros)
    also have "\<dots> < 256 ^ 31" using le_value_less [of "butlast bs"] that by (simp add: FR_BYTES_def)
    also have "\<dots> < demo_order" by (simp add: demo_order_def)
    finally show ?thesis .
  qed
  moreover have "nat (int n mod int demo_order) = n" "n < demo_order" "n < 256 ^ FR_BYTES" if "n < 256 ^ FR_BYTES_STORED" for n
  proof -
    show n: "n < demo_order" using that by (simp add: demo_order_def FR_BYTES_STORED_def)
    then show "nat (int n mod int demo_order) = n" by simp
    show "n < 256 ^ FR_BYTES" using that by (simp add: FR_BYTES_def FR_BYTES_STORED_def)
  qed
  moreover have "le_bytes FR_BYTES (le_value bs) = bs" if "length bs = FR_BYTES" for bs
    using le_bytes_le_value [of bs] that by simp
  ultimately show ?thesis
    by (auto simp: fr_laws_def demo_fr_def le_value_le_bytes split: if_splits)
qed

section \<open>Properties\<close>

text \<open>C32: Bytes survive the passage through field elements. Every byte string is represented without a
  panic by the announced number of field elements, and reading its length back from these elements
  returns the string and leaves what follows.\<close>

theorem bytes_through_field:
  assumes "fr_laws F"
  shows "\<exists>fs. (bytes_field_repr F bs :: (unit, 'f list) result) = Ok fs \<and> length fs = bytes_field_size (length bs) \<and>
    (\<forall>rest. bytes_from_field_repr F (fs @ rest) (length bs) = Some (bs, rest))"
  using assms by (rule bytes_field_repr_ok)

theorem bytes_through_field_witness:
  "\<exists>fs. (bytes_field_repr demo_fr (replicate 40 7) :: (unit, nat list) result) = Ok fs \<and> length fs = 2 \<and>
    bytes_from_field_repr demo_fr fs 40 = Some (replicate 40 7, [])"
proof -
  obtain fs where fs: "(bytes_field_repr demo_fr (replicate 40 7) :: (unit, nat list) result) = Ok fs"
    "length fs = bytes_field_size (length (replicate 40 (7::byte)))"
    "\<forall>rest. bytes_from_field_repr demo_fr (fs @ rest) (length (replicate 40 (7::byte))) = Some (replicate 40 7, rest)"
    using bytes_through_field [OF demo_fr_laws, of "replicate 40 7"] by blast
  have "length fs = 2" using fs(2) by (simp add: bytes_field_size_def div_ceil_def FR_BYTES_STORED_def)
  moreover have "bytes_from_field_repr demo_fr fs 40 = Some (replicate 40 7, [])" using spec [OF fs(3), of "[]"] by simp
  ultimately show ?thesis using fs(1) by blast
qed

text \<open>C33: The representations of an aligned value that fits its alignment exist and have the lengths
  computed from the alignment alone, in field elements and in hashed bytes.\<close>

theorem value_reprs_announced:
  assumes "fr_laws F" "fits (av_alignment av) (av_value av)" "\<forall>a\<in>set (av_value av). length a < 2 ^ 32"
  shows "\<exists>fs bs. (value_field_repr F av :: (unit, 'f list) result) = Ok fs \<and>
    length fs = alignment_field_len (av_alignment av) \<and>
    (value_binary_repr F av :: (unit, byte list) result) = Ok bs \<and> length bs = alignment_bin_len (av_alignment av)"
  using value_reprs_ok [OF assms] by metis

theorem value_reprs_announced_witness:
  "\<exists>fs bs. (value_field_repr demo_fr \<lparr>av_value = [[1], [5]], av_alignment = [Option_of [[Atom (Bytes 3)], [Atom Field_atom]]]\<rparr>
      :: (unit, nat list) result) = Ok fs \<and> length fs = Suc (Suc 0) \<and>
    (value_binary_repr demo_fr \<lparr>av_value = [[1], [5]], av_alignment = [Option_of [[Atom (Bytes 3)], [Atom Field_atom]]]\<rparr>
      :: (unit, byte list) result) = Ok bs \<and> length bs = 34"
proof -
  have "fits [Option_of [[Atom (Bytes 3)], [Atom Field_atom]]] [[1], [5]]"
    by (simp add: fits_iff u16_of_value_def prim_of_value_def uint_of_atom_def u128_of_atom_def is_in_normal_form_def
      FIELD_BYTE_LIMIT_def)
  then show ?thesis
    using value_reprs_announced [OF demo_fr_laws, of "\<lparr>av_value = [[1], [5]],
      av_alignment = [Option_of [[Atom (Bytes 3)], [Atom Field_atom]]]\<rparr>"]
    by (simp add: alignment_field_len_def alignment_bin_len_def FR_BYTES_def FR_BYTES_STORED_def div_ceil_def)
qed



text \<open>C35: The hashes of coins commit to everything about them: commitments of different coins or recipients,
  and nullifiers of different coins or senders, have different preimages, and no preimage serves both
  as a commitment and as a nullifier.\<close>

theorem coin_preimages_separate:
  assumes "coin_ok c" "coin_ok c'"
  shows "(commitment_preimage c r = commitment_preimage c' r' \<longleftrightarrow> c = c' \<and> r = r') \<and>
    (nullifier_preimage c s = nullifier_preimage c' s' \<longleftrightarrow> c = c' \<and> s = s') \<and>
    commitment_preimage c r \<noteq> nullifier_preimage c' s'"
proof (intro conjI)
  show "commitment_preimage c r = commitment_preimage c' r' \<longleftrightarrow> c = c' \<and> r = r'"
  proof
    assume "commitment_preimage c r = commitment_preimage c' r'"
    then have "coin_binary_repr c @ (case r of RecipientUser d \<Rightarrow> 1 # d | RecipientContract d \<Rightarrow> 0 # d) =
        coin_binary_repr c' @ (case r' of RecipientUser d \<Rightarrow> 1 # d | RecipientContract d \<Rightarrow> 0 # d)"
      by (simp add: commitment_preimage_def)
    from coin_binary_repr_inj [OF assms(1,2) this] show "c = c' \<and> r = r'"
      by (cases r; cases r') auto
  qed simp
  show "nullifier_preimage c s = nullifier_preimage c' s' \<longleftrightarrow> c = c' \<and> s = s'"
  proof
    assume "nullifier_preimage c s = nullifier_preimage c' s'"
    then have "coin_binary_repr c @ (case s of SenderUser d \<Rightarrow> 1 # d | SenderContract d \<Rightarrow> 0 # d) =
        coin_binary_repr c' @ (case s' of SenderUser d \<Rightarrow> 1 # d | SenderContract d \<Rightarrow> 0 # d)"
      by (simp add: nullifier_preimage_def)
    from coin_binary_repr_inj [OF assms(1,2) this] show "c = c' \<and> s = s'"
      by (cases s; cases s') auto
  qed simp
qed (rule preimages_differ)

theorem coin_preimages_separate_witness:
  "commitment_preimage \<lparr>ci_nonce = zeros 32, ci_type = zeros 32, ci_value = 3\<rparr> (RecipientUser (zeros 32)) \<noteq>
   commitment_preimage \<lparr>ci_nonce = zeros 32, ci_type = zeros 32, ci_value = 4\<rparr> (RecipientUser (zeros 32))"
  using coin_preimages_separate [of "\<lparr>ci_nonce = zeros 32, ci_type = zeros 32, ci_value = 3\<rparr>"
      "\<lparr>ci_nonce = zeros 32, ci_type = zeros 32, ci_value = 4\<rparr>" "RecipientUser (zeros 32)" "RecipientUser (zeros 32)"
      "SenderUser (zeros 32)" "SenderUser (zeros 32)"]
  by (simp add: coin_ok_def hash_ok_def)

end
