(* ===== verification/Query_Context.thy ===== *)
theory Query_Context
  imports Coin_Structure Delta_Tracking Vm
begin

text \<open>
  Running programs in the context of a contract (\<^verbatim>\<open>onchain-runtime/src/context.rs\<close>): the context of a
  call and the effects of a transcript with their encodings as values of the virtual machine, the
  charged state of a contract (\<^verbatim>\<open>onchain-state/src/state.rs\<close>) and queries against it.

  Persistent maps and sets are association lists and lists without repetitions. The arena that
  holds the nodes of state values, and the key of a state value in it, are the parameter
  \<^verbatim>\<open>storage_env\<close>. A search in the arena that does not end counts as a panic.
\<close>

section \<open>Charged states\<close>

record ('f, 'h) storage_env =
  sv_key :: "'f state_value \<Rightarrow> 'h arena_key"
  sv_arena :: "'h arena"

record ('f, 'h) charged_state =
  cs_state :: "'f state_value"
  cs_charged_keys :: "'h rc_map"

definition finished :: "(unit, 'a) result option \<Rightarrow> ('e, 'a) result" where
  "finished r = (case r of Some (Ok x) \<Rightarrow> Ok x | _ \<Rightarrow> Panic)"

definition charged_new :: "('f, 'h) storage_env \<Rightarrow> 'f state_value \<Rightarrow> ('e, ('f, 'h) charged_state) result" where
  "charged_new S state =
     map_ok (\<lambda>r. \<lparr>cs_state = state, cs_charged_keys = wd_updated_charged_keys r\<rparr>)
       (finished (initial_write_delete_costs (sv_arena S) [sv_key S state] (\<lambda>_ _. rc_ZERO)))"

definition charged_update ::
  "('f, 'h) storage_env \<Rightarrow> ('f, 'h) charged_state \<Rightarrow> 'f state_value \<Rightarrow> (nat \<Rightarrow> nat \<Rightarrow> running_cost) \<Rightarrow>
   (running_cost \<Rightarrow> nat) \<Rightarrow> ('e, ('f, 'h) charged_state \<times> running_cost) result" where
  "charged_update S cs new_state cpu_cost gc_limit =
     map_ok (\<lambda>r. (\<lparr>cs_state = new_state, cs_charged_keys = wd_updated_charged_keys r\<rparr>, wd_running_cost r))
       (finished (incremental_write_delete_costs (sv_arena S) (cs_charged_keys cs) [sv_key S new_state] cpu_cost gc_limit))"

section \<open>Contexts and effects\<close>

type_synonym 'f claimed_call = "nat \<times> contract_address \<times> hash_output \<times> 'f"

record 'f effects =
  claimed_nullifiers :: "hash_output list"
  claimed_shielded_receives :: "hash_output list"
  claimed_shielded_spends :: "hash_output list"
  claimed_contract_calls :: "'f claimed_call list"
  shielded_mints :: "(hash_output \<times> nat) list"
  unshielded_mints :: "(hash_output \<times> nat) list"
  unshielded_inputs :: "(token_type \<times> nat) list"
  unshielded_outputs :: "(token_type \<times> nat) list"
  claimed_unshielded_spends :: "((token_type \<times> public_address) \<times> nat) list"

definition effects_default :: "'f effects" where
  "effects_default =
     \<lparr>claimed_nullifiers = [], claimed_shielded_receives = [], claimed_shielded_spends = [],
      claimed_contract_calls = [], shielded_mints = [], unshielded_mints = [], unshielded_inputs = [],
      unshielded_outputs = [], claimed_unshielded_spends = []\<rparr>"

text \<open>Equality of effects compares sets and maps, whatever the order of their lists.\<close>

definition effects_eq :: "'f effects \<Rightarrow> 'f effects \<Rightarrow> bool" where
  "effects_eq a b \<longleftrightarrow>
     set (claimed_nullifiers a) = set (claimed_nullifiers b) \<and>
     set (claimed_shielded_receives a) = set (claimed_shielded_receives b) \<and>
     set (claimed_shielded_spends a) = set (claimed_shielded_spends b) \<and>
     set (claimed_contract_calls a) = set (claimed_contract_calls b) \<and>
     set (shielded_mints a) = set (shielded_mints b) \<and>
     set (unshielded_mints a) = set (unshielded_mints b) \<and>
     set (unshielded_inputs a) = set (unshielded_inputs b) \<and>
     set (unshielded_outputs a) = set (unshielded_outputs b) \<and>
     set (claimed_unshielded_spends a) = set (claimed_unshielded_spends b)"

record block_context =
  bc_tblock :: timestamp
  bc_tblock_err :: nat
  bc_parent_block_hash :: hash_output
  bc_last_block_time :: timestamp

record call_context =
  cc_own_address :: contract_address
  cc_tblock :: timestamp
  cc_tblock_err :: nat
  cc_parent_block_hash :: hash_output
  cc_caller :: "public_address option"
  cc_balance :: "(token_type \<times> nat) list"
  cc_com_indices :: "(hash_output \<times> nat) list"
  cc_last_block_time :: timestamp

definition call_context_default :: call_context where
  "call_context_default =
     \<lparr>cc_own_address = zeros 32, cc_tblock = 0, cc_tblock_err = 0, cc_parent_block_hash = zeros 32,
      cc_caller = None, cc_balance = [], cc_com_indices = [], cc_last_block_time = 0\<rparr>"

datatype 'f transcript_rejected =
    Execution "'f onchain_program_error"
  | TranscriptDecode invalid_builtin_decode
  | FinalStackWrongLength
  | WeakStateReturned
  | EffectDecodeError

section \<open>Encoding\<close>

definition atom_of_fr :: "'f fr_ops \<Rightarrow> 'f \<Rightarrow> value_atom" where
  "atom_of_fr F f = atom_normalize (to_repr F f)"

definition fr_of_atom :: "'f fr_ops \<Rightarrow> value_atom \<Rightarrow> (invalid_builtin_decode, 'f) result" where
  "fr_of_atom F a =
     (if length a \<le> FR_BYTES then ok_or (fr_from_le_bytes F a) (InvalidBuiltinDecode ''Fr'')
      else Err (InvalidBuiltinDecode ''Fr''))"

definition spend_key_alignment :: alignment where
  "spend_key_alignment = concat [token_alignment, address_alignment]"

definition value_of_spend_key :: "token_type \<times> public_address \<Rightarrow> fab_value" where
  "value_of_spend_key k = concat [value_of_token (fst k), value_of_address (snd k)]"

definition spend_key_of_value :: "fab_value \<Rightarrow> (invalid_builtin_decode, token_type \<times> public_address) result" where
  "spend_key_of_value v =
     (if length v = 6 then
        and_then (token_of_value (take 3 v)) (\<lambda>t. map_ok (Pair t) (address_of_value (drop 3 v)))
      else Err (InvalidBuiltinDecode ''ClaimedUnshieldedSpendsKey''))"

definition call_alignment :: alignment where
  "call_alignment = concat [[Atom (Bytes 8)], [Atom (Bytes 32)], [Atom (Bytes 32)], [Atom Field_atom]]"

definition value_of_call :: "'f fr_ops \<Rightarrow> 'f claimed_call \<Rightarrow> fab_value" where
  "value_of_call F = (\<lambda>(pos, addr, hash, rnd).
     concat [[atom_of_uint pos], [atom_of_hash addr], [atom_of_hash hash], [atom_of_fr F rnd]])"

definition call_of_value :: "'f fr_ops \<Rightarrow> fab_value \<Rightarrow> (invalid_builtin_decode, 'f claimed_call) result" where
  "call_of_value F v =
     (case v of
        [a0, a1, a2, a3] \<Rightarrow>
          and_then (uint_of_atom 8 ''u64'' a0) (\<lambda>pos. and_then (id_of_atom ''ContractAddress'' a1) (\<lambda>addr.
          and_then (hash_of_atom a2) (\<lambda>hash. map_ok (\<lambda>rnd. (pos, addr, hash, rnd)) (fr_of_atom F a3))))
      | _ \<Rightarrow> Err (InvalidBuiltinDecode ''ClaimedContractCallsValue''))"

definition aligned_of_token :: "token_type \<Rightarrow> ('e, aligned_value) result" where
  "aligned_of_token t = aligned_from (value_of_token t) token_alignment"

definition aligned_of_address :: "public_address \<Rightarrow> ('e, aligned_value) result" where
  "aligned_of_address a = aligned_from (value_of_address a) address_alignment"

definition uint_cell :: "nat \<Rightarrow> nat \<Rightarrow> ('e, 'f state_value) result" where
  "uint_cell n v = map_ok Cell (aligned_of_uint n v)"

text \<open>Collecting entries into a map of state values.\<close>

definition collect_map ::
  "('k \<Rightarrow> ('e, aligned_value) result) \<Rightarrow> ('v \<Rightarrow> ('e, 'f state_value) result) \<Rightarrow> ('k \<times> 'v) list \<Rightarrow>
   ('e, 'f state_value) result" where
  "collect_map enc_key enc_value entries =
     map_ok Map (try_fold (\<lambda>m (k, v).
       and_then (enc_key k) (\<lambda>k'. map_ok (\<lambda>v'. AList.update k' v' m) (enc_value v))) [] entries)"

abbreviation collect_set ::
  "('k \<Rightarrow> ('e, aligned_value) result) \<Rightarrow> 'k list \<Rightarrow> ('e, 'f state_value) result" where
  "collect_set enc ks \<equiv> collect_map enc (\<lambda>_. Ok Null) (map (\<lambda>k. (k, ())) ks)"

definition vm_of_effects :: "'f fr_ops \<Rightarrow> 'f effects \<Rightarrow> ('e, 'f vm_value) result" where
  "vm_of_effects F eff =
     and_then (collect_set aligned_of_hash (claimed_nullifiers eff)) (\<lambda>v0.
     and_then (collect_set aligned_of_hash (claimed_shielded_receives eff)) (\<lambda>v1.
     and_then (collect_set aligned_of_hash (claimed_shielded_spends eff)) (\<lambda>v2.
     and_then (collect_set (\<lambda>c. aligned_from (value_of_call F c) call_alignment) (claimed_contract_calls eff)) (\<lambda>v3.
     and_then (collect_map aligned_of_hash (uint_cell 8) (shielded_mints eff)) (\<lambda>v4.
     and_then (collect_map aligned_of_hash (uint_cell 8) (unshielded_mints eff)) (\<lambda>v5.
     and_then (collect_map aligned_of_token (uint_cell 16) (unshielded_inputs eff)) (\<lambda>v6.
     and_then (collect_map aligned_of_token (uint_cell 16) (unshielded_outputs eff)) (\<lambda>v7.
     and_then (collect_map (\<lambda>k. aligned_from (value_of_spend_key k) spend_key_alignment) (uint_cell 16)
                 (claimed_unshielded_spends eff)) (\<lambda>v8.
       Ok (vnew Weak (Array [v0, v1, v2, v3, v4, v5, v6, v7, v8])))))))))))"

section \<open>Decoding\<close>

abbreviation t_decode :: "(invalid_builtin_decode, 'a) result \<Rightarrow> ('f transcript_rejected, 'a) result" where
  "t_decode \<equiv> map_err TranscriptDecode"

definition decode_entry ::
  "(fab_value \<Rightarrow> (invalid_builtin_decode, 'k) result) \<Rightarrow> (fab_value \<Rightarrow> (invalid_builtin_decode, 'v) result) \<Rightarrow> 'v \<Rightarrow>
   ('k \<times> 'v) list \<Rightarrow> aligned_value \<times> 'f state_value \<Rightarrow> ('f transcript_rejected, ('k \<times> 'v) list) result" where
  "decode_entry dec_key dec_value dflt res = (\<lambda>(k, v).
     and_then (case v of Cell c \<Rightarrow> t_decode (dec_value (av_value c)) | Null \<Rightarrow> Ok dflt | _ \<Rightarrow> Err EffectDecodeError)
       (\<lambda>v'. map_ok (\<lambda>k'. AList.update k' v' res) (t_decode (dec_key (av_value k)))))"

definition map_from ::
  "(fab_value \<Rightarrow> (invalid_builtin_decode, 'k) result) \<Rightarrow> (fab_value \<Rightarrow> (invalid_builtin_decode, 'v) result) \<Rightarrow> 'v \<Rightarrow>
   'f state_value \<Rightarrow> ('f transcript_rejected, ('k \<times> 'v) list) result" where
  "map_from dec_key dec_value dflt st =
     (case st of Map m \<Rightarrow> try_fold (decode_entry dec_key dec_value dflt) [] m | _ \<Rightarrow> Err EffectDecodeError)"

definition unit_of_value :: "fab_value \<Rightarrow> (invalid_builtin_decode, unit) result" where
  "unit_of_value v = (if v = [] then Ok () else Err (InvalidBuiltinDecode ''()''))"

abbreviation set_from ::
  "(fab_value \<Rightarrow> (invalid_builtin_decode, 'k) result) \<Rightarrow> 'f state_value \<Rightarrow> ('f transcript_rejected, 'k list) result" where
  "set_from dec_key st \<equiv> map_ok (map fst) (map_from dec_key unit_of_value () st)"

definition u128_of_value :: "fab_value \<Rightarrow> (invalid_builtin_decode, nat) result" where
  "u128_of_value = prim_of_value ''u128'' u128_of_atom"

definition effects_of_vm :: "'f fr_ops \<Rightarrow> 'f vm_value \<Rightarrow> ('f transcript_rejected, 'f effects) result" where
  "effects_of_vm F val =
     (case vm_val val of
        Array [v0, v1, v2, v3, v4, v5, v6, v7, v8] \<Rightarrow>
          and_then (set_from (id_of_value ''Nullifier'') v0) (\<lambda>e0.
          and_then (set_from (id_of_value ''Commitment'') v1) (\<lambda>e1.
          and_then (set_from (id_of_value ''Commitment'') v2) (\<lambda>e2.
          and_then (set_from (call_of_value F) v3) (\<lambda>e3.
          and_then (map_from hash_of_value u64_of_value 0 v4) (\<lambda>e4.
          and_then (map_from hash_of_value u64_of_value 0 v5) (\<lambda>e5.
          and_then (map_from token_of_value u128_of_value 0 v6) (\<lambda>e6.
          and_then (map_from token_of_value u128_of_value 0 v7) (\<lambda>e7.
          and_then (map_from spend_key_of_value u128_of_value 0 v8) (\<lambda>e8.
            Ok \<lparr>claimed_nullifiers = e0, claimed_shielded_receives = e1, claimed_shielded_spends = e2,
                claimed_contract_calls = e3, shielded_mints = e4, unshielded_mints = e5,
                unshielded_inputs = e6, unshielded_outputs = e7, claimed_unshielded_spends = e8\<rparr>)))))))))
      | _ \<Rightarrow> Err EffectDecodeError)"

section \<open>Queries\<close>

record ('f, 'h) query_context =
  qc_state :: "('f, 'h) charged_state"
  qc_effects :: "'f effects"
  qc_address :: contract_address
  qc_call_context :: call_context

definition query_context_new :: "('f, 'h) charged_state \<Rightarrow> contract_address \<Rightarrow> ('f, 'h) query_context" where
  "query_context_new state address =
     \<lparr>qc_state = state, qc_effects = effects_default, qc_address = address, qc_call_context = call_context_default\<rparr>"

definition qc_qualify :: "persistent_hash \<Rightarrow> ('f, 'h) query_context \<Rightarrow> coin_info \<Rightarrow> qualified_info option" where
  "qc_qualify PH qc coin =
     map_option (qualify coin)
       (map_of (cc_com_indices (qc_call_context qc)) (coin_commitment PH coin (RecipientContract (qc_address qc))))"

definition vm_of_context :: "('f, 'h) query_context \<Rightarrow> ('e, 'f vm_value) result" where
  "vm_of_context qc =
     (let cc = qc_call_context qc in
      and_then (map_ok Cell (aligned_of_hash (qc_address qc))) (\<lambda>v0.
      and_then (collect_map aligned_of_hash (uint_cell 8) (cc_com_indices cc)) (\<lambda>v1.
      and_then (uint_cell 8 (cc_tblock cc)) (\<lambda>v2.
      and_then (uint_cell 4 (cc_tblock_err cc)) (\<lambda>v3.
      and_then (map_ok Cell (aligned_of_hash (cc_parent_block_hash cc))) (\<lambda>v4.
      and_then (collect_map aligned_of_token (uint_cell 16) (cc_balance cc)) (\<lambda>v5.
      and_then (case cc_caller cc of Some x \<Rightarrow> map_ok Cell (aligned_of_address x) | None \<Rightarrow> Ok Null) (\<lambda>v6.
      and_then (uint_cell 8 (cc_last_block_time cc)) (\<lambda>v7.
        Ok (vnew Weak (Array [v0, v1, v2, v3, v4, v5, v6, v7])))))))))))"

definition to_vm_stack :: "'f fr_ops \<Rightarrow> ('f, 'h) query_context \<Rightarrow> ('e, 'f vm_value list) result" where
  "to_vm_stack F qc =
     and_then (vm_of_context qc) (\<lambda>c. and_then (vm_of_effects F (qc_effects qc)) (\<lambda>e.
       Ok [c, e, vnew Strong (cs_state (qc_state qc))]))"

record ('e, 'f, 'h) query_results =
  qr_context :: "('f, 'h) query_context"
  qr_events :: "'e list"
  qr_gas_cost :: running_cost

definition storage_cpu_cost :: "cost_model \<Rightarrow> nat \<Rightarrow> nat \<Rightarrow> running_cost" where
  "storage_cpu_cost cm writes deletes =
     rc_compute (cd_add (cd_add (cd_add (cd_add (cd_add (cm_gc_rcmap_constant cm)
        (cd_mul (cm_gc_rcmap_coeff_keys_removed_size cm) deletes)) (cm_update_rcmap_constant cm))
        (cd_mul (cm_update_rcmap_coeff_keys_added_size cm) writes)) (cm_get_writes_constant cm))
        (cd_mul (cm_get_writes_coeff_keys_added_size cm) writes))"

definition storage_gc_limit :: "cost_model \<Rightarrow> running_cost \<Rightarrow> nat" where
  "storage_gc_limit cm budget =
     fp_into_atomic_units (cd_div (rc_compute_time budget) (cm_gc_rcmap_coeff_keys_removed_size cm)) 1 mod 2 ^ 64"

text \<open>The end of a query: decode the effects, charge the new state and check the gas limit.\<close>

definition finish_query ::
  "('f, 'h) storage_env \<Rightarrow> 'f fr_ops \<Rightarrow> ('f, 'h) query_context \<Rightarrow> running_cost option \<Rightarrow> cost_model \<Rightarrow> 'e list \<Rightarrow>
   running_cost \<Rightarrow> 'f vm_value \<Rightarrow> 'f state_value \<Rightarrow> ('f transcript_rejected, ('e, 'f, 'h) query_results) result" where
  "finish_query S F qc gas_limit cm events run_cost eff new_state =
     and_then (effects_of_vm F eff) (\<lambda>effects.
     and_then (charged_update S (qc_state qc) new_state (storage_cpu_cost cm) (storage_gc_limit cm))
       (\<lambda>(new_charged_state, state_cost).
       let gas_cost = rc_add run_cost state_cost in
       if (case gas_limit of Some gl \<Rightarrow> \<not> rc_within_bounds gas_cost gl | None \<Rightarrow> False) then Err (Execution OutOfGas)
       else Ok \<lparr>qr_context = qc\<lparr>qc_effects := effects, qc_state := new_charged_state\<rparr>,
                qr_events = events, qr_gas_cost = gas_cost\<rparr>))"

definition query ::
  "('f, 'h) storage_env \<Rightarrow> 'f vm_env \<Rightarrow> 'f fr_ops \<Rightarrow> ('r, 'e, 'f) result_mode \<Rightarrow> ('f, 'h) query_context \<Rightarrow> ('r, 'f) op list \<Rightarrow>
   running_cost option \<Rightarrow> cost_model \<Rightarrow> ('f transcript_rejected, ('e, 'f, 'h) query_results) result" where
  "query S E F M qc program gas_limit cm =
     and_then (to_vm_stack F qc) (\<lambda>initial.
     and_then (map_err Execution (run_program E M initial program gas_limit cm)) (\<lambda>res.
       case vr_stack res of
         [_, eff, new_state] \<Rightarrow>
           (case strength new_state of
              Weak \<Rightarrow> Err WeakStateReturned
            | Strong \<Rightarrow> finish_query S F qc gas_limit cm (vr_events res) (vr_gas_cost res) eff (vm_val new_state))
       | _ \<Rightarrow> Err FinalStackWrongLength))"

record 'f transcript =
  tr_gas :: running_cost
  tr_effects :: "'f effects"
  tr_program :: "(aligned_value, 'f) op list"
  tr_version :: "(nat \<times> nat) option"

definition TRANSCRIPT_VERSION :: "nat \<times> nat" where "TRANSCRIPT_VERSION = (2, 3)"

definition run_transcript ::
  "('f, 'h) storage_env \<Rightarrow> 'f vm_env \<Rightarrow> 'f fr_ops \<Rightarrow> ('f, 'h) query_context \<Rightarrow> 'f transcript \<Rightarrow> cost_model \<Rightarrow>
   ('f transcript_rejected, ('f versioned_log_item, 'f, 'h) query_results) result" where
  "run_transcript S E F qc transcript cm =
     query S E F result_mode_verify qc (tr_program transcript) (Some (tr_gas transcript)) cm"

end
