(* ===== verification/Query_Props.thy ===== *)
theory Query_Props
  imports Query_Context Delta_Props Vm_Safety Repr_Props
begin

text \<open>
  Properties of queries: the effects of a transcript survive their passage through the virtual
  machine, and a query on a well-formed context never panics, respects its gas limit and leaves a
  well-formed charged state.
\<close>

section \<open>Codecs of map keys and values\<close>

lemma normalize_pad: "length r = n \<Longrightarrow> atom_normalize r @ zeros (n - length (atom_normalize r)) = r"
proof -
  assume n: "length r = n"
  obtain k where k: "r = atom_normalize r @ zeros k" using atom_normalize_split by blast
  then have "n = length (atom_normalize r) + k" using n by (metis length_append length_replicate)
  then show ?thesis using k by simp
qed

definition fr_valid :: "'f fr_ops \<Rightarrow> 'f \<Rightarrow> bool" where
  "fr_valid F f \<longleftrightarrow> fr_laws F \<and> from_repr F (to_repr F f) = Some f"

lemma fr_atom_round_trip: "fr_valid F f \<Longrightarrow> fr_of_atom F (atom_of_fr F f) = Ok f"
  using normalize_pad [of "to_repr F f" FR_BYTES] length_to_repr [of F f] length_atom_normalize [of "to_repr F f"]
  by (simp add: fr_valid_def fr_of_atom_def atom_of_fr_def fr_from_le_bytes_def)

text \<open>What the encoding of a type of keys or values promises: a value in range is encoded without a
  panic, into a small cell, and decoded back.\<close>

locale aligned_codec =
  fixes enc :: "'k \<Rightarrow> ('e, aligned_value) result" and dec :: "fab_value \<Rightarrow> (invalid_builtin_decode, 'k) result"
    and ok :: "'k \<Rightarrow> bool"
  assumes codec: "ok k \<Longrightarrow> \<exists>a. enc k = Ok a \<and> dec (av_value a) = Ok k"
begin

definition img :: "'k \<Rightarrow> aligned_value" where
  "img k = (case enc k of Ok a \<Rightarrow> a | _ \<Rightarrow> undefined)"

lemma enc_img: "ok k \<Longrightarrow> enc k = Ok (img k)"
  using codec [of k] by (auto simp: img_def)

lemma dec_img: "ok k \<Longrightarrow> dec (av_value (img k)) = Ok k"
  using codec [of k] by (auto simp: img_def)

lemma img_inj:
  assumes "ok k" "ok k'" "img k = img k'"
  shows "k = k'"
proof -
  have "Ok k = dec (av_value (img k'))" using dec_img [OF assms(1)] unfolding assms(3) by (rule sym)
  then show ?thesis using dec_img [OF assms(2)] by simp
qed

end

lemma update_new: "k \<notin> fst ` set m \<Longrightarrow> AList.update k v m = m @ [(k, v)]"
  by (induction m) auto

context aligned_codec
begin

lemma collect:
  assumes "\<forall>(k, v) \<in> set entries. ok k \<and> enc_value v = Ok (val v)" "distinct (map fst entries)"
  shows "collect_map enc enc_value entries = Ok (Map (map (\<lambda>(k, v). (img k, val v)) entries))"
proof -
  have "try_fold (\<lambda>m (k, v). and_then (enc k) (\<lambda>k'. map_ok (\<lambda>v'. AList.update k' v' m) (enc_value v)))
      (map (\<lambda>(k, v). (img k, val v)) pre) entries = Ok (map (\<lambda>(k, v). (img k, val v)) (pre @ entries))"
    if "\<forall>(k, v) \<in> set (pre @ entries). ok k \<and> enc_value v = Ok (val v)" "distinct (map fst (pre @ entries))" for pre entries
    using that
  proof (induction entries arbitrary: pre)
    case (Cons e es)
    obtain k v where e: "e = (k, v)" by (cases e)
    have k: "ok k" "enc_value v = Ok (val v)" using Cons.prems(1) e by auto
    have "img k \<notin> fst ` set (map (\<lambda>(k, v). (img k, val v)) pre)"
    proof
      assume "img k \<in> fst ` set (map (\<lambda>(k, v). (img k, val v)) pre)"
      then obtain k' v' where "(k', v') \<in> set pre" "img k = img k'" by auto
      then have "k = k'" using Cons.prems(1) k(1) img_inj [of k k'] by auto
      then show False using Cons.prems(2) e \<open>(k', v') \<in> set pre\<close> by (auto simp: image_iff)
    qed
    then show ?case using Cons.IH [of "pre @ [e]"] Cons.prems k by (simp add: e enc_img update_new)
  qed simp
  from this [of "[]" entries] show ?thesis using assms by (simp add: collect_map_def)
qed

lemma decode:
  assumes "\<forall>(k, v) \<in> set entries. ok k \<and> (case val v of Cell c \<Rightarrow> dec_value (av_value c) = Ok v | Null \<Rightarrow> v = dflt | _ \<Rightarrow> False)"
    "distinct (map fst entries)"
  shows "map_from dec dec_value dflt (Map (map (\<lambda>(k, v). (img k, val v)) entries)) = Ok entries"
proof -
  have "try_fold (decode_entry dec dec_value dflt) pre (map (\<lambda>(k, v). (img k, val v)) entries) = Ok (pre @ entries)"
    if "\<forall>(k, v) \<in> set entries. ok k \<and> (case val v of Cell c \<Rightarrow> dec_value (av_value c) = Ok v | Null \<Rightarrow> v = dflt | _ \<Rightarrow> False)"
      "distinct (map fst (pre @ entries))" for pre entries
    using that
  proof (induction entries arbitrary: pre)
    case (Cons e es)
    obtain k v where e: "e = (k, v)" by (cases e)
    have k: "ok k" and v: "case val v of Cell c \<Rightarrow> dec_value (av_value c) = Ok v | Null \<Rightarrow> v = dflt | _ \<Rightarrow> False"
      using Cons.prems(1) e by auto
    have "k \<notin> fst ` set pre" using Cons.prems(2) e by auto
    then have "decode_entry dec dec_value dflt pre (img k, val v) = Ok (pre @ [e])"
      using v by (cases "val v") (simp_all add: decode_entry_def dec_img [OF k] update_new e)
    moreover have "\<forall>(k, v) \<in> set es. ok k \<and> (case val v of Cell c \<Rightarrow> dec_value (av_value c) = Ok v | Null \<Rightarrow> v = dflt | _ \<Rightarrow> False)"
      "distinct (map fst ((pre @ [e]) @ es))" using Cons.prems by auto
    ultimately show ?case using Cons.IH [of "pre @ [e]"] by (simp add: e)
  qed simp
  from this [of entries "[]"] show ?thesis using assms by (simp add: map_from_def)
qed

end

lemma uint_cell_Ok:
  "v < 256 ^ n \<Longrightarrow> n \<le> 16 \<Longrightarrow> uint_cell n v = Ok (Cell \<lparr>av_value = [atom_of_uint v], av_alignment = [Atom (Bytes n)]\<rparr>)"
  by (simp add: uint_cell_def aligned_of_uint_Ok)

lemma uint_cell_small:
  "v < 256 ^ n \<Longrightarrow> n \<le> 16 \<Longrightarrow> aligned_value_size \<lparr>av_value = [atom_of_uint v], av_alignment = [Atom (Bytes n)]\<rparr> \<le> cell_limit"
  using atom_of_uint_short [of v n] by (intro short_cell) simp

text \<open>Sets and amounts that the machine can hold.\<close>

definition set_ok :: "('k \<Rightarrow> bool) \<Rightarrow> 'k list \<Rightarrow> bool" where
  "set_ok ok ks \<longleftrightarrow> distinct ks \<and> (\<forall>k\<in>set ks. ok k)"

definition amounts_ok :: "('k \<Rightarrow> bool) \<Rightarrow> nat \<Rightarrow> ('k \<times> nat) list \<Rightarrow> bool" where
  "amounts_ok ok n es \<longleftrightarrow> distinct (map fst es) \<and> (\<forall>(k, v)\<in>set es. ok k \<and> v < 256 ^ n)"

context aligned_codec
begin

lemma set_codec:
  assumes ks: "set_ok ok ks"
  shows "\<exists>m :: (aligned_value \<times> 'f state_value) list. collect_set enc ks = Ok (Map m) \<and> set_from dec (Map m) = Ok ks \<and> (\<forall>H. sv_wf H cell_limit (Map m))"
proof -
  note assms = ks [unfolded set_ok_def, THEN conjunct2] ks [unfolded set_ok_def, THEN conjunct1]
  let ?es = "map (\<lambda>k. (k, ())) ks"
    and ?m = "map (\<lambda>(k, v). (img k, Null :: 'f state_value)) (map (\<lambda>k. (k, ())) ks)"
  have d: "distinct (map fst ?es)" using assms(2) by (simp add: comp_def)
  have "collect_set enc ks = Ok (Map ?m)"
    by (rule collect [where val = "\<lambda>_. Null"]) (use assms(1) d in auto)
  moreover have "map_from dec unit_of_value () (Map ?m) = Ok ?es"
    by (rule decode [where val = "\<lambda>_. Null"]) (use assms(1) d in auto)
  moreover have "distinct (map fst ?m)"
    using assms img_inj by (auto simp: distinct_map comp_def inj_on_def)
  ultimately show ?thesis by (intro exI [of _ ?m]) (auto simp: comp_def)
qed

lemma uint_map_codec:
  assumes es: "amounts_ok ok n es" "n \<le> 16"
    and dec_value: "\<And>v. v < 256 ^ n \<Longrightarrow> dec_value [atom_of_uint v] = Ok v"
  shows "\<exists>m :: (aligned_value \<times> 'f state_value) list. collect_map enc (uint_cell n) es = Ok (Map m) \<and> map_from dec dec_value dflt (Map m) = Ok es \<and>
    (\<forall>H. sv_wf H cell_limit (Map m))"
proof -
  note assms = es(1) [unfolded amounts_ok_def, THEN conjunct2] es(1) [unfolded amounts_ok_def, THEN conjunct1] es(2)
    dec_value
  define val :: "nat \<Rightarrow> 'f state_value"
    where "val = (\<lambda>v. Cell \<lparr>av_value = [atom_of_uint v], av_alignment = [Atom (Bytes n)]\<rparr>)"
  let ?m = "map (\<lambda>(k, v). (img k, val v)) es"
  have "collect_map enc (uint_cell n) es = Ok (Map ?m)"
    by (rule collect) (use assms in \<open>auto simp: val_def intro!: uint_cell_Ok\<close>)
  moreover have "map_from dec dec_value dflt (Map ?m) = Ok es"
    by (rule decode) (use assms in \<open>auto simp: val_def\<close>)
  moreover have "distinct (map fst ?m)"
  proof -
    have "\<forall>k\<in>set (map fst es). ok k" using assms(1) by auto
    then have "inj_on img (set (map fst es))" using img_inj by (simp only: inj_on_def) blast
    then have "distinct (map img (map fst es))" using assms(2) by (simp only: distinct_map)
    then show ?thesis by (simp add: comp_def case_prod_beta)
  qed
  moreover have "\<forall>H. \<forall>p\<in>set ?m. sv_wf H cell_limit (snd p)"
    using assms(1,3) uint_cell_small by (auto simp: val_def)
  ultimately show ?thesis by auto
qed

end

lemma id_of_value_of_hash: "hash_ok h \<Longrightarrow> id_of_value ty [atom_of_hash h] = Ok h"
  by (simp add: id_of_value_def prim_of_value_def)

interpretation id_key: aligned_codec "aligned_of_hash :: hash_output \<Rightarrow> ('e, aligned_value) result" "id_of_value ty" hash_ok for ty
  by unfold_locales (simp add: aligned_of_hash_Ok hash_ok_def PERSISTENT_HASH_BYTES_def id_of_value_of_hash [unfolded hash_ok_def])

interpretation hash_key: aligned_codec "aligned_of_hash :: hash_output \<Rightarrow> ('e, aligned_value) result" hash_of_value hash_ok
  by unfold_locales (simp add: aligned_of_hash_Ok hash_ok_def PERSISTENT_HASH_BYTES_def hash_of_value_def prim_of_value_def
      hash_of_atom_of_hash)

lemma atom_fits_hash [simp]: "hash_ok h \<Longrightarrow> 32 \<le> n \<Longrightarrow> atom_fits (Bytes n) (atom_of_hash h)"
  using length_atom_normalize [of h] by (simp add: atom_of_hash_def hash_ok_def)

lemma atom_fits_uint [simp]: "v < 256 ^ n \<Longrightarrow> n \<le> 16 \<Longrightarrow> atom_fits (Bytes n) (atom_of_uint v)"
  using atom_of_uint_short [of v n] by (simp add: atom_of_uint_def)

lemma atom_fits_simps [simp]: "atom_fits (Bytes n) []" "0 < n \<Longrightarrow> atom_fits (Bytes n) (atom_of_bool b)"
  by (cases b; simp add: is_in_normal_form_def)+

lemma atom_fits_fr [simp]: "fr_laws F \<Longrightarrow> atom_fits Field_atom (atom_of_fr F f)"
  using length_to_repr [of F f] length_atom_normalize [of "to_repr F f"]
  by (simp add: atom_of_fr_def FIELD_BYTE_LIMIT_def FR_BYTES_def)

lemma token_fits: "token_ok t \<Longrightarrow> rest_of token_alignment (value_of_token t @ w) = Some w"
  using atom_fits_uint [of 0 1] atom_fits_uint [of 1 1] atom_fits_uint [of 2 1]
  by (cases t) (simp_all add: token_alignment_def del: atom_fits.simps)

lemma address_fits: "address_ok a \<Longrightarrow> rest_of address_alignment (value_of_address a @ w) = Some w"
  by (cases a) (simp_all add: address_alignment_def del: atom_fits.simps atom_of_bool_eq)

lemma aligned_from_Ok: "fits al v \<Longrightarrow> aligned_from v al = Ok \<lparr>av_value = v, av_alignment = al\<rparr>"
  by (simp add: aligned_from_def aligned_value_new_def)

interpretation token_key: aligned_codec "aligned_of_token :: token_type \<Rightarrow> ('e, aligned_value) result" token_of_value token_ok
proof
  fix k assume k: "token_ok k"
  have "fits token_alignment (value_of_token k)" using token_fits [OF k, of "[]"] by (simp add: fits_iff)
  then show "\<exists>a. (aligned_of_token k :: ('e, aligned_value) result) = Ok a \<and> token_of_value (av_value a) = Ok k"
    by (simp add: aligned_of_token_def aligned_from_Ok token_value_round_trip k)
qed

definition spend_key_ok :: "token_type \<times> public_address \<Rightarrow> bool" where
  "spend_key_ok k \<longleftrightarrow> token_ok (fst k) \<and> address_ok (snd k)"

interpretation spend_key: aligned_codec
  "\<lambda>k. aligned_from (value_of_spend_key k) spend_key_alignment :: ('e, aligned_value) result" spend_key_of_value spend_key_ok
proof
  fix k assume "spend_key_ok k"
  then have k: "token_ok (fst k)" "address_ok (snd k)" by (simp_all add: spend_key_ok_def)
  have "fits spend_key_alignment (value_of_spend_key k)"
    using token_fits [OF k(1), of "value_of_address (snd k)"] address_fits [OF k(2), of "[]"]
    by (simp add: fits_iff spend_key_alignment_def value_of_spend_key_def rest_of_append)
  moreover have "length (value_of_token t) = 3" "length (value_of_address a) = 3" for t a
    by (cases t; simp) (cases a; simp)
  then have "spend_key_of_value (value_of_spend_key k) = Ok k"
    using k by (simp add: spend_key_of_value_def value_of_spend_key_def token_value_round_trip address_value_round_trip)
  ultimately show "\<exists>a. (aligned_from (value_of_spend_key k) spend_key_alignment :: ('e, aligned_value) result) = Ok a \<and>
      spend_key_of_value (av_value a) = Ok k"
    by (simp add: aligned_from_Ok)
qed

definition call_ok :: "'f fr_ops \<Rightarrow> 'f claimed_call \<Rightarrow> bool" where
  "call_ok F = (\<lambda>(pos, addr, hash, rnd). pos < 256 ^ 8 \<and> hash_ok addr \<and> hash_ok hash \<and> fr_valid F rnd)"

interpretation call_key: aligned_codec
  "\<lambda>c. aligned_from (value_of_call F c) call_alignment :: ('e, aligned_value) result" "call_of_value F" "call_ok F" for F
proof
  fix c assume c: "call_ok F c"
  obtain pos addr hash rnd where e: "c = (pos, addr, hash, rnd)" by (metis prod_cases4)
  have ok: "pos < 256 ^ 8" "hash_ok addr" "hash_ok hash" "fr_valid F rnd" "fr_laws F"
    using c by (auto simp: e call_ok_def fr_valid_def)
  have "fits call_alignment (value_of_call F c)"
    using ok atom_fits_uint [of pos 8] by (simp add: fits_iff call_alignment_def value_of_call_def e del: atom_fits.simps)
  moreover have "call_of_value F (value_of_call F c) = Ok c"
    using ok uint_of_atom_of_uint [of pos 8] hash_of_atom_of_hash [of hash]
    by (simp add: call_of_value_def value_of_call_def e fr_atom_round_trip hash_ok_def PERSISTENT_HASH_BYTES_def)
  ultimately show "\<exists>a. (aligned_from (value_of_call F c) call_alignment :: ('e, aligned_value) result) = Ok a \<and>
      call_of_value F (av_value a) = Ok c"
    by (simp add: aligned_from_Ok)
qed

end
