(* ===== verification/Query_Safety.thy ===== *)
theory Query_Safety
  imports Query_Props Vm_Props
begin

text \<open>
  Queries keep contracts well formed. Effects survive their passage through the virtual machine, what
  is decoded from any state value is well formed again, and a query on a well-formed context returns
  or is rejected, never panics, and leads to a well-formed context.
\<close>

section \<open>Well-formed effects\<close>

definition effects_ok :: "'f fr_ops \<Rightarrow> 'f effects \<Rightarrow> bool" where
  "effects_ok F eff \<longleftrightarrow>
     set_ok hash_ok (claimed_nullifiers eff) \<and> set_ok hash_ok (claimed_shielded_receives eff) \<and>
     set_ok hash_ok (claimed_shielded_spends eff) \<and> set_ok (call_ok F) (claimed_contract_calls eff) \<and>
     amounts_ok hash_ok 8 (shielded_mints eff) \<and> amounts_ok hash_ok 8 (unshielded_mints eff) \<and>
     amounts_ok token_ok 16 (unshielded_inputs eff) \<and> amounts_ok token_ok 16 (unshielded_outputs eff) \<and>
     amounts_ok spend_key_ok 16 (claimed_unshielded_spends eff)"

lemma ok_Nil [simp]: "set_ok P []" "amounts_ok P n []"
  by (simp_all add: set_ok_def amounts_ok_def)

lemma effects_default_ok [simp]: "effects_ok F effects_default"
  by (simp add: effects_ok_def effects_default_def)

lemma u64_of_value_of_uint: "v < 256 ^ 8 \<Longrightarrow> u64_of_value [atom_of_uint v] = Ok v"
  by (simp add: u64_of_value_def prim_of_value_def uint_of_atom_of_uint)

lemma u128_of_value_of_uint: "v < 256 ^ 16 \<Longrightarrow> u128_of_value [atom_of_uint v] = Ok v"
  by (simp add: u128_of_value_def prim_of_value_def u128_of_atom_of_uint)

text \<open>A field of the effects is written and read back.\<close>

definition field_passes ::
  "('e, 'f state_value) result \<Rightarrow> ('f state_value \<Rightarrow> ('f transcript_rejected, 'a) result) \<Rightarrow> 'a \<Rightarrow> bool" where
  "field_passes r dec x \<longleftrightarrow> (\<exists>m. r = Ok (Map m) \<and> dec (Map m) = Ok x \<and> (\<forall>H. sv_wf H cell_limit (Map m)))"

lemma field_passes:
  "set_ok hash_ok ks \<Longrightarrow> field_passes (collect_set aligned_of_hash ks :: ('e, 'f state_value) result) (set_from (id_of_value ty)) ks"
  "set_ok (call_ok F) cs \<Longrightarrow>
     field_passes (collect_set (\<lambda>c. aligned_from (value_of_call F c) call_alignment) cs :: ('e, 'f state_value) result)
       (set_from (call_of_value F)) cs"
  "amounts_ok hash_ok 8 ms \<Longrightarrow>
     field_passes (collect_map aligned_of_hash (uint_cell 8) ms :: ('e, 'f state_value) result) (map_from hash_of_value u64_of_value 0) ms"
  "amounts_ok token_ok 16 ts \<Longrightarrow>
     field_passes (collect_map aligned_of_token (uint_cell 16) ts :: ('e, 'f state_value) result) (map_from token_of_value u128_of_value 0) ts"
  "amounts_ok spend_key_ok 16 ss \<Longrightarrow>
     field_passes (collect_map (\<lambda>k. aligned_from (value_of_spend_key k) spend_key_alignment) (uint_cell 16) ss
       :: ('e, 'f state_value) result)
       (map_from spend_key_of_value u128_of_value 0) ss"
  unfolding field_passes_def
  subgoal by (rule id_key.set_codec)
  subgoal by (rule call_key.set_codec)
  subgoal by (rule hash_key.uint_map_codec [OF _ _ u64_of_value_of_uint]) auto
  subgoal by (rule token_key.uint_map_codec [OF _ _ u128_of_value_of_uint]) auto
  subgoal by (rule spend_key.uint_map_codec [OF _ _ u128_of_value_of_uint]) auto
  done

lemma effects_encode:
  assumes ok: "effects_ok F eff"
  shows "\<exists>v. (vm_of_effects F eff :: ('e, 'f vm_value) result) = Ok v \<and> effects_of_vm F v = Ok eff \<and>
    sv_wf H cell_limit (vm_val v)"
proof -
  have e: "set_ok hash_ok (claimed_nullifiers eff)" "set_ok hash_ok (claimed_shielded_receives eff)"
    "set_ok hash_ok (claimed_shielded_spends eff)" "set_ok (call_ok F) (claimed_contract_calls eff)"
    "amounts_ok hash_ok 8 (shielded_mints eff)" "amounts_ok hash_ok 8 (unshielded_mints eff)"
    "amounts_ok token_ok 16 (unshielded_inputs eff)" "amounts_ok token_ok 16 (unshielded_outputs eff)"
    "amounts_ok spend_key_ok 16 (claimed_unshielded_spends eff)"
    using ok by (simp_all add: effects_ok_def)
  note f = field_passes [where 'e = 'e and 'f = 'f]
  from f(1) [OF e(1), of "''Nullifier''"] f(1) [OF e(2), of "''Commitment''"] f(1) [OF e(3), of "''Commitment''"]
    f(2) [OF e(4)] f(3) [OF e(5)] f(3) [OF e(6)] f(4) [OF e(7)] f(4) [OF e(8)] f(5) [OF e(9)]
  show ?thesis unfolding field_passes_def
    by (elim exE conjE) (simp add: vm_of_effects_def effects_of_vm_def del: sv_wf.simps(3))
qed

section \<open>Decoding any value\<close>

lemma id_of_atom_safe: "safe (id_of_atom ty a) hash_ok"
  by (auto simp: safe_iff id_of_atom_def hash_ok_def PERSISTENT_HASH_BYTES_def split: if_splits)

lemma id_of_value_safe: "safe (id_of_value ty v) hash_ok"
  using id_of_atom_safe [of ty "v ! 0"] by (auto simp: safe_iff id_of_value_def prim_of_value_def split: if_splits)

lemma hash_of_atom_safe: "safe (hash_of_atom a) hash_ok"
  by (auto simp: safe_iff hash_of_atom_def hash_ok_def PERSISTENT_HASH_BYTES_def split: if_splits)

lemma hash_of_value_ok: "safe (hash_of_value v) hash_ok"
  using hash_of_atom_safe [of "v ! 0"] by (auto simp: safe_iff hash_of_value_def prim_of_value_def split: if_splits)

lemma unit_of_atom_safe: "safe (unit_of_atom a) (\<lambda>_. True)"
  by (simp add: unit_of_atom_def)

lemma bool_of_atom_safe: "safe (bool_of_atom a) (\<lambda>_. True)"
  using uint_of_atom_safe [of 1 "''u8''" a]
  by (auto simp: safe_iff bool_of_atom_def result_simps split: if_splits)

lemma token_of_value_safe: "safe (token_of_value v) token_ok"
  unfolding token_of_value_def
  by (auto split: list.split intro!: safe_and_then [OF uint_of_atom_safe] safe_and_then [OF unit_of_atom_safe]
      safe_map_ok safe_weaken [OF id_of_atom_safe] safe_weaken [OF unit_of_atom_safe])

lemma address_of_value_safe: "safe (address_of_value v) address_ok"
  unfolding address_of_value_def
  by (auto split: list.split intro!: safe_and_then [OF bool_of_atom_safe] safe_and_then [OF unit_of_atom_safe]
      safe_map_ok safe_weaken [OF id_of_atom_safe])

lemma spend_key_of_value_safe: "safe (spend_key_of_value v) spend_key_ok"
  unfolding spend_key_of_value_def
  by (auto simp: spend_key_ok_def intro!: safe_and_then [OF token_of_value_safe] safe_map_ok
      safe_weaken [OF address_of_value_safe])

lemma fr_of_atom_safe: "fr_laws F \<Longrightarrow> safe (fr_of_atom F a) (fr_valid F)"
proof (cases "fr_from_le_bytes F a")
  case (Some f)
  assume F: "fr_laws F"
  let ?r = "a @ zeros (FR_BYTES - length a)"
  have "length a \<le> FR_BYTES" "from_repr F ?r = Some f" using Some by (auto simp: fr_from_le_bytes_def split: if_splits)
  then have "to_repr F f = ?r" using F unfolding fr_laws_def by force
  then show ?thesis using F \<open>from_repr F ?r = Some f\<close> Some by (simp add: fr_of_atom_def fr_valid_def)
qed (simp add: fr_of_atom_def)

lemma call_of_value_safe: "fr_laws F \<Longrightarrow> safe (call_of_value F v) (call_ok F)"
  unfolding call_of_value_def
  by (auto simp: call_ok_def split: list.split intro!: safe_and_then [OF uint_of_atom_safe] safe_and_then [OF id_of_atom_safe]
      safe_and_then [OF hash_of_atom_safe] safe_map_ok safe_weaken [OF fr_of_atom_safe])

lemma u64_of_value_safe: "safe (u64_of_value v) (\<lambda>n. n < 256 ^ 8)"
  using uint_of_atom_safe [of 8 "''u64''" "v ! 0"] by (auto simp: safe_iff u64_of_value_def prim_of_value_def split: if_splits)

lemma u128_of_value_safe: "safe (u128_of_value v) (\<lambda>n. n < 256 ^ 16)"
proof -
  have "safe (u128_of_atom a) (\<lambda>n. n < 256 ^ 16)" for a
  proof (cases "length a \<le> 16")
    case True
    have "le_value a < 256 ^ length a" by (rule le_value_less)
    also have "\<dots> \<le> 256 ^ 16" using True by (intro power_increasing) auto
    finally show ?thesis using True by (auto simp: safe_iff u128_of_atom_def split: if_splits)
  qed (auto simp: safe_iff u128_of_atom_def split: if_splits)
  then show ?thesis by (auto simp: safe_iff u128_of_value_def prim_of_value_def split: if_splits)
qed

lemma unit_of_value_safe: "safe (unit_of_value v) (\<lambda>_. True)"
  by (simp add: unit_of_value_def)

lemma try_fold_safe:
  "(\<And>s x. P s \<Longrightarrow> x \<in> set xs \<Longrightarrow> safe (f s x) P) \<Longrightarrow> P s \<Longrightarrow> safe (try_fold f s xs) P"
  by (induction xs arbitrary: s) (auto intro!: safe_and_then [where Q = P])

definition entries_ok :: "('k \<Rightarrow> bool) \<Rightarrow> ('v \<Rightarrow> bool) \<Rightarrow> ('k \<times> 'v) list \<Rightarrow> bool" where
  "entries_ok key val es \<longleftrightarrow> distinct (map fst es) \<and> (\<forall>(k, v)\<in>set es. key k \<and> val v)"

lemma entries_ok_update: "entries_ok key val es \<Longrightarrow> key k \<Longrightarrow> val v \<Longrightarrow> entries_ok key val (AList.update k v es)"
proof -
  assume *: "entries_ok key val es" "key k" "val v"
  have "set (AList.update k v es) \<subseteq> insert (k, v) (set es)" by (induction es) auto
  then show ?thesis using * distinct_update [of es k v] by (auto simp: entries_ok_def)
qed

lemma map_from_safe:
  assumes k: "\<And>v. safe (dec_key v) key" and v: "\<And>v. safe (dec_value v) val" "val dflt"
  shows "safe (map_from dec_key dec_value dflt st) (entries_ok key val)"
proof -
  have "safe (decode_entry dec_key dec_value dflt es e) (entries_ok key val)"
    if "entries_ok key val es" for es and e :: "aligned_value \<times> 'f state_value"
    unfolding decode_entry_def using v that
    by (cases e) (auto intro!: safe_and_then [where Q = val] safe_map_ok safe_map_err safe_weaken [OF k] entries_ok_update
        split: state_value.split)
  moreover have "entries_ok key val []" by (simp add: entries_ok_def)
  ultimately show ?thesis unfolding map_from_def by (cases st) (auto intro!: try_fold_safe)
qed

lemma set_from_safe: "(\<And>v. safe (dec_key v) key) \<Longrightarrow> safe (set_from dec_key st) (set_ok key)"
  by (rule safe_map_ok, rule safe_weaken [OF map_from_safe [OF _ unit_of_value_safe]])
    (auto simp: entries_ok_def set_ok_def)

lemma amounts_from_safe:
  "(\<And>v. safe (dec_key v) key) \<Longrightarrow> (\<And>v. safe (dec_value v) (\<lambda>x. x < 256 ^ n)) \<Longrightarrow>
     safe (map_from dec_key dec_value 0 st) (amounts_ok key n)"
  by (rule safe_weaken [OF map_from_safe]) (auto simp: entries_ok_def amounts_ok_def)

lemma effects_of_vm_safe:
  assumes "fr_laws F"
  shows "safe (effects_of_vm F val) (effects_ok F)"
proof (cases "\<exists>v0 v1 v2 v3 v4 v5 v6 v7 v8. vm_val val = Array [v0, v1, v2, v3, v4, v5, v6, v7, v8]")
  case True
  note sets = safe_and_then [OF set_from_safe]
    and amounts = safe_and_then [OF amounts_from_safe [OF _ u64_of_value_safe]] safe_and_then [OF amounts_from_safe [OF _ u128_of_value_safe]]
  from True show ?thesis
    by (auto simp: effects_of_vm_def effects_ok_def intro!: sets [OF id_of_value_safe] sets [OF call_of_value_safe [OF assms]]
        amounts(1) [OF hash_of_value_ok] amounts(2) [OF token_of_value_safe] amounts(2) [OF spend_key_of_value_safe])
next
  case False
  then show ?thesis by (auto simp: effects_of_vm_def split: state_value.split list.split)
qed

section \<open>Contexts\<close>

definition call_context_ok :: "call_context \<Rightarrow> bool" where
  "call_context_ok cc \<longleftrightarrow>
     amounts_ok hash_ok 8 (cc_com_indices cc) \<and> cc_tblock cc < 256 ^ 8 \<and> cc_tblock_err cc < 256 ^ 4 \<and>
     hash_ok (cc_parent_block_hash cc) \<and> amounts_ok token_ok 16 (cc_balance cc) \<and>
     (case cc_caller cc of Some a \<Rightarrow> address_ok a | None \<Rightarrow> True) \<and> cc_last_block_time cc < 256 ^ 8"

text \<open>A part of the context is written.\<close>

definition encodes :: "('e, 'f state_value) result \<Rightarrow> bool" where
  "encodes r \<longleftrightarrow> (\<exists>v. r = Ok v \<and> (\<forall>H. sv_wf H cell_limit v))"

lemma field_encodes: "field_passes r dec x \<Longrightarrow> encodes r"
  by (auto simp: field_passes_def encodes_def simp del: sv_wf.simps)

lemma uint_encodes: "v < 256 ^ n \<Longrightarrow> n \<le> 16 \<Longrightarrow> encodes (uint_cell n v)"
  using uint_cell_small [of v n] by (simp add: encodes_def uint_cell_Ok)

lemma hash_encodes: "hash_ok h \<Longrightarrow> encodes (map_ok Cell (aligned_of_hash h))"
proof -
  assume h: "hash_ok h"
  have "length (atom_of_hash h) \<le> 32" using h length_atom_normalize [of h] by (simp add: atom_of_hash_def hash_ok_def)
  then have "aligned_value_size \<lparr>av_value = [atom_of_hash h], av_alignment = [Atom (Bytes 32)]\<rparr> \<le> cell_limit"
    by (intro short_cell) simp
  then show ?thesis using h by (simp add: encodes_def aligned_of_hash_Ok hash_ok_def PERSISTENT_HASH_BYTES_def)
qed

lemma address_encodes: "address_ok a \<Longrightarrow> encodes (map_ok Cell (aligned_of_address a))"
proof -
  assume a: "address_ok a"
  have "fits address_alignment (value_of_address a)" using address_fits [OF a, of "[]"] by (simp add: fits_iff)
  moreover have "aligned_value_size \<lparr>av_value = value_of_address a, av_alignment = address_alignment\<rparr> \<le> cell_limit"
    using a length_atom_normalize [of "case a of ContractAddr h \<Rightarrow> h | UserAddr h \<Rightarrow> h"]
      value_atom_size_le [of "[]"] value_atom_size_le [of "atom_of_bool True"] value_atom_size_le [of "atom_of_bool False"]
      value_atom_size_le [of "atom_of_hash (case a of ContractAddr h \<Rightarrow> h | UserAddr h \<Rightarrow> h)"]
    by (cases a) (simp_all add: aligned_value_size_def value_size_def alignment_size_def address_alignment_def
        atom_of_hash_def hash_ok_def cell_limit_def CELL_BOUND_def flagged_int_size_def)
  ultimately show ?thesis by (simp add: encodes_def aligned_of_address_def aligned_from_Ok)
qed

lemma context_encode:
  assumes "hash_ok (qc_address qc)" "call_context_ok (qc_call_context qc)"
  shows "\<exists>v. (vm_of_context qc :: ('e, 'f vm_value) result) = Ok v \<and> sv_wf H cell_limit (vm_val v)"
proof -
  let ?cc = "qc_call_context qc"
  note cc = assms(2) [unfolded call_context_ok_def]
  have caller: "encodes (case cc_caller ?cc of Some x \<Rightarrow> map_ok Cell (aligned_of_address x)
      | None \<Rightarrow> (Ok Null :: ('e, 'f state_value) result))"
    using cc address_encodes by (cases "cc_caller ?cc") (auto simp: encodes_def)
  have "encodes (collect_map aligned_of_hash (uint_cell 8) (cc_com_indices ?cc) :: ('e, 'f state_value) result)"
    "encodes (collect_map aligned_of_token (uint_cell 16) (cc_balance ?cc) :: ('e, 'f state_value) result)"
    "encodes (uint_cell 8 (cc_tblock ?cc) :: ('e, 'f state_value) result)"
    "encodes (uint_cell 4 (cc_tblock_err ?cc) :: ('e, 'f state_value) result)"
    "encodes (uint_cell 8 (cc_last_block_time ?cc) :: ('e, 'f state_value) result)"
    "encodes (map_ok Cell (aligned_of_hash (qc_address qc)) :: ('e, 'f state_value) result)"
    "encodes (map_ok Cell (aligned_of_hash (cc_parent_block_hash ?cc)) :: ('e, 'f state_value) result)"
    using cc assms(1) by (auto intro: uint_encodes hash_encodes field_encodes [OF field_passes(3)] field_encodes [OF field_passes(4)])
  with caller show ?thesis unfolding encodes_def vm_of_context_def Let_def by (elim exE conjE) simp
qed

section \<open>Charged states\<close>

text \<open>What the arena promises: below every state value there are finitely many nodes, all present.\<close>

definition storage_ok :: "('f, 'h) storage_env \<Rightarrow> bool" where
  "storage_ok S \<longleftrightarrow> (\<forall>v. \<exists>K. finite K \<and> key_closed (sv_arena S) K \<and> sv_key S v \<in> K)"

text \<open>Everything below the state of a contract is charged, with exact counts.\<close>

definition charged_ok :: "('f, 'h) storage_env \<Rightarrow> ('f, 'h) charged_state \<Rightarrow> bool" where
  "charged_ok S cs \<longleftrightarrow>
     rc_exact (sv_arena S) (cs_charged_keys cs) \<and>
     below (sv_arena S) {sv_key S (cs_state cs)} \<subseteq> charged (cs_charged_keys cs)"

lemma charged_update_ok:
  assumes "storage_ok S" "rc_exact (sv_arena S) (cs_charged_keys cs)"
  shows "\<exists>cs' c. (charged_update S cs v cpu gc :: ('e, ('f, 'h) charged_state \<times> running_cost) result) = Ok (cs', c) \<and>
    cs_state cs' = v \<and> charged_ok S cs'"
proof -
  let ?A = "sv_arena S" and ?r = "[sv_key S v]"
  obtain K where K: "finite K" "key_closed ?A K" "sv_key S v \<in> K" using assms(1) unfolding storage_ok_def by blast
  have r: "set ?r = {sv_key S v}" by simp
  have "set ?r \<subseteq> K" using K(3) by simp
  from incremental_ok [OF assms(2) K(1,2) this, of cpu gc] obtain added removed k1 where
    "incremental_write_delete_costs ?A (cs_charged_keys cs) ?r cpu gc = Some (Ok (wd_new ?A added removed k1 cpu))"
    "rc_exact ?A k1" "below ?A {sv_key S v} \<subseteq> charged k1"
    unfolding r by blast
  then show ?thesis by (simp add: charged_update_def finished_def charged_ok_def wd_new_def)
qed

lemma rc_default_empty [simp]: "\<not> rc_contains rc_default k"
  by (cases k) (simp_all add: rc_default_def rc_contains_def get_rc_def)

lemma rc_default_exact: "rc_exact A rc_default"
  by (simp add: rc_exact_def rc_wf_def key_closed_def) (simp add: rc_default_def)

lemma charged_new_ok:
  assumes "storage_ok S"
  shows "\<exists>cs. (charged_new S v :: ('e, ('f, 'h) charged_state) result) = Ok cs \<and> cs_state cs = v \<and> charged_ok S cs"
proof -
  let ?A = "sv_arena S" and ?r = "[sv_key S v]"
  obtain K where K: "finite K" "key_closed ?A K" "sv_key S v \<in> K" using assms unfolding storage_ok_def by blast
  have r: "set ?r = {sv_key S v}" by simp
  have sub: "set ?r \<subseteq> K" using K(3) by simp
  have none: "charged (rc_default :: 'h rc_map) = {}" by simp
  obtain keys where keys: "get_writes ?A rc_default ?r = Some (Ok keys)" "distinct keys" "set keys = below ?A {sv_key S v}"
    using get_writes_ok [OF K(1,2) sub rc_default_exact] unfolding none r by blast
  have "key_closed ?A (charged rc_default \<union> set keys)"
    unfolding none keys(3) using below_closed [OF K(2)] K(3) by simp
  moreover have "set keys \<inter> charged rc_default = {}" unfolding none by simp
  ultimately obtain m where m: "update_rcmap ?A rc_default keys = Ok m" "rc_exact ?A m" "charged m = set keys"
    using update_rcmap_ok [OF rc_default_exact keys(2)] unfolding none by blast
  then show ?thesis using keys
    by (simp add: charged_new_def finished_def initial_write_delete_costs_def opt_then_def wd_new_def charged_ok_def)
qed

section \<open>Queries\<close>

definition context_ok :: "('f, 'h) storage_env \<Rightarrow> 'f vm_env \<Rightarrow> 'f fr_ops \<Rightarrow> ('f, 'h) query_context \<Rightarrow> bool" where
  "context_ok S E F qc \<longleftrightarrow>
     sv_wf (ve_hashing E) cell_limit (cs_state (qc_state qc)) \<and> charged_ok S (qc_state qc) \<and>
     effects_ok F (qc_effects qc) \<and> hash_ok (qc_address qc) \<and> call_context_ok (qc_call_context qc)"

definition query_ok ::
  "('f, 'h) storage_env \<Rightarrow> 'f vm_env \<Rightarrow> 'f fr_ops \<Rightarrow> ('f, 'h) query_context \<Rightarrow> running_cost option \<Rightarrow>
   ('e, 'f, 'h) query_results \<Rightarrow> bool" where
  "query_ok S E F qc gas_limit r \<longleftrightarrow>
     context_ok S E F (qr_context r) \<and> qc_address (qr_context r) = qc_address qc \<and>
     qc_call_context (qr_context r) = qc_call_context qc \<and>
     (case gas_limit of Some gl \<Rightarrow> rc_within_bounds (qr_gas_cost r) gl | None \<Rightarrow> True)"

lemma to_vm_stack_ok:
  assumes "context_ok S E F qc"
  shows "\<exists>st. (to_vm_stack F qc :: ('e, 'f vm_value list) result) = Ok st \<and>
    list_all (\<lambda>v. sv_wf (ve_hashing E) cell_limit (vm_val v)) st"
proof -
  obtain c where "(vm_of_context qc :: ('e, 'f vm_value) result) = Ok c" "sv_wf (ve_hashing E) cell_limit (vm_val c)"
    using context_encode [of qc "ve_hashing E", where 'e = 'e] assms unfolding context_ok_def by blast
  moreover obtain e where "(vm_of_effects F (qc_effects qc) :: ('e, 'f vm_value) result) = Ok e"
    "sv_wf (ve_hashing E) cell_limit (vm_val e)"
    using effects_encode [of F "qc_effects qc" "ve_hashing E", where 'e = 'e] assms unfolding context_ok_def by blast
  ultimately show ?thesis using assms by (simp add: to_vm_stack_def context_ok_def)
qed

lemma finish_query_safe:
  assumes "storage_ok S" "fr_laws F" "context_ok S E F qc" "sv_wf (ve_hashing E) cell_limit v"
  shows "safe (finish_query (S :: ('f, 'h) storage_env) F qc gas_limit cm events cost eff v) (query_ok S E F qc gas_limit)"
proof -
  have "rc_exact (sv_arena S) (cs_charged_keys (qc_state qc))"
    using assms(3) by (simp add: context_ok_def charged_ok_def)
  from charged_update_ok [OF assms(1) this, where 'e = "'f transcript_rejected"] obtain cs' c where
    "(charged_update S (qc_state qc) v (storage_cpu_cost cm) (storage_gc_limit cm) ::
      ('f transcript_rejected, ('f, 'h) charged_state \<times> running_cost) result) = Ok (cs', c)"
    "cs_state cs' = v" "charged_ok S cs'"
    by blast
  then show ?thesis unfolding finish_query_def using assms(3,4)
    by (intro safe_and_then [OF effects_of_vm_safe [OF assms(2)]])
      (auto simp: query_ok_def context_ok_def Let_def split: option.splits)
qed

context safe_mode
begin

lemma query_safe:
  assumes "storage_ok S" "env_ok E" "list_all (op_ok E) program" "fr_laws F" "context_ok S E F qc"
  shows "safe (query S E F M qc program gas_limit cm) (query_ok S E F qc gas_limit)"
proof -
  obtain st where st: "(to_vm_stack F qc :: ('f transcript_rejected, 'f vm_value list) result) = Ok st"
    "list_all (\<lambda>v. sv_wf (ve_hashing E) cell_limit (vm_val v)) st"
    using to_vm_stack_ok [OF assms(5), where 'e = "'f transcript_rejected"] by blast
  have run: "safe (map_err Execution (run_program E M st program gas_limit cm))
      (\<lambda>r. list_all (\<lambda>v. sv_wf (ve_hashing E) cell_limit (vm_val v)) (vr_stack r))"
    unfolding run_program_def by (rule safe_map_err, rule safe_weaken [OF run_program_safe [OF assms(2,3) st(2)]]) simp
  show ?thesis unfolding query_def st(1) and_then_simps
    by (rule safe_and_then [OF run])
      (auto intro: finish_query_safe [OF assms(1,4,5)] split: list.split value_strength.split)
qed

end

text \<open>C9: Transcripts keep contracts well formed. In a well-formed context, with programs whose operands are
  well formed, running a transcript ends without a panic; if it succeeds, the new state satisfies the
  invariant of state values, everything below it is charged with exact reference counts, the decoded
  effects are well formed, the address and the call context are unchanged, and the gas used by the
  machine and by storage together is within the limit of the transcript in all four dimensions. The
  same holds of queries that gather their reads, under any limit.\<close>

theorem query_keeps_context:
  assumes "storage_ok S" "env_ok E" "fr_laws F" "context_ok S E F qc"
    "list_all (op_ok E) (tr_program tr)" "list_all (op_ok E) program"
  shows "run_transcript S E F qc tr cm \<noteq> Panic \<and>
    (\<forall>r. run_transcript S E F qc tr cm = Ok r \<longrightarrow> query_ok S E F qc (Some (tr_gas tr)) r) \<and>
    query S E F result_mode_gather qc program gas_limit cm \<noteq> Panic \<and>
    (\<forall>r. query S E F result_mode_gather qc program gas_limit cm = Ok r \<longrightarrow> query_ok S E F qc gas_limit r)"
  using verify_mode.query_safe [OF assms(1,2,5,3,4)] gather_mode.query_safe [OF assms(1,2,6,3,4)]
  unfolding run_transcript_def safe_iff by blast

definition demo_storage :: "(nat, nat) storage_env" where
  "demo_storage = \<lparr>sv_key = (\<lambda>_. Ref 0), sv_arena = demo_arena\<rparr>"

lemma demo_storage_ok: "storage_ok demo_storage"
  unfolding storage_ok_def demo_storage_def by (auto intro!: exI [of _ "{Ref 0}"] demo_closed)

definition demo_context :: "(nat, nat) charged_state \<Rightarrow> (nat, nat) query_context" where
  "demo_context cs = query_context_new cs (zeros 32)"

lemma demo_context_ok:
  "charged_ok demo_storage cs \<Longrightarrow> cs_state cs = Null \<Longrightarrow> context_ok demo_storage sample_vm_env demo_fr (demo_context cs)"
  by (simp add: demo_context_def context_ok_def query_context_new_def hash_ok_def call_context_ok_def call_context_default_def)

lemma run_nothing: "\<exists>r. run_program E M st [] gl cm = Ok r \<and> vr_stack r = st"
  by (simp add: run_program_def run_program_step_limited_def run_program_internal.simps initial_state_def vm_results_of_def
      comp_def case_prod_beta rev_map [symmetric])

lemma empty_query:
  assumes "storage_ok (S :: ('f, 'h) storage_env)" "context_ok S E F qc"
  shows "\<exists>r. query S E F M qc [] None cm = Ok r"
proof -
  obtain c where c: "(vm_of_context qc :: ('f transcript_rejected, 'f vm_value) result) = Ok c"
    using context_encode [of qc, where 'e = "'f transcript_rejected"] assms(2) unfolding context_ok_def by blast
  obtain e where e: "(vm_of_effects F (qc_effects qc) :: ('f transcript_rejected, 'f vm_value) result) = Ok e"
    "effects_of_vm F e = Ok (qc_effects qc)"
    using effects_encode [of F "qc_effects qc", where 'e = "'f transcript_rejected"] assms(2) unfolding context_ok_def by blast
  let ?st = "[c, e, vnew Strong (cs_state (qc_state qc))]"
  obtain r where r: "run_program E M ?st [] None cm = Ok r" "vr_stack r = ?st" using run_nothing by blast
  have "rc_exact (sv_arena S) (cs_charged_keys (qc_state qc))"
    using assms(2) by (simp add: context_ok_def charged_ok_def)
  from charged_update_ok [OF assms(1) this, where 'e = "'f transcript_rejected"] obtain cs' cost where
    "(charged_update S (qc_state qc) (cs_state (qc_state qc)) (storage_cpu_cost cm) (storage_gc_limit cm) ::
      ('f transcript_rejected, ('f, 'h) charged_state \<times> running_cost) result) = Ok (cs', cost)"
    by blast
  then show ?thesis by (simp add: query_def to_vm_stack_def c e r finish_query_def Let_def)
qed

theorem query_keeps_context_witness:
  "\<exists>cs r. charged_new demo_storage Null = (Ok cs :: (unit, _) result) \<and>
     query demo_storage sample_vm_env demo_fr result_mode_gather (demo_context cs) [] None INITIAL_COST_MODEL = Ok r \<and>
     query_ok demo_storage sample_vm_env demo_fr (demo_context cs) None r"
proof -
  obtain cs where cs: "charged_new demo_storage Null = (Ok cs :: (unit, _) result)" "cs_state cs = Null"
    "charged_ok demo_storage cs"
    using charged_new_ok [OF demo_storage_ok, where 'e = unit] by blast
  note ok = demo_context_ok [OF cs(3,2)]
  obtain r where "query demo_storage sample_vm_env demo_fr result_mode_gather (demo_context cs) [] None INITIAL_COST_MODEL = Ok r"
    using empty_query [OF demo_storage_ok ok] by blast
  then show ?thesis
    using query_keeps_context [OF demo_storage_ok sample_env_ok demo_fr_laws ok, where program = "[]" and
        tr = "\<lparr>tr_gas = rc_ZERO, tr_effects = effects_default, tr_program = [], tr_version = None\<rparr>"] cs(1) by auto
qed

text \<open>C10: Effects survive the virtual machine: well-formed effects are encoded without a panic, as a
  well-formed value, and decoding this value returns them unchanged.\<close>

theorem effects_round_trip:
  assumes "effects_ok F eff"
  shows "\<exists>v. (vm_of_effects F eff :: ('f transcript_rejected, 'f vm_value) result) = Ok v \<and> effects_of_vm F v = Ok eff"
  using effects_encode [OF assms, where 'e = "'f transcript_rejected"] by blast

theorem effects_round_trip_witness:
  "\<exists>v. (vm_of_effects demo_fr \<lparr>claimed_nullifiers = [zeros 32], claimed_shielded_receives = [], claimed_shielded_spends = [],
        claimed_contract_calls = [], shielded_mints = [(zeros 32, 7)], unshielded_mints = [],
        unshielded_inputs = [(DustToken, 5)], unshielded_outputs = [],
        claimed_unshielded_spends = [((DustToken, UserAddr (zeros 32)), 9)]\<rparr>
      :: (nat transcript_rejected, nat vm_value) result) = Ok v"
  using effects_round_trip [of demo_fr "\<lparr>claimed_nullifiers = [zeros 32], claimed_shielded_receives = [],
        claimed_shielded_spends = [], claimed_contract_calls = [], shielded_mints = [(zeros 32, 7)], unshielded_mints = [],
        unshielded_inputs = [(DustToken, 5)], unshielded_outputs = [],
        claimed_unshielded_spends = [((DustToken, UserAddr (zeros 32)), 9)]\<rparr>"]
  by (auto simp: effects_ok_def set_ok_def amounts_ok_def hash_ok_def spend_key_ok_def)

end
