(* ===== verification/Contract_State.thy ===== *)
theory Contract_State
  imports Query_Context Dust Zswap_State
begin

text \<open>
  Contracts in the ledger: their state with operations and maintenance authority
  (\<^verbatim>\<open>onchain-state/src/state.rs\<close>), the actions of a transaction on them and the context a call runs in
  (\<^verbatim>\<open>ledger/src/structure.rs\<close>), and maintenance updates (\<^verbatim>\<open>ledger/src/semantics.rs\<close>).

  Verifier keys, committee keys, signatures and ciphertexts are opaque; the type \<open>'x\<close> stands
  for them. Verified transactions carry no proofs. The serialised sizes of derived encodings are
  arguments.
\<close>

section \<open>Contract states\<close>

type_synonym entry_point = "byte list"

record 'x contract_operation =
  op_v2 :: "'x option"
  op_v3 :: "'x option"
  op_ir :: "byte list option"

definition contract_operation_new :: "'x option \<Rightarrow> byte list option \<Rightarrow> 'x contract_operation" where
  "contract_operation_new vk ir = \<lparr>op_v2 = None, op_v3 = vk, op_ir = ir\<rparr>"

record 'x maintenance_authority =
  ma_committee :: "'x list"
  ma_threshold :: nat
  ma_counter :: nat

definition authority_new :: "'x maintenance_authority" where
  "authority_new = \<lparr>ma_committee = [], ma_threshold = 1, ma_counter = 0\<rparr>"

record ('f, 'h, 'x) contract_state =
  ct_data :: "('f, 'h) charged_state"
  ct_operations :: "(entry_point \<times> 'x contract_operation) list"
  ct_authority :: "'x maintenance_authority"
  ct_balance :: "(token_type \<times> nat) list"

definition contract_state_new ::
  "('f, 'h) storage_env \<Rightarrow> 'f state_value \<Rightarrow> (entry_point \<times> 'x contract_operation) list \<Rightarrow> 'x maintenance_authority \<Rightarrow>
   ('e, ('f, 'h, 'x) contract_state) result" where
  "contract_state_new S data operations authority =
     map_ok (\<lambda>cs. \<lparr>ct_data = cs, ct_operations = operations, ct_authority = authority, ct_balance = []\<rparr>)
       (charged_new S data)"

definition balance_of :: "(token_type \<times> nat) list \<Rightarrow> token_type \<Rightarrow> nat" where
  "balance_of m t = (case map_of m t of Some v \<Rightarrow> v | None \<Rightarrow> 0)"

definition contract_night :: "('f, 'h, 'x) contract_state \<Rightarrow> nat" where
  "contract_night c = balance_of (ct_balance c) night_token"

definition ep_hash :: "(byte list \<Rightarrow> hash_output \<Rightarrow> hash_output) \<Rightarrow> entry_point \<Rightarrow> hash_output" where
  "ep_hash pc ep = pc ep (ascii_bytes ''midnight:entry-point'' @ zeros 12)"

section \<open>Operation versions\<close>

datatype operation_version = V3 | V4
datatype 'x versioned_key = KeyV3 'x | KeyV4 'x

fun version_has :: "operation_version \<Rightarrow> 'x contract_operation \<Rightarrow> bool" where
  "version_has V3 co = (op_v2 co \<noteq> None)"
| "version_has V4 co = (op_v3 co \<noteq> None)"

fun rm_from :: "operation_version \<Rightarrow> 'x contract_operation \<Rightarrow> 'x contract_operation" where
  "rm_from V3 co = co\<lparr>op_v2 := None\<rparr>"
| "rm_from V4 co = co\<lparr>op_v3 := None\<rparr>"

fun as_version :: "'x versioned_key \<Rightarrow> operation_version" where
  "as_version (KeyV3 _) = V3"
| "as_version (KeyV4 _) = V4"

fun insert_into :: "'x versioned_key \<Rightarrow> 'x contract_operation \<Rightarrow> 'x contract_operation" where
  "insert_into (KeyV3 vk) co = co\<lparr>op_v2 := Some vk\<rparr>"
| "insert_into (KeyV4 vk) co = co\<lparr>op_v3 := Some vk\<rparr>"

section \<open>Actions\<close>

datatype 'x single_update =
    ReplaceAuthority "'x maintenance_authority"
  | VerifierKeyRemove entry_point operation_version
  | VerifierKeyInsert entry_point "'x versioned_key"
  | IrRemove entry_point
  | IrInsert entry_point "byte list"

record 'x maintenance_update =
  mu_address :: contract_address
  mu_updates :: "'x single_update list"
  mu_counter :: nat
  mu_signatures :: "(nat \<times> 'x) list"

record 'f contract_call =
  cl_address :: contract_address
  cl_entry_point :: entry_point
  cl_guaranteed_transcript :: "'f transcript option"
  cl_fallible_transcript :: "'f transcript option"
  cl_communication_commitment :: 'f

record ('f, 'h, 'x) contract_deploy =
  dp_initial_state :: "('f, 'h, 'x) contract_state"
  dp_nonce :: hash_output

datatype ('f, 'h, 'x) contract_action =
    CallAction "'f contract_call"
  | DeployAction "('f, 'h, 'x) contract_deploy"
  | MaintainAction "'x maintenance_update"

type_synonym ('k, 'f, 'h, 'x, 'b) ledger_intent = "('k, 'f, ('f, 'h, 'x) contract_action, 'b) erased_intent"

text \<open>The call that \<open>caller\<close> claims to make to \<open>callee\<close>: in its guaranteed transcript or not, and
  its sequence number.\<close>

definition calls_with_seq ::
  "(byte list \<Rightarrow> hash_output \<Rightarrow> hash_output) \<Rightarrow> 'f contract_call \<Rightarrow> 'f contract_call \<Rightarrow> (bool \<times> nat) option" where
  "calls_with_seq pc caller callee =
     (let claimed = (\<lambda>t guaranteed. case t of None \<Rightarrow> []
            | Some t \<Rightarrow> map (\<lambda>c. (c, guaranteed)) (claimed_contract_calls (tr_effects t)));
          calls = claimed (cl_guaranteed_transcript caller) True @ claimed (cl_fallible_transcript caller) False
      in map_option (\<lambda>((sq, _, _, _), guaranteed). (guaranteed, sq))
           (find (\<lambda>((sq, addr, ep, cc), _). addr = cl_address callee \<and>
                ep = ep_hash pc (cl_entry_point callee) \<and> cc = cl_communication_commitment callee) calls))"

definition contract_calls ::
  "(byte list \<Rightarrow> hash_output \<Rightarrow> hash_output) \<Rightarrow> 'f contract_call \<Rightarrow> 'f contract_call \<Rightarrow> bool" where
  "contract_calls pc caller callee \<longleftrightarrow> calls_with_seq pc caller callee \<noteq> None"

text \<open>Who makes a call: a contract of the same intent that claims it, or else the only owner of
  the unshielded inputs of the intent.\<close>

fun find_caller ::
  "(byte list \<Rightarrow> hash_output \<Rightarrow> hash_output) \<Rightarrow> 'f contract_call \<Rightarrow> ('f, 'h, 'x) contract_action list \<Rightarrow> public_address option" where
  "find_caller pc call [] = None"
| "find_caller pc call (a # as) =
     (case a of
        CallAction caller \<Rightarrow> if contract_calls pc caller call then Some (ContractAddr (cl_address caller)) else find_caller pc call as
      | _ \<Rightarrow> find_caller pc call as)"

definition sole_owner :: "('k \<Rightarrow> user_address) \<Rightarrow> ('k, 'f, 'h, 'x, 'b) ledger_intent \<Rightarrow> public_address option" where
  "sole_owner address i =
     (let spends = (\<lambda>ofr. case ofr of None \<Rightarrow> [] | Some off \<Rightarrow> uof_inputs off);
          owners = map us_owner (spends (guaranteed_unshielded_offer i) @ spends (fallible_unshielded_offer i))
      in case owners of
           [] \<Rightarrow> None
         | owner # others \<Rightarrow> if list_all (\<lambda>o2. owner = o2) others then Some (UserAddr (address owner)) else None)"

definition call_context_for ::
  "('k \<Rightarrow> user_address) \<Rightarrow> (byte list \<Rightarrow> hash_output \<Rightarrow> hash_output) \<Rightarrow> 'f contract_call \<Rightarrow> block_context \<Rightarrow>
   ('k, 'f, 'h, 'x, 'b) ledger_intent \<Rightarrow> ('f, 'h, 'x) contract_state \<Rightarrow> (hash_output \<times> nat) list \<Rightarrow> call_context" where
  "call_context_for address pc call block i state com_indices =
     \<lparr>cc_own_address = cl_address call, cc_tblock = bc_tblock block, cc_tblock_err = bc_tblock_err block,
      cc_parent_block_hash = bc_parent_block_hash block,
      cc_caller = (case find_caller pc call (intent_actions i) of Some a \<Rightarrow> Some a | None \<Rightarrow> sole_owner address i),
      cc_balance = ct_balance state, cc_com_indices = com_indices, cc_last_block_time = bc_last_block_time block\<rparr>"

section \<open>Errors\<close>

datatype claim_kind = Reward | CardanoBridge
datatype balance_operation = Addition | Subtraction

datatype 'f tx_invalid =
    EffectsMismatch "'f effects" "'f effects"
  | ContractAlreadyDeployed contract_address
  | ContractNotPresent contract_address
  | TxZswap "(hash_output, hash_output, 'f) transaction_invalid"
  | TxTranscript "'f transcript_rejected"
  | InsufficientClaimable nat nat user_address claim_kind
  | VerifierKeyNotFound entry_point operation_version
  | VerifierKeyAlreadyPresent entry_point operation_version
  | ReplayCounterMismatch contract_address
  | ReplayProtectionViolation transaction_application_error
  | BalanceCheckOutOfBounds token_type nat nat balance_operation
  | TxUtxo utxo_error
  | TxDust "'f dust_error"
  | InvariantViolation nat
  | RewardTooSmall nat nat
  | ContractMetadataTooLarge contract_address entry_point nat nat
  | ContractAuthorityMetadataTooLarge contract_address nat nat
  | IrNotFound entry_point
  | IrAlreadyPresent entry_point

section \<open>Maintenance\<close>

record 'x size_env =
  authority_size :: "'x maintenance_authority \<Rightarrow> nat"
  entry_point_size :: "entry_point \<Rightarrow> nat"
  operation_size :: "'x contract_operation \<Rightarrow> nat"

datatype metadata_size_error = EntryPointTooLarge entry_point nat | AuthorityTooLarge nat

definition check_entry_point_metadata_sizes ::
  "'x size_env \<Rightarrow> ('f, 'h, 'x) contract_state \<Rightarrow> nat \<Rightarrow> (metadata_size_error, unit) result" where
  "check_entry_point_metadata_sizes Z state limit =
     (let auth_size = authority_size Z (ct_authority state) in
      if auth_size > limit then Err (AuthorityTooLarge auth_size)
      else try_fold (\<lambda>_ (ep, op).
             let sz = entry_point_size Z ep + operation_size Z op in
             if sz > limit then Err (EntryPointTooLarge ep sz) else Ok ()) () (ct_operations state))"

definition metadata_error :: "contract_address \<Rightarrow> nat \<Rightarrow> metadata_size_error \<Rightarrow> 'f tx_invalid" where
  "metadata_error addr limit e =
     (case e of
        EntryPointTooLarge ep sz \<Rightarrow> ContractMetadataTooLarge addr ep sz limit
      | AuthorityTooLarge sz \<Rightarrow> ContractAuthorityMetadataTooLarge addr sz limit)"

definition store_operation ::
  "('f, 'h, 'x) contract_state \<Rightarrow> entry_point \<Rightarrow> 'x contract_operation \<Rightarrow> ('f, 'h, 'x) contract_state" where
  "store_operation c ep op =
     (if op = contract_operation_new None None then c\<lparr>ct_operations := AList.delete ep (ct_operations c)\<rparr>
      else c\<lparr>ct_operations := AList.update ep op (ct_operations c)\<rparr>)"

definition operation_or_new :: "('f, 'h, 'x) contract_state \<Rightarrow> entry_point \<Rightarrow> 'x contract_operation" where
  "operation_or_new c ep =
     (case map_of (ct_operations c) ep of Some op \<Rightarrow> op | None \<Rightarrow> contract_operation_new None None)"

fun apply_single_update ::
  "('f, 'h, 'x) contract_state \<Rightarrow> 'x single_update \<Rightarrow> ('f tx_invalid, ('f, 'h, 'x) contract_state) result" where
  "apply_single_update c (ReplaceAuthority auth) = Ok (c\<lparr>ct_authority := auth\<rparr>)"
| "apply_single_update c (VerifierKeyRemove ep ver) =
     (case map_of (ct_operations c) ep of
        Some op \<Rightarrow> if version_has ver op then Ok (store_operation c ep (rm_from ver op)) else Err (VerifierKeyNotFound ep ver)
      | None \<Rightarrow> Err (VerifierKeyNotFound ep ver))"
| "apply_single_update c (VerifierKeyInsert ep vk) =
     (let op = operation_or_new c ep in
      if version_has (as_version vk) op then Err (VerifierKeyAlreadyPresent ep (as_version vk))
      else Ok (c\<lparr>ct_operations := AList.update ep (insert_into vk op) (ct_operations c)\<rparr>))"
| "apply_single_update c (IrRemove ep) =
     (case map_of (ct_operations c) ep of
        Some op \<Rightarrow> Ok (store_operation c ep (op\<lparr>op_ir := None\<rparr>))
      | None \<Rightarrow> Err (IrNotFound ep))"
| "apply_single_update c (IrInsert ep ir) =
     (let op = operation_or_new c ep in
      if op_ir op \<noteq> None then Err (IrAlreadyPresent ep)
      else Ok (c\<lparr>ct_operations := AList.update ep (op\<lparr>op_ir := Some ir\<rparr>) (ct_operations c)\<rparr>))"

text \<open>The arm of \<^verbatim>\<open>apply_actions\<close> for a maintenance update, on the state of its contract.\<close>

definition apply_maintenance ::
  "'x size_env \<Rightarrow> nat \<Rightarrow> ('f, 'h, 'x) contract_state \<Rightarrow> 'x maintenance_update \<Rightarrow>
   ('f tx_invalid, ('f, 'h, 'x) contract_state) result" where
  "apply_maintenance Z limit cstate upd =
     (let auth = ct_authority cstate in
      if ma_counter auth \<noteq> mu_counter upd then Err (ReplayCounterMismatch (mu_address upd))
      else
        and_then (try_fold apply_single_update
            (cstate\<lparr>ct_authority := auth\<lparr>ma_counter := sat_add u32_max (ma_counter auth) 1\<rparr>\<rparr>) (mu_updates upd)) (\<lambda>c.
        and_then (map_err (metadata_error (mu_address upd) limit) (check_entry_point_metadata_sizes Z c limit)) (\<lambda>_.
          Ok c)))"

end
