(* ===== verification/Ledger_Transaction.thy ===== *)
theory Ledger_Transaction
  imports Contract_State
begin

text \<open>
  Transactions and the parameters they are priced with, of \<^verbatim>\<open>ledger/src/structure.rs\<close>: intents and
  their erasures, standard transactions with their segments, claims of rewards, system transactions,
  the limits and the cost model of the ledger parameters.

  The maps of a transaction from segments to intents and offers are association lists with distinct
  keys. Binding randomness is of the opaque type \<open>'x\<close>.
\<close>

section \<open>Parameters\<close>

record transaction_cost_model =
  runtime_cost_model :: cost_model
  baseline_cost :: running_cost
  validation_factor :: fixed_point
  guaranteed_factor :: fixed_point
  fallible_factor :: fixed_point

definition INITIAL_TRANSACTION_COST_MODEL :: transaction_cost_model where
  "INITIAL_TRANSACTION_COST_MODEL =
     \<lparr>runtime_cost_model = INITIAL_COST_MODEL,
      baseline_cost = \<lparr>rc_read_time = 0, rc_compute_time = 100000000, rc_bytes_written = 0, rc_bytes_deleted = 0\<rparr>,
      validation_factor = fp_from_u64_div 1 4, guaranteed_factor = fp_ONE, fallible_factor = fp_ONE\<rparr>"

record transaction_limits =
  transaction_byte_limit :: nat
  time_to_dismiss_per_byte :: cost_duration
  min_time_to_dismiss :: cost_duration
  block_limits :: synthetic_cost
  block_withdrawal_minimum_multiple :: fixed_point
  max_contract_metadata_size :: nat

definition INITIAL_LIMITS :: transaction_limits where
  "INITIAL_LIMITS =
     \<lparr>transaction_byte_limit = 2 ^ 20, time_to_dismiss_per_byte = 2000000, min_time_to_dismiss = 15000000000,
      block_limits = \<lparr>sc_read_time = 1000000000000, sc_compute_time = 1000000000000, sc_block_usage = 200000,
        sc_bytes_written = 50000, sc_bytes_churned = 1000000\<rparr>,
      block_withdrawal_minimum_multiple = fp_from_u64_div 1 2, max_contract_metadata_size = 50000\<rparr>"

record ledger_parameters =
  lp_cost_model :: transaction_cost_model
  lp_limits :: transaction_limits
  lp_dust :: dust_parameters
  lp_fee_prices :: fee_prices
  lp_global_ttl :: duration
  lp_cost_dimension_min_ratio :: fixed_point
  lp_price_adjustment_a_parameter :: fixed_point
  lp_bridge_fee_basis_points :: nat
  lp_bridge_min_amount :: nat
  lp_min_block_price :: fixed_point

definition INITIAL_PARAMETERS :: ledger_parameters where
  "INITIAL_PARAMETERS =
     \<lparr>lp_cost_model = INITIAL_TRANSACTION_COST_MODEL, lp_limits = INITIAL_LIMITS, lp_dust = INITIAL_DUST_PARAMETERS,
      lp_fee_prices = \<lparr>overall_price = fp_from_u64_div 10 1, read_factor = fp_ONE, compute_factor = fp_ONE,
        block_usage_factor = fp_ONE, write_factor = fp_ONE\<rparr>,
      lp_global_ttl = 3600, lp_cost_dimension_min_ratio = fp_from_u64_div 1 4,
      lp_price_adjustment_a_parameter = fp_from_u64_div 100 1, lp_bridge_fee_basis_points = 100,
      lp_bridge_min_amount = 1000, lp_min_block_price = fp_from_u64_div 10 1\<rparr>"

definition max_price_adjustment :: "ledger_parameters \<Rightarrow> fixed_point" where
  "max_price_adjustment p = fp_add (price_adjustment_function fp_ONE (lp_price_adjustment_a_parameter p)) fp_ONE"

section \<open>Intents\<close>

definition intent_erase_proofs ::
  "('b \<Rightarrow> 'c) \<Rightarrow> ('k, 'f, 's, 'p, 'a, 'b) intent \<Rightarrow> ('k, 'f, 's, unit, 'a, 'c) intent" where
  "intent_erase_proofs downgrade i =
     \<lparr>guaranteed_unshielded_offer = guaranteed_unshielded_offer i,
      fallible_unshielded_offer = fallible_unshielded_offer i, intent_actions = intent_actions i,
      dust_actions = map_option da_erase_proofs (dust_actions i), intent_ttl = intent_ttl i,
      binding_commitment = downgrade (binding_commitment i)\<rparr>"

definition intent_erase_signatures ::
  "('k, 'f, 's, 'p, 'a, 'b) intent \<Rightarrow> ('k, 'f, unit, 'p, 'a, 'b) intent" where
  "intent_erase_signatures i =
     \<lparr>guaranteed_unshielded_offer = map_option uof_erase_signatures (guaranteed_unshielded_offer i),
      fallible_unshielded_offer = map_option uof_erase_signatures (fallible_unshielded_offer i),
      intent_actions = intent_actions i, dust_actions = map_option da_erase_signatures (dust_actions i),
      intent_ttl = intent_ttl i, binding_commitment = binding_commitment i\<rparr>"

text \<open>A verified intent has lost its proofs, and its commitment needs no downgrade.\<close>

definition erased :: "('k, 'f, 's, 'p, 'a, 'b) intent \<Rightarrow> ('k, 'f, 'a, 'b) erased_intent" where
  "erased i = intent_erase_signatures (intent_erase_proofs (\<lambda>b. b) i)"

definition intent_calls :: "('k, 'f, 's, 'p, ('f, 'h, 'x) contract_action, 'b) intent \<Rightarrow> 'f contract_call list" where
  "intent_calls i = List.map_filter (\<lambda>a. case a of CallAction c \<Rightarrow> Some c | _ \<Rightarrow> None) (intent_actions i)"

section \<open>Transactions\<close>

type_synonym ('f, 'x) ledger_offer = "(hash_output, hash_output, 'f, contract_address, byte list, 'x, token_hash) z_offer"

record ('k, 'f, 'h, 'x, 's, 'p, 'b) standard_transaction =
  st_network_id :: string
  st_intents :: "(nat \<times> ('k, 'f, 's, 'p, ('f, 'h, 'x) contract_action, 'b) intent) list"
  st_guaranteed_coins :: "('f, 'x) ledger_offer option"
  st_fallible_coins :: "(nat \<times> ('f, 'x) ledger_offer) list"
  st_binding_randomness :: 'x

record ('k, 's) claim_rewards =
  cr_network_id :: string
  cr_value :: nat
  cr_owner :: 'k
  cr_nonce :: hash_output
  cr_signature :: 's
  cr_kind :: claim_kind

definition cr_add_signature :: "('k, 's) claim_rewards \<Rightarrow> 't \<Rightarrow> ('k, 't) claim_rewards" where
  "cr_add_signature c sig =
     \<lparr>cr_network_id = cr_network_id c, cr_value = cr_value c, cr_owner = cr_owner c, cr_nonce = cr_nonce c,
      cr_signature = sig, cr_kind = cr_kind c\<rparr>"

definition cr_erase_signatures :: "('k, 's) claim_rewards \<Rightarrow> ('k, unit) claim_rewards" where
  "cr_erase_signatures c = cr_add_signature c ()"

datatype ('k, 'f, 'h, 'x, 's, 'p, 'b) transaction =
    Standard "('k, 'f, 'h, 'x, 's, 'p, 'b) standard_transaction"
  | ClaimRewards "('k, 's) claim_rewards"

definition tx_erase_proofs ::
  "('b \<Rightarrow> 'c) \<Rightarrow> ('k, 'f, 'h, 'x, 's, 'p, 'b) transaction \<Rightarrow> ('k, 'f, 'h, 'x, 's, unit, 'c) transaction" where
  "tx_erase_proofs downgrade tx =
     (case tx of
        Standard t \<Rightarrow> Standard
          \<lparr>st_network_id = st_network_id t,
           st_intents = map (\<lambda>(seg, i). (seg, intent_erase_proofs downgrade i)) (st_intents t),
           st_guaranteed_coins = st_guaranteed_coins t, st_fallible_coins = st_fallible_coins t,
           st_binding_randomness = st_binding_randomness t\<rparr>
      | ClaimRewards c \<Rightarrow> ClaimRewards c)"

definition tx_erase_signatures ::
  "('k, 'f, 'h, 'x, 's, 'p, 'b) transaction \<Rightarrow> ('k, 'f, 'h, 'x, unit, 'p, 'b) transaction" where
  "tx_erase_signatures tx =
     (case tx of
        Standard t \<Rightarrow> Standard
          \<lparr>st_network_id = st_network_id t,
           st_intents = map (\<lambda>(seg, i). (seg, intent_erase_signatures i)) (st_intents t),
           st_guaranteed_coins = st_guaranteed_coins t, st_fallible_coins = st_fallible_coins t,
           st_binding_randomness = st_binding_randomness t\<rparr>
      | ClaimRewards c \<Rightarrow> ClaimRewards (cr_erase_signatures c))"

record ('k, 'f, 'h, 'x, 'b) verified_transaction =
  vt_inner :: "('k, 'f, 'h, 'x, unit, unit, 'b) transaction"
  vt_hash :: hash_output
  vt_fees :: nat

definition GUARANTEED_SEGMENT :: nat where "GUARANTEED_SEGMENT = 0"

text \<open>The order in which \<^verbatim>\<open>sorted_iter\<close> visits a map.\<close>

definition sorted_iter :: "(nat \<times> 'v) list \<Rightarrow> (nat \<times> 'v) list" where
  "sorted_iter m = sort_key fst m"

definition segments :: "('k, 'f, 'h, 'x, 's, 'p, 'b) standard_transaction \<Rightarrow> nat list" where
  "segments t = remdups_adj (sort (GUARANTEED_SEGMENT # map fst (st_intents t) @ map fst (st_fallible_coins t)))"

definition fallible_segments :: "('k, 'f, 'h, 'x, 's, 'p, 'b) standard_transaction \<Rightarrow> nat list" where
  "fallible_segments t =
     remdups_adj (sort (filter (\<lambda>s. s \<noteq> GUARANTEED_SEGMENT) (map fst (st_intents t) @ map fst (st_fallible_coins t))))"

definition tx_intents ::
  "('k, 'f, 'h, 'x, 's, 'p, 'b) transaction \<Rightarrow> (nat \<times> ('k, 'f, 's, 'p, ('f, 'h, 'x) contract_action, 'b) intent) list" where
  "tx_intents tx = (case tx of Standard t \<Rightarrow> st_intents t | ClaimRewards _ \<Rightarrow> [])"

definition tx_calls :: "('k, 'f, 'h, 'x, 's, 'p, 'b) transaction \<Rightarrow> (nat \<times> 'f contract_call) list" where
  "tx_calls tx = concat (map (\<lambda>(seg, i). map (Pair seg) (intent_calls i)) (tx_intents tx))"

definition st_offers :: "('k, 'f, 'h, 'x, 's, 'p, 'b) standard_transaction \<Rightarrow> (nat \<times> ('f, 'x) ledger_offer) list" where
  "st_offers t =
     (case st_guaranteed_coins t of None \<Rightarrow> [] | Some ofr \<Rightarrow> [(GUARANTEED_SEGMENT, ofr)]) @ st_fallible_coins t"

section \<open>System transactions\<close>

record output_instruction_shielded =
  ois_amount :: nat
  ois_target_key :: hash_output

record output_instruction =
  oi_amount :: nat
  oi_target_address :: user_address
  oi_nonce :: hash_output

datatype cnight_action = CNightCreate | CNightDestroy

record 'f cnight_event =
  cn_value :: nat
  cn_owner :: 'f
  cn_time :: timestamp
  cn_action :: cnight_action
  cn_nonce :: initial_nonce

datatype 'f system_transaction =
    OverwriteParameters ledger_parameters
  | DistributeNight claim_kind "output_instruction list"
  | PayBlockRewardsToTreasury nat
  | PayFromTreasuryShielded "output_instruction_shielded list" hash_output token_hash
  | PayFromTreasuryUnshielded "output_instruction list" token_hash
  | DistributeReserve nat
  | CNightGeneratesDustUpdate "'f cnight_event list"
  | UnlockToTreasury nat
  | UnlockToReserve nat

end
