(* ===== verification/Transaction_Cost.thy ===== *)
theory Transaction_Cost
  imports Ledger_Transaction
begin

text \<open>
  What a transaction costs (\<^verbatim>\<open>ledger/src/structure.rs\<close>): the cost of the operations on the stores
  of the ledger, the cost of validating and of applying a transaction, its fees, and the smallest
  reward that can be claimed.

  Sizes of derived encodings, the number of public inputs of a proof and the version of a proof are
  fields of \<^verbatim>\<open>cost_env\<close>, an argument of the definitions. A sequence of \<^verbatim>\<open>+=\<close> is a list of charges.
\<close>

definition PROOF_SIZE :: nat where "PROOF_SIZE = 4832"
definition INPUT_PIS :: nat where "INPUT_PIS = 68"
definition OUTPUT_PIS :: nat where "OUTPUT_PIS = 77"
definition INPUT_PROOF_SIZE :: nat where "INPUT_PROOF_SIZE = 4832"
definition OUTPUT_PROOF_SIZE :: nat where "OUTPUT_PROOF_SIZE = 4832"
definition DUST_SPEND_PIS :: nat where "DUST_SPEND_PIS = 138"
definition DUST_SPEND_PROOF_SIZE :: nat where "DUST_SPEND_PROOF_SIZE = 2912"
definition VERIFIER_KEY_SIZE :: nat where "VERIFIER_KEY_SIZE = 2875"
definition EXPECTED_CONTRACT_DEPTH :: nat where "EXPECTED_CONTRACT_DEPTH = 32"
definition EXPECTED_UTXO_DEPTH :: nat where "EXPECTED_UTXO_DEPTH = 32"
definition EXPECTED_GENERATION_DEPTH :: nat where "EXPECTED_GENERATION_DEPTH = 32"
definition EXPECTED_OPERATIONS_DEPTH :: nat where "EXPECTED_OPERATIONS_DEPTH = 8"
definition EXPECTED_TOKEN_TYPE_DEPTH :: nat where "EXPECTED_TOKEN_TYPE_DEPTH = 8"
definition EXPECTED_TIME_FILTER_MAP_DEPTH :: nat where "EXPECTED_TIME_FILTER_MAP_DEPTH = 8"
definition FRESH_DUST_COMMITMENT_HASHES :: nat where "FRESH_DUST_COMMITMENT_HASHES = 6"
definition UTXO_SIZE :: nat where "UTXO_SIZE = 16 + PERSISTENT_HASH_BYTES * 3 + 4"
definition DUST_GENERATION_INFO_SIZE :: nat where
  "DUST_GENERATION_INFO_SIZE = 16 + FR_BYTES + PERSISTENT_HASH_BYTES + 8"

section \<open>The cost model of the stores\<close>

definition charge :: "running_cost \<Rightarrow> running_cost list \<Rightarrow> running_cost" where
  "charge cost parts = fold (\<lambda>c acc. rc_add acc c) parts cost"

definition charge_time :: "running_cost \<Rightarrow> cost_duration \<Rightarrow> running_cost" where
  "charge_time cost t = cost\<lparr>rc_compute_time := cd_add (rc_compute_time cost) t\<rparr>"

definition cell_read :: "transaction_cost_model \<Rightarrow> nat \<Rightarrow> running_cost" where
  "cell_read m sz = read_cell (runtime_cost_model m) sz True"

definition cell_write :: "nat \<Rightarrow> bool \<Rightarrow> running_cost" where
  "cell_write sz overwrite = rc_ZERO\<lparr>rc_bytes_written := sz, rc_bytes_deleted := (if overwrite then sz else 0)\<rparr>"

definition cell_delete :: "nat \<Rightarrow> running_cost" where
  "cell_delete sz = rc_ZERO\<lparr>rc_bytes_deleted := sz\<rparr>"

definition map_index :: "transaction_cost_model \<Rightarrow> nat \<Rightarrow> running_cost" where
  "map_index m log_sz = read_map (runtime_cost_model m) log_sz True"

definition proof_verify_cost :: "transaction_cost_model \<Rightarrow> nat \<Rightarrow> running_cost" where
  "proof_verify_cost m sz =
     rc_compute (cd_add (cm_proof_verify_constant (runtime_cost_model m))
       (cd_mul (cm_proof_verify_coeff_size (runtime_cost_model m)) sz))"

definition map_insert_cost :: "nat \<Rightarrow> bool \<Rightarrow> running_cost" where
  "map_insert_cost log_sz overwrite =
     rc_add (rc_mul (cell_write (PERSISTENT_HASH_BYTES * 16) True) (div_ceil log_sz 4))
       (cell_write PERSISTENT_HASH_BYTES overwrite)"

definition map_remove_cost :: "transaction_cost_model \<Rightarrow> nat \<Rightarrow> bool \<Rightarrow> running_cost" where
  "map_remove_cost m log_sz guaranteed_present =
     (if guaranteed_present then map_insert_cost log_sz True
      else rc_add (map_insert_cost log_sz True) (map_index m log_sz))"

definition time_filter_map_lookup :: "transaction_cost_model \<Rightarrow> running_cost" where
  "time_filter_map_lookup m = rc_mul (map_index m 8) 2"

definition time_filter_map_insert :: "bool \<Rightarrow> running_cost" where
  "time_filter_map_insert overwrite = rc_mul (map_insert_cost 8 overwrite) 2"

definition merkle_tree_index :: "transaction_cost_model \<Rightarrow> nat \<Rightarrow> running_cost" where
  "merkle_tree_index m log_sz = rc_mul (cell_read m (FR_BYTES * 3 + 2)) log_sz"

definition merkle_tree_insert_no_rehash :: "nat \<Rightarrow> bool \<Rightarrow> running_cost" where
  "merkle_tree_insert_no_rehash log_sz overwrite =
     rc_add (cell_write FR_BYTES overwrite) (rc_mul (cell_write (FR_BYTES * 3 + 2) True) log_sz)"

definition merkle_tree_insert_unamortized :: "transaction_cost_model \<Rightarrow> nat \<Rightarrow> bool \<Rightarrow> running_cost" where
  "merkle_tree_insert_unamortized m log_sz overwrite =
     rc_add (rc_compute (cd_mul (cm_transient_hash (runtime_cost_model m)) log_sz))
       (merkle_tree_insert_no_rehash log_sz overwrite)"

definition EXPECTED_AMORTIZE_HASHES :: nat where "EXPECTED_AMORTIZE_HASHES = 6"

definition merkle_tree_insert_amortized :: "transaction_cost_model \<Rightarrow> nat \<Rightarrow> bool \<Rightarrow> running_cost" where
  "merkle_tree_insert_amortized m log_sz overwrite =
     rc_add (rc_compute (cd_mul (cm_transient_hash (runtime_cost_model m)) EXPECTED_AMORTIZE_HASHES))
       (merkle_tree_insert_no_rehash log_sz overwrite)"

definition tree_copy :: "nat \<Rightarrow> running_cost" where
  "tree_copy bytes = rc_ZERO\<lparr>rc_bytes_written := bytes\<rparr>"

definition stack_setup_cost_for_effects :: "transaction_cost_model \<Rightarrow> 'f effects \<Rightarrow> running_cost" where
  "stack_setup_cost_for_effects m eff =
     (let cm = runtime_cost_model m; h = PERSISTENT_HASH_BYTES;
          maps = [(16, h), (length (claimed_nullifiers eff), h), (length (claimed_shielded_receives eff), h),
            (length (claimed_shielded_spends eff), h), (length (claimed_contract_calls eff), h * 2 + FR_BYTES + 8),
            (length (shielded_mints eff), h), (length (unshielded_mints eff), h),
            (length (unshielded_inputs eff), h + 1), (length (unshielded_outputs eff), h + 1),
            (length (claimed_unshielded_spends eff), h * 2 + 1)]
      in rc_compute (cd_sum (map (\<lambda>(n, key_len).
           cd_add (cd_add (cm_ins_map_constant cm)
             (cd_mul (cm_ins_map_coeff_container_log_size cm) (State_Value.ilog2 (next_power_of_two n))))
             (cd_mul (cm_ins_map_coeff_key_size cm) key_len)) maps)))"

section \<open>Validation\<close>

record ('k, 'f, 'h, 'x, 's, 'p, 'b) cost_env =
  ce_est_size :: "('k, 'f, 'h, 'x, 's, 'p, 'b) transaction \<Rightarrow> nat"
  ce_call_inputs :: "'f contract_call \<Rightarrow> nat"
  ce_proof_version :: "'f contract_call \<Rightarrow> operation_version option"
  ce_state_bytes :: "('f, 'h, 'x) contract_state \<Rightarrow> nat"
  ce_authority_bytes :: "'x maintenance_authority \<Rightarrow> nat"
  ce_entry_point_size :: "entry_point \<Rightarrow> nat"
  ce_key_size :: "'x \<Rightarrow> nat"
  ce_versioned_key_size :: "'x versioned_key \<Rightarrow> nat"
  ce_ir_size :: "byte list \<Rightarrow> nat"

text \<open>The size of an erased transaction, with room for the proofs it has lost.\<close>

definition estimated_tx_size ::
  "(('k, 'f, 'h, 'x, 's, 'p, 'b) transaction \<Rightarrow> nat) \<Rightarrow> ('k, 'f, 'h, 'x, 's, 'p, 'b) transaction \<Rightarrow> nat" where
  "estimated_tx_size serialized_size tx =
     (let spends = sum_list (map (\<lambda>(_, i). case dust_actions i of Some da \<Rightarrow> length (da_spends da) | None \<Rightarrow> 0) (tx_intents tx));
          offers = (case tx of Standard t \<Rightarrow> map snd (st_offers t) | ClaimRewards _ \<Rightarrow> []);
          zswap_inputs = sum_list (map (\<lambda>ofr. length (inputs ofr) + length (transients ofr)) offers);
          zswap_outputs = sum_list (map (\<lambda>ofr. length (outputs ofr) + length (transients ofr)) offers)
      in serialized_size tx + length (tx_calls tx) * PROOF_SIZE + zswap_inputs * INPUT_PROOF_SIZE +
         zswap_outputs * OUTPUT_PROOF_SIZE + spends * DUST_SPEND_PROOF_SIZE)"

type_synonym key_read_cost = "contract_address \<Rightarrow> entry_point \<Rightarrow> operation_version option \<Rightarrow> running_cost"

definition action_validation ::
  "(('k, 'f, 'h, 'x, 's, 'p, 'b) cost_env) \<Rightarrow> transaction_cost_model \<Rightarrow> running_cost \<Rightarrow> ('f, 'h, 'x) contract_action \<Rightarrow> running_cost" where
  "action_validation C m cost a =
     (case a of
        CallAction call \<Rightarrow>
          charge (charge_time cost (cm_verifier_key_load (runtime_cost_model m))) [proof_verify_cost m (ce_call_inputs C call)]
      | MaintainAction upd \<Rightarrow>
          charge_time cost (cd_mul (cm_signature_verify_constant (runtime_cost_model m)) (length (mu_signatures upd)))
      | DeployAction _ \<Rightarrow> cost)"

definition intent_validation ::
  "(('k, 'f, 'h, 'x, 's, 'p, 'b) cost_env) \<Rightarrow> transaction_cost_model \<Rightarrow> running_cost \<Rightarrow>
   ('k, 'f, 's, 'p, ('f, 'h, 'x) contract_action, 'b) intent \<Rightarrow> running_cost" where
  "intent_validation C m cost i =
     (let cm = runtime_cost_model m;
          signatures = (\<lambda>ofr. case ofr of None \<Rightarrow> 0 | Some off \<Rightarrow> length (uof_signatures off));
          cost1 = charge_time cost (cm_pedersen_valid cm);
          cost2 = charge_time cost1 (cd_mul (cm_signature_verify_constant cm)
            (signatures (guaranteed_unshielded_offer i) + signatures (fallible_unshielded_offer i)));
          cost3 = fold (\<lambda>a c. action_validation C m c a) (intent_actions i) cost2
      in case dust_actions i of
           None \<Rightarrow> cost3
         | Some da \<Rightarrow> charge_time (charge cost3 [rc_mul (proof_verify_cost m DUST_SPEND_PIS) (length (da_spends da))])
             (cd_mul (cm_signature_verify_constant cm) (length (da_registrations da))))"

definition validation_cost_impl ::
  "('k, 'f, 'h, 'x, 's, 'p, 'b) cost_env \<Rightarrow> transaction_cost_model \<Rightarrow> key_read_cost \<Rightarrow>
   ('k, 'f, 'h, 'x, 's, 'p, 'b) transaction \<Rightarrow> synthetic_cost" where
  "validation_cost_impl C m per_call_vk_read tx =
     (let cm = runtime_cost_model m;
          result = (case tx of
            Standard t \<Rightarrow>
              (let unique_calls = remdups (map (\<lambda>(_, c). (cl_address c, cl_entry_point c, ce_proof_version C c)) (tx_calls tx));
                   offers = map snd (st_offers t);
                   zswap_inputs = sum_list (map (\<lambda>ofr. length (inputs ofr) + length (transients ofr)) offers);
                   zswap_outputs = sum_list (map (\<lambda>ofr. length (outputs ofr) + length (transients ofr)) offers);
                   cost1 = charge (baseline_cost m) (map (\<lambda>(a, ep, ver). per_call_vk_read a ep ver) unique_calls);
                   cost2 = charge cost1 [rc_mul (proof_verify_cost m INPUT_PIS) zswap_inputs,
                     rc_mul (proof_verify_cost m OUTPUT_PIS) zswap_outputs];
                   cost3 = fold (\<lambda>(_, i) c. intent_validation C m c i) (st_intents t) cost2;
                   cost4 = charge_time cost3 (cd_mul (cd_add (cm_hash_to_curve cm) (cm_ec_mul cm))
                     (sum_list (map (\<lambda>ofr. length (deltas ofr)) offers)))
               in (sc_of_rc (charge_time cost4 (cm_ec_mul cm)))\<lparr>sc_block_usage := ce_est_size C tx\<rparr>)
          | ClaimRewards _ \<Rightarrow> sc_of_rc (rc_add (rc_compute (cm_signature_verify_constant cm)) (baseline_cost m)))
      in result\<lparr>sc_compute_time := cd_mul_fp (sc_compute_time result) (validation_factor m)\<rparr>)"

definition validation_cost ::
  "('k, 'f, 'h, 'x, 's, 'p, 'b) cost_env \<Rightarrow> transaction_cost_model \<Rightarrow> ('k, 'f, 'h, 'x, 's, 'p, 'b) transaction \<Rightarrow> synthetic_cost" where
  "validation_cost C m tx =
     validation_cost_impl C m (\<lambda>_ _ _. rc_add (rc_add (cell_read m VERIFIER_KEY_SIZE) (map_index m EXPECTED_CONTRACT_DEPTH))
       (map_index m EXPECTED_OPERATIONS_DEPTH)) tx"

text \<open>The size of the verifier key a proof of the given version is checked with.\<close>

definition operation_key_size ::
  "('x \<Rightarrow> nat) \<Rightarrow> 'x contract_operation option \<Rightarrow> operation_version option \<Rightarrow> nat" where
  "operation_key_size key_size oper ver =
     (case oper of
        None \<Rightarrow> VERIFIER_KEY_SIZE
      | Some co \<Rightarrow>
          (case (case ver of
                   Some V3 \<Rightarrow> op_v2 co
                 | Some V4 \<Rightarrow> op_v3 co
                 | None \<Rightarrow> (case op_v3 co of Some vk \<Rightarrow> Some vk | None \<Rightarrow> op_v2 co)) of
             Some vk \<Rightarrow> key_size vk
           | None \<Rightarrow> VERIFIER_KEY_SIZE))"

definition validation_cost_with_state ::
  "('k, 'f, 'h, 'x, 's, 'p, 'b) cost_env \<Rightarrow> transaction_cost_model \<Rightarrow> (contract_address \<rightharpoonup> ('f, 'h, 'x) contract_state) \<Rightarrow>
   ('k, 'f, 'h, 'x, 's, 'p, 'b) transaction \<Rightarrow> synthetic_cost" where
  "validation_cost_with_state C m index tx =
     validation_cost_impl C m (\<lambda>address ep ver.
       let (vk_size, ops_log_size) =
         (case index address of
            None \<Rightarrow> (VERIFIER_KEY_SIZE, EXPECTED_OPERATIONS_DEPTH)
          | Some cstate \<Rightarrow>
              (case map_of (ct_operations cstate) ep of
                 None \<Rightarrow> (VERIFIER_KEY_SIZE, EXPECTED_OPERATIONS_DEPTH)
               | Some co \<Rightarrow> (operation_key_size (ce_key_size C) (Some co) ver,
                   State_Value.ilog2 (next_power_of_two (length (ct_operations cstate))))))
       in rc_add (rc_add (cell_read m vk_size) (map_index m EXPECTED_CONTRACT_DEPTH)) (map_index m ops_log_size)) tx"

section \<open>Application\<close>

definition unshielded_costs :: "transaction_cost_model \<Rightarrow> ('k, 's) unshielded_offer option \<Rightarrow> running_cost list" where
  "unshielded_costs m ofr =
     (case ofr of
        None \<Rightarrow> []
      | Some off \<Rightarrow>
          (let ins = length (uof_inputs off); outs = length (uof_outputs off);
               night_ins = length (filter (\<lambda>i. us_type i = NIGHT) (uof_inputs off));
               night_outs = length (filter (\<lambda>out. uo_type out = NIGHT) (uof_outputs off))
           in [rc_mul (map_index m EXPECTED_UTXO_DEPTH) ins,
               rc_mul (rc_add (map_remove_cost m EXPECTED_UTXO_DEPTH True) (cell_delete UTXO_SIZE)) ins,
               rc_mul (rc_add (map_insert_cost EXPECTED_UTXO_DEPTH False) (cell_write UTXO_SIZE False)) outs,
               rc_mul (rc_add (merkle_tree_insert_unamortized m 32 False) (cell_write DUST_GENERATION_INFO_SIZE False)) night_ins,
               rc_mul (rc_add (map_index m EXPECTED_UTXO_DEPTH) (cell_read m FR_BYTES)) night_outs,
               rc_mul (rc_add (cell_read m 8) (cell_write 8 True)) night_outs,
               rc_mul (rc_add (merkle_tree_insert_amortized m 32 False) (cell_write DUST_GENERATION_INFO_SIZE False)) night_outs,
               rc_mul (rc_add (map_insert_cost EXPECTED_UTXO_DEPTH False) (cell_write 8 False)) night_outs,
               rc_mul (rc_add (cell_read m 8) (cell_write 8 True)) night_outs,
               rc_mul (rc_add (merkle_tree_insert_amortized m EXPECTED_UTXO_DEPTH False) (cell_write FR_BYTES False)) night_outs,
               rc_compute (cd_mul (cd_mul (cm_transient_hash (runtime_cost_model m)) FRESH_DUST_COMMITMENT_HASHES) night_outs)]))"

definition registration_costs ::
  "transaction_cost_model \<Rightarrow> ('k, 'f, 's, 'p, 'a, 'b) intent \<Rightarrow> ('k, 'f, 's) dust_registration \<Rightarrow> running_cost list" where
  "registration_costs m i reg =
     (if dr_dust_address reg \<noteq> None
      then (let night_ins = length (filter (\<lambda>s. us_owner s = dr_night_key reg) (night_inputs (guaranteed_unshielded_offer i)))
            in [rc_add (map_insert_cost EXPECTED_GENERATION_DEPTH False) (cell_write FR_BYTES False),
                rc_mul (rc_add (map_index m EXPECTED_UTXO_DEPTH) (cell_read m 8)) night_ins,
                rc_mul (rc_add (merkle_tree_index m EXPECTED_UTXO_DEPTH) (cell_read m DUST_GENERATION_INFO_SIZE)) night_ins])
      else [rc_add (map_remove_cost m EXPECTED_GENERATION_DEPTH True) (cell_delete FR_BYTES)])"

definition dust_costs :: "transaction_cost_model \<Rightarrow> ('k, 'f, 's, 'p, 'a, 'b) intent \<Rightarrow> running_cost list" where
  "dust_costs m i =
     (let spends = (case dust_actions i of Some da \<Rightarrow> length (da_spends da) | None \<Rightarrow> 0)
      in [rc_mul (map_index m 32) spends,
          rc_mul (rc_add (map_insert_cost EXPECTED_UTXO_DEPTH False) (cell_write FR_BYTES False)) spends,
          rc_mul (rc_add (cell_read m 8) (cell_write 8 True)) spends,
          rc_mul (rc_add (merkle_tree_insert_amortized m EXPECTED_UTXO_DEPTH False) (cell_write FR_BYTES False)) spends,
          rc_mul (time_filter_map_lookup m) 2] @
         concat (map (registration_costs m i) (case dust_actions i of Some da \<Rightarrow> da_registrations da | None \<Rightarrow> [])))"

definition transcript_costs :: "transaction_cost_model \<Rightarrow> 'f transcript option \<Rightarrow> running_cost list" where
  "transcript_costs m tr =
     (case tr of None \<Rightarrow> [] | Some t \<Rightarrow> [tr_gas t, stack_setup_cost_for_effects m (tr_effects t)])"

definition call_base_cost :: "transaction_cost_model \<Rightarrow> running_cost" where
  "call_base_cost m =
     rc_add (rc_add (rc_add (map_index m EXPECTED_CONTRACT_DEPTH) (map_insert_cost EXPECTED_CONTRACT_DEPTH True))
       (map_index m 1)) (map_insert_cost 1 True)"

definition single_update_cost ::
  "('k, 'f, 'h, 'x, 's, 'p, 'b) cost_env \<Rightarrow> transaction_cost_model \<Rightarrow> 'x single_update \<Rightarrow> running_cost" where
  "single_update_cost C m upd =
     (case upd of
        ReplaceAuthority auth \<Rightarrow> rc_add (tree_copy (ce_authority_bytes C auth)) (map_insert_cost 1 True)
      | VerifierKeyRemove _ _ \<Rightarrow>
          rc_add (rc_add (map_remove_cost m EXPECTED_OPERATIONS_DEPTH True) (cell_delete VERIFIER_KEY_SIZE)) (map_insert_cost 1 True)
      | VerifierKeyInsert ep vk \<Rightarrow>
          rc_add (rc_add (map_insert_cost EXPECTED_OPERATIONS_DEPTH False)
            (cell_write (ce_entry_point_size C ep + ce_versioned_key_size C vk) False)) (map_insert_cost 1 True)
      | IrRemove ep \<Rightarrow>
          rc_add (rc_add (map_insert_cost EXPECTED_OPERATIONS_DEPTH True) (cell_delete (ce_entry_point_size C ep))) (map_insert_cost 1 True)
      | IrInsert ep ir \<Rightarrow>
          rc_add (rc_add (map_insert_cost EXPECTED_OPERATIONS_DEPTH True)
            (cell_write (ce_entry_point_size C ep + ce_ir_size C ir) False)) (map_insert_cost 1 True))"

text \<open>The charges of an action to the guaranteed and to the fallible part.\<close>

definition action_costs ::
  "('k, 'f, 'h, 'x, 's, 'p, 'b) cost_env \<Rightarrow> transaction_cost_model \<Rightarrow> ('f, 'h, 'x) contract_action \<Rightarrow>
   running_cost list \<times> running_cost list" where
  "action_costs C m a =
     (case a of
        CallAction call \<Rightarrow>
          (let g = transcript_costs m (cl_guaranteed_transcript call);
               f = transcript_costs m (cl_fallible_transcript call)
           in if cl_guaranteed_transcript call \<noteq> None then (call_base_cost m # g, f) else (g, call_base_cost m # f))
      | DeployAction d \<Rightarrow>
          ([], [map_index m EXPECTED_CONTRACT_DEPTH,
                rc_add (map_insert_cost EXPECTED_CONTRACT_DEPTH False) (tree_copy (ce_state_bytes C (dp_initial_state d)))])
      | MaintainAction upd \<Rightarrow>
          ([], [map_index m EXPECTED_CONTRACT_DEPTH,
                rc_add (rc_add (rc_add (rc_mul (map_index m 1) 2) (rc_mul (map_insert_cost 1 True) 2)) (cell_read m 8)) (cell_write 8 True)] @
               map (single_update_cost C m) (mu_updates upd) @ [map_insert_cost EXPECTED_CONTRACT_DEPTH True]))"

definition intent_costs ::
  "('k, 'f, 'h, 'x, 's, 'p, 'b) cost_env \<Rightarrow> transaction_cost_model \<Rightarrow>
   ('k, 'f, 's, 'p, ('f, 'h, 'x) contract_action, 'b) intent \<Rightarrow> running_cost list \<times> running_cost list" where
  "intent_costs C m i =
     (let acts = map (action_costs C m) (intent_actions i)
      in ([rc_add (time_filter_map_lookup m) (cell_read m PERSISTENT_HASH_BYTES),
           rc_add (time_filter_map_insert False) (cell_write PERSISTENT_HASH_BYTES False)] @
          unshielded_costs m (guaranteed_unshielded_offer i) @ dust_costs m i @ concat (map fst acts),
          unshielded_costs m (fallible_unshielded_offer i) @ concat (map snd acts)))"

definition offer_cost :: "transaction_cost_model \<Rightarrow> ('f, 'x) ledger_offer \<Rightarrow> running_cost" where
  "offer_cost m ofr =
     (let ins = length (inputs ofr) + length (transients ofr); outs = length (outputs ofr) + length (transients ofr)
      in charge rc_ZERO
        [rc_mul (map_index m EXPECTED_TIME_FILTER_MAP_DEPTH) ins,
         rc_mul (map_index m EXPECTED_UTXO_DEPTH) ins,
         rc_mul (rc_add (map_insert_cost EXPECTED_UTXO_DEPTH False) (cell_write PERSISTENT_HASH_BYTES False)) ins,
         rc_mul (map_index m EXPECTED_UTXO_DEPTH) outs,
         rc_mul (map_insert_cost EXPECTED_UTXO_DEPTH False) outs,
         rc_mul (rc_add (cell_read m 8) (cell_write 8 True)) outs,
         rc_mul (merkle_tree_insert_amortized m EXPECTED_UTXO_DEPTH False) outs])"

definition charge_offer ::
  "transaction_cost_model \<Rightarrow> nat \<times> ('f, 'x) ledger_offer \<Rightarrow> running_cost \<times> running_cost \<Rightarrow> running_cost \<times> running_cost" where
  "charge_offer m = (\<lambda>(segment, ofr) (g_cost, f_cost).
     let c = offer_cost m ofr in
     if segment = GUARANTEED_SEGMENT then (rc_add g_cost c, f_cost)
     else (charge_time g_cost (rc_compute_time c), rc_add f_cost c))"

definition claim_costs :: "transaction_cost_model \<Rightarrow> running_cost list" where
  "claim_costs m =
     [map_index m EXPECTED_UTXO_DEPTH, map_insert_cost EXPECTED_UTXO_DEPTH True,
      rc_add (time_filter_map_lookup m) (cell_read m PERSISTENT_HASH_BYTES),
      rc_add (time_filter_map_insert False) (cell_write PERSISTENT_HASH_BYTES False),
      map_insert_cost EXPECTED_UTXO_DEPTH False]"

definition application_cost ::
  "('k, 'f, 'h, 'x, 's, 'p, 'b) cost_env \<Rightarrow> transaction_cost_model \<Rightarrow> ('k, 'f, 'h, 'x, 's, 'p, 'b) transaction \<Rightarrow>
   synthetic_cost \<times> synthetic_cost" where
  "application_cost C m tx =
     (let parts = map (\<lambda>(_, i). intent_costs C m i) (tx_intents tx);
          g1 = charge (baseline_cost m) (concat (map fst parts));
          f1 = charge rc_ZERO (concat (map snd parts));
          (g2, f2) = (case tx of
              Standard t \<Rightarrow> fold (charge_offer m) (st_offers t) (g1, f1)
            | ClaimRewards _ \<Rightarrow> (charge g1 (claim_costs m), f1));
          g = g2\<lparr>rc_compute_time := cd_mul_fp (rc_compute_time g2) (guaranteed_factor m)\<rparr>;
          f = f2\<lparr>rc_compute_time := cd_mul_fp (rc_compute_time f2) (fallible_factor m)\<rparr>
      in (sc_of_rc g, sc_of_rc (rc_add g f)))"

definition time_to_dismiss ::
  "('k, 'f, 'h, 'x, 's, 'p, 'b) cost_env \<Rightarrow> transaction_cost_model \<Rightarrow> ('k, 'f, 'h, 'x, 's, 'p, 'b) transaction \<Rightarrow> cost_duration" where
  "time_to_dismiss C m tx = sc_max_time (sc_add (fst (application_cost C m tx)) (validation_cost C m tx))"

section \<open>Fees\<close>

datatype fee_calculation_error = OutsideTimeToDismiss cost_duration cost_duration nat | BlockLimitExceeded

definition total_cost ::
  "('k, 'f, 'h, 'x, 's, 'p, 'b) cost_env \<Rightarrow> ledger_parameters \<Rightarrow> synthetic_cost \<Rightarrow> bool \<Rightarrow>
   ('k, 'f, 'h, 'x, 's, 'p, 'b) transaction \<Rightarrow> (fee_calculation_error, synthetic_cost) result" where
  "total_cost C p validation enforce tx =
     (let (guaranteed, application) = application_cost C (lp_cost_model p) tx;
          to_dismiss = sc_max_time (sc_add guaranteed validation);
          allowed = max (cd_mul (time_to_dismiss_per_byte (lp_limits p)) (ce_est_size C tx)) (min_time_to_dismiss (lp_limits p))
      in if enforce \<and> to_dismiss > allowed then Err (OutsideTimeToDismiss to_dismiss allowed (ce_est_size C tx))
         else Ok (sc_add validation application))"

definition tx_cost ::
  "('k, 'f, 'h, 'x, 's, 'p, 'b) cost_env \<Rightarrow> ledger_parameters \<Rightarrow> bool \<Rightarrow> ('k, 'f, 'h, 'x, 's, 'p, 'b) transaction \<Rightarrow>
   (fee_calculation_error, synthetic_cost) result" where
  "tx_cost C p enforce tx = total_cost C p (validation_cost C (lp_cost_model p) tx) enforce tx"

definition cost_with_state ::
  "('k, 'f, 'h, 'x, 's, 'p, 'b) cost_env \<Rightarrow> ledger_parameters \<Rightarrow> (contract_address \<rightharpoonup> ('f, 'h, 'x) contract_state) \<Rightarrow> bool \<Rightarrow>
   ('k, 'f, 'h, 'x, 's, 'p, 'b) transaction \<Rightarrow> (fee_calculation_error, synthetic_cost) result" where
  "cost_with_state C p index enforce tx =
     total_cost C p (validation_cost_with_state C (lp_cost_model p) index tx) enforce tx"

definition price :: "ledger_parameters \<Rightarrow> synthetic_cost \<Rightarrow> (fee_calculation_error, fixed_point) result" where
  "price p cost = map_ok (overall_cost (lp_fee_prices p)) (ok_or (normalize cost (block_limits (lp_limits p))) BlockLimitExceeded)"

definition fees ::
  "('k, 'f, 'h, 'x, 's, 'p, 'b) cost_env \<Rightarrow> ledger_parameters \<Rightarrow> bool \<Rightarrow> ('k, 'f, 'h, 'x, 's, 'p, 'b) transaction \<Rightarrow>
   (fee_calculation_error, nat) result" where
  "fees C p enforce tx =
     and_then (tx_cost C p enforce tx) (\<lambda>cost. map_ok (\<lambda>x. fp_into_atomic_units x SPECKS_PER_DUST) (price p cost))"

text \<open>The margin is cast to a signed 32-bit exponent.\<close>

definition fees_with_margin ::
  "('k, 'f, 'h, 'x, 's, 'p, 'b) cost_env \<Rightarrow> ledger_parameters \<Rightarrow> nat \<Rightarrow> ('k, 'f, 'h, 'x, 's, 'p, 'b) transaction \<Rightarrow>
   (fee_calculation_error, nat) result" where
  "fees_with_margin C p margin tx =
     and_then (tx_cost C p False tx) (\<lambda>cost.
       map_ok (\<lambda>x. fp_into_atomic_units
           (fp_mul x (fp_powi (max_price_adjustment p) ((int margin + 2 ^ 31) mod 2 ^ 32 - 2 ^ 31))) SPECKS_PER_DUST)
         (price p cost))"

definition fees_with_impl ::
  "('k, 'f, 'h, 'x, 's, 'p, 'b) cost_env \<Rightarrow> ledger_parameters \<Rightarrow> (contract_address \<Rightarrow> entry_point \<Rightarrow> 'x contract_operation option) \<Rightarrow>
   bool \<Rightarrow> ('k, 'f, 'h, 'x, 's, 'p, 'b) transaction \<Rightarrow> (fee_calculation_error, nat) result" where
  "fees_with_impl C p get_op enforce tx =
     (let m = lp_cost_model p;
          validation = validation_cost_impl C m (\<lambda>address ep ver.
            rc_add (rc_add (cell_read m (operation_key_size (ce_key_size C) (get_op address ep) ver))
              (map_index m EXPECTED_CONTRACT_DEPTH)) (map_index m EXPECTED_OPERATIONS_DEPTH)) tx
      in and_then (total_cost C p validation enforce tx) (\<lambda>cost.
           map_ok (\<lambda>x. fp_into_atomic_units x SPECKS_PER_DUST) (price p cost)))"

text \<open>The reward that pays for its own withdrawal: the cost of the claim depends on the size of a
  phantom claim only.\<close>

definition claim_cost :: "nat \<Rightarrow> ledger_parameters \<Rightarrow> (fee_calculation_error, synthetic_cost) result" where
  "claim_cost phantom_size p =
     (let m = lp_cost_model p;
          v0 = sc_of_rc (rc_add (rc_compute (cm_signature_verify_constant (runtime_cost_model m))) (baseline_cost m));
          validation = v0\<lparr>sc_compute_time := cd_mul_fp (sc_compute_time v0) (validation_factor m)\<rparr>;
          g0 = charge (baseline_cost m) (claim_costs m);
          g = g0\<lparr>rc_compute_time := cd_mul_fp (rc_compute_time g0) (guaranteed_factor m)\<rparr>;
          f = rc_ZERO\<lparr>rc_compute_time := cd_mul_fp 0 (fallible_factor m)\<rparr>;
          to_dismiss = sc_max_time (sc_add (sc_of_rc g) validation);
          allowed = max (cd_mul (time_to_dismiss_per_byte (lp_limits p)) phantom_size) (min_time_to_dismiss (lp_limits p))
      in if to_dismiss > allowed then Err (OutsideTimeToDismiss to_dismiss allowed phantom_size)
         else Ok (sc_add validation (sc_of_rc (rc_add g f))))"

definition fp_MAX :: fixed_point where "fp_MAX = i128_max"

definition min_claimable_rewards :: "nat \<Rightarrow> ledger_parameters \<Rightarrow> nat" where
  "min_claimable_rewards phantom_size p =
     (case claim_cost phantom_size p of
        Ok synthetic_fee \<Rightarrow>
          (let real_dust_fee = (case normalize synthetic_fee (block_limits (lp_limits p)) of
                 Some norm \<Rightarrow> overall_cost (lp_fee_prices p) norm | None \<Rightarrow> fp_MAX);
               night_dust_fp = fp_from_u64_div (night_dust_ratio (lp_dust p)) (SPECKS_PER_DUST div STARS_PER_NIGHT);
               night_to_pay_at_cap = fp_div real_dust_fee night_dust_fp;
               min_night_fp = fp_mul night_to_pay_at_cap (block_withdrawal_minimum_multiple (lp_limits p))
           in fp_into_atomic_units min_night_fp STARS_PER_NIGHT)
      | _ \<Rightarrow> u128_max)"

end
