(* ===== verification/Ledger_State.thy ===== *)
theory Ledger_State
  imports Transaction_Cost
begin

text \<open>
  The state of the ledger (\<^verbatim>\<open>LedgerState\<close> of \<^verbatim>\<open>ledger/src/structure.rs\<close>), the balance of Night it
  must keep and the system transactions that move Night between its pools
  (\<^verbatim>\<open>ledger/src/semantics.rs\<close>).

  Everything the ledger takes from other crates is in the record \<^verbatim>\<open>ledger_env\<close>; its field
  \<^verbatim>\<open>le_debug\<close> tells whether the build checks arithmetic overflow and debug assertions (a failed
  check is a panic) or wraps around and skips them. The persistent maps of the state are
  association lists with distinct keys.
\<close>

section \<open>Environment, state and events\<close>

record ('k, 'f, 'h, 'x, 'b) ledger_env =
  le_crypto :: "('k, 'f, ('f, 'h, 'x) contract_action, 'b) crypto"
  le_storage :: "('f, 'h) storage_env"
  le_vm :: "'f vm_env"
  le_fr :: "'f fr_ops"
  le_sizes :: "'x size_env"
  le_commit :: "byte list \<Rightarrow> hash_output \<Rightarrow> hash_output"
  le_deploy_address :: "('f, 'h, 'x) contract_deploy \<Rightarrow> contract_address"
  le_instruction_hash :: "output_instruction \<Rightarrow> token_hash \<Rightarrow> intent_hash"
  le_system_hash :: "'f system_transaction \<Rightarrow> hash_output"
  le_claim_size :: nat
  le_debug :: bool

record ('f, 'h, 'x) ledger_state =
  ls_network_id :: string
  ls_parameters :: ledger_parameters
  ls_locked_pool :: nat
  ls_bridge_receiving :: "(user_address \<times> nat) list"
  ls_reserve_pool :: nat
  ls_block_reward_pool :: nat
  ls_unclaimed_block_rewards :: "(user_address \<times> nat) list"
  ls_treasury :: "(token_type \<times> nat) list"
  ls_zswap :: "(hash_output, hash_output, 'f, contract_address) z_state"
  ls_contract :: "(contract_address \<times> ('f, 'h, 'x) contract_state) list"
  ls_utxo :: utxo_state
  ls_replay_protection :: "hash_output replay_protection_state"
  ls_dust :: "'f dust_state"

record event_source =
  es_transaction_hash :: hash_output
  es_logical_segment :: nat
  es_physical_segment :: nat

datatype 'x preimage_evidence = CiphertextEvidence 'x | PublicPreimage coin_info recipient | NoEvidence

datatype ('f, 'h, 'x) event_details =
    ZswapInputEvent hash_output "contract_address option"
  | ZswapOutputEvent hash_output "'x preimage_evidence" "contract_address option" nat
  | ContractDeployEvent contract_address "('f, 'h, 'x) contract_state"
  | ContractLogEvent contract_address entry_point "'f versioned_log_item"
  | ParamChange ledger_parameters
  | DustDetails "'f dust_event"

type_synonym ('f, 'h, 'x) event = "event_source \<times> ('f, 'h, 'x) event_details"

section \<open>The balance of Night\<close>

definition MAX_SUPPLY :: nat where "MAX_SUPPLY = 24000000000 * STARS_PER_NIGHT"

text \<open>The operator \<^verbatim>\<open>+\<close> on 128-bit unsigned integers.\<close>

definition plus_u128 :: "bool \<Rightarrow> nat \<Rightarrow> nat \<Rightarrow> ('e, nat) result" where
  "plus_u128 debug a b =
     (if a + b \<le> u128_max then Ok (a + b) else if debug then Panic else Ok ((a + b) mod 2 ^ 128))"

definition amount_of :: "('a \<times> nat) list \<Rightarrow> 'a \<Rightarrow> nat" where
  "amount_of m k = (case map_of m k of Some v \<Rightarrow> v | None \<Rightarrow> 0)"

definition contract_ann :: "(contract_address \<times> ('f, 'h, 'x) contract_state) list \<Rightarrow> night_ann" where
  "contract_ann m = ann (\<lambda>p. contract_night (snd p)) m"

definition total_night :: "bool \<Rightarrow> ('f, 'h, 'x) ledger_state \<Rightarrow> ('e, nat) result" where
  "total_night debug s =
     try_fold (plus_u128 debug) (na_value (utxo_ann (ls_utxo s)))
       [ls_locked_pool s, ls_reserve_pool s, ls_block_reward_pool s, amount_of (ls_treasury s) night_token,
        na_value (amount_ann (ls_unclaimed_block_rewards s)), na_value (amount_ann (ls_bridge_receiving s)),
        na_value (contract_ann (ls_contract s))]"

definition check_night_balance_invariant :: "bool \<Rightarrow> ('f, 'h, 'x) ledger_state \<Rightarrow> (nat, unit) result" where
  "check_night_balance_invariant debug s =
     and_then (total_night debug s) (\<lambda>total. guard (total = MAX_SUPPLY) total)"

definition with_genesis_settings ::
  "bool \<Rightarrow> string \<Rightarrow> ledger_parameters \<Rightarrow> nat \<Rightarrow> nat \<Rightarrow> nat \<Rightarrow> (nat, ('f, 'h, 'x) ledger_state) result" where
  "with_genesis_settings debug network_id params locked_pool reserve_pool treasury =
     (let s = \<lparr>ls_network_id = network_id, ls_parameters = params, ls_locked_pool = locked_pool, ls_bridge_receiving = [],
        ls_reserve_pool = reserve_pool, ls_block_reward_pool = 0, ls_unclaimed_block_rewards = [],
        ls_treasury = [(night_token, treasury)], ls_zswap = zs_new, ls_contract = [], ls_utxo = [],
        ls_replay_protection = rp_new, ls_dust = dust_state_default\<rparr>
      in and_then (check_night_balance_invariant debug s) (\<lambda>_. Ok s))"

definition ledger_new :: "bool \<Rightarrow> string \<Rightarrow> ('e, ('f, 'h, 'x) ledger_state) result" where
  "ledger_new debug network_id =
     (case with_genesis_settings debug network_id INITIAL_PARAMETERS 0 MAX_SUPPLY 0 of Ok s \<Rightarrow> Ok s | _ \<Rightarrow> Panic)"

definition ledger_index :: "('f, 'h, 'x) ledger_state \<Rightarrow> contract_address \<Rightarrow> ('f, 'h, 'x) contract_state option" where
  "ledger_index s address = map_of (ls_contract s) address"

text \<open>An absent contract is created from the default state, whose data is the null value.\<close>

definition update_index ::
  "('f, 'h) storage_env \<Rightarrow> ('f, 'h, 'x) ledger_state \<Rightarrow> contract_address \<Rightarrow> ('f, 'h) charged_state \<Rightarrow>
   (token_type \<times> nat) list \<Rightarrow> ('e, ('f, 'h, 'x) ledger_state) result" where
  "update_index S s address state balance =
     and_then (case ledger_index s address of
          Some c \<Rightarrow> Ok c
        | None \<Rightarrow> contract_state_new S Null [] authority_new) (\<lambda>c.
       Ok (s\<lparr>ls_contract := AList.update address (c\<lparr>ct_data := state, ct_balance := balance\<rparr>) (ls_contract s)\<rparr>))"

section \<open>System transactions\<close>

datatype 'f system_transaction_error =
    IllegalPayout "nat option" nat "nat option" nat
  | ReplayProtectionFailure transaction_application_error
  | IllegalReserveDistribution nat nat
  | SysGenerationInfoAlreadyPresent "'f dust_generation_info"
  | InvalidBasisPoints nat
  | SysInvariantViolation nat
  | TreasuryDisabled
  | SysMerkleTreeError invalid_update

definition sys_dust_error :: "'f dust_state_error \<Rightarrow> 'f system_transaction_error" where
  "sys_dust_error e =
     (case e of
        GenerationInfoAlreadyPresent info \<Rightarrow> SysGenerationInfoAlreadyPresent info
      | DustMerkleTreeError err \<Rightarrow> SysMerkleTreeError err)"

definition basis_points_of :: "nat \<Rightarrow> nat \<Rightarrow> ('f system_transaction_error, nat) result" where
  "basis_points_of points val =
     (if points > 10000 then Err (InvalidBasisPoints points)
      else Ok (val div 10000 * points + (val mod 10000 * points) div 10000))"

definition add_to_treasury :: "('f, 'h, 'x) ledger_state \<Rightarrow> nat \<Rightarrow> (token_type \<times> nat) list" where
  "add_to_treasury s amount =
     AList.update night_token (sat_add u128_max (amount_of (ls_treasury s) night_token) amount) (ls_treasury s)"

text \<open>What of a bridged amount is kept as a fee, and what remains.\<close>

definition bridge_split :: "ledger_parameters \<Rightarrow> nat \<Rightarrow> ('f system_transaction_error, nat \<times> nat) result" where
  "bridge_split p amount =
     (if amount < lp_bridge_min_amount p then Ok (amount, 0)
      else map_ok (\<lambda>fee. (fee, amount - fee)) (basis_points_of (lp_bridge_fee_basis_points p) amount))"

text \<open>One iteration of the loop over the outputs of \<^verbatim>\<open>DistributeNight\<close>.\<close>

definition distribute_output ::
  "('k, 'f, 'h, 'x, 'b) ledger_env \<Rightarrow> ledger_parameters \<Rightarrow> claim_kind \<Rightarrow> timestamp \<Rightarrow> ('f, 'h, 'x) ledger_state \<Rightarrow>
   output_instruction \<Rightarrow> ('f system_transaction_error, ('f, 'h, 'x) ledger_state) result" where
  "distribute_output E params kind tblock s out =
     and_then (map_err ReplayProtectionFailure
         (apply_member (ls_replay_protection s) (le_instruction_hash E out NIGHT) (ts_add tblock (lp_global_ttl params))
            tblock (lp_global_ttl params))) (\<lambda>rp.
       case kind of
         Reward \<Rightarrow>
           Ok (s\<lparr>ls_unclaimed_block_rewards := AList.update (oi_target_address out)
                  (sat_add u128_max (amount_of (ls_unclaimed_block_rewards s) (oi_target_address out)) (oi_amount out))
                  (ls_unclaimed_block_rewards s), ls_replay_protection := rp\<rparr>)
       | CardanoBridge \<Rightarrow>
           and_then (bridge_split (ls_parameters s) (oi_amount out))
             (\<lambda>(fees, post_fee_amount).
               Ok (s\<lparr>ls_treasury := add_to_treasury s fees,
                     ls_bridge_receiving := AList.update (oi_target_address out)
                       (sat_add u128_max (amount_of (ls_bridge_receiving s) (oi_target_address out)) post_fee_amount)
                       (ls_bridge_receiving s), ls_replay_protection := rp\<rparr>)))"

definition checked :: "('k, 'f, 'h, 'x, 'b) ledger_env \<Rightarrow> ('f, 'h, 'x) ledger_state \<Rightarrow>
    ('f system_transaction_error, ('f, 'h, 'x) ledger_state \<times> ('f, 'h, 'x) event list) result" where
  "checked E s = and_then (map_err SysInvariantViolation (check_night_balance_invariant (le_debug E) s)) (\<lambda>_. Ok (s, []))"

definition distribute_night ::
  "('k, 'f, 'h, 'x, 'b) ledger_env \<Rightarrow> claim_kind \<Rightarrow> output_instruction list \<Rightarrow> timestamp \<Rightarrow> ('f, 'h, 'x) ledger_state \<Rightarrow>
   ('f system_transaction_error, ('f, 'h, 'x) ledger_state \<times> ('f, 'h, 'x) event list) result" where
  "distribute_night E kind outs tblock s =
     (let total_sum = fold (\<lambda>out acc. case acc of Some a \<Rightarrow> checked_add u128_max a (oi_amount out) | None \<Rightarrow> None) outs (Some 0);
          totals = map_option (\<lambda>t. case kind of Reward \<Rightarrow> (t, 0) | CardanoBridge \<Rightarrow> (0, t)) total_sum;
          illegal = Err (IllegalPayout (map_option fst totals) (ls_block_reward_pool s) (map_option snd totals) (ls_locked_pool s))
      in case totals of
           None \<Rightarrow> illegal
         | Some (claimed, bridged) \<Rightarrow>
             if claimed \<le> ls_block_reward_pool s \<and> bridged \<le> ls_locked_pool s
             then and_then (try_fold (distribute_output E (ls_parameters s) kind tblock)
                    (s\<lparr>ls_block_reward_pool := ls_block_reward_pool s - claimed, ls_locked_pool := ls_locked_pool s - bridged\<rparr>) outs)
                  (checked E)
             else illegal)"

definition cnight_create ::
  "('k, 'f, 'h, 'x, 'b) ledger_env \<Rightarrow> timestamp \<Rightarrow> 'f dust_state \<Rightarrow> 'f cnight_event \<Rightarrow>
   ('f system_transaction_error, 'f dust_state \<times> 'f dust_event list) result" where
  "cnight_create E tblock d a =
     and_then (map_err sys_dust_error
         (fresh_dust_output (le_crypto E) (d, []) (cn_nonce a) 0 (cn_value a) (cn_owner a) (cn_time a) tblock)) (\<lambda>(d', evs).
       try_fold (\<lambda>(d, es) ev. map_ok (\<lambda>e. (d, es @ [e])) (force_event (le_crypto E) ev)) (d', []) evs)"

definition cnight_destroy ::
  "('k, 'f, 'h, 'x, 'b) ledger_env \<Rightarrow> timestamp \<Rightarrow> 'f dust_state \<Rightarrow> 'f cnight_event \<Rightarrow>
   ('f system_transaction_error, 'f dust_state \<times> 'f dust_event list) result" where
  "cnight_destroy E tblock d a =
     (let g = d_generation d; untracked = (if le_debug E then Panic else Ok (d, [])) in
      case night_indices g (cn_nonce a) of
        None \<Rightarrow> untracked
      | Some idx \<Rightarrow>
          (case mt_index (generating_tree g) idx of
             None \<Rightarrow> untracked
           | Some (_, info) \<Rightarrow>
               (let info' = info\<lparr>gi_dtime := cn_time a\<rparr>; H = tree_hashing (le_crypto E) in
                and_then (map_err SysMerkleTreeError
                    (try_update_hash (generating_tree g) idx (merkle_hash (le_crypto E) info') info')) (\<lambda>updated.
                  let tree = mt_rehash H updated in
                  (case insertion_evidence H tree idx of
                     Ok update \<Rightarrow> Ok (d\<lparr>d_generation := g\<lparr>generating_tree := tree\<rparr>\<rparr>, [DustGenerationDtimeUpdate update tblock])
                   | _ \<Rightarrow> Panic)))))"

definition cnight_step ::
  "('k, 'f, 'h, 'x, 'b) ledger_env \<Rightarrow> timestamp \<Rightarrow> 'f dust_state \<times> 'f dust_event list \<Rightarrow> 'f cnight_event \<Rightarrow>
   ('f system_transaction_error, 'f dust_state \<times> 'f dust_event list) result" where
  "cnight_step E tblock = (\<lambda>(d, es) a.
     map_ok (\<lambda>(d', es'). (d', es @ es'))
       (case cn_action a of CNightCreate \<Rightarrow> cnight_create E tblock d a | CNightDestroy \<Rightarrow> cnight_destroy E tblock d a))"

definition system_source :: "('k, 'f, 'h, 'x, 'b) ledger_env \<Rightarrow> 'f system_transaction \<Rightarrow> event_source" where
  "system_source E tx =
     \<lparr>es_transaction_hash = le_system_hash E tx, es_logical_segment = GUARANTEED_SEGMENT, es_physical_segment = GUARANTEED_SEGMENT\<rparr>"

definition apply_system_tx ::
  "('k, 'f, 'h, 'x, 'b) ledger_env \<Rightarrow> ('f, 'h, 'x) ledger_state \<Rightarrow> 'f system_transaction \<Rightarrow> timestamp \<Rightarrow>
   ('f system_transaction_error, ('f, 'h, 'x) ledger_state \<times> ('f, 'h, 'x) event list) result" where
  "apply_system_tx E s tx tblock =
     (case tx of
        OverwriteParameters p \<Rightarrow>
          if lp_bridge_fee_basis_points p > 10000 then Err (InvalidBasisPoints (lp_bridge_fee_basis_points p))
          else Ok (s\<lparr>ls_parameters := p\<rparr>, [(system_source E tx, ParamChange p)])
      | DistributeNight kind outs \<Rightarrow> distribute_night E kind outs tblock s
      | PayBlockRewardsToTreasury amount \<Rightarrow>
          if amount > ls_block_reward_pool s
          then Err (IllegalPayout (Some amount) (ls_block_reward_pool s) None (ls_locked_pool s))
          else checked E (s\<lparr>ls_treasury := add_to_treasury s amount, ls_block_reward_pool := ls_block_reward_pool s - amount\<rparr>)
      | UnlockToTreasury amount \<Rightarrow>
          if amount > ls_locked_pool s
          then Err (IllegalPayout None (ls_block_reward_pool s) (Some amount) (ls_locked_pool s))
          else checked E (s\<lparr>ls_treasury := add_to_treasury s amount, ls_locked_pool := ls_locked_pool s - amount\<rparr>)
      | PayFromTreasuryShielded _ _ _ \<Rightarrow> Err TreasuryDisabled
      | PayFromTreasuryUnshielded _ _ \<Rightarrow> Err TreasuryDisabled
      | CNightGeneratesDustUpdate actions \<Rightarrow>
          map_ok (\<lambda>(d, es). (s\<lparr>ls_dust := d\<rparr>, map (\<lambda>e. (system_source E tx, DustDetails e)) es))
            (try_fold (cnight_step E tblock) (ls_dust s, []) actions)
      | DistributeReserve amount \<Rightarrow>
          if amount > ls_reserve_pool s then Err (IllegalReserveDistribution amount (ls_reserve_pool s))
          else and_then (plus_u128 (le_debug E) (ls_block_reward_pool s) amount) (\<lambda>pool.
            checked E (s\<lparr>ls_reserve_pool := ls_reserve_pool s - amount, ls_block_reward_pool := pool\<rparr>))
      | UnlockToReserve amount \<Rightarrow>
          if amount > ls_locked_pool s
          then Err (IllegalPayout None (ls_block_reward_pool s) (Some amount) (ls_locked_pool s))
          else and_then (plus_u128 (le_debug E) (ls_reserve_pool s) amount) (\<lambda>pool.
            checked E (s\<lparr>ls_reserve_pool := pool, ls_locked_pool := ls_locked_pool s - amount\<rparr>)))"

end
