(* ===== verification/Ledger_Semantics.thy ===== *)
theory Ledger_Semantics
  imports Ledger_State
begin

text \<open>
  Applying transactions (\<^verbatim>\<open>ledger/src/semantics.rs\<close>): the sections of a standard transaction with
  their zswap offers, unshielded offers, contract actions and dust payments, claims of rewards, the
  application of whole transactions one by one and in batches, and the update at the end of a block.

  The events of a section are closures that are run once the section has succeeded; only the events
  of dust compute anything then, so a deferred event carries either its content or the snapshot its
  closure captured.
\<close>

section \<open>Contexts, results and deferred events\<close>

record ('f, 'h, 'x) transaction_context =
  tc_ref_state :: "('f, 'h, 'x) ledger_state"
  tc_block_context :: block_context
  tc_whitelist :: "contract_address set option"

fun whitelist_matches :: "contract_address set option \<Rightarrow> contract_address \<Rightarrow> bool" where
  "whitelist_matches (Some wl) addr = (addr \<in> wl)"
| "whitelist_matches None addr = True"

datatype ('f, 'h, 'x) deferred_details = Now "('f, 'h, 'x) event_details" | Later "'f deferred_event"

type_synonym ('f, 'h, 'x) deferred = "event_source \<times> ('f, 'h, 'x) deferred_details"

definition force ::
  "('k, 'f, 'a, 'b) crypto \<Rightarrow> ('f, 'h, 'x) deferred \<Rightarrow> ('e, ('f, 'h, 'x) event) result" where
  "force C = (\<lambda>(source, d).
     case d of Now details \<Rightarrow> Ok (source, details) | Later ev \<Rightarrow> map_ok (\<lambda>e. (source, DustDetails e)) (force_event C ev))"

definition force_all ::
  "('k, 'f, 'a, 'b) crypto \<Rightarrow> ('f, 'h, 'x) deferred list \<Rightarrow> ('e, ('f, 'h, 'x) event list) result" where
  "force_all C ds = try_fold (\<lambda>es d. map_ok (\<lambda>e. es @ [e]) (force C d)) [] ds"

datatype ('f, 'h, 'x) transaction_result =
    Success "('f, 'h, 'x) event list"
  | PartialSuccess "(nat \<times> 'f tx_invalid option) list" "('f, 'h, 'x) event list"
  | Failure "'f tx_invalid"

definition result_events :: "('f, 'h, 'x) transaction_result \<Rightarrow> ('f, 'h, 'x) event list" where
  "result_events r = (case r of Success es \<Rightarrow> es | PartialSuccess _ es \<Rightarrow> es | Failure _ \<Rightarrow> [])"

datatype erased_transaction_result =
    ErasedSuccess | ErasedPartialSuccess "(nat \<times> bool) list" | ErasedFailure

definition erase_result :: "('f, 'h, 'x) transaction_result \<Rightarrow> erased_transaction_result" where
  "erase_result r =
     (case r of
        Success _ \<Rightarrow> ErasedSuccess
      | PartialSuccess segs _ \<Rightarrow> ErasedPartialSuccess (map (\<lambda>(seg, e). (seg, e = None)) segs)
      | Failure _ \<Rightarrow> ErasedFailure)"

type_synonym ('f, 'h, 'x) section_state = "('f, 'h, 'x) ledger_state \<times> ('f, 'h, 'x) deferred list"

definition source_at :: "hash_output \<Rightarrow> nat \<Rightarrow> nat \<Rightarrow> event_source" where
  "source_at h logical physical = \<lparr>es_transaction_hash = h, es_logical_segment = logical, es_physical_segment = physical\<rparr>"

section \<open>Zswap offers\<close>

definition zswap_input_events :: "event_source \<Rightarrow> ('f, 'x) ledger_offer \<Rightarrow> ('f, 'h, 'x) deferred list" where
  "zswap_input_events source ofr =
     map (\<lambda>i. (source, Now (ZswapInputEvent (zi_nullifier i) (zi_contract_address i)))) (inputs ofr) @
     map (\<lambda>t. (source, Now (ZswapInputEvent (zt_nullifier t) (zt_contract_address t)))) (transients ofr)"

definition zswap_output_event ::
  "event_source \<Rightarrow> (hash_output \<rightharpoonup> nat) \<Rightarrow> hash_output \<times> contract_address option \<times> 'x option \<Rightarrow>
   ('e, ('f, 'h, 'x) deferred) result" where
  "zswap_output_event source com_indices = (\<lambda>(com, contract, ciphertext).
     map_ok (\<lambda>index. (source, Now (ZswapOutputEvent com
         (case ciphertext of Some c \<Rightarrow> CiphertextEvidence c | None \<Rightarrow> NoEvidence) contract index)))
       (expect (com_indices com)))"

definition zswap_output_events ::
  "event_source \<Rightarrow> (hash_output \<rightharpoonup> nat) \<Rightarrow> ('f, 'x) ledger_offer \<Rightarrow> ('e, ('f, 'h, 'x) deferred list) result" where
  "zswap_output_events source com_indices ofr =
     try_fold (\<lambda>es out. map_ok (\<lambda>e. es @ [e]) (zswap_output_event source com_indices out)) []
       (map (\<lambda>out. (zo_coin_com out, zo_contract_address out, zo_ciphertext out)) (outputs ofr) @
        map (\<lambda>t. (zt_coin_com t, zt_contract_address t, zt_ciphertext t)) (transients ofr))"

text \<open>The new indices of the commitments replace those of the caller.\<close>

definition apply_zswap ::
  "('k, 'f, 'h, 'x, 'b) ledger_env \<Rightarrow> ('f, 'h, 'x) section_state \<Rightarrow> ('f, 'x) ledger_offer \<Rightarrow> contract_address set option \<Rightarrow>
   event_source \<Rightarrow> ('f tx_invalid, ('f, 'h, 'x) section_state \<times> (hash_output \<rightharpoonup> nat)) result" where
  "apply_zswap E = (\<lambda>(s, evs) ofr whitelist source.
     and_then (map_err TxZswap (try_apply (tree_hashing (le_crypto E)) (ls_zswap s) ofr whitelist)) (\<lambda>(z, com_indices).
     and_then (zswap_output_events source com_indices ofr) (\<lambda>outs.
       Ok ((s\<lparr>ls_zswap := z\<rparr>, evs @ zswap_input_events source ofr @ outs), com_indices))))"

section \<open>Contract actions\<close>

definition credit_balance ::
  "(token_type \<times> nat) list \<Rightarrow> token_type \<times> nat \<Rightarrow> ('f tx_invalid, (token_type \<times> nat) list) result" where
  "credit_balance bal = (\<lambda>(tt, val).
     map_ok (\<lambda>v. AList.update tt v bal)
       (ok_or (checked_add u128_max (balance_of bal tt) val) (BalanceCheckOutOfBounds tt (balance_of bal tt) val Addition)))"

definition debit_balance ::
  "(token_type \<times> nat) list \<Rightarrow> token_type \<times> nat \<Rightarrow> ('f tx_invalid, (token_type \<times> nat) list) result" where
  "debit_balance bal = (\<lambda>(tt, val).
     map_ok (\<lambda>v. AList.update tt v bal)
       (ok_or (checked_sub (balance_of bal tt) val) (BalanceCheckOutOfBounds tt (balance_of bal tt) val Subtraction)))"

text \<open>The indices of the commitments of a call are those of the zswap offer of its section.\<close>

definition apply_call ::
  "('k, 'f, 'h, 'x, 'b) ledger_env \<Rightarrow> ledger_parameters \<Rightarrow> bool \<Rightarrow> ('f, 'h, 'x) transaction_context \<Rightarrow>
   ('k, 'f, 'h, 'x, 'b) ledger_intent \<Rightarrow> (hash_output \<times> nat) list \<Rightarrow> event_source \<Rightarrow> ('f, 'h, 'x) section_state \<Rightarrow>
   'f contract_call \<Rightarrow> ('f tx_invalid, ('f, 'h, 'x) section_state) result" where
  "apply_call E params guaranteed ctx parent com_indices source = (\<lambda>(s, evs) call.
     if \<not> whitelist_matches (tc_whitelist ctx) (cl_address call) then Ok (s, evs)
     else
       case ledger_index s (cl_address call) of
         None \<Rightarrow> Err (ContractNotPresent (cl_address call))
       | Some cstate \<Rightarrow>
           let qc = (query_context_new (ct_data cstate) (cl_address call))\<lparr>qc_call_context :=
                 call_context_for (key_address (le_crypto E)) (le_commit E) call (tc_block_context ctx) parent cstate com_indices\<rparr>
           in
           (case (if guaranteed then cl_guaranteed_transcript call else cl_fallible_transcript call) of
              None \<Rightarrow> Ok (s, evs)
            | Some tr \<Rightarrow>
                and_then (map_err TxTranscript (run_transcript (le_storage E) (le_vm E) (le_fr E) qc tr
                    (runtime_cost_model (lp_cost_model params)))) (\<lambda>results.
                if \<not> effects_eq (qc_effects (qr_context results)) (tr_effects tr)
                then Err (EffectsMismatch (tr_effects tr) (qc_effects (qr_context results)))
                else
                  and_then (try_fold credit_balance (ct_balance cstate) (unshielded_inputs (tr_effects tr))) (\<lambda>bal1.
                  and_then (try_fold debit_balance bal1 (unshielded_outputs (tr_effects tr))) (\<lambda>bal2.
                  and_then (update_index (le_storage E) s (cl_address call) (qc_state (qr_context results)) bal2) (\<lambda>s'.
                    Ok (s', evs @ map (\<lambda>item. (source, Now (ContractLogEvent (cl_address call) (cl_entry_point call) item)))
                      (qr_events results))))))))"

definition apply_deploy ::
  "('k, 'f, 'h, 'x, 'b) ledger_env \<Rightarrow> ledger_parameters \<Rightarrow> bool \<Rightarrow> ('f, 'h, 'x) transaction_context \<Rightarrow> event_source \<Rightarrow>
   ('f, 'h, 'x) section_state \<Rightarrow> ('f, 'h, 'x) contract_deploy \<Rightarrow> ('f tx_invalid, ('f, 'h, 'x) section_state) result" where
  "apply_deploy E params guaranteed ctx source = (\<lambda>(s, evs) deploy.
     let addr = le_deploy_address E deploy; limit = max_contract_metadata_size (lp_limits params) in
     if \<not> whitelist_matches (tc_whitelist ctx) addr \<or> guaranteed then Ok (s, evs)
     else if ledger_index s addr \<noteq> None then Err (ContractAlreadyDeployed addr)
     else
       and_then (map_err (metadata_error addr limit)
           (check_entry_point_metadata_sizes (le_sizes E) (dp_initial_state deploy) limit)) (\<lambda>_.
         Ok (s\<lparr>ls_contract := AList.update addr (dp_initial_state deploy) (ls_contract s)\<rparr>,
             evs @ [(source, Now (ContractDeployEvent addr (dp_initial_state deploy)))])))"

definition apply_maintain ::
  "('k, 'f, 'h, 'x, 'b) ledger_env \<Rightarrow> ledger_parameters \<Rightarrow> bool \<Rightarrow> ('f, 'h, 'x) transaction_context \<Rightarrow>
   ('f, 'h, 'x) section_state \<Rightarrow> 'x maintenance_update \<Rightarrow> ('f tx_invalid, ('f, 'h, 'x) section_state) result" where
  "apply_maintain E params guaranteed ctx = (\<lambda>(s, evs) upd.
     if \<not> whitelist_matches (tc_whitelist ctx) (mu_address upd) \<or> guaranteed then Ok (s, evs)
     else
       case ledger_index s (mu_address upd) of
         None \<Rightarrow> Err (ContractNotPresent (mu_address upd))
       | Some cstate \<Rightarrow>
           map_ok (\<lambda>c. (s\<lparr>ls_contract := AList.update (mu_address upd) c (ls_contract s)\<rparr>, evs))
             (apply_maintenance (le_sizes E) (max_contract_metadata_size (lp_limits params)) cstate upd))"

definition apply_action ::
  "('k, 'f, 'h, 'x, 'b) ledger_env \<Rightarrow> ledger_parameters \<Rightarrow> bool \<Rightarrow> ('f, 'h, 'x) transaction_context \<Rightarrow>
   ('k, 'f, 'h, 'x, 'b) ledger_intent \<Rightarrow> (hash_output \<times> nat) list \<Rightarrow> event_source \<Rightarrow> ('f, 'h, 'x) section_state \<Rightarrow>
   ('f, 'h, 'x) contract_action \<Rightarrow> ('f tx_invalid, ('f, 'h, 'x) section_state) result" where
  "apply_action E params guaranteed ctx parent com_indices source st a =
     (case a of
        CallAction call \<Rightarrow> apply_call E params guaranteed ctx parent com_indices source st call
      | DeployAction deploy \<Rightarrow> apply_deploy E params guaranteed ctx source st deploy
      | MaintainAction upd \<Rightarrow> apply_maintain E params guaranteed ctx st upd)"

definition apply_actions ::
  "('k, 'f, 'h, 'x, 'b) ledger_env \<Rightarrow> ('f, 'h, 'x) section_state \<Rightarrow> ('f, 'h, 'x) contract_action list \<Rightarrow> bool \<Rightarrow>
   ('f, 'h, 'x) transaction_context \<Rightarrow> ('k, 'f, 'h, 'x, 'b) ledger_intent \<Rightarrow> (hash_output \<times> nat) list \<Rightarrow> event_source \<Rightarrow>
   ('f tx_invalid, ('f, 'h, 'x) section_state) result" where
  "apply_actions E st calls guaranteed ctx parent com_indices source =
     try_fold (apply_action E (ls_parameters (fst st)) guaranteed ctx parent com_indices source) st calls"

section \<open>Sections\<close>

abbreviation tc_tblock :: "('f, 'h, 'x) transaction_context \<Rightarrow> timestamp" where
  "tc_tblock ctx \<equiv> bc_tblock (tc_block_context ctx)"

text \<open>A step of the dust state inside a section; its events are deferred.\<close>

definition with_dust ::
  "event_source \<Rightarrow> ('f, 'h, 'x) section_state \<Rightarrow> ('f dust_error, 'f dust_step) result \<Rightarrow>
   ('f tx_invalid, ('f, 'h, 'x) section_state) result" where
  "with_dust source = (\<lambda>(s, evs) r.
     map_ok (\<lambda>(d, es). (s\<lparr>ls_dust := d\<rparr>, evs @ map (\<lambda>e. (source, Later e)) es)) (map_err TxDust r))"

definition apply_unshielded ::
  "('k, 'f, 'h, 'x, 'b) ledger_env \<Rightarrow> ('f, 'h, 'x) transaction_context \<Rightarrow> nat \<Rightarrow> event_source \<Rightarrow>
   ('k, 'f, 'h, 'x, 'b) ledger_intent \<Rightarrow> ('f, 'h, 'x) section_state \<Rightarrow> ('k, unit) unshielded_offer option \<Rightarrow>
   ('f tx_invalid, ('f, 'h, 'x) section_state) result" where
  "apply_unshielded E ctx segment source parent = (\<lambda>(s, evs) ofr.
     case ofr of
       None \<Rightarrow> Ok (s, evs)
     | Some off \<Rightarrow>
         and_then (map_err TxUtxo (utxo_apply_offer (key_address (le_crypto E)) (ls_utxo s) off
             (intent_hash (le_crypto E) parent segment) (tc_tblock ctx))) (\<lambda>us.
           with_dust source (s\<lparr>ls_utxo := us\<rparr>, evs)
             (dust_apply_offer (le_crypto E) (ls_dust s, []) off parent segment (tc_tblock ctx))))"

definition index_list :: "(hash_output \<rightharpoonup> nat) \<Rightarrow> ('f, 'x) ledger_offer \<Rightarrow> (hash_output \<times> nat) list" where
  "index_list com_indices ofr =
     List.map_filter (\<lambda>com. map_option (Pair com) (com_indices com)) (map fst (offer_commitments ofr))"

definition apply_coins ::
  "('k, 'f, 'h, 'x, 'b) ledger_env \<Rightarrow> ('f, 'h, 'x) transaction_context \<Rightarrow> event_source \<Rightarrow> ('f, 'h, 'x) section_state \<Rightarrow>
   ('f, 'x) ledger_offer option \<Rightarrow> ('f tx_invalid, ('f, 'h, 'x) section_state \<times> (hash_output \<times> nat) list) result" where
  "apply_coins E ctx source st ofr =
     (case ofr of
        None \<Rightarrow> Ok (st, [])
      | Some off \<Rightarrow> map_ok (\<lambda>(st', ci). (st', index_list ci off)) (apply_zswap E st off (tc_whitelist ctx) source))"

definition fallible_offers_apply ::
  "('k, 'f, 'h, 'x, 'b) ledger_env \<Rightarrow> ('f, 'h, 'x) transaction_context \<Rightarrow>
   (hash_output, hash_output, 'f, contract_address) z_state \<Rightarrow> (nat \<times> ('f, 'x) ledger_offer) list \<Rightarrow>
   ('f tx_invalid, (hash_output, hash_output, 'f, contract_address) z_state) result" where
  "fallible_offers_apply E ctx z offers =
     map_err TxZswap (try_fold (\<lambda>st (_, ofr). map_ok fst (try_apply (tree_hashing (le_crypto E)) st ofr (tc_whitelist ctx)))
       z (sorted_iter offers))"

definition guaranteed_intent ::
  "('k, 'f, 'h, 'x, 'b) ledger_env \<Rightarrow> ('f, 'h, 'x) transaction_context \<Rightarrow> hash_output \<Rightarrow> (hash_output \<times> nat) list \<Rightarrow>
   ('f, 'h, 'x) section_state \<Rightarrow> nat \<times> ('k, 'f, 'h, 'x, 'b) ledger_intent \<Rightarrow> ('f tx_invalid, ('f, 'h, 'x) section_state) result" where
  "guaranteed_intent E ctx h com_indices st = (\<lambda>(phys_seg, i).
     let source = source_at h GUARANTEED_SEGMENT phys_seg in
     and_then (apply_unshielded E ctx GUARANTEED_SEGMENT source (erased i) st (guaranteed_unshielded_offer i)) (\<lambda>st'.
       apply_actions E st' (intent_actions i) True ctx (erased i) com_indices source))"

text \<open>The fees that remain to be paid after the spends and the registrations.\<close>

definition pay_spend ::
  "('k, 'f, 'h, 'x, 'b) ledger_env \<Rightarrow> ('f, 'h, 'x) transaction_context \<Rightarrow> hash_output \<Rightarrow> ('f, 'h, 'x) section_state \<times> nat \<Rightarrow>
   nat \<times> timestamp \<times> ('f, unit) dust_spend \<Rightarrow> ('f tx_invalid, ('f, 'h, 'x) section_state \<times> nat) result" where
  "pay_spend E ctx h = (\<lambda>(st, fees_remaining) (phys_seg, time, spend).
     map_ok (\<lambda>st'. (st', fees_remaining - ds_v_fee spend))
       (with_dust (source_at h GUARANTEED_SEGMENT phys_seg) st
         (apply_spend (le_crypto E) (ls_dust (fst st), []) spend time (tc_tblock ctx))))"

definition pay_registration ::
  "('k, 'f, 'h, 'x, 'b) ledger_env \<Rightarrow> ('f, 'h, 'x) transaction_context \<Rightarrow> hash_output \<Rightarrow> ('f, 'h, 'x) section_state \<times> nat \<Rightarrow>
   nat \<times> ('k, 'f, 'h, 'x, 'b) ledger_intent \<times> timestamp \<times> ('k, 'f, unit) dust_registration \<Rightarrow>
   ('f tx_invalid, ('f, 'h, 'x) section_state \<times> nat) result" where
  "pay_registration E ctx h = (\<lambda>(st, fees_remaining) (phys_seg, i, ctime, reg).
     and_then (map_err TxDust (apply_registration (le_crypto E) (ls_dust (fst st), []) (ls_utxo (tc_ref_state ctx)) fees_remaining
         (erased i) reg (lp_dust (ls_parameters (fst st))) ctime (tc_tblock ctx))) (\<lambda>(step, remaining).
       map_ok (\<lambda>st'. (st', remaining)) (with_dust (source_at h GUARANTEED_SEGMENT phys_seg) st (Ok step))))"

definition pay_fees ::
  "('k, 'f, 'h, 'x, 'b) ledger_env \<Rightarrow> ('f, 'h, 'x) transaction_context \<Rightarrow> hash_output \<Rightarrow> nat \<Rightarrow>
   (nat \<times> ('k, 'f, 'h, 'x, 'b) ledger_intent) list \<Rightarrow> ('f, 'h, 'x) section_state \<Rightarrow>
   ('f tx_invalid, ('f, 'h, 'x) section_state \<times> nat) result" where
  "pay_fees E ctx h tx_fees intents st =
     (let spends = concat (map (\<lambda>(seg, i). case dust_actions i of
            None \<Rightarrow> [] | Some da \<Rightarrow> map (\<lambda>s. (seg, da_ctime da, s)) (da_spends da)) intents);
          registrations = concat (map (\<lambda>(seg, i). case dust_actions i of
            None \<Rightarrow> [] | Some da \<Rightarrow> map (\<lambda>r. (seg, i, da_ctime da, r)) (da_registrations da)) intents)
      in and_then (try_fold (pay_spend E ctx h) (st, tx_fees) spends)
           (\<lambda>acc. try_fold (pay_registration E ctx h) acc registrations))"

definition guaranteed_section ::
  "('k, 'f, 'h, 'x, 'b) ledger_env \<Rightarrow> ('f, 'h, 'x) transaction_context \<Rightarrow> hash_output \<Rightarrow> nat \<Rightarrow>
   ('k, 'f, 'h, 'x, unit, unit, 'b) standard_transaction \<Rightarrow> ('f, 'h, 'x) ledger_state \<Rightarrow>
   ('f tx_invalid, ('f, 'h, 'x) section_state) result" where
  "guaranteed_section E ctx h tx_fees tx s =
     (let intents = sorted_iter (st_intents tx) in
      and_then (map_err ReplayProtectionViolation
          (rp_apply_tx (\<lambda>i. intent_hash (le_crypto E) (erased i) 0) intent_ttl (ls_replay_protection s) (map snd intents)
             (tc_tblock ctx) (lp_global_ttl (ls_parameters s)))) (\<lambda>rp.
      and_then (apply_coins E ctx (source_at h GUARANTEED_SEGMENT GUARANTEED_SEGMENT) (s\<lparr>ls_replay_protection := rp\<rparr>, [])
          (st_guaranteed_coins tx)) (\<lambda>(st1, com_indices).
      and_then (fallible_offers_apply E ctx (ls_zswap (fst st1)) (st_fallible_coins tx)) (\<lambda>_.
      and_then (try_fold (guaranteed_intent E ctx h com_indices) st1 intents) (\<lambda>st2.
        map_ok fst (pay_fees E ctx h tx_fees intents st2))))))"

definition fallible_section ::
  "('k, 'f, 'h, 'x, 'b) ledger_env \<Rightarrow> ('f, 'h, 'x) transaction_context \<Rightarrow> hash_output \<Rightarrow>
   ('k, 'f, 'h, 'x, unit, unit, 'b) standard_transaction \<Rightarrow> nat \<Rightarrow> ('f, 'h, 'x) ledger_state \<Rightarrow>
   ('f tx_invalid, ('f, 'h, 'x) section_state) result" where
  "fallible_section E ctx h tx segment s =
     and_then (apply_coins E ctx (source_at h segment segment) (s, []) (map_of (st_fallible_coins tx) segment)) (\<lambda>(st1, com_indices).
       case map_of (st_intents tx) segment of
         None \<Rightarrow> Ok st1
       | Some i \<Rightarrow>
           (let source = source_at h GUARANTEED_SEGMENT segment in
            and_then (apply_unshielded E ctx segment source (erased i) st1 (fallible_unshielded_offer i)) (\<lambda>st2.
              apply_actions E st2 (intent_actions i) False ctx (erased i) com_indices source)))"

definition apply_section ::
  "('k, 'f, 'h, 'x, 'b) ledger_env \<Rightarrow> ('f, 'h, 'x) transaction_context \<Rightarrow> hash_output \<Rightarrow> nat \<Rightarrow>
   ('k, 'f, 'h, 'x, unit, unit, 'b) standard_transaction \<Rightarrow> nat \<Rightarrow> ('f, 'h, 'x) ledger_state \<Rightarrow>
   ('f tx_invalid, ('f, 'h, 'x) section_state) result" where
  "apply_section E ctx h tx_fees tx segment s =
     and_then (if segment = GUARANTEED_SEGMENT then guaranteed_section E ctx h tx_fees tx s
               else fallible_section E ctx h tx segment s) (\<lambda>st.
     and_then (map_err InvariantViolation (check_night_balance_invariant (le_debug E) (fst st))) (\<lambda>_. Ok st))"

section \<open>Claims\<close>

definition take_claim :: "(user_address \<times> nat) list \<Rightarrow> user_address \<Rightarrow> nat \<Rightarrow> (user_address \<times> nat) list" where
  "take_claim m address remaining = (if remaining = 0 then AList.delete address m else AList.update address remaining m)"

definition claim_hash :: "('k, 'f, 'h, 'x, 'b) ledger_env \<Rightarrow> ('k, 's) claim_rewards \<Rightarrow> intent_hash" where
  "claim_hash E tx =
     le_instruction_hash E \<lparr>oi_amount = cr_value tx, oi_target_address = key_address (le_crypto E) (cr_owner tx),
       oi_nonce = cr_nonce tx\<rparr> NIGHT"

definition claim_utxo :: "('k, 'f, 'h, 'x, 'b) ledger_env \<Rightarrow> ('k, 's) claim_rewards \<Rightarrow> utxo" where
  "claim_utxo E tx =
     \<lparr>u_value = cr_value tx, u_owner = key_address (le_crypto E) (cr_owner tx), u_type = NIGHT,
      u_intent_hash = claim_hash E tx, u_output_no = 0\<rparr>"

definition claim_dust ::
  "('k, 'f, 'h, 'x, 'b) ledger_env \<Rightarrow> timestamp \<Rightarrow> event_source \<Rightarrow> ('k, 's) claim_rewards \<Rightarrow> ('f, 'h, 'x) ledger_state \<Rightarrow>
   ('f tx_invalid, ('f, 'h, 'x) ledger_state \<times> ('f, 'h, 'x) event list) result" where
  "claim_dust E tblock source tx s =
     (case address_delegation (d_generation (ls_dust s)) (key_address (le_crypto E) (cr_owner tx)) of
        None \<Rightarrow> Ok (s, [])
      | Some dust_addr \<Rightarrow>
          and_then (with_dust source (s, []) (map_err DustStateError (fresh_dust_output (le_crypto E) (ls_dust s, [])
              (initial_nonce (le_crypto E) 0 (claim_hash E tx)) 0 (cr_value tx) dust_addr tblock tblock))) (\<lambda>(s', ds).
            map_ok (Pair s') (force_all (le_crypto E) ds)))"

definition claim_pool :: "('f, 'h, 'x) ledger_state \<Rightarrow> claim_kind \<Rightarrow> (user_address \<times> nat) list" where
  "claim_pool s kind = (case kind of CardanoBridge \<Rightarrow> ls_bridge_receiving s | Reward \<Rightarrow> ls_unclaimed_block_rewards s)"

text \<open>The state once the claim is taken from its pool and paid out.\<close>

definition claim_taken ::
  "('k, 'f, 'h, 'x, 'b) ledger_env \<Rightarrow> ('f, 'h, 'x) ledger_state \<Rightarrow> ('k, 's) claim_rewards \<Rightarrow> timestamp \<Rightarrow>
   hash_output replay_protection_state \<Rightarrow> ('f, 'h, 'x) ledger_state" where
  "claim_taken E s tx tblock rp =
     (let address = key_address (le_crypto E) (cr_owner tx); pool = claim_pool s (cr_kind tx);
          pool' = take_claim pool address (amount_of pool address - cr_value tx);
          s1 = s\<lparr>ls_utxo := us_insert (ls_utxo s) (claim_utxo E tx) \<lparr>um_ctime = tblock\<rparr>, ls_replay_protection := rp\<rparr>
      in case cr_kind tx of
           CardanoBridge \<Rightarrow> s1\<lparr>ls_bridge_receiving := pool'\<rparr>
         | Reward \<Rightarrow> s1\<lparr>ls_unclaimed_block_rewards := pool'\<rparr>)"

text \<open>A failure keeps the old state.\<close>

definition claim_unshielded ::
  "('k, 'f, 'h, 'x, 'b) ledger_env \<Rightarrow> ('f, 'h, 'x) ledger_state \<Rightarrow> ('k, 's) claim_rewards \<Rightarrow> block_context \<Rightarrow> event_source \<Rightarrow>
   ('f tx_invalid, ('f, 'h, 'x) ledger_state \<times> ('f, 'h, 'x) event list) result" where
  "claim_unshielded E s tx ctx source =
     (let address = key_address (le_crypto E) (cr_owner tx);
          claimable = amount_of (claim_pool s (cr_kind tx)) address;
          minimum = min_claimable_rewards (le_claim_size E) (ls_parameters s);
          ttl = lp_global_ttl (ls_parameters s)
      in if cr_value tx > claimable then Err (InsufficientClaimable (cr_value tx) claimable address (cr_kind tx))
         else if cr_kind tx = Reward \<and> cr_value tx < minimum then Err (RewardTooSmall (cr_value tx) minimum)
         else
           and_then (map_err ReplayProtectionViolation (apply_member (ls_replay_protection s) (claim_hash E tx)
               (ts_add (bc_tblock ctx) ttl) (bc_tblock ctx) ttl)) (\<lambda>rp.
           and_then (claim_dust E (bc_tblock ctx) source tx (claim_taken E s tx (bc_tblock ctx) rp)) (\<lambda>(s3, events).
           and_then (map_err InvariantViolation (check_night_balance_invariant (le_debug E) s3)) (\<lambda>_.
             Ok (s3, events)))))"

section \<open>Transactions\<close>

record ('k, 'f, 'h, 'x, 'b) guaranteed_apply_result =
  ga_state :: "('f, 'h, 'x) ledger_state"
  ga_tx :: "('k, 'f, 'h, 'x, 'b) verified_transaction"
  ga_deferred_events :: "('f, 'h, 'x) deferred list"

definition apply_guaranteed_only ::
  "('k, 'f, 'h, 'x, 'b) ledger_env \<Rightarrow> ('f, 'h, 'x) ledger_state \<Rightarrow> ('k, 'f, 'h, 'x, 'b) verified_transaction \<Rightarrow>
   ('f, 'h, 'x) transaction_context \<Rightarrow> ('f tx_invalid, ('k, 'f, 'h, 'x, 'b) guaranteed_apply_result) result" where
  "apply_guaranteed_only E s tx ctx =
     (case vt_inner tx of
        Standard stx \<Rightarrow>
          map_ok (\<lambda>(s', ds). \<lparr>ga_state = s', ga_tx = tx, ga_deferred_events = ds\<rparr>)
            (apply_section E ctx (vt_hash tx) (vt_fees tx) stx GUARANTEED_SEGMENT s)
      | ClaimRewards rewards \<Rightarrow>
          map_ok (\<lambda>(s', es). \<lparr>ga_state = s', ga_tx = tx, ga_deferred_events = map (\<lambda>(src, e). (src, Now e)) es\<rparr>)
            (claim_unshielded E s rewards (tc_block_context ctx) (source_at (vt_hash tx) GUARANTEED_SEGMENT GUARANTEED_SEGMENT)))"

text \<open>From here on only panics are errors of the model. The loop over the fallible segments: the state, the results so far and the events.\<close>

definition fallible_step ::
  "('k, 'f, 'h, 'x, 'b) ledger_env \<Rightarrow> ('f, 'h, 'x) transaction_context \<Rightarrow> hash_output \<Rightarrow> nat \<Rightarrow>
   ('k, 'f, 'h, 'x, unit, unit, 'b) standard_transaction \<Rightarrow>
   ('f, 'h, 'x) ledger_state \<times> (nat \<times> 'f tx_invalid option) list \<times> ('f, 'h, 'x) event list \<Rightarrow> nat \<Rightarrow>
   (unit, ('f, 'h, 'x) ledger_state \<times> (nat \<times> 'f tx_invalid option) list \<times> ('f, 'h, 'x) event list) result" where
  "fallible_step E ctx h tx_fees stx = (\<lambda>(s, results, events) segment.
     case apply_section E ctx h tx_fees stx segment s of
       Ok (s', ds) \<Rightarrow> map_ok (\<lambda>es. (s', results @ [(segment, None)], events @ es)) (force_all (le_crypto E) ds)
     | Err e \<Rightarrow> Ok (s, results @ [(segment, Some e)], events)
     | Panic \<Rightarrow> Panic)"

definition apply_fallible ::
  "('k, 'f, 'h, 'x, 'b) ledger_env \<Rightarrow> ('k, 'f, 'h, 'x, 'b) guaranteed_apply_result \<Rightarrow> ('f, 'h, 'x) transaction_context \<Rightarrow>
   (unit, ('f, 'h, 'x) ledger_state \<times> ('f, 'h, 'x) transaction_result) result" where
  "apply_fallible E ga ctx =
     and_then (force_all (le_crypto E) (ga_deferred_events ga)) (\<lambda>events.
       case vt_inner (ga_tx ga) of
         ClaimRewards _ \<Rightarrow> Ok (ga_state ga, Success events)
       | Standard stx \<Rightarrow>
           map_ok (\<lambda>(s, results, events'). (s,
               if list_all (\<lambda>(_, r). r = None) results then Success events' else PartialSuccess results events'))
             (try_fold (fallible_step E ctx (vt_hash (ga_tx ga)) (vt_fees (ga_tx ga)) stx)
               (ga_state ga, [(GUARANTEED_SEGMENT, None)], events) (fallible_segments stx)))"

text \<open>An error of the guaranteed part is a result of \<^verbatim>\<open>apply\<close>, not an error.\<close>

definition ledger_apply ::
  "('k, 'f, 'h, 'x, 'b) ledger_env \<Rightarrow> ('f, 'h, 'x) ledger_state \<Rightarrow> ('k, 'f, 'h, 'x, 'b) verified_transaction \<Rightarrow>
   ('f, 'h, 'x) transaction_context \<Rightarrow> (unit, ('f, 'h, 'x) ledger_state \<times> ('f, 'h, 'x) transaction_result) result" where
  "ledger_apply E s tx ctx =
     (case apply_guaranteed_only E s tx ctx of
        Ok ga \<Rightarrow> apply_fallible E ga ctx
      | Err e \<Rightarrow> Ok (s, Failure e)
      | Panic \<Rightarrow> Panic)"

definition batch_apply_independant ::
  "('k, 'f, 'h, 'x, 'b) ledger_env \<Rightarrow> ('f, 'h, 'x) ledger_state \<Rightarrow> ('k, 'f, 'h, 'x, 'b) verified_transaction list \<Rightarrow>
   ('f, 'h, 'x) transaction_context \<Rightarrow> (unit, ('f, 'h, 'x) transaction_result list) result" where
  "batch_apply_independant E s txs ctx =
     try_fold (\<lambda>res tx. map_ok (\<lambda>(_, r). res @ [r]) (ledger_apply E s tx ctx)) [] txs"

definition all_or_nothing_step ::
  "('k, 'f, 'h, 'x, 'b) ledger_env \<Rightarrow> ('f, 'h, 'x) transaction_context \<Rightarrow>
   ('f, 'h, 'x) ledger_state \<times> ('f, 'h, 'x) transaction_result list \<Rightarrow> ('k, 'f, 'h, 'x, 'b) verified_transaction \<Rightarrow>
   ('f tx_invalid, ('f, 'h, 'x) ledger_state \<times> ('f, 'h, 'x) transaction_result list) result" where
  "all_or_nothing_step E ctx = (\<lambda>(s, res) tx.
     case ledger_apply E s tx ctx of
       Ok (s2, r) \<Rightarrow> (case r of Failure e \<Rightarrow> Err e | _ \<Rightarrow> Ok (s2, res @ [r]))
     | _ \<Rightarrow> Panic)"

definition batch_apply_all_or_nothing ::
  "('k, 'f, 'h, 'x, 'b) ledger_env \<Rightarrow> ('f, 'h, 'x) ledger_state \<Rightarrow> ('k, 'f, 'h, 'x, 'b) verified_transaction list \<Rightarrow>
   ('f, 'h, 'x) transaction_context \<Rightarrow>
   ('f tx_invalid, ('f, 'h, 'x) ledger_state \<times> ('f, 'h, 'x) transaction_result list) result" where
  "batch_apply_all_or_nothing E s txs ctx = try_fold (all_or_nothing_step E ctx) (s, []) txs"

fun until_first_failure ::
  "('k, 'f, 'h, 'x, 'b) ledger_env \<Rightarrow> ('f, 'h, 'x) transaction_context \<Rightarrow> ('f, 'h, 'x) ledger_state \<Rightarrow>
   ('f, 'h, 'x) transaction_result list \<Rightarrow> ('k, 'f, 'h, 'x, 'b) verified_transaction list \<Rightarrow>
   (('f, 'h, 'x) ledger_state \<times> ('f, 'h, 'x) transaction_result list \<times> 'f tx_invalid \<times>
      ('k, 'f, 'h, 'x, 'b) verified_transaction list,
    ('f, 'h, 'x) ledger_state \<times> ('f, 'h, 'x) transaction_result list) result" where
  "until_first_failure E ctx s res [] = Ok (s, res)"
| "until_first_failure E ctx s res (tx # txs) =
     (case ledger_apply E s tx ctx of
        Ok (s2, r) \<Rightarrow>
          (case r of
             Failure e \<Rightarrow> Err (s, res, e, tx # txs)
           | _ \<Rightarrow> until_first_failure E ctx s2 (res @ [r]) txs)
      | _ \<Rightarrow> Panic)"

definition batch_apply_until_first_failure ::
  "('k, 'f, 'h, 'x, 'b) ledger_env \<Rightarrow> ('f, 'h, 'x) ledger_state \<Rightarrow> ('k, 'f, 'h, 'x, 'b) verified_transaction list \<Rightarrow>
   ('f, 'h, 'x) transaction_context \<Rightarrow>
   (('f, 'h, 'x) ledger_state \<times> ('f, 'h, 'x) transaction_result list \<times> 'f tx_invalid \<times>
      ('k, 'f, 'h, 'x, 'b) verified_transaction list,
    ('f, 'h, 'x) ledger_state \<times> ('f, 'h, 'x) transaction_result list) result" where
  "batch_apply_until_first_failure E s txs ctx = until_first_failure E ctx s [] txs"

section \<open>The end of a block\<close>

datatype block_limit_exceeded = BlockLimitExceededAtEnd

definition prevalidate_post_block_update ::
  "normalized_cost \<Rightarrow> fixed_point \<Rightarrow> (block_limit_exceeded, unit) result" where
  "prevalidate_post_block_update detailed overall =
     (if list_ex (\<lambda>v. v < fp_ZERO \<or> v > fp_ONE) [nc_read_time detailed, nc_compute_time detailed, nc_block_usage detailed,
           nc_bytes_written detailed, nc_bytes_churned detailed, overall]
      then Err BlockLimitExceededAtEnd else Ok ())"

definition apply_post_block_update ::
  "('k, 'f, 'h, 'x, 'b) ledger_env \<Rightarrow> ('f, 'h, 'x) ledger_state \<Rightarrow> timestamp \<Rightarrow> normalized_cost \<Rightarrow> fixed_point \<Rightarrow>
   ('f, 'h, 'x) ledger_state" where
  "apply_post_block_update E s tblock detailed overall =
     (let p = ls_parameters s;
          updated = update_from_fullness (lp_fee_prices p) detailed overall (lp_cost_dimension_min_ratio p)
            (lp_price_adjustment_a_parameter p);
          prices = (if overall_price updated < lp_min_block_price p then updated\<lparr>overall_price := lp_min_block_price p\<rparr> else updated)
      in s\<lparr>ls_parameters := p\<lparr>lp_fee_prices := prices\<rparr>,
           ls_replay_protection := rp_post_block_update (ls_replay_protection s) tblock,
           ls_zswap := zs_post_block_update (tree_hashing (le_crypto E)) (ls_zswap s) tblock (lp_global_ttl p),
           ls_dust := dust_post_block_update (le_crypto E) (ls_dust s) tblock (lp_global_ttl p)\<rparr>)"

definition post_block_update ::
  "('k, 'f, 'h, 'x, 'b) ledger_env \<Rightarrow> ('f, 'h, 'x) ledger_state \<Rightarrow> timestamp \<Rightarrow> normalized_cost \<Rightarrow> fixed_point \<Rightarrow>
   (block_limit_exceeded, ('f, 'h, 'x) ledger_state) result" where
  "post_block_update E s tblock detailed overall =
     and_then (prevalidate_post_block_update detailed overall) (\<lambda>_. Ok (apply_post_block_update E s tblock detailed overall))"

end
