(* ===== verification/Ledger_Night.thy ===== *)
theory Ledger_Night
  imports Ledger_Semantics Dust_Props Query_Safety
begin

text \<open>
  The supply of Night. The exact total over all the places that hold Night, of which the balance
  check of the ledger computes a saturating and possibly wrapping sum; what system transactions,
  claims and whole transactions do to it, and histories of the ledger.
\<close>

section \<open>The exact total\<close>

abbreviation utxo_tally :: "utxo_state \<Rightarrow> nat" where
  "utxo_tally us \<equiv> tally (\<lambda>p. utxo_night (fst p)) us"

definition night_total :: "('f, 'h, 'x) ledger_state \<Rightarrow> nat" where
  "night_total s =
     utxo_tally (ls_utxo s) + ls_locked_pool s + ls_reserve_pool s + ls_block_reward_pool s +
     amount_of (ls_treasury s) night_token + tally snd (ls_unclaimed_block_rewards s) +
     tally snd (ls_bridge_receiving s) + tally (\<lambda>p. contract_night (snd p)) (ls_contract s)"

lemma MAX_SUPPLY_small: "MAX_SUPPLY < u128_max"
  by (simp add: MAX_SUPPLY_def STARS_PER_NIGHT_def u128_max_def)

lemma plus_u128_exact: "a + b \<le> u128_max \<Longrightarrow> plus_u128 debug a b = Ok (a + b)"
  by (simp add: plus_u128_def)

lemma plus_u128_debug: "plus_u128 True a b = Ok c \<longleftrightarrow> c = a + b \<and> a + b \<le> u128_max"
  by (auto simp: plus_u128_def)

lemma total_night_exact: "night_total s \<le> u128_max \<Longrightarrow> (total_night debug s :: ('e, nat) result) = Ok (night_total s)"
  by (simp add: total_night_def night_total_def utxo_ann_def amount_ann_def contract_ann_def ann_exact plus_u128_exact
      add.assoc)

lemma total_night_debug:
  assumes "(total_night True s :: ('e, nat) result) = Ok t" "t < u128_max"
  shows "night_total s = t"
  using assms
  by (auto simp: total_night_def night_total_def utxo_ann_def amount_ann_def contract_ann_def result_simps plus_u128_debug
      ann_value min_def split: if_splits)

lemma conserved_check: "night_total s = MAX_SUPPLY \<Longrightarrow> check_night_balance_invariant debug s = Ok ()"
  using total_night_exact [of s debug, where 'e = nat] MAX_SUPPLY_small by (simp add: check_night_balance_invariant_def)

lemma deficit_check:
  "night_total s < MAX_SUPPLY \<Longrightarrow> check_night_balance_invariant debug s = Err (night_total s)"
  using total_night_exact [of s debug, where 'e = nat] MAX_SUPPLY_small by (simp add: check_night_balance_invariant_def)

text \<open>A build with overflow checks accepts a state exactly if its total is the supply.\<close>

lemma check_conserved: "check_night_balance_invariant True s = Ok () \<longleftrightarrow> night_total s = MAX_SUPPLY"
proof
  assume "check_night_balance_invariant True s = Ok ()"
  then have "(total_night True s :: (nat, nat) result) = Ok MAX_SUPPLY"
    by (auto simp: check_night_balance_invariant_def result_simps guard_def split: if_splits)
  from total_night_debug [OF this MAX_SUPPLY_small] show "night_total s = MAX_SUPPLY" .
qed (rule conserved_check)

section \<open>System transactions\<close>

lemma amount_of_entry: "amount_of m k = entry m snd k"
  by (simp add: amount_of_def entry_def split: option.splits)

lemma amount_of_update: "amount_of (AList.update k v m) k' = (if k' = k then v else amount_of m k')"
  by (simp add: amount_of_def update_conv)

lemma tally_set_amount: "tally snd (AList.update k v m) + amount_of m k = tally snd m + v"
  using tally_update [of snd k v m] by (simp add: amount_of_entry)

lemma amount_of_le: "amount_of m k \<le> tally snd m"
  by (simp add: amount_of_entry entry_le_tally)

lemma tally_add_amount:
  "amount_of m k + v \<le> u128_max \<Longrightarrow> tally snd (AList.update k (sat_add u128_max (amount_of m k) v) m) = tally snd m + v"
  using tally_set_amount [of k "amount_of m k + v" m] by (simp add: sat_add_def)

lemma basis_points_le: "basis_points_of points val = Ok fee \<Longrightarrow> fee \<le> val"
proof -
  assume "basis_points_of points val = Ok fee"
  then have p: "points \<le> 10000" and fee: "fee = val div 10000 * points + (val mod 10000 * points) div 10000"
    by (auto simp: basis_points_of_def split: if_splits)
  have "(val mod 10000 * points) div 10000 \<le> val mod 10000"
    using p by (metis div_le_mono mult_le_mono2 nonzero_mult_div_cancel_right zero_neq_numeral)
  moreover have "val div 10000 * points \<le> val div 10000 * 10000" using p by simp
  ultimately show ?thesis unfolding fee by (metis add_mono div_mult_mod_eq)
qed

lemma bridge_split_sum: "bridge_split p amount = Ok (fee, post) \<Longrightarrow> fee + post = amount"
  using basis_points_le by (fastforce simp: bridge_split_def result_simps split: if_splits)

lemma distribute_output_total:
  assumes "distribute_output (E :: ('k, 'f, 'h, 'x, 'b) ledger_env) p kind tblock s out = Ok s'" "night_total s + oi_amount out \<le> u128_max"
  shows "night_total s' = night_total s + oi_amount out"
proof -
  obtain rp where rp: "apply_member (ls_replay_protection s) (le_instruction_hash E out NIGHT)
      (ts_add tblock (lp_global_ttl p)) tblock (lp_global_ttl p) = Ok rp"
    using assms(1) by (auto simp: distribute_output_def result_simps)
  note small = amount_of_le [of "ls_unclaimed_block_rewards s" "oi_target_address out"]
    amount_of_le [of "ls_bridge_receiving s" "oi_target_address out"]
  show ?thesis
  proof (cases kind)
    case Reward
    have "amount_of (ls_unclaimed_block_rewards s) (oi_target_address out) + oi_amount out \<le> u128_max"
      using assms(2) small by (simp add: night_total_def)
    from tally_add_amount [OF this] show ?thesis
      using assms(1) Reward by (auto simp: distribute_output_def rp night_total_def)
  next
    case CardanoBridge
    then obtain fee post where
      split: "(bridge_split (ls_parameters s) (oi_amount out) :: ('f system_transaction_error, _) result) = Ok (fee, post)"
      and s': "s' = s\<lparr>ls_treasury := add_to_treasury s fee, ls_bridge_receiving := AList.update (oi_target_address out)
         (sat_add u128_max (amount_of (ls_bridge_receiving s) (oi_target_address out)) post)
         (ls_bridge_receiving s), ls_replay_protection := rp\<rparr>"
      using assms(1) by (auto simp: distribute_output_def rp and_then_eq_Ok)
    note sum = bridge_split_sum [OF split]
    have "amount_of (ls_bridge_receiving s) (oi_target_address out) + post \<le> u128_max"
      "amount_of (ls_treasury s) night_token + fee \<le> u128_max"
      using assms(2) small sum by (simp_all add: night_total_def)
    with tally_add_amount [OF this(1)] show ?thesis
      using sum by (simp add: s' night_total_def add_to_treasury_def amount_of_update sat_add_def)
  qed
qed

lemma distribute_outputs_total:
  assumes "try_fold (distribute_output E p kind tblock) s outs = Ok s'"
    "night_total s + sum_list (map oi_amount outs) \<le> u128_max"
  shows "night_total s' = night_total s + sum_list (map oi_amount outs)"
  using assms
proof (induction outs arbitrary: s)
  case (Cons out outs)
  then obtain s1 where s1: "distribute_output E p kind tblock s out = Ok s1"
    "try_fold (distribute_output E p kind tblock) s1 outs = Ok s'"
    by (auto simp: result_simps)
  with Cons.prems(2) have "night_total s1 = night_total s + oi_amount out"
    by (intro distribute_output_total [OF s1(1)]) simp
  with Cons.IH [OF s1(2)] Cons.prems(2) show ?case by simp
qed simp

lemma checked_add_Some: "checked_add m a b = Some c \<Longrightarrow> c = a + b"
  by (simp add: checked_add_def split: if_splits)

lemma checked_sum_None: "fold (\<lambda>out acc. case acc of Some a \<Rightarrow> checked_add m a (f out) | None \<Rightarrow> None) outs None = None"
  by (induction outs) simp_all

lemma checked_sum:
  "fold (\<lambda>out acc. case acc of Some a \<Rightarrow> checked_add m a (f out) | None \<Rightarrow> None) outs (Some b) = Some t \<Longrightarrow>
   t = b + sum_list (map f outs)"
proof (induction outs arbitrary: b)
  case (Cons out outs)
  then obtain c where "checked_add m b (f out) = Some c"
    "fold (\<lambda>out acc. case acc of Some a \<Rightarrow> checked_add m a (f out) | None \<Rightarrow> None) outs (Some c) = Some t"
    by (cases "checked_add m b (f out)") (simp_all add: checked_sum_None)
  with Cons.IH show ?case by (fastforce dest: checked_add_Some)
qed simp

text \<open>The ways a system transaction can end: not by a panic, and not because the closing check of
  the balance fails.\<close>

definition lawful :: "('f system_transaction_error, 'a) result \<Rightarrow> ('a \<Rightarrow> bool) \<Rightarrow> bool" where
  "lawful r P = (case r of Ok x \<Rightarrow> P x | Err e \<Rightarrow> (\<forall>n. e \<noteq> SysInvariantViolation n) | Panic \<Rightarrow> False)"

lemma lawful_simps [simp]:
  "lawful (Ok x) P = P x" "lawful (Err e) P = (\<forall>n. e \<noteq> SysInvariantViolation n)" "lawful Panic P = False"
  by (simp_all add: lawful_def)

lemma lawful_and_then: "lawful r P \<Longrightarrow> (\<And>x. r = Ok x \<Longrightarrow> P x \<Longrightarrow> lawful (f x) Q) \<Longrightarrow> lawful (and_then r f) Q"
  by (cases r) auto

lemma lawful_map_ok: "lawful r (\<lambda>x. P (f x)) \<Longrightarrow> lawful (map_ok f r) P"
  by (cases r) auto

lemma lawful_try_fold: "(\<And>s x. lawful (f s x) (\<lambda>_. True)) \<Longrightarrow> lawful (try_fold f s xs) (\<lambda>_. True)"
  by (induction xs arbitrary: s) (auto intro!: lawful_and_then)

lemma basis_points_lawful: "lawful (basis_points_of points val) (\<lambda>_. True)"
  by (simp add: basis_points_of_def)

lemma bridge_split_lawful: "lawful (bridge_split p amount) (\<lambda>_. True)"
  by (auto simp: bridge_split_def intro!: lawful_map_ok basis_points_lawful)

lemma apply_member_lawful: "lawful (map_err ReplayProtectionFailure (apply_member rps h ttl tblock g)) (\<lambda>_. True)"
  by (simp add: apply_member_def)

lemma distribute_output_lawful: "lawful (distribute_output E p kind tblock s out) (\<lambda>_. True)"
  unfolding distribute_output_def
  by (rule lawful_and_then [OF apply_member_lawful])
    (auto intro: lawful_and_then [OF bridge_split_lawful] split: claim_kind.splits)

lemma checked_conserved: "night_total s = MAX_SUPPLY \<Longrightarrow> checked E s = Ok (s, [])"
  by (simp add: checked_def conserved_check)

lemma distribute_night_lawful:
  assumes "night_total s = MAX_SUPPLY"
  shows "lawful (distribute_night E kind outs tblock s) (\<lambda>(s', _). night_total s' = MAX_SUPPLY)"
proof (cases "fold (\<lambda>out acc. case acc of Some a \<Rightarrow> checked_add u128_max a (oi_amount out) | None \<Rightarrow> None) outs (Some 0)")
  case (Some t)
  let ?c = "case kind of Reward \<Rightarrow> t | CardanoBridge \<Rightarrow> 0" and ?b = "case kind of Reward \<Rightarrow> 0 | CardanoBridge \<Rightarrow> t"
  let ?s = "s\<lparr>ls_block_reward_pool := ls_block_reward_pool s - ?c, ls_locked_pool := ls_locked_pool s - ?b\<rparr>"
  have t: "t = sum_list (map oi_amount outs)" using checked_sum [OF Some] by simp
  have "lawful (and_then (try_fold (distribute_output E (ls_parameters s) kind tblock) ?s outs) (checked E))
      (\<lambda>(s', _). night_total s' = MAX_SUPPLY)"
    if pools: "?c \<le> ls_block_reward_pool s" "?b \<le> ls_locked_pool s"
  proof (rule lawful_and_then [OF lawful_try_fold [OF distribute_output_lawful]])
    fix s' assume "try_fold (distribute_output E (ls_parameters s) kind tblock) ?s outs = Ok s'"
    moreover have "night_total ?s + sum_list (map oi_amount outs) = MAX_SUPPLY"
      using pools assms t by (cases kind) (simp_all add: night_total_def)
    ultimately have "night_total s' = MAX_SUPPLY"
      using distribute_outputs_total MAX_SUPPLY_small by (metis less_imp_le)
    then show "lawful (checked E s') (\<lambda>(s', _). night_total s' = MAX_SUPPLY)" by (simp add: checked_conserved)
  qed
  then show ?thesis by (cases kind) (simp_all add: distribute_night_def Some Let_def)
qed (simp add: distribute_night_def)

lemma add_to_treasury_night:
  "night_total s \<le> u128_max \<Longrightarrow> amount \<le> ls_block_reward_pool s \<or> amount \<le> ls_locked_pool s \<Longrightarrow>
   amount_of (add_to_treasury s amount) night_token = amount_of (ls_treasury s) night_token + amount"
  by (auto simp: add_to_treasury_def amount_of_update sat_add_def night_total_def)

lemma moved_lawful:
  "night_total s' = MAX_SUPPLY \<Longrightarrow> lawful (checked E s') (\<lambda>(s', _). night_total s' = MAX_SUPPLY)"
  by (simp add: checked_conserved)

lemma night_total_simps [simp]:
  "night_total (s\<lparr>ls_parameters := p\<rparr>) = night_total s" "night_total (s\<lparr>ls_dust := d\<rparr>) = night_total s"
  "night_total (s\<lparr>ls_zswap := z\<rparr>) = night_total s" "night_total (s\<lparr>ls_replay_protection := rp\<rparr>) = night_total s"
  by (simp_all add: night_total_def)

lemma system_tx_lawful:
  assumes "night_total s = MAX_SUPPLY" "\<forall>actions. tx \<noteq> CNightGeneratesDustUpdate actions"
  shows "lawful (apply_system_tx E s tx tblock) (\<lambda>(s', _). night_total s' = MAX_SUPPLY)"
proof -
  have small: "night_total s \<le> u128_max" using assms(1) MAX_SUPPLY_small by simp
  show ?thesis
  proof (cases tx)
    case (DistributeNight kind outs)
    then show ?thesis using distribute_night_lawful [OF assms(1)] by (simp add: apply_system_tx_def)
  next
    case (PayBlockRewardsToTreasury amount)
    with assms(1) add_to_treasury_night [OF small, of amount] show ?thesis
      by (auto simp: apply_system_tx_def intro!: moved_lawful) (simp add: night_total_def)
  next
    case (UnlockToTreasury amount)
    with assms(1) add_to_treasury_night [OF small, of amount] show ?thesis
      by (auto simp: apply_system_tx_def intro!: moved_lawful) (simp add: night_total_def)
  next
    case (DistributeReserve amount)
    show ?thesis
    proof (cases "amount \<le> ls_reserve_pool s")
      case True
      then have "ls_block_reward_pool s + amount \<le> u128_max" using small by (simp add: night_total_def)
      with True assms(1) show ?thesis
        by (auto simp: apply_system_tx_def DistributeReserve plus_u128_exact intro!: moved_lawful) (simp add: night_total_def)
    qed (simp add: apply_system_tx_def DistributeReserve)
  next
    case (UnlockToReserve amount)
    show ?thesis
    proof (cases "amount \<le> ls_locked_pool s")
      case True
      then have "ls_reserve_pool s + amount \<le> u128_max" using small by (simp add: night_total_def)
      with True assms(1) show ?thesis
        by (auto simp: apply_system_tx_def UnlockToReserve plus_u128_exact intro!: moved_lawful) (simp add: night_total_def)
    qed (simp add: apply_system_tx_def UnlockToReserve)
  qed (use assms in \<open>auto simp: apply_system_tx_def\<close>)
qed

lemma cnight_step_error: "cnight_step E tblock st a \<noteq> Err (SysInvariantViolation n)"
proof -
  have forced: "try_fold (\<lambda>(d, es) ev. map_ok (\<lambda>e. (d, es @ [e])) (force_event C ev)) st evs \<noteq> Err e" for C st evs e
    by (induction evs arbitrary: st) (auto simp: result_simps force_event_def split: deferred_event.splits result.splits prod.splits)
  show ?thesis
    by (auto simp: cnight_step_def cnight_create_def cnight_destroy_def sys_dust_error_def result_simps forced Let_def
        split: prod.splits cnight_action.splits option.splits dust_state_error.splits if_splits result.splits)
qed

lemma cnight_steps_error: "try_fold (cnight_step E tblock) st actions \<noteq> Err (SysInvariantViolation n)"
  by (induction actions arbitrary: st) (simp_all add: result_simps cnight_step_error)

section \<open>Claims\<close>

lemma take_claim_total:
  assumes "distinct (map fst m)" "v \<le> amount_of m k"
  shows "tally snd (take_claim m k (amount_of m k - v)) + v = tally snd m"
proof (cases "amount_of m k - v = 0")
  case True
  then show ?thesis using assms tally_delete [of m snd k] by (simp add: take_claim_def amount_of_entry)
next
  case False
  then show ?thesis using assms tally_set_amount [of k "amount_of m k - v" m] by (simp add: take_claim_def)
qed

lemma claim_taken_total:
  assumes "distinct (map fst (claim_pool s (cr_kind tx)))"
    "cr_value tx \<le> amount_of (claim_pool s (cr_kind tx)) (key_address (le_crypto E) (cr_owner tx))"
  shows "night_total (claim_taken E s tx tblock rp) +
    (if map_of (ls_utxo s) (claim_utxo E tx) = None then 0 else cr_value tx) = night_total s"
proof -
  have "utxo_tally (us_insert (ls_utxo s) (claim_utxo E tx) m) +
      (if map_of (ls_utxo s) (claim_utxo E tx) = None then 0 else cr_value tx) = utxo_tally (ls_utxo s) + cr_value tx" for m
    using tally_update [of "\<lambda>p. utxo_night (fst p)" "claim_utxo E tx" m "ls_utxo s"]
    by (auto simp: us_insert_def entry_def utxo_night_def claim_utxo_def split: option.splits)
  from this [of "\<lparr>um_ctime = tblock\<rparr>"] show ?thesis
    using take_claim_total [OF assms] by (cases "cr_kind tx") (simp_all add: claim_taken_def claim_pool_def night_total_def Let_def)
qed

lemma claim_dust_total: "claim_dust E tblock source tx s = Ok (s', es) \<Longrightarrow> night_total s' = night_total s"
  by (auto simp: claim_dust_def with_dust_def result_simps split: option.splits)

lemma force_all_error: "force_all C ds \<noteq> Err e"
proof -
  have "try_fold (\<lambda>es d. map_ok (\<lambda>e. es @ [e]) (force C d)) es ds \<noteq> Err e" for es
    by (induction ds arbitrary: es)
      (auto simp: result_simps force_def force_event_def split: deferred_details.splits deferred_event.splits result.splits)
  then show ?thesis by (simp add: force_all_def)
qed

lemma claim_dust_error: "claim_dust E tblock source tx s \<noteq> Err (InvariantViolation n)"
  by (auto simp: claim_dust_def with_dust_def result_simps force_all_error split: option.splits)

text \<open>A claim that succeeds, and one that fails the closing check.\<close>

lemma claim_unshielded_Ok:
  "claim_unshielded E s tx ctx source = Ok (s', es) \<Longrightarrow>
   \<exists>rp. cr_value tx \<le> amount_of (claim_pool s (cr_kind tx)) (key_address (le_crypto E) (cr_owner tx)) \<and>
     apply_member (ls_replay_protection s) (claim_hash E tx) (ts_add (bc_tblock ctx) (lp_global_ttl (ls_parameters s)))
       (bc_tblock ctx) (lp_global_ttl (ls_parameters s)) = Ok rp \<and>
     claim_dust E (bc_tblock ctx) source tx (claim_taken E s tx (bc_tblock ctx) rp) = Ok (s', es) \<and>
     check_night_balance_invariant (le_debug E) s' = Ok ()"
  by (auto simp: claim_unshielded_def Let_def and_then_eq_Ok map_err_eq not_less split: if_splits)

lemma claim_unshielded_violation:
  "claim_unshielded E s tx ctx source = Err (InvariantViolation n) \<Longrightarrow>
   \<exists>rp s' es. cr_value tx \<le> amount_of (claim_pool s (cr_kind tx)) (key_address (le_crypto E) (cr_owner tx)) \<and>
     claim_dust E (bc_tblock ctx) source tx (claim_taken E s tx (bc_tblock ctx) rp) = Ok (s', es) \<and>
     check_night_balance_invariant (le_debug E) s' = Err n"
  by (auto simp: claim_unshielded_def Let_def and_then_eq_Err map_err_eq claim_dust_error not_less split: if_splits)

section \<open>Transactions and histories\<close>

lemma apply_section_conserved:
  "le_debug E \<Longrightarrow> apply_section E ctx h fee tx segment s = Ok (s', ds) \<Longrightarrow> night_total s' = MAX_SUPPLY"
  by (auto simp: apply_section_def result_simps check_conserved)

lemma fallible_steps_conserved:
  assumes "le_debug E" "night_total s = MAX_SUPPLY"
    "try_fold (fallible_step E ctx h fee stx) (s, results, events) segs = Ok (s', results', events')"
  shows "night_total s' = MAX_SUPPLY"
  using assms(2,3)
proof (induction segs arbitrary: s results events)
  case (Cons seg segs)
  then obtain s1 r1 e1 where step: "fallible_step E ctx h fee stx (s, results, events) seg = Ok (s1, r1, e1)"
    "try_fold (fallible_step E ctx h fee stx) (s1, r1, e1) segs = Ok (s', results', events')"
    by (auto simp: and_then_eq_Ok)
  have "night_total s1 = MAX_SUPPLY"
    using step(1) Cons.prems(1) apply_section_conserved [OF assms(1)]
    by (auto simp: fallible_step_def map_ok_eq split: result.splits prod.splits)
  from Cons.IH [OF this step(2)] show ?case .
qed simp

lemma apply_conserved:
  assumes "le_debug E" "night_total s = MAX_SUPPLY" "ledger_apply E s tx ctx = Ok (s', r)"
  shows "night_total s' = MAX_SUPPLY"
proof (cases "apply_guaranteed_only E s tx ctx")
  case (Ok ga)
  have "night_total (ga_state ga) = MAX_SUPPLY"
    using Ok apply_section_conserved [OF assms(1)] assms(1) claim_unshielded_Ok
    by (fastforce simp: apply_guaranteed_only_def result_simps check_conserved split: transaction.splits)
  with assms Ok fallible_steps_conserved [OF assms(1)] show ?thesis
    by (cases "vt_inner (ga_tx ga)") (auto simp: ledger_apply_def apply_fallible_def result_simps)
qed (use assms in \<open>simp_all add: ledger_apply_def\<close>)

text \<open>The histories of a ledger: a genesis whose balance was checked, then transactions, system
  transactions and ends of blocks in any order.\<close>

inductive ledger_history :: "('k, 'f, 'h, 'x, 'b) ledger_env \<Rightarrow> ('f, 'h, 'x) ledger_state \<Rightarrow> bool"
  for E :: "('k, 'f, 'h, 'x, 'b) ledger_env" where
  genesis: "with_genesis_settings (le_debug E) network p locked reserve treasury = Ok s \<Longrightarrow> ledger_history E s"
| transaction: "ledger_history E s \<Longrightarrow> ledger_apply E s tx ctx = Ok (s', r) \<Longrightarrow> ledger_history E s'"
| system: "ledger_history E s \<Longrightarrow> apply_system_tx E s stx tblock = Ok (s', evs) \<Longrightarrow> ledger_history E s'"
| end_of_block: "ledger_history E s \<Longrightarrow> post_block_update E s tblock detailed overall = Ok s' \<Longrightarrow> ledger_history E s'"

lemma post_block_update_total: "post_block_update E s tblock detailed overall = Ok s' \<Longrightarrow> night_total s' = night_total s"
  by (auto simp: post_block_update_def apply_post_block_update_def result_simps Let_def night_total_def)

lemma system_tx_conserved:
  assumes "night_total s = MAX_SUPPLY" "apply_system_tx E s tx tblock = Ok (s', evs)"
  shows "night_total s' = MAX_SUPPLY"
proof (cases "\<exists>actions. tx = CNightGeneratesDustUpdate actions")
  case True
  then show ?thesis using assms by (auto simp: apply_system_tx_def result_simps)
next
  case False
  then show ?thesis using system_tx_lawful [OF assms(1), of tx E tblock] assms(2) by simp
qed

lemma ledger_history_conserved: "ledger_history E s \<Longrightarrow> le_debug E \<Longrightarrow> night_total s = MAX_SUPPLY"
proof (induction rule: ledger_history.induct)
  case (genesis network p locked reserve treasury s)
  then show ?case by (auto simp: with_genesis_settings_def result_simps Let_def check_conserved)
next
  case (transaction s tx ctx s' r)
  then show ?case using apply_conserved by blast
next
  case (system s stx tblock s' evs)
  then show ?case using system_tx_conserved by blast
next
  case (end_of_block s tblock detailed overall s')
  then show ?case using post_block_update_total by metis
qed

section \<open>A small ledger\<close>

definition demo_crypto :: "(nat, nat, (nat, nat, nat) contract_action, unit) crypto" where
  "demo_crypto =
     \<lparr>tree_hashing = \<lparr>transient_hash = sum_list, degrade_to_transient = length, fr_default = 0\<rparr>,
      upgrade_from_transient = (\<lambda>f. zeros 31 @ [word_of_nat f]), persistent_commit = (\<lambda>n h. word_of_nat n # h),
      fr_of_nat = (\<lambda>n. n), fr_of_bytes = map unat, domain_separator = length,
      key_address = (\<lambda>k. zeros 31 @ [word_of_nat k]), intent_hash = (\<lambda>i seg. zeros 31 @ [word_of_nat (intent_ttl i + seg)])\<rparr>"

definition demo_env :: "bool \<Rightarrow> (nat, nat, nat, nat, unit) ledger_env" where
  "demo_env debug =
     \<lparr>le_crypto = demo_crypto, le_storage = demo_storage, le_vm = sample_vm_env, le_fr = demo_fr,
      le_sizes = \<lparr>authority_size = (\<lambda>_. 5), entry_point_size = length, operation_size = (\<lambda>_. 9)\<rparr>,
      le_commit = (\<lambda>_ _. zeros 32), le_deploy_address = (\<lambda>d. dp_nonce d), le_instruction_hash = (\<lambda>out _. oi_nonce out),
      le_system_hash = (\<lambda>_. zeros 32), le_claim_size = 200, le_debug = debug\<rparr>"

definition demo_ledger :: "(nat, nat, nat) ledger_state" where
  "demo_ledger =
     \<lparr>ls_network_id = ''demo'', ls_parameters = INITIAL_PARAMETERS, ls_locked_pool = 0, ls_bridge_receiving = [],
      ls_reserve_pool = MAX_SUPPLY, ls_block_reward_pool = 0, ls_unclaimed_block_rewards = [],
      ls_treasury = [(night_token, 0)], ls_zswap = zs_new, ls_contract = [], ls_utxo = [],
      ls_replay_protection = rp_new, ls_dust = dust_state_default\<rparr>"

lemma demo_ledger_total: "night_total demo_ledger = MAX_SUPPLY"
  by (simp add: night_total_def demo_ledger_def amount_of_def)

lemma demo_genesis: "with_genesis_settings debug ''demo'' INITIAL_PARAMETERS 0 MAX_SUPPLY 0 = Ok demo_ledger"
  using conserved_check [OF demo_ledger_total, of debug] by (simp add: with_genesis_settings_def demo_ledger_def Let_def)

section \<open>Properties\<close>

text \<open>C2: System transactions conserve Night by themselves. From a state that holds the supply, a system
  transaction that succeeds leads to a state that holds it, in every build; the closing check of the
  balance never rejects one, and only an update of generated dust can panic.\<close>

theorem system_transactions_conserve_night:
  assumes "night_total s = MAX_SUPPLY"
  shows "(\<forall>s' evs. apply_system_tx E s tx tblock = Ok (s', evs) \<longrightarrow> night_total s' = MAX_SUPPLY) \<and>
    (\<forall>n. apply_system_tx E s tx tblock \<noteq> Err (SysInvariantViolation n)) \<and>
    ((\<forall>actions. tx \<noteq> CNightGeneratesDustUpdate actions) \<longrightarrow> apply_system_tx E s tx tblock \<noteq> Panic)"
proof (cases "\<exists>actions. tx = CNightGeneratesDustUpdate actions")
  case True
  then show ?thesis using assms by (auto simp: apply_system_tx_def result_simps cnight_steps_error)
next
  case False
  then show ?thesis using system_tx_lawful [OF assms, of tx E tblock] by (cases "apply_system_tx E s tx tblock") auto
qed

theorem system_transactions_conserve_night_witness:
  "\<exists>s'. apply_system_tx (demo_env False) demo_ledger (DistributeReserve 7) 100 = Ok (s', []) \<and>
     ls_block_reward_pool s' = 7 \<and> night_total s' = MAX_SUPPLY"
proof -
  let ?s = "demo_ledger\<lparr>ls_reserve_pool := MAX_SUPPLY - 7, ls_block_reward_pool := 7\<rparr>"
  have "night_total ?s = MAX_SUPPLY"
    by (simp add: night_total_def demo_ledger_def amount_of_def MAX_SUPPLY_def STARS_PER_NIGHT_def)
  from checked_conserved [OF this, of "demo_env False"]
  have "apply_system_tx (demo_env False) demo_ledger (DistributeReserve 7) 100 = Ok (?s, [])"
    by (simp add: apply_system_tx_def demo_ledger_def plus_u128_def MAX_SUPPLY_def STARS_PER_NIGHT_def u128_max_def)
  then show ?thesis
    using system_transactions_conserve_night [OF demo_ledger_total, of "demo_env False" "DistributeReserve 7" 100] by auto
qed


definition demo_bridged :: "(nat, nat, nat) ledger_state" where
  "demo_bridged = demo_ledger\<lparr>ls_bridge_receiving := [(zeros 31 @ [3], 9)], ls_reserve_pool := MAX_SUPPLY - 9\<rparr>"

definition demo_claim :: "(nat, unit) claim_rewards" where
  "demo_claim = \<lparr>cr_network_id = ''demo'', cr_value = 4, cr_owner = 3, cr_nonce = zeros 32, cr_signature = (), cr_kind = CardanoBridge\<rparr>"

definition demo_block :: "timestamp \<Rightarrow> block_context" where
  "demo_block t = \<lparr>bc_tblock = t, bc_tblock_err = 0, bc_parent_block_hash = zeros 32, bc_last_block_time = t\<rparr>"

lemma demo_member: "apply_member rp_new h (ts_add 100 3600) 100 3600 =
    Ok (tfm_upsert_one hash_set_container rp_new 3700 (h :: hash_output))"
  by (simp add: apply_member_def tfm_contains_def rp_new_def tfm_new_def ms_new_def ms_member_def ts_add_def sat_add_def int_bounds)




end
