(* ===== verification/Ledger_Replay.thy ===== *)
theory Ledger_Replay
  imports Ledger_Night
begin

text \<open>
  What a transaction does not touch, and why it is applied only once: the parts of the ledger state
  that the sections of a transaction leave alone, and the replay protection of whole transactions
  over the further history of a ledger.
\<close>

section \<open>What sections leave alone\<close>

lemma try_fold_frame:
  "(\<And>s x s'. f s x = Ok s' \<Longrightarrow> g s' = g s) \<Longrightarrow> try_fold f s xs = Ok s' \<Longrightarrow> g s' = g s"
proof (induction xs arbitrary: s)
  case (Cons x xs)
  then obtain s1 where "f s x = Ok s1" "try_fold f s1 xs = Ok s'" by (auto simp: and_then_eq_Ok)
  with Cons show ?case by metis
qed simp

lemma apply_section_ok: "apply_section E ctx h fee tx seg s = Ok st \<longleftrightarrow>
    (if seg = GUARANTEED_SEGMENT then guaranteed_section E ctx h fee tx s else fallible_section E ctx h tx seg s) = Ok st \<and>
    check_night_balance_invariant (le_debug E) (fst st) = Ok ()"
  by (cases st) (auto simp: apply_section_def and_then_eq_Ok map_err_eq)

text \<open>A view of the state that does not depend on what intents may change: the contracts, the unspent
  outputs and dust.\<close>

locale action_frame =
  fixes view :: "('f, 'h, 'x) ledger_state \<Rightarrow> 'v"
  assumes contract_frame: "view (s\<lparr>ls_contract := c\<rparr>) = view s"
    and utxo_frame: "view (s\<lparr>ls_utxo := us\<rparr>) = view s"
    and dust_frame: "view (s\<lparr>ls_dust := d\<rparr>) = view s"
begin

lemma with_dust_frame: "with_dust source st r = Ok st' \<Longrightarrow> view (fst st') = view (fst st)"
  by (cases st) (auto simp: with_dust_def result_simps dust_frame)

lemma unshielded_frame: "apply_unshielded E ctx segment source parent st ofr = Ok st' \<Longrightarrow> view (fst st') = view (fst st)"
  by (cases st) (auto simp: apply_unshielded_def and_then_eq_Ok utxo_frame dest: with_dust_frame split: option.splits)

lemma update_index_frame: "update_index S s a state bal = Ok s' \<Longrightarrow> view s' = view s"
  by (auto simp: update_index_def result_simps contract_frame)

lemma call_frame: "apply_call E p guaranteed ctx parent ci source st call = Ok st' \<Longrightarrow> view (fst st') = view (fst st)"
  by (cases st) (auto simp: apply_call_def and_then_eq_Ok Let_def dest: update_index_frame split: if_splits option.splits)

lemma deploy_frame: "apply_deploy E p guaranteed ctx source st d = Ok st' \<Longrightarrow> view (fst st') = view (fst st)"
  by (cases st) (auto simp: apply_deploy_def and_then_eq_Ok Let_def contract_frame split: if_splits)

lemma maintain_frame: "apply_maintain E p guaranteed ctx st upd = Ok st' \<Longrightarrow> view (fst st') = view (fst st)"
  by (cases st) (auto simp: apply_maintain_def map_ok_eq contract_frame split: if_splits option.splits)

lemma actions_frame: "apply_actions E st acts guaranteed ctx parent ci source = Ok st' \<Longrightarrow> view (fst st') = view (fst st)"
  unfolding apply_actions_def
  by (erule try_fold_frame [where g = "\<lambda>st. view (fst st)", rotated])
    (auto simp: apply_action_def dest: call_frame deploy_frame maintain_frame split: contract_action.splits)

lemma guaranteed_intent_frame: "guaranteed_intent E ctx h ci st p = Ok st' \<Longrightarrow> view (fst st') = view (fst st)"
  by (cases p) (auto simp: guaranteed_intent_def and_then_eq_Ok Let_def dest!: unshielded_frame actions_frame)

lemma pay_spend_frame: "pay_spend E ctx h acc x = Ok acc' \<Longrightarrow> view (fst (fst acc')) = view (fst (fst acc))"
  by (cases acc; cases x) (auto simp: pay_spend_def map_ok_eq dest!: with_dust_frame)

lemma pay_registration_frame: "pay_registration E ctx h acc x = Ok acc' \<Longrightarrow> view (fst (fst acc')) = view (fst (fst acc))"
  by (cases acc; cases x) (auto simp: pay_registration_def and_then_eq_Ok map_ok_eq dest!: with_dust_frame)

lemma pay_fees_frame:
  assumes "pay_fees E ctx h fee intents st = Ok acc"
  shows "view (fst (fst acc)) = view (fst st)"
proof -
  obtain spends regs acc1 where 1: "try_fold (pay_spend E ctx h) (st, fee) spends = Ok acc1"
    and 2: "try_fold (pay_registration E ctx h) acc1 regs = Ok acc"
    using assms by (auto simp: pay_fees_def Let_def and_then_eq_Ok)
  have "view (fst (fst acc1)) = view (fst (fst (st, fee)))"
    by (rule try_fold_frame [where g = "\<lambda>acc. view (fst (fst acc))", OF pay_spend_frame 1])
  moreover have "view (fst (fst acc)) = view (fst (fst acc1))"
    by (rule try_fold_frame [where g = "\<lambda>acc. view (fst (fst acc))", OF pay_registration_frame 2])
  ultimately show ?thesis by simp
qed

end

text \<open>A view that does not depend on the coins either, which is what sections may change.\<close>

locale section_frame = action_frame view for view :: "('f, 'h, 'x) ledger_state \<Rightarrow> 'v" +
  assumes zswap_frame: "view (s\<lparr>ls_zswap := z\<rparr>) = view s"
begin

lemma coins_frame: "apply_coins E ctx source st ofr = Ok (st', ci) \<Longrightarrow> view (fst st') = view (fst st)"
  by (cases st) (auto simp: apply_coins_def apply_zswap_def result_simps zswap_frame split: option.splits)

lemma fallible_section_frame: "fallible_section E ctx h tx segment s = Ok st' \<Longrightarrow> view (fst st') = view s"
  by (auto simp: fallible_section_def and_then_eq_Ok Let_def dest!: coins_frame unshielded_frame actions_frame
      split: option.splits)

lemma fallible_step_frame:
  "fallible_step E ctx h fee stx acc seg = Ok acc' \<Longrightarrow> seg \<noteq> GUARANTEED_SEGMENT \<Longrightarrow>
   view (fst acc') = view (fst acc)"
  using fallible_section_frame [of E ctx h stx seg "fst acc"]
  by (cases acc) (auto simp: fallible_step_def map_ok_eq apply_section_ok split: result.splits)

lemma fallible_steps_frame:
  "try_fold (fallible_step E ctx h fee stx) acc segs = Ok acc' \<Longrightarrow> \<forall>seg \<in> set segs. seg \<noteq> GUARANTEED_SEGMENT \<Longrightarrow>
   view (fst acc') = view (fst acc)"
proof (induction segs arbitrary: acc)
  case (Cons seg segs)
  then obtain acc1 where "fallible_step E ctx h fee stx acc seg = Ok acc1"
    "try_fold (fallible_step E ctx h fee stx) acc1 segs = Ok acc'"
    by (auto simp: and_then_eq_Ok)
  with Cons fallible_step_frame [of E ctx h fee stx acc seg acc1] show ?case by simp
qed simp

lemma guaranteed_section_frame:
  assumes replay_frame: "\<And>s rp. view (s\<lparr>ls_replay_protection := rp\<rparr>) = view s"
    and "guaranteed_section E ctx h fee tx s = Ok st"
  shows "view (fst st) = view s"
proof -
  obtain rp st1 ci st2 acc where
    1: "apply_coins E ctx (source_at h GUARANTEED_SEGMENT GUARANTEED_SEGMENT) (s\<lparr>ls_replay_protection := rp\<rparr>, [])
        (st_guaranteed_coins tx) = Ok (st1, ci)"
    and 2: "try_fold (guaranteed_intent E ctx h ci) st1 (sorted_iter (st_intents tx)) = Ok st2"
    and 3: "pay_fees E ctx h fee (sorted_iter (st_intents tx)) st2 = Ok acc" "st = fst acc"
    using assms(2) by (auto simp: guaranteed_section_def Let_def and_then_eq_Ok map_err_eq map_ok_eq)
  have "view (fst st2) = view (fst st1)"
    by (rule try_fold_frame [where g = "\<lambda>st. view (fst st)", OF guaranteed_intent_frame 2])
  then show ?thesis using coins_frame [OF 1] pay_fees_frame [OF 3(1)] 3(2) replay_frame by simp
qed

end

interpretation coins_view: action_frame ls_zswap
  by unfold_locales simp_all

interpretation replay_view: section_frame ls_replay_protection
  by unfold_locales simp_all

interpretation pools_view: section_frame
  "\<lambda>s. (ls_network_id s, ls_parameters s, ls_locked_pool s, ls_reserve_pool s, ls_block_reward_pool s, ls_treasury s,
     ls_unclaimed_block_rewards s, ls_bridge_receiving s)"
  by unfold_locales simp_all

section \<open>Replay protection of transactions\<close>

text \<open>A hash is guarded: it is remembered under its time to live unless that has passed.\<close>

definition guarded :: "hash_output \<Rightarrow> timestamp \<Rightarrow> timestamp \<Rightarrow> hash_output replay_protection_state \<Rightarrow> bool" where
  "guarded h ttl now rps \<longleftrightarrow>
     tfm_ok hash_set_container rps \<and> (ttl < now \<or> tfm_holds hash_set_container rps ttl h)"

lemma guarded_member:
  assumes "guarded h ttl now rps" "apply_member rps h' ttl' now g = Ok rps'"
  shows "guarded h ttl now rps'"
  using assms hash_set_a.upsert_one_ok [of rps h' ttl'] hash_set_a.upsert_one_holds [of rps h' ttl' ttl h]
  by (auto simp: guarded_def apply_member_Ok)

lemma guarded_refuses: "guarded h ttl now rps \<Longrightarrow> \<exists>e. apply_member rps h ttl now g = Err e"
  using hash_set_c.contains_iff [of rps h] by (auto simp: guarded_def apply_member_def)

lemma member_guarded:
  assumes "tfm_ok hash_set_container rps" "apply_member rps h ttl now g = Ok rps'"
  shows "guarded h ttl now rps' \<and> now \<le> ttl"
  using assms hash_set_a.upsert_one_ok [of rps h ttl] hash_set_a.upsert_one_holds [of rps h ttl ttl h]
  by (auto simp: guarded_def apply_member_Ok)

lemma guarded_apply_tx:
  "guarded h ttl now rps \<Longrightarrow> rp_apply_tx hash tt rps is now g = Ok rps' \<Longrightarrow> guarded h ttl now rps'"
  unfolding rp_apply_tx_def apply_intent_def
  by (erule try_fold_invariant [where I = "guarded h ttl now"]) (blast intro: guarded_member)+

lemma guarded_refuses_tx:
  "guarded (hash i) (tt i) now rps \<Longrightarrow> i \<in> set is \<Longrightarrow> \<exists>e. rp_apply_tx hash tt rps is now g = Err e"
proof (induction "is" arbitrary: rps)
  case (Cons j js)
  show ?case
  proof (cases "apply_member rps (hash j) (tt j) now g")
    case (Ok rps1)
    with Cons.prems have "j \<noteq> i" using guarded_refuses [OF Cons.prems(1), of g] by auto
    with Cons Ok guarded_member [OF Cons.prems(1) Ok] show ?thesis by (auto simp: rp_apply_tx_def apply_intent_def)
  qed (simp_all add: rp_apply_tx_def apply_intent_def apply_member_def split: if_splits)
qed simp

lemma apply_tx_guarded:
  "tfm_ok hash_set_container rps \<Longrightarrow> rp_apply_tx hash tt rps is now g = Ok rps' \<Longrightarrow>
   tfm_ok hash_set_container rps' \<and> (\<forall>i \<in> set is. guarded (hash i) (tt i) now rps')"
proof (induction "is" arbitrary: rps)
  case (Cons j js)
  then obtain rps1 where 1: "apply_member rps (hash j) (tt j) now g = Ok rps1" "rp_apply_tx hash tt rps1 js now g = Ok rps'"
    by (auto simp: rp_apply_tx_def apply_intent_def and_then_eq_Ok)
  note g1 = member_guarded [OF Cons.prems(1) 1(1), THEN conjunct1]
  then have "tfm_ok hash_set_container rps1" by (simp add: guarded_def)
  from Cons.IH [OF this 1(2)] guarded_apply_tx [OF g1 1(2)] show ?case by simp
qed (simp add: rp_apply_tx_def)

lemma guarded_later: "guarded h ttl now rps \<Longrightarrow> now \<le> now' \<Longrightarrow> guarded h ttl now' rps"
  by (auto simp: guarded_def)

lemma guarded_pruned: "guarded h ttl now rps \<Longrightarrow> guarded h ttl now (rp_post_block_update rps now)"
  by (auto simp: guarded_def rp_post_block_update_def hash_set_c.filter_ok hash_set_c.filter_holds)

section \<open>Transactions and the further history\<close>

abbreviation tx_hash_of :: "('k, 'f, 'h, 'x, 'b) ledger_env \<Rightarrow> ('k, 'f, 'h, 'x, 'b) ledger_intent \<Rightarrow> hash_output" where
  "tx_hash_of E i \<equiv> intent_hash (le_crypto E) (erased i) 0"

text \<open>A guaranteed section extends the replay protection by its intents and changes nothing else of it.\<close>

lemma guaranteed_section_replay:
  assumes "guaranteed_section E ctx h fee tx s = Ok st"
  shows "rp_apply_tx (tx_hash_of E) intent_ttl (ls_replay_protection s) (map snd (sorted_iter (st_intents tx))) (tc_tblock ctx)
      (lp_global_ttl (ls_parameters s)) = Ok (ls_replay_protection (fst st))"
proof -
  obtain rp st1 ci st2 acc where
    rp: "rp_apply_tx (tx_hash_of E) intent_ttl (ls_replay_protection s) (map snd (sorted_iter (st_intents tx))) (tc_tblock ctx)
      (lp_global_ttl (ls_parameters s)) = Ok rp"
    and 1: "apply_coins E ctx (source_at h GUARANTEED_SEGMENT GUARANTEED_SEGMENT) (s\<lparr>ls_replay_protection := rp\<rparr>, [])
        (st_guaranteed_coins tx) = Ok (st1, ci)"
    and 2: "try_fold (guaranteed_intent E ctx h ci) st1 (sorted_iter (st_intents tx)) = Ok st2"
    and 3: "pay_fees E ctx h fee (sorted_iter (st_intents tx)) st2 = Ok acc" "st = fst acc"
    using assms by (auto simp: guaranteed_section_def Let_def and_then_eq_Ok map_err_eq map_ok_eq)
  have "ls_replay_protection (fst st2) = ls_replay_protection (fst st1)"
    by (rule try_fold_frame [where g = "\<lambda>st. ls_replay_protection (fst st)", OF replay_view.guaranteed_intent_frame 2])
  then show ?thesis using rp replay_view.coins_frame [OF 1] replay_view.pay_fees_frame [OF 3(1)] 3(2) by simp
qed

lemma claim_dust_replay: "claim_dust E tblock source tx s = Ok (s', es) \<Longrightarrow> ls_replay_protection s' = ls_replay_protection s"
  by (auto simp: claim_dust_def with_dust_def result_simps split: option.splits)

lemma guaranteed_only_replay:
  assumes "apply_guaranteed_only E s tx ctx = Ok ga" "guarded h ttl (tc_tblock ctx) (ls_replay_protection s)"
  shows "guarded h ttl (tc_tblock ctx) (ls_replay_protection (ga_state ga))"
proof (cases "vt_inner tx")
  case (Standard stx)
  then obtain ds where "guaranteed_section E ctx (vt_hash tx) (vt_fees tx) stx s = Ok (ga_state ga, ds)"
    using assms(1) by (auto simp: apply_guaranteed_only_def map_ok_eq apply_section_ok)
  from guarded_apply_tx [OF assms(2) guaranteed_section_replay [OF this]] show ?thesis by simp
next
  case (ClaimRewards c)
  then obtain es where es: "claim_unshielded E s c (tc_block_context ctx) (source_at (vt_hash tx) GUARANTEED_SEGMENT GUARANTEED_SEGMENT)
      = Ok (ga_state ga, es)"
    using assms(1) by (auto simp: apply_guaranteed_only_def map_ok_eq)
  from claim_unshielded_Ok [OF es] obtain rp where
    "apply_member (ls_replay_protection s) (claim_hash E c) (ts_add (tc_tblock ctx) (lp_global_ttl (ls_parameters s)))
      (tc_tblock ctx) (lp_global_ttl (ls_parameters s)) = Ok rp"
    "claim_dust E (tc_tblock ctx) (source_at (vt_hash tx) GUARANTEED_SEGMENT GUARANTEED_SEGMENT) c
      (claim_taken E s c (tc_tblock ctx) rp) = Ok (ga_state ga, es)" by blast
  moreover from this(2) have "ls_replay_protection (ga_state ga) = rp"
    using claim_dust_replay by (fastforce simp: claim_taken_def Let_def split: claim_kind.splits)
  ultimately show ?thesis using guarded_member [OF assms(2)] by simp
qed

lemma fallible_segments_nonzero: "seg \<in> set (fallible_segments stx) \<Longrightarrow> seg \<noteq> GUARANTEED_SEGMENT"
  by (auto simp: fallible_segments_def)

lemma apply_fallible_frame:
  assumes "apply_fallible E ga ctx = Ok (s', r)"
  shows "ls_replay_protection s' = ls_replay_protection (ga_state ga)"
proof (cases "vt_inner (ga_tx ga)")
  case (Standard stx)
  then obtain events results events' where
    "try_fold (fallible_step E ctx (vt_hash (ga_tx ga)) (vt_fees (ga_tx ga)) stx)
      (ga_state ga, [(GUARANTEED_SEGMENT, None)], events) (fallible_segments stx) = Ok (s', results, events')"
    using assms by (auto simp: apply_fallible_def and_then_eq_Ok map_ok_eq)
  from replay_view.fallible_steps_frame [OF this] show ?thesis using fallible_segments_nonzero by auto
qed (use assms in \<open>auto simp: apply_fallible_def and_then_eq_Ok\<close>)

lemma apply_replay:
  assumes "ledger_apply E s tx ctx = Ok (s', r)" "guarded h ttl (tc_tblock ctx) (ls_replay_protection s)"
  shows "guarded h ttl (tc_tblock ctx) (ls_replay_protection s')"
  using assms guaranteed_only_replay [OF _ assms(2)] apply_fallible_frame
  by (fastforce simp: ledger_apply_def split: result.splits)

text \<open>What may follow in a ledger whose clock never runs backwards.\<close>

inductive ledger_follows ::
  "('k, 'f, 'h, 'x, 'b) ledger_env \<Rightarrow> timestamp \<Rightarrow> ('f, 'h, 'x) ledger_state \<Rightarrow> timestamp \<Rightarrow> ('f, 'h, 'x) ledger_state \<Rightarrow> bool"
  for E :: "('k, 'f, 'h, 'x, 'b) ledger_env" and t0 :: timestamp and s0 :: "('f, 'h, 'x) ledger_state" where
  stay: "ledger_follows E t0 s0 t0 s0"
| follow_tx: "ledger_follows E t0 s0 now s \<Longrightarrow> ledger_apply E s tx ctx = Ok (s', r) \<Longrightarrow> tc_tblock ctx = now \<Longrightarrow>
    ledger_follows E t0 s0 now s'"
| follow_system: "ledger_follows E t0 s0 now s \<Longrightarrow> apply_system_tx E s stx now = Ok (s', evs) \<Longrightarrow> ledger_follows E t0 s0 now s'"
| follow_block: "ledger_follows E t0 s0 now s \<Longrightarrow> post_block_update E s now detailed overall = Ok s' \<Longrightarrow>
    ledger_follows E t0 s0 now s'"
| follow_time: "ledger_follows E t0 s0 now s \<Longrightarrow> now \<le> now' \<Longrightarrow> ledger_follows E t0 s0 now' s"

lemma distribute_output_replay:
  assumes "distribute_output E p kind now s out = Ok s'" "guarded h ttl now (ls_replay_protection s)"
  shows "guarded h ttl now (ls_replay_protection s')"
  using assms guarded_member [OF assms(2)]
  by (cases kind) (auto simp: distribute_output_def and_then_eq_Ok map_err_eq)

lemma distribute_night_Ok:
  assumes "distribute_night E kind outs now s = Ok (s', evs)"
  obtains s1 where "try_fold (distribute_output E (ls_parameters s) kind now) s1 outs = Ok s'"
    "ls_replay_protection s1 = ls_replay_protection s"
proof (cases kind)
  case Reward
  with assms obtain t where "try_fold (distribute_output E (ls_parameters s) kind now)
      (s\<lparr>ls_block_reward_pool := ls_block_reward_pool s - t\<rparr>) outs = Ok s'"
    by (auto simp: distribute_night_def Let_def checked_def and_then_eq_Ok split: option.splits if_splits)
  then show thesis by (rule that) simp
next
  case CardanoBridge
  with assms obtain t where "try_fold (distribute_output E (ls_parameters s) kind now)
      (s\<lparr>ls_locked_pool := ls_locked_pool s - t\<rparr>) outs = Ok s'"
    by (auto simp: distribute_night_def Let_def checked_def and_then_eq_Ok split: option.splits if_splits)
  then show thesis by (rule that) simp
qed

lemma system_tx_replay:
  assumes "apply_system_tx E s tx now = Ok (s', evs)" "guarded h ttl now (ls_replay_protection s)"
  shows "guarded h ttl now (ls_replay_protection s')"
proof (cases "\<exists>kind outs. tx = DistributeNight kind outs")
  case True
  then obtain kind outs where "distribute_night E kind outs now s = Ok (s', evs)"
    using assms(1) by (auto simp: apply_system_tx_def)
  from distribute_night_Ok [OF this] obtain s1 where
    1: "try_fold (distribute_output E (ls_parameters s) kind now) s1 outs = Ok s'" "ls_replay_protection s1 = ls_replay_protection s"
    by blast
  show ?thesis
    by (rule try_fold_invariant [OF 1(1), where I = "\<lambda>s. guarded h ttl now (ls_replay_protection s)"])
      (use 1(2) assms(2) distribute_output_replay in auto)
next
  case False
  then have "ls_replay_protection s' = ls_replay_protection s"
    using assms(1)
    by (auto simp: apply_system_tx_def checked_def and_then_eq_Ok map_ok_eq split: system_transaction.splits if_splits)
  with assms(2) show ?thesis by simp
qed

lemma follows_replay:
  assumes "ledger_follows E t0 s0 now s" "guarded h ttl t0 (ls_replay_protection s0)"
  shows "guarded h ttl now (ls_replay_protection s)"
  using assms
proof (induction rule: ledger_follows.induct)
  case (follow_tx now s tx ctx s' r)
  then show ?case using apply_replay by blast
next
  case (follow_system now s stx s' evs)
  then show ?case using system_tx_replay by blast
next
  case (follow_block now s detailed overall s')
  then show ?case using guarded_pruned
    by (auto simp: post_block_update_def apply_post_block_update_def Let_def and_then_eq_Ok)
next
  case (follow_time now s now')
  then show ?case using guarded_later by blast
qed

section \<open>Properties\<close>

text \<open>C4: A transaction is applied at most once. Once the guaranteed section of a standard transaction
  with an intent has been applied, the transaction fails with a violation of the replay protection in
  every state the ledger can reach later, whatever transactions, system transactions and ends of
  blocks come in between and although expired hashes are forgotten; the failure changes nothing.\<close>

theorem transaction_not_replayable:
  assumes "tfm_ok hash_set_container (ls_replay_protection s)" "vt_inner tx = Standard stx" "st_intents stx \<noteq> []"
    "apply_guaranteed_only E s tx ctx = Ok ga" "ledger_apply E s tx ctx = Ok (s1, r1)"
    "ledger_follows E (tc_tblock ctx) s1 now s2" "tc_tblock ctx2 = now"
  shows "\<exists>e. ledger_apply E s2 tx ctx2 = Ok (s2, Failure (ReplayProtectionViolation e))"
proof -
  let ?is = "map snd (sorted_iter (st_intents stx))"
  obtain p where "p \<in> set (st_intents stx)" using assms(3) by (cases "st_intents stx") auto
  then obtain i where i: "i \<in> set ?is" by (auto simp: sorted_iter_def)
  obtain ds where "guaranteed_section E ctx (vt_hash tx) (vt_fees tx) stx s = Ok (ga_state ga, ds)"
    using assms(2,4) by (auto simp: apply_guaranteed_only_def map_ok_eq apply_section_ok)
  from apply_tx_guarded [OF assms(1) guaranteed_section_replay [OF this]] i
  have "guarded (tx_hash_of E i) (intent_ttl i) (tc_tblock ctx) (ls_replay_protection (ga_state ga))"
    unfolding fst_conv by blast
  moreover have "ls_replay_protection s1 = ls_replay_protection (ga_state ga)"
    using apply_fallible_frame assms(4,5) by (auto simp: ledger_apply_def)
  ultimately have "guarded (tx_hash_of E i) (intent_ttl i) now (ls_replay_protection s2)"
    using follows_replay [OF assms(6)] by simp
  from guarded_refuses_tx [where hash = "tx_hash_of E" and tt = intent_ttl, OF this i, of "lp_global_ttl (ls_parameters s2)"]
  obtain e where
    "rp_apply_tx (tx_hash_of E) intent_ttl (ls_replay_protection s2) ?is (tc_tblock ctx2) (lp_global_ttl (ls_parameters s2)) = Err e"
    using assms(7) by auto
  then show ?thesis
    by (simp add: ledger_apply_def apply_guaranteed_only_def assms(2) apply_section_def guaranteed_section_def Let_def)
qed


definition demo_intent :: "timestamp \<Rightarrow> (nat, nat, nat, nat, unit) ledger_intent" where
  "demo_intent ttl =
     \<lparr>guaranteed_unshielded_offer = None, fallible_unshielded_offer = None, intent_actions = [], dust_actions = None,
      intent_ttl = ttl, binding_commitment = ()\<rparr>"

definition demo_tx :: "(nat, nat, nat, nat, unit, unit, unit) standard_transaction" where
  "demo_tx = \<lparr>st_network_id = ''demo'', st_intents = [(1, demo_intent 120)], st_guaranteed_coins = None, st_fallible_coins = [],
     st_binding_randomness = 0\<rparr>"

definition demo_verified :: "(nat, nat, nat, nat, unit) verified_transaction" where
  "demo_verified = \<lparr>vt_inner = Standard demo_tx, vt_hash = zeros 32, vt_fees = 0\<rparr>"

definition demo_ctx :: "(nat, nat, nat) transaction_context" where
  "demo_ctx = \<lparr>tc_ref_state = demo_ledger, tc_block_context = demo_block 100, tc_whitelist = None\<rparr>"

definition demo_applied :: "(nat, nat, nat) ledger_state" where
  "demo_applied = demo_ledger\<lparr>ls_replay_protection := tfm_upsert_one hash_set_container rp_new 120 (zeros 31 @ [120])\<rparr>"

lemma demo_applied_check: "check_night_balance_invariant debug demo_applied = Ok ()"
  by (rule conserved_check) (simp add: demo_applied_def demo_ledger_total)

lemma demo_guaranteed:
  "apply_guaranteed_only (demo_env debug) demo_ledger demo_verified demo_ctx =
     Ok \<lparr>ga_state = demo_applied, ga_tx = demo_verified, ga_deferred_events = []\<rparr>"
proof -
  have "rp_apply_tx (tx_hash_of (demo_env debug)) intent_ttl rp_new [demo_intent 120] 100 3600 =
      Ok (tfm_upsert_one hash_set_container rp_new 120 (zeros 31 @ [120]))"
    by (simp add: rp_apply_tx_def apply_intent_def apply_member_def tfm_contains_def rp_new_def tfm_new_def ms_new_def
        ms_member_def ts_add_def sat_add_def int_bounds demo_intent_def demo_env_def demo_crypto_def erased_def
        intent_erase_signatures_def intent_erase_proofs_def)
  then have "guaranteed_section (demo_env debug) demo_ctx (zeros 32) 0 demo_tx demo_ledger = Ok (demo_applied, [])"
    by (simp add: guaranteed_section_def demo_tx_def demo_ctx_def demo_block_def demo_ledger_def INITIAL_PARAMETERS_def
        sorted_iter_def apply_coins_def fallible_offers_apply_def guaranteed_intent_def demo_intent_def apply_unshielded_def
        apply_actions_def pay_fees_def demo_applied_def Let_def)
  then show ?thesis
    using demo_applied_check
    by (simp add: apply_guaranteed_only_def demo_verified_def apply_section_def)
qed

lemma demo_apply: "ledger_apply (demo_env debug) demo_ledger demo_verified demo_ctx = Ok (demo_applied, Success [])"
proof -
  have "fallible_section (demo_env debug) demo_ctx (zeros 32) demo_tx 1 demo_applied = Ok (demo_applied, [])"
    by (simp add: fallible_section_def demo_tx_def apply_coins_def demo_intent_def apply_unshielded_def apply_actions_def Let_def)
  then have "fallible_step (demo_env debug) demo_ctx (zeros 32) 0 demo_tx (demo_applied, [(0, None)], []) 1 =
      Ok (demo_applied, [(0, None), (1, None)], [])"
    using demo_applied_check
    by (simp add: fallible_step_def apply_section_def GUARANTEED_SEGMENT_def force_all_def)
  moreover have "fallible_segments demo_tx = [1]" by (simp add: fallible_segments_def demo_tx_def GUARANTEED_SEGMENT_def)
  ultimately show ?thesis
    unfolding ledger_apply_def demo_guaranteed
    by (simp add: apply_fallible_def force_all_def demo_verified_def GUARANTEED_SEGMENT_def)
qed

theorem transaction_not_replayable_witness:
  "ledger_apply (demo_env False) demo_ledger demo_verified demo_ctx = Ok (demo_applied, Success []) \<and>
   (\<exists>e. ledger_apply (demo_env False) demo_applied demo_verified demo_ctx = Ok (demo_applied, Failure (ReplayProtectionViolation e)))"
proof -
  have "tfm_ok hash_set_container (ls_replay_protection demo_ledger)"
    by (simp add: demo_ledger_def rp_new_def hash_set_c.new_ok)
  then show ?thesis
    using transaction_not_replayable [OF _ _ _ demo_guaranteed demo_apply ledger_follows.stay refl] demo_apply
    by (simp add: demo_verified_def demo_tx_def)
qed


end
