(* ===== verification/Ledger_Coins.thy ===== *)
theory Ledger_Coins
  imports Ledger_Replay
begin

text \<open>
  Fallible offers of coins. The guaranteed section tries all fallible offers one after the other and
  throws the result away; later each segment applies its own offer, unless the segment fails for
  another reason. That the trial is enough rests on zswap offers being applicable in every state that
  holds no more nullifiers and commitments.
\<close>

section \<open>Simulation of loops\<close>

lemma try_fold_sim:
  assumes "\<And>s s' x t. R s' s \<Longrightarrow> f s x = Ok t \<Longrightarrow> \<exists>t'. f s' x = Ok t' \<and> R t' t"
  shows "R s' s \<Longrightarrow> try_fold f s xs = Ok t \<Longrightarrow> \<exists>t'. try_fold f s' xs = Ok t' \<and> R t' t"
proof (induction xs arbitrary: s s')
  case (Cons x xs)
  then obtain s1 where "f s x = Ok s1" "try_fold f s1 xs = Ok t" by (auto simp: and_then_eq_Ok)
  with Cons assms [OF Cons.prems(1)] show ?case by fastforce
qed simp

lemma try_fold_skip:
  assumes "\<And>s s' x t. R s' s \<Longrightarrow> f s x = Ok t \<Longrightarrow> \<exists>t'. f s' x = Ok t' \<and> R t' t"
    and "\<And>s s' x t. R s' s \<Longrightarrow> f s x = Ok t \<Longrightarrow> R s' t"
  shows "R s' s \<Longrightarrow> try_fold f s xs = Ok t \<Longrightarrow> \<exists>t'. try_fold f s' (filter P xs) = Ok t' \<and> R t' t"
proof (induction xs arbitrary: s s')
  case (Cons x xs)
  then obtain s1 where s1: "f s x = Ok s1" "try_fold f s1 xs = Ok t" by (auto simp: and_then_eq_Ok)
  show ?case
  proof (cases "P x")
    case True
    with Cons.IH [OF _ s1(2)] assms(1) [OF Cons.prems(1) s1(1)] show ?thesis by fastforce
  next
    case False
    with Cons.IH [OF assms(2) [OF Cons.prems(1) s1(1)] s1(2)] show ?thesis by simp
  qed
qed simp

section \<open>Lighter states\<close>

definition lighter :: "('n, 'h, 'f, 'c) z_state \<Rightarrow> ('n, 'h, 'f, 'c) z_state \<Rightarrow> bool" where
  "lighter s' s \<longleftrightarrow> zs_inv s' \<and> zs_inv s \<and> nullifiers s' \<subseteq> nullifiers s \<and> coin_coms_set s' \<subseteq> coin_coms_set s \<and>
     past_roots s' = past_roots s \<and> first_free s' \<le> first_free s \<and> mt_height (coin_coms s') = mt_height (coin_coms s)"

lemma lighter_refl: "zs_inv s \<Longrightarrow> lighter s s"
  by (simp add: lighter_def)

lemma insert_commitment_iff:
  assumes "zs_inv s"
  shows "insert_commitment H s x a None = Ok (t, c, i) \<longleftrightarrow> first_free s < 2 ^ mt_height (coin_coms s) \<and> c = x \<and> i = first_free s \<and>
    t = s\<lparr>coin_coms := mt_set (coin_coms s) (first_free s) x a, coin_coms_set := insert x (coin_coms_set s),
          first_free := first_free s + 1\<rparr>"
proof -
  have bal: "mt_balanced (coin_coms s)" using assms by (simp add: zs_inv_def)
  have "\<not> mt_collapsed_at (coin_coms s) (first_free s)" if "first_free s < 2 ^ mt_height (coin_coms s)"
    using assms that unfolding zs_inv_def by blast
  then show ?thesis by (auto simp: insert_commitment_def result_simps try_update_hash_iff [OF bal])
qed

lemma lighter_insert:
  assumes "lighter s' s" "insert_commitment H s x a None = Ok (t, c, i)" "x \<notin> coin_coms_set s"
  shows "\<exists>t' i'. insert_commitment H s' x a None = Ok (t', c, i') \<and> lighter t' t"
proof -
  have inv: "zs_inv s'" "zs_inv s" using assms(1) by (simp_all add: lighter_def)
  note s = assms(2) [unfolded insert_commitment_iff [OF inv(2)]]
  define t' where "t' = s'\<lparr>coin_coms := mt_set (coin_coms s') (first_free s') x a,
      coin_coms_set := insert x (coin_coms_set s'), first_free := first_free s' + 1\<rparr>"
  have ins: "insert_commitment H s' x a None = Ok (t', x, first_free s')"
    using assms(1) s by (simp add: insert_commitment_iff [OF inv(1)] t'_def lighter_def)
  have "zs_inv t" using insert_commitment_evolves [OF assms(2) inv(2) assms(3)] by blast
  moreover have "zs_inv t'" using insert_commitment_evolves [OF ins inv(1)] assms(1,3) by (auto simp: lighter_def)
  ultimately have "lighter t' t" using assms(1) s by (auto simp: lighter_def t'_def)
  then show ?thesis using ins s by blast
qed

lemma lighter_input:
  "lighter s' s \<Longrightarrow> apply_input s inp None = Ok t \<Longrightarrow> \<exists>t'. apply_input s' inp None = Ok t' \<and> lighter t' t"
  by (auto simp: apply_input_def lighter_def split: if_splits)

lemma lighter_output:
  assumes "lighter s' s" "output_step H None (s, m) out = Ok (t, n)"
  shows "\<exists>t' n'. output_step H None (s', m') out = Ok (t', n') \<and> lighter t' t"
proof -
  obtain c i where ins: "insert_commitment H s (zo_coin_com out) (zo_contract_address out) None = Ok (t, c, i)"
    "zo_coin_com out \<notin> coin_coms_set s"
    using assms(2) by (auto simp: output_step_def apply_output_def and_then_eq_Ok split: if_splits)
  moreover have "zo_coin_com out \<notin> coin_coms_set s'" using assms(1) ins(2) by (auto simp: lighter_def)
  ultimately show ?thesis using lighter_insert [OF assms(1) ins] by (auto simp: output_step_def apply_output_def)
qed

lemma lighter_transient:
  assumes "lighter s' s" "transient_step H None (s, m) tr = Ok (t, n)"
  shows "\<exists>t' n'. transient_step H None (s', m') tr = Ok (t', n') \<and> lighter t' t"
proof -
  let ?add = "\<lambda>s. s\<lparr>nullifiers := insert (zt_nullifier tr) (nullifiers s)\<rparr>"
  obtain c i where ins: "insert_commitment H (?add s) (zt_coin_com tr) (zt_contract_address tr) None = Ok (t, c, i)"
    and new: "zt_coin_com tr \<notin> coin_coms_set s" "zt_nullifier tr \<notin> nullifiers s"
    using assms(2) by (auto simp: transient_step_def apply_transient_def and_then_eq_Ok split: if_splits)
  moreover have "lighter (?add s') (?add s)" using assms(1) by (auto simp: lighter_def)
  moreover have "zt_coin_com tr \<notin> coin_coms_set s'" "zt_nullifier tr \<notin> nullifiers s'"
    using assms(1) new by (auto simp: lighter_def)
  ultimately show ?thesis using lighter_insert [of "?add s'" "?add s"]
    by (fastforce simp: transient_step_def apply_transient_def)
qed

lemma lighter_offer:
  assumes "lighter s' s" "try_apply H s ofr None = Ok (t, n)"
  shows "\<exists>t' n'. try_apply H s' ofr None = Ok (t', n') \<and> lighter t' t"
proof -
  obtain s1 s2 where 1: "try_fold (\<lambda>st inp. apply_input st inp None) s (inputs ofr) = Ok s1"
    and 2: "try_fold (output_step H None) (s1, Map.empty) (outputs ofr) = Ok s2"
    and 3: "try_fold (transient_step H None) s2 (transients ofr) = Ok (t, n)"
    using assms(2) by (auto simp: try_apply_def and_then_eq_Ok)
  obtain s1' where one: "try_fold (\<lambda>st inp. apply_input st inp None) s' (inputs ofr) = Ok s1'" "lighter s1' s1"
    using try_fold_sim [where R = lighter, OF _ assms(1) 1] lighter_input by blast
  let ?R = "\<lambda>p' p. lighter (fst p') (fst p)"
  have "\<exists>t'. try_fold (output_step H None) (s1', Map.empty) (outputs ofr) = Ok t' \<and> ?R t' s2"
    by (rule try_fold_sim [where R = ?R, OF _ _ 2]) (use one(2) lighter_output in fastforce)+
  then obtain s2' where two: "try_fold (output_step H None) (s1', Map.empty) (outputs ofr) = Ok s2'" "?R s2' s2" by blast
  have "\<exists>t'. try_fold (transient_step H None) s2' (transients ofr) = Ok t' \<and> ?R t' (t, n)"
    by (rule try_fold_sim [where R = ?R, OF _ two(2) 3]) (use lighter_transient in fastforce)
  then show ?thesis using one two by (auto simp: try_apply_def)
qed

lemma mt_height_append [simp]: "mt_height (mt_append u k xs) = mt_height u"
  by (induction u k xs rule: mt_append.induct) auto

lemma lighter_after:
  assumes "lighter s' s" "try_apply H s ofr None = Ok (t, n)"
  shows "lighter s' t"
proof -
  have inv: "zs_inv s" using assms(1) by (simp add: lighter_def)
  with try_apply_evolves [OF assms(2) inv] assms(1) show ?thesis by (auto simp: lighter_def evolves_def)
qed

text \<open>Offers that can be applied one after the other can still be when some of them are left out.\<close>

lemma offers_subsequence:
  assumes "zs_inv z" "try_fold (\<lambda>st p. map_ok fst (try_apply H st (snd p) None)) z offers = Ok z1"
  shows "\<exists>z2. try_fold (\<lambda>st p. map_ok fst (try_apply H st (snd p) None)) z (filter P offers) = Ok z2"
proof -
  let ?f = "\<lambda>st p. map_ok fst (try_apply H st (snd p) None)"
  have "\<exists>t'. ?f s' p = Ok t' \<and> lighter t' t" if "lighter s' s" "?f s p = Ok t" for s s' p t
    using that lighter_offer by (fastforce simp: map_ok_eq)
  moreover have "lighter s' t" if "lighter s' s" "?f s p = Ok t" for s s' p t
    using that lighter_after by (fastforce simp: map_ok_eq)
  ultimately show ?thesis
    using try_fold_skip [where R = lighter and f = ?f, OF _ _ lighter_refl [OF assms(1)] assms(2)] by blast
qed

section \<open>Errors of zswap\<close>

definition no_zswap :: "('f tx_invalid, 'a) result \<Rightarrow> bool" where
  "no_zswap r \<longleftrightarrow> (\<forall>e. r \<noteq> Err (TxZswap e))"

lemma no_zswap_simps [simp]: "no_zswap (Ok x)" "no_zswap Panic" "no_zswap (Err e) \<longleftrightarrow> (\<forall>z. e \<noteq> TxZswap z)"
  by (simp_all add: no_zswap_def)

lemma no_zswap_and_then: "no_zswap r \<Longrightarrow> (\<And>x. r = Ok x \<Longrightarrow> no_zswap (f x)) \<Longrightarrow> no_zswap (and_then r f)"
  by (cases r) auto

lemma no_zswap_map_ok [simp]: "no_zswap (map_ok f r) = no_zswap r"
  by (cases r) auto

lemma no_zswap_map_err: "(\<And>e z. g e \<noteq> TxZswap z) \<Longrightarrow> no_zswap (map_err g r)"
  by (cases r) auto

lemma no_zswap_try_fold: "(\<And>s x. no_zswap (f s x)) \<Longrightarrow> no_zswap (try_fold f s xs)"
  by (induction xs arbitrary: s) (auto intro: no_zswap_and_then)

lemma no_zswap_ok_or [simp]: "no_zswap (ok_or m e) \<longleftrightarrow> m \<noteq> None \<or> (\<forall>z. e \<noteq> TxZswap z)"
  by (cases m) auto

lemma update_index_no_zswap: "no_zswap (update_index S s a state bal)"
  by (auto simp: update_index_def contract_state_new_def charged_new_def finished_def intro!: no_zswap_and_then
      split: option.splits result.splits)

lemma call_no_zswap: "no_zswap (apply_call E p guaranteed ctx parent ci source st call)"
  by (cases st)
    (auto simp: apply_call_def Let_def credit_balance_def debit_balance_def update_index_no_zswap
      intro!: no_zswap_and_then no_zswap_map_err no_zswap_try_fold split: option.splits)

lemma deploy_no_zswap: "no_zswap (apply_deploy E p guaranteed ctx source st d)"
  by (cases st) (auto simp: apply_deploy_def Let_def metadata_error_def intro!: no_zswap_and_then no_zswap_map_err
      split: metadata_size_error.splits)

lemma single_update_no_zswap: "no_zswap (apply_single_update c u)"
  by (cases u) (auto simp: Let_def split: option.splits)

lemma maintain_no_zswap: "no_zswap (apply_maintain E p guaranteed ctx st upd)"
  by (cases st) (auto simp: apply_maintain_def apply_maintenance_def metadata_error_def Let_def single_update_no_zswap
      intro!: no_zswap_and_then no_zswap_map_err no_zswap_try_fold split: option.splits metadata_size_error.splits)

lemma actions_no_zswap: "no_zswap (apply_actions E st acts guaranteed ctx parent ci source)"
  unfolding apply_actions_def apply_action_def
  by (intro no_zswap_try_fold) (simp add: call_no_zswap deploy_no_zswap maintain_no_zswap split: contract_action.splits)

lemma unshielded_no_zswap: "no_zswap (apply_unshielded E ctx segment source parent st ofr)"
  by (cases st) (auto simp: apply_unshielded_def with_dust_def intro!: no_zswap_and_then no_zswap_map_err split: option.splits)

lemma output_events_ok: "zswap_output_events source ci ofr \<noteq> Err e"
proof -
  have "try_fold (\<lambda>es out. map_ok (\<lambda>e. es @ [e]) (zswap_output_event source ci out)) es xs \<noteq> Err e" for es xs
    by (induction xs arbitrary: es) (auto simp: result_simps zswap_output_event_def split: prod.splits)
  then show ?thesis by (simp add: zswap_output_events_def)
qed

lemma coins_zswap:
  assumes "apply_coins E ctx source st ofr = Err (TxZswap e)"
  obtains off where "ofr = Some off" "try_apply (tree_hashing (le_crypto E)) (ls_zswap (fst st)) off (tc_whitelist ctx) = Err e"
  using assms by (cases st) (auto simp: apply_coins_def apply_zswap_def result_simps output_events_ok split: option.splits)

lemma fallible_section_zswap:
  assumes "apply_section E ctx h fee tx segment s = Err (TxZswap e)" "segment \<noteq> GUARANTEED_SEGMENT"
  obtains off where "map_of (st_fallible_coins tx) segment = Some off"
    "try_apply (tree_hashing (le_crypto E)) (ls_zswap s) off (tc_whitelist ctx) = Err e"
proof -
  have "apply_coins E ctx (source_at h segment segment) (s, []) (map_of (st_fallible_coins tx) segment) = Err (TxZswap e)"
    using assms unshielded_no_zswap actions_no_zswap
    by (fastforce simp: apply_section_def fallible_section_def and_then_eq_Err map_err_eq Let_def no_zswap_def
        split: option.splits)
  then show thesis using coins_zswap that by (metis fst_conv)
qed

section \<open>The loop over the segments\<close>

abbreviation apply_offer :: "('k, 'f, 'h, 'x, 'b) ledger_env \<Rightarrow> (hash_output, hash_output, 'f, contract_address) z_state \<Rightarrow>
    nat \<times> ('f, 'x) ledger_offer \<Rightarrow> ((hash_output, hash_output, 'f) transaction_invalid, (hash_output, hash_output, 'f, contract_address) z_state) result" where
  "apply_offer E \<equiv> (\<lambda>st p. map_ok fst (try_apply (tree_hashing (le_crypto E)) st (snd p) None))"

definition applicable ::
  "('k, 'f, 'h, 'x, 'b) ledger_env \<Rightarrow> (hash_output, hash_output, 'f, contract_address) z_state \<Rightarrow> (nat \<times> ('f, 'x) ledger_offer) list \<Rightarrow> bool" where
  "applicable E z offers \<longleftrightarrow> (\<forall>P. \<exists>z'. try_fold (apply_offer E) z (filter P offers) = Ok z')"

lemma filter_at:
  "sorted_wrt (<) (map fst R) \<Longrightarrow> map_of R (seg :: nat) = Some off \<Longrightarrow>
   filter (\<lambda>p. fst p = seg \<or> P p \<and> seg < fst p) R = (seg, off) # filter P (filter (\<lambda>p. seg < fst p) R)"
proof (induction R)
  case (Cons p R)
  show ?case
  proof (cases "fst p = seg")
    case True
    then have "\<forall>q \<in> set R. seg < fst q" using Cons.prems by auto
    then have "filter (\<lambda>p. fst p = seg \<or> P p \<and> seg < fst p) R = filter P (filter (\<lambda>p. seg < fst p) R)"
      unfolding filter_filter by (intro filter_cong) auto
    with True Cons.prems show ?thesis by (cases p) auto
  next
    case False
    then have rest: "map_of R seg = Some off" using Cons.prems by (cases p) auto
    then have "(seg, off) \<in> set R" by (rule map_of_SomeD)
    with Cons.prems(1) have "fst p < seg" by force
    with Cons.IH rest Cons.prems(1) show ?thesis by simp
  qed
qed simp

lemma map_of_filter_fst: "P k \<Longrightarrow> map_of (filter (\<lambda>p. P (fst p)) R) k = map_of R k"
  by (induction R) auto

lemma applicable_at:
  assumes "applicable E z R" "sorted_wrt (<) (map fst R)" "map_of R seg = Some off"
  obtains z1 ci where "try_apply (tree_hashing (le_crypto E)) z off None = Ok (z1, ci)"
    "applicable E z1 (filter (\<lambda>p. seg < fst p) R)"
proof -
  have all: "\<exists>z'. try_fold (apply_offer E) z ((seg, off) # filter P (filter (\<lambda>p. seg < fst p) R)) = Ok z'" for P
    using assms(1) [unfolded applicable_def, THEN spec [of _ "\<lambda>p. fst p = seg \<or> P p \<and> seg < fst p"]]
    unfolding filter_at [OF assms(2,3)] .
  obtain z1 ci where "try_apply (tree_hashing (le_crypto E)) z off None = Ok (z1, ci)"
    using all [of "\<lambda>_. False"] by (auto simp: and_then_eq_Ok map_ok_eq)
  with all show thesis by (intro that) (auto simp: applicable_def)
qed

lemma applicable_later: "applicable E z R \<Longrightarrow> applicable E z (filter Q R)"
  unfolding applicable_def filter_filter by blast

lemma fallible_section_coins:
  assumes "apply_section E ctx h fee tx segment s = Ok (s', ds)" "segment \<noteq> GUARANTEED_SEGMENT" "tc_whitelist ctx = None"
  shows "case map_of (st_fallible_coins tx) segment of
     None \<Rightarrow> ls_zswap s' = ls_zswap s
   | Some off \<Rightarrow> \<exists>ci. try_apply (tree_hashing (le_crypto E)) (ls_zswap s) off None = Ok (ls_zswap s', ci)"
proof -
  obtain st1 ci where 1: "apply_coins E ctx (source_at h segment segment) (s, []) (map_of (st_fallible_coins tx) segment) = Ok (st1, ci)"
    and "ls_zswap s' = ls_zswap (fst st1)"
    using assms(1,2)
    by (auto simp: apply_section_ok fallible_section_def and_then_eq_Ok Let_def split: option.splits
        dest!: coins_view.unshielded_frame coins_view.actions_frame)
  with 1 assms(3) show ?thesis
    by (auto simp: apply_coins_def apply_zswap_def result_simps split: option.splits)
qed

lemma fallible_loop:
  assumes "tc_whitelist ctx = None"
    "try_fold (fallible_step E ctx h fee tx) (s, results, events) segs = Ok (s', results', events')"
    "sorted_wrt (<) segs" "\<forall>seg \<in> set segs. seg \<noteq> GUARANTEED_SEGMENT" "applicable E (ls_zswap s) R" "sorted_wrt (<) (map fst R)"
    "\<forall>seg \<in> set segs. map_of (st_fallible_coins tx) seg = map_of R seg" "\<forall>seg z. (seg, Some (TxZswap z)) \<notin> set results"
  shows "(seg, Some (TxZswap z)) \<notin> set results'"
  using assms(2-)
proof (induction segs arbitrary: s results events R)
  case (Cons g segs)
  let ?R = "filter (\<lambda>p. g < fst p) R"
  obtain s1 r1 e1 where step: "fallible_step E ctx h fee tx (s, results, events) g = Ok (s1, r1, e1)"
    and rest: "try_fold (fallible_step E ctx h fee tx) (s1, r1, e1) segs = Ok (s', results', events')"
    using Cons.prems(1) by (auto simp: and_then_eq_Ok)
  have g: "g \<noteq> GUARANTEED_SEGMENT" "map_of (st_fallible_coins tx) g = map_of R g" using Cons.prems(3,6) by simp_all
  have sorted: "sorted_wrt (<) (map fst ?R)" using Cons.prems(5) by (simp add: sorted_wrt_map sorted_wrt_filter)
  have map: "\<forall>seg \<in> set segs. map_of (st_fallible_coins tx) seg = map_of ?R seg"
    using Cons.prems(2,6) by (simp add: map_of_filter_fst [where P = "(<) g"])
  have "applicable E (ls_zswap s1) ?R \<and> (\<forall>seg z. (seg, Some (TxZswap z)) \<notin> set r1)"
  proof (cases "apply_section E ctx h fee tx g s")
    case (Ok p)
    then obtain ds where ok: "apply_section E ctx h fee tx g s = Ok (s1, ds)" and r1: "r1 = results @ [(g, None)]"
      using step by (cases p) (auto simp: fallible_step_def map_ok_eq)
    have "applicable E (ls_zswap s1) ?R"
      using fallible_section_coins [OF ok g(1) assms(1)] g(2) applicable_later [OF Cons.prems(4)]
      by (auto split: option.splits elim!: applicable_at [OF Cons.prems(4,5)])
    with r1 Cons.prems(7) show ?thesis by auto
  next
    case (Err e)
    then have s1: "s1 = s" "r1 = results @ [(g, Some e)]" using step by (auto simp: fallible_step_def)
    have "e \<noteq> TxZswap z" for z
    proof
      assume "e = TxZswap z"
      from fallible_section_zswap [OF Err [unfolded this] g(1)] obtain off where "map_of R g = Some off"
        "try_apply (tree_hashing (le_crypto E)) (ls_zswap s) off None = Err z"
        using g(2) assms(1) by auto
      then show False using applicable_at [OF Cons.prems(4,5)] by force
    qed
    with s1 Cons.prems(7) applicable_later [OF Cons.prems(4)] show ?thesis by auto
  qed (use step in \<open>simp add: fallible_step_def\<close>)
  with Cons.IH [OF rest _ _ _ sorted map] Cons.prems(2,3) show ?case by simp
qed simp

lemma sorted_iter_strict: "distinct (map fst m) \<Longrightarrow> sorted_wrt (<) (map fst (sorted_iter m))"
  by (simp add: sorted_iter_def strict_sorted_iff distinct_map inj_on_def)

lemma sorted_iter_map: "distinct (map fst m) \<Longrightarrow> map_of (sorted_iter m) = map_of m"
  by (rule map_of_inject_set [THEN iffD2]) (simp_all add: sorted_iter_def distinct_map inj_on_def)

lemma remdups_adj_strict: "sorted xs \<Longrightarrow> sorted_wrt (<) (remdups_adj (xs :: nat list))"
  by (induction xs rule: remdups_adj.induct) (fastforce split: if_splits)+

lemma fallible_segments_strict: "sorted_wrt (<) (fallible_segments tx)"
  by (simp add: fallible_segments_def remdups_adj_strict)

lemma guaranteed_section_coins:
  assumes "guaranteed_section E ctx h fee tx s = Ok st" "tc_whitelist ctx = None" "zs_inv (ls_zswap s)"
  shows "zs_inv (ls_zswap (fst st)) \<and> applicable E (ls_zswap (fst st)) (sorted_iter (st_fallible_coins tx))"
proof -
  obtain rp st1 ci z st2 acc where
    1: "apply_coins E ctx (source_at h GUARANTEED_SEGMENT GUARANTEED_SEGMENT) (s\<lparr>ls_replay_protection := rp\<rparr>, [])
        (st_guaranteed_coins tx) = Ok (st1, ci)"
    and 2: "fallible_offers_apply E ctx (ls_zswap (fst st1)) (st_fallible_coins tx) = Ok z"
    and 3: "try_fold (guaranteed_intent E ctx h ci) st1 (sorted_iter (st_intents tx)) = Ok st2"
    and 4: "pay_fees E ctx h fee (sorted_iter (st_intents tx)) st2 = Ok acc" "st = fst acc"
    using assms(1) by (auto simp: guaranteed_section_def Let_def and_then_eq_Ok map_err_eq map_ok_eq)
  have inv: "zs_inv (ls_zswap (fst st1))"
    using 1 assms(2,3) try_apply_evolves
    by (fastforce simp: apply_coins_def apply_zswap_def result_simps split: option.splits)
  have "ls_zswap (fst st2) = ls_zswap (fst st1)"
    by (rule try_fold_frame [where g = "\<lambda>st. ls_zswap (fst st)", OF coins_view.guaranteed_intent_frame 3])
  then have z: "ls_zswap (fst st) = ls_zswap (fst st1)" using coins_view.pay_fees_frame [OF 4(1)] 4(2) by simp
  have "try_fold (apply_offer E) (ls_zswap (fst st1)) (sorted_iter (st_fallible_coins tx)) = Ok z"
    using 2 assms(2) by (simp add: fallible_offers_apply_def map_err_eq case_prod_unfold)
  from offers_subsequence [OF inv this] show ?thesis using z inv unfolding applicable_def by simp
qed

section \<open>Properties\<close>

text \<open>C6: The trial of the guaranteed section is enough. On a full node, once the guaranteed section of a
  transaction has been applied, no fallible segment fails because its offer of coins cannot be
  applied, whichever of the other segments fail for other reasons.\<close>

theorem fallible_coins_apply:
  assumes "zs_inv (ls_zswap s)" "tc_whitelist ctx = None" "vt_inner tx = Standard stx" "distinct (map fst (st_fallible_coins stx))"
    "ledger_apply E s tx ctx = Ok (s', PartialSuccess results events)"
  shows "(seg, Some (TxZswap z)) \<notin> set results"
proof -
  obtain ga where ga: "apply_guaranteed_only E s tx ctx = Ok ga" "apply_fallible E ga ctx = Ok (s', PartialSuccess results events)"
    using assms(5) by (auto simp: ledger_apply_def split: result.splits)
  then obtain ds where "guaranteed_section E ctx (vt_hash tx) (vt_fees tx) stx s = Ok (ga_state ga, ds)" and tx: "ga_tx ga = tx"
    using assms(3) by (auto simp: apply_guaranteed_only_def map_ok_eq apply_section_ok)
  from guaranteed_section_coins [OF this(1) assms(2,1)]
  have app: "applicable E (ls_zswap (ga_state ga)) (sorted_iter (st_fallible_coins stx))" by simp
  obtain ev where "try_fold (fallible_step E ctx (vt_hash tx) (vt_fees tx) stx) (ga_state ga, [(GUARANTEED_SEGMENT, None)], ev)
      (fallible_segments stx) = Ok (s', results, events)"
    using ga(2) assms(3) tx by (auto simp: apply_fallible_def and_then_eq_Ok map_ok_eq split: if_splits)
  from fallible_loop [OF assms(2) this fallible_segments_strict _ app] show ?thesis
    using fallible_segments_nonzero sorted_iter_strict [OF assms(4)] by (auto simp: sorted_iter_map [OF assms(4)])
qed

definition demo_coins :: "(nat, nat) ledger_offer" where
  "demo_coins = \<lparr>inputs = [], outputs = [\<lparr>zo_coin_com = zeros 32, zo_contract_address = None, zo_ciphertext = None\<rparr>],
     transients = [], deltas = []\<rparr>"

definition demo_coin_tx :: "(nat, nat, nat, nat, unit, unit, unit) standard_transaction" where
  "demo_coin_tx = demo_tx\<lparr>st_fallible_coins := [(1, demo_coins)],
     st_intents := [(1, (demo_intent 120)\<lparr>intent_actions :=
       [MaintainAction \<lparr>mu_address = zeros 32, mu_updates = [], mu_counter = 0, mu_signatures = []\<rparr>]\<rparr>)]\<rparr>"

definition demo_coin_verified :: "(nat, nat, nat, nat, unit) verified_transaction" where
  "demo_coin_verified = demo_verified\<lparr>vt_inner := Standard demo_coin_tx\<rparr>"

lemma demo_coins_apply:
  "\<exists>z ci. try_apply H zs_new demo_coins None = Ok (z, ci) \<and> ci (zeros 32) = Some 0"
  by (simp add: demo_coins_def try_apply_def output_step_def apply_output_def insert_commitment_def zs_new_def
      mt_blank_def ZSWAP_TREE_HEIGHT_def try_update_hash.simps(3))

lemma demo_coin_guaranteed:
  "apply_guaranteed_only (demo_env debug) demo_ledger demo_coin_verified demo_ctx =
     Ok \<lparr>ga_state = demo_applied, ga_tx = demo_coin_verified, ga_deferred_events = []\<rparr>"
proof -
  let ?i = "(demo_intent 120)\<lparr>intent_actions :=
       [MaintainAction \<lparr>mu_address = zeros 32, mu_updates = [], mu_counter = 0, mu_signatures = []\<rparr>]\<rparr>"
  obtain z ci where z: "try_apply (tree_hashing (le_crypto (demo_env debug))) zs_new demo_coins None = Ok (z, ci)"
    using demo_coins_apply by blast
  have "rp_apply_tx (tx_hash_of (demo_env debug)) intent_ttl rp_new [?i] 100 3600 =
      Ok (tfm_upsert_one hash_set_container rp_new 120 (zeros 31 @ [120]))"
    by (simp add: rp_apply_tx_def apply_intent_def apply_member_def tfm_contains_def rp_new_def tfm_new_def ms_new_def
        ms_member_def ts_add_def sat_add_def int_bounds demo_intent_def demo_env_def demo_crypto_def erased_def
        intent_erase_signatures_def intent_erase_proofs_def)
  then have "guaranteed_section (demo_env debug) demo_ctx (zeros 32) 0 demo_coin_tx demo_ledger = Ok (demo_applied, [])"
    using z
    by (simp add: guaranteed_section_def demo_coin_tx_def demo_tx_def demo_ctx_def demo_block_def demo_ledger_def INITIAL_PARAMETERS_def
        sorted_iter_def apply_coins_def fallible_offers_apply_def guaranteed_intent_def demo_intent_def apply_unshielded_def
        apply_actions_def apply_action_def apply_maintain_def pay_fees_def demo_applied_def Let_def)
  then show ?thesis
    using demo_applied_check
    by (simp add: apply_guaranteed_only_def demo_coin_verified_def demo_verified_def apply_section_def)
qed

lemma demo_coin_apply:
  "\<exists>events. ledger_apply (demo_env debug) demo_ledger demo_coin_verified demo_ctx =
     Ok (demo_applied, PartialSuccess [(0, None), (1, Some (ContractNotPresent (zeros 32)))] events)"
proof -
  obtain z ci where z: "try_apply (tree_hashing (le_crypto (demo_env debug))) zs_new demo_coins None = Ok (z, ci)" "ci (zeros 32) = Some 0"
    using demo_coins_apply by blast
  have "fallible_section (demo_env debug) demo_ctx (zeros 32) demo_coin_tx 1 demo_applied = Err (ContractNotPresent (zeros 32))"
    using z by (simp add: fallible_section_def demo_coin_tx_def demo_tx_def demo_ctx_def apply_coins_def apply_zswap_def demo_intent_def
        apply_unshielded_def apply_actions_def apply_action_def apply_maintain_def Let_def demo_applied_def demo_ledger_def
        zswap_output_events_def zswap_output_event_def demo_coins_def ledger_index_def)
  then have "fallible_step (demo_env debug) demo_ctx (zeros 32) 0 demo_coin_tx (demo_applied, [(0, None)], []) 1 =
      Ok (demo_applied, [(0, None), (1, Some (ContractNotPresent (zeros 32)))], [])"
    by (simp add: fallible_step_def apply_section_def GUARANTEED_SEGMENT_def force_all_def)
  moreover have "fallible_segments demo_coin_tx = [1]"
    by (simp add: fallible_segments_def demo_coin_tx_def demo_tx_def GUARANTEED_SEGMENT_def)
  ultimately show ?thesis
    unfolding ledger_apply_def demo_coin_guaranteed
    by (simp add: apply_fallible_def force_all_def demo_coin_verified_def demo_verified_def GUARANTEED_SEGMENT_def)
qed

theorem fallible_coins_apply_witness:
  "\<exists>results events. ledger_apply (demo_env False) demo_ledger demo_coin_verified demo_ctx =
     Ok (demo_applied, PartialSuccess results events) \<and> (\<forall>seg z. (seg, Some (TxZswap z)) \<notin> set results)"
proof -
  obtain events where 1: "ledger_apply (demo_env False) demo_ledger demo_coin_verified demo_ctx =
     Ok (demo_applied, PartialSuccess [(0, None), (1, Some (ContractNotPresent (zeros 32)))] events)"
    using demo_coin_apply by blast
  have "zs_inv (ls_zswap demo_ledger)" "tc_whitelist demo_ctx = None" "vt_inner demo_coin_verified = Standard demo_coin_tx"
    "distinct (map fst (st_fallible_coins demo_coin_tx))"
    by (simp_all add: demo_ledger_def demo_ctx_def demo_coin_verified_def demo_coin_tx_def)
  from fallible_coins_apply [OF this 1] 1 show ?thesis by blast
qed

end
