(* ===== verification/Proven_Transaction.thy ===== *)
theory Proven_Transaction
  imports Ledger_State "HOL-Library.List_Lexorder" "HOL-Library.Product_Lexorder"
begin

text \<open>
  Transactions before their verification: offers and calls with their proofs and value commitments
  (\<^verbatim>\<open>zswap/src/structure.rs\<close>, \<^verbatim>\<open>ledger/src/structure.rs\<close>), the erasure of both, the errors a check can
  report (\<^verbatim>\<open>ledger/src/error.rs\<close>), and the states a transaction is checked against
  (\<^verbatim>\<open>StateReference\<close> of \<^verbatim>\<open>ledger/src/verify.rs\<close>).

  The records with proofs extend those of the verified transactions, so that erasing is truncation.
  Proofs, signatures, curve points and the derived encodings that are signed belong to other crates;
  what the checks use of them is the record \<^verbatim>\<open>verify_env\<close>. The vectors and ordered sets in the payload
  of an error are sets.
\<close>

section \<open>Orders\<close>

text \<open>The derived order of token types: by variant, then by hash.\<close>

fun token_rank :: "token_type \<Rightarrow> nat \<times> token_hash" where
  "token_rank (UnshieldedToken h) = (0, h)"
| "token_rank (ShieldedToken h) = (1, h)"
| "token_rank DustToken = (2, [])"

instantiation token_type :: linorder
begin

definition less_eq_token_type :: "token_type \<Rightarrow> token_type \<Rightarrow> bool" where
  "less_eq_token_type a b \<longleftrightarrow> token_rank a \<le> token_rank b"

definition less_token_type :: "token_type \<Rightarrow> token_type \<Rightarrow> bool" where
  "less_token_type a b \<longleftrightarrow> token_rank a < token_rank b"

instance
proof
  fix a b c :: token_type
  show "a < b \<longleftrightarrow> a \<le> b \<and> \<not> b \<le> a" by (simp only: less_eq_token_type_def less_token_type_def less_le_not_le)
  show "a \<le> a" by (simp only: less_eq_token_type_def order_refl)
  show "a \<le> b \<Longrightarrow> b \<le> c \<Longrightarrow> a \<le> c" unfolding less_eq_token_type_def by (rule order_trans)
  show "a \<le> b \<Longrightarrow> b \<le> a \<Longrightarrow> a = b"
    unfolding less_eq_token_type_def
    by (cases a rule: token_rank.cases; cases b rule: token_rank.cases) (auto simp: less_eq_prod_def)
  show "a \<le> b \<or> b \<le> a" by (simp only: less_eq_token_type_def linear)
qed

end

text \<open>The least element of a list, the first element an ordered traversal meets.\<close>

definition least_by :: "('a \<Rightarrow> 'a \<Rightarrow> bool) \<Rightarrow> 'a list \<Rightarrow> 'a option" where
  "least_by lt xs =
     fold (\<lambda>x acc. case acc of None \<Rightarrow> Some x | Some m \<Rightarrow> if lt x m then Some x else Some m) xs None"

definition try_each :: "('a \<Rightarrow> ('e, unit) result) \<Rightarrow> 'a list \<Rightarrow> ('e, unit) result" where
  "try_each f xs = try_fold (\<lambda>_. f) () xs"

section \<open>Structures with proofs\<close>

record ('f, 'g, 'p) proven_input = "(hash_output, 'f, contract_address, byte list) z_input" +
  zi_value_commitment :: 'g
  zi_proof :: 'p

record ('x, 'g, 'p) proven_output = "(hash_output, contract_address, 'x) z_output" +
  zo_value_commitment :: 'g
  zo_proof :: 'p

record ('x, 'g, 'p) proven_transient = "(hash_output, hash_output, contract_address, 'x) z_transient" +
  zt_commitment_input :: 'g
  zt_commitment_output :: 'g
  zt_proof_input :: 'p
  zt_proof_output :: 'p

type_synonym ('f, 'x, 'g, 'p) proven_offer =
  "(('f, 'g, 'p) proven_input, ('x, 'g, 'p) proven_output, ('x, 'g, 'p) proven_transient, token_hash) offer"

record ('f, 'p) proven_call = "'f contract_call" +
  cl_proof :: 'p

datatype ('f, 'h, 'x, 'p) proven_action =
    ProvenCall "('f, 'p) proven_call"
  | ProvenDeploy "('f, 'h, 'x) contract_deploy"
  | ProvenMaintain "'x maintenance_update"

type_synonym ('k, 'f, 'h, 'x, 's, 'p, 'b) proven_intent = "('k, 'f, 's, 'p, ('f, 'h, 'x, 'p) proven_action, 'b) intent"

record ('k, 'f, 'h, 'x, 'g, 's, 'p, 'b) proven_standard =
  pt_network_id :: string
  pt_intents :: "(nat \<times> ('k, 'f, 'h, 'x, 's, 'p, 'b) proven_intent) list"
  pt_guaranteed_coins :: "('f, 'x, 'g, 'p) proven_offer option"
  pt_fallible_coins :: "(nat \<times> ('f, 'x, 'g, 'p) proven_offer) list"
  pt_binding_randomness :: 'x

datatype ('k, 'f, 'h, 'x, 'g, 's, 'p, 'b) proven_transaction =
    ProvenStandard "('k, 'f, 'h, 'x, 'g, 's, 'p, 'b) proven_standard"
  | ProvenClaim "('k, 's) claim_rewards"

section \<open>Erasure\<close>

definition erase_offer :: "('f, 'x, 'g, 'p) proven_offer \<Rightarrow> ('f, 'x) ledger_offer" where
  "erase_offer ofr =
     \<lparr>inputs = map z_input.truncate (inputs ofr), outputs = map z_output.truncate (outputs ofr),
      transients = map z_transient.truncate (transients ofr), deltas = deltas ofr\<rparr>"

fun erase_action :: "('f, 'h, 'x, 'p) proven_action \<Rightarrow> ('f, 'h, 'x) contract_action" where
  "erase_action (ProvenCall c) = CallAction (contract_call.truncate c)"
| "erase_action (ProvenDeploy d) = DeployAction d"
| "erase_action (ProvenMaintain u) = MaintainAction u"

definition erase_intent ::
  "('b \<Rightarrow> 'g) \<Rightarrow> ('k, 'f, 'h, 'x, 's, 'p, 'b) proven_intent \<Rightarrow> ('k, 'f, 's, unit, ('f, 'h, 'x) contract_action, 'g) intent" where
  "erase_intent downgrade i =
     \<lparr>guaranteed_unshielded_offer = guaranteed_unshielded_offer i,
      fallible_unshielded_offer = fallible_unshielded_offer i, intent_actions = map erase_action (intent_actions i),
      dust_actions = map_option da_erase_proofs (dust_actions i), intent_ttl = intent_ttl i,
      binding_commitment = downgrade (binding_commitment i)\<rparr>"

definition erase_standard ::
  "('b \<Rightarrow> 'g) \<Rightarrow> ('k, 'f, 'h, 'x, 'g, 's, 'p, 'b) proven_standard \<Rightarrow> ('k, 'f, 'h, 'x, 's, unit, 'g) standard_transaction" where
  "erase_standard downgrade t =
     \<lparr>st_network_id = pt_network_id t, st_intents = map (\<lambda>(seg, i). (seg, erase_intent downgrade i)) (pt_intents t),
      st_guaranteed_coins = map_option erase_offer (pt_guaranteed_coins t),
      st_fallible_coins = map (\<lambda>(seg, ofr). (seg, erase_offer ofr)) (pt_fallible_coins t),
      st_binding_randomness = pt_binding_randomness t\<rparr>"

definition erase_transaction ::
  "('b \<Rightarrow> 'g) \<Rightarrow> ('k, 'f, 'h, 'x, 'g, 's, 'p, 'b) proven_transaction \<Rightarrow> ('k, 'f, 'h, 'x, 's, unit, 'g) transaction" where
  "erase_transaction downgrade tx =
     (case tx of ProvenStandard t \<Rightarrow> Standard (erase_standard downgrade t) | ProvenClaim c \<Rightarrow> ClaimRewards c)"

section \<open>Errors\<close>

datatype 'x malformed_offer =
    OfferInvalidProof
  | ContractSentCiphertext contract_address 'x
  | NonDisjointCoinMerge
  | OfferNotNormalized
  | MemoOnContractOwnedInput contract_address
  | EmptyMemo
  | MemoTooLarge nat nat

datatype malformed_contract_deploy =
    NonZeroBalance "(token_type \<times> nat) set"
  | IncorrectChargedState
  | MetadataTooLarge entry_point nat nat
  | AuthorityMetadataTooLarge nat nat

text \<open>The three errors of the balance check, variants of \<^verbatim>\<open>MalformedTransaction\<close> themselves.\<close>

datatype balance_check_error =
    BalanceOutOfBounds token_type nat int int balance_operation
  | BalanceConversionFailure token_type nat nat
  | BalanceCheckOverspend token_type nat int

datatype sequencing_check_error =
    CallSequencingViolation nat nat contract_address contract_address
  | SequencingCorrelationViolation contract_address contract_address nat nat
  | GuaranteedInFallibleContextViolation nat nat contract_address contract_address
  | FallibleInGuaranteedContextViolation nat nat contract_address contract_address
  | CausalityConstraintViolation nat nat contract_address contract_address nat nat
  | CallHasEmptyTranscripts nat contract_address nat

datatype ('k, 'f, 'x, 'g) disjoint_check_error =
    ShieldedInputsDisjointFailure "('f, 'g, unit) proven_input set" "('f, 'g, unit) proven_input set"
  | ShieldedOutputsDisjointFailure "('x, 'g, unit) proven_output set" "('x, 'g, unit) proven_output set"
  | UnshieldedInputsDisjointFailure "'k utxo_spend set" "'k utxo_spend set"

datatype 'a subset_check_failure = SubsetCheckFailure (sc_superset: "'a set") (sc_subset: "'a set")

type_synonym 'f call_key = "contract_address \<times> hash_output \<times> 'f"
type_synonym unshielded_spend = "(nat \<times> bool) \<times> (token_type \<times> public_address) \<times> nat"

datatype 'f effects_check_error =
    RealCallsSubsetCheckFailure "(nat \<times> 'f call_key) subset_check_failure"
  | AllCommitmentsSubsetCheckFailure "(nat \<times> hash_output) subset_check_failure"
  | RealUnshieldedSpendsSubsetCheckFailure "unshielded_spend subset_check_failure"
  | ClaimedUnshieldedSpendsUniquenessFailure "((nat \<times> hash_output) \<times> nat) set"
  | ClaimedCallsUniquenessFailure "((nat \<times> 'f call_key) \<times> nat) set"
  | NullifiersNEClaimedNullifiers "(nat \<times> hash_output \<times> contract_address) set" "(nat \<times> hash_output \<times> contract_address) set"
  | CommitmentsNEClaimedShieldedReceives "(nat \<times> hash_output \<times> contract_address) set" "(nat \<times> hash_output \<times> contract_address) set"

datatype ('k, 'f, 'x, 'g) malformed_transaction =
    InvalidNetworkId string string
  | VerifierKeyNotSet contract_address entry_point
  | TransactionTooLarge nat nat
  | VerifierKeyNotPresent contract_address entry_point
  | MalformedContractNotPresent contract_address
  | InvalidProof
  | NotNormalized
  | FallibleWithoutCheckpoint
  | IllegallyDeclaredGuaranteed
  | InvalidSchnorrProof
  | MalformedZswap "'x malformed_offer"
  | FeeCalculation fee_calculation_error
  | CantMergeTypes
  | KeyNotInCommittee contract_address nat
  | InvalidCommitteeSignature contract_address nat
  | InvalidDustRegistrationSignature "('k, 'f, unit) dust_registration"
  | InvalidDustSpendProof timestamp "('f, unit) dust_spend"
  | OutOfDustValidityWindow timestamp timestamp timestamp
  | MultipleDustRegistrationsForKey 'k
  | InsufficientDustForRegistrationFee "('k, 'f, unit) dust_registration" nat
  | ThresholdMissed contract_address nat nat
  | MalformedContractDeploy malformed_contract_deploy
  | IntentSignatureVerificationFailure
  | IntentSegmentIdCollision nat
  | IntentAtGuaranteedSegmentId
  | GuaranteedTranscriptVersion string
  | FallibleTranscriptVersion string
  | TransactionApplicationError transaction_application_error
  | PedersenCheckFailure 'g 'g
  | MalformedBalance balance_check_error
  | EffectsCheckFailure "'f effects_check_error"
  | DisjointCheckFailure "('k, 'f, 'x, 'g) disjoint_check_error"
  | SequencingCheckFailure sequencing_check_error
  | InputsNotSorted "'k utxo_spend list"
  | OutputsNotSorted "utxo_output list"
  | DuplicateInputs "'k utxo_spend list"
  | InputsSignaturesLengthMismatch "'k utxo_spend list" nat
  | ZeroValueUtxo utxo_output

type_synonym ('k, 'f, 'x, 'g, 'a) checked_result = "(('k, 'f, 'x, 'g) malformed_transaction, 'a) result"

section \<open>What is checked, and against what\<close>

record well_formed_strictness =
  enforce_balancing :: bool
  verify_native_proofs :: bool
  verify_contract_proofs :: bool
  verify_signatures :: bool
  enforce_limits :: bool

definition strictness_default :: well_formed_strictness where
  "strictness_default =
     \<lparr>enforce_balancing = True, verify_native_proofs = True, verify_contract_proofs = True, verify_signatures = True,
      enforce_limits = True\<rparr>"

text \<open>The embedded curve: the operations of its group, multiples of the generator by binding
  randomness, and the hash of a token type and a segment to a point.\<close>

record ('x, 'g) curve =
  cv_identity :: 'g
  cv_add :: "'g \<Rightarrow> 'g \<Rightarrow> 'g"
  cv_neg :: "'g \<Rightarrow> 'g"
  cv_mul :: "'g \<Rightarrow> int \<Rightarrow> 'g"
  cv_randomness :: "'x \<Rightarrow> 'g"
  cv_hash :: "token_hash \<times> nat \<Rightarrow> 'g"

record ('k, 'f, 'h, 'x, 'g, 's, 'p, 'b) verify_env =
  ve_ledger :: "('k, 'f, 'h, 'x, 'g) ledger_env"
  ve_curve :: "('x, 'g) curve"
  ve_downgrade :: "'b \<Rightarrow> 'g"
  ve_sealed :: bool
  ve_binding_valid :: "('k, 'f, 'h, 'x, 's, 'p, 'b) proven_intent \<Rightarrow> nat \<Rightarrow> bool"
  ve_key_less :: "'k \<Rightarrow> 'k \<Rightarrow> bool"
  ve_signature_verify :: "byte list \<Rightarrow> 'k \<Rightarrow> 's \<Rightarrow> bool"
  ve_data_to_sign :: "('k, 'f, 'h, 'x, 'g) ledger_intent \<Rightarrow> nat \<Rightarrow> byte list"
  ve_claim_data :: "('k, unit) claim_rewards \<Rightarrow> byte list"
  ve_committee_verify :: "'x \<Rightarrow> byte list \<Rightarrow> 'x \<Rightarrow> bool"
  ve_update_data :: "'x maintenance_update \<Rightarrow> byte list"
  ve_proof_version :: "'p \<Rightarrow> operation_version option"
  ve_proof_verify :: "'x \<Rightarrow> 'p \<Rightarrow> 'f contract_call \<Rightarrow> 'g \<Rightarrow> bool"
  ve_input_proof :: "('f, 'g, 'p) proven_input \<Rightarrow> nat \<Rightarrow> bool"
  ve_output_proof :: "('x, 'g, 'p) proven_output \<Rightarrow> nat \<Rightarrow> bool"
  ve_dust_proof :: "('f, 'p) dust_spend \<Rightarrow> dust_parameters \<Rightarrow> 'f \<Rightarrow> 'f \<Rightarrow> nat \<Rightarrow> 'g \<Rightarrow> timestamp \<Rightarrow> bool"
  ve_input_le :: "('f, 'g, 'p) proven_input \<Rightarrow> ('f, 'g, 'p) proven_input \<Rightarrow> bool"
  ve_output_le :: "('x, 'g, 'p) proven_output \<Rightarrow> ('x, 'g, 'p) proven_output \<Rightarrow> bool"
  ve_transient_le :: "('x, 'g, 'p) proven_transient \<Rightarrow> ('x, 'g, 'p) proven_transient \<Rightarrow> bool"
  ve_size :: "('k, 'f, 'h, 'x, 'g, 's, 'p, 'b) proven_transaction \<Rightarrow> nat"
  ve_hash :: "('k, 'f, 'h, 'x, 'g, 's, 'p, 'b) proven_transaction \<Rightarrow> hash_output"
  ve_costs :: "('k, 'f, 'h, 'x, 'g, 's, 'p, 'b) proven_transaction \<Rightarrow> ('k, 'f, 'h, 'x, 's, unit, 'g) cost_env"

text \<open>A state, or a state for which the transaction is known to be well formed together with the
  state it is checked against now.\<close>

datatype ('f, 'h, 'x) state_reference =
    FullCheck "('f, 'h, 'x) ledger_state"
  | RevalidationReference (previously_validated_state: "('f, 'h, 'x) ledger_state") (new_state: "('f, 'h, 'x) ledger_state")

fun reference_state :: "('f, 'h, 'x) state_reference \<Rightarrow> ('f, 'h, 'x) ledger_state" where
  "reference_state (FullCheck s) = s"
| "reference_state (RevalidationReference _ s) = s"

fun stateless_check ::
  "('f, 'h, 'x) state_reference \<Rightarrow> ('k, 'f, 'x, 'g, unit) checked_result \<Rightarrow> ('k, 'f, 'x, 'g, unit) checked_result" where
  "stateless_check (FullCheck s) check = check"
| "stateless_check (RevalidationReference _ _) check = Ok ()"

fun param_check ::
  "('f, 'h, 'x) state_reference \<Rightarrow> (ledger_parameters \<Rightarrow> ('k, 'f, 'x, 'g, unit) checked_result) \<Rightarrow>
   ('k, 'f, 'x, 'g, unit) checked_result" where
  "param_check (FullCheck s) check = check (ls_parameters s)"
| "param_check (RevalidationReference old new) check =
     (if ls_parameters old \<noteq> ls_parameters new then check (ls_parameters new) else Ok ())"

text \<open>With \<^verbatim>\<open>always\<close> the parameters of the state checked against are used in every case; the checks
  of this kind may return a value.\<close>

definition param_check_always ::
  "('f, 'h, 'x) state_reference \<Rightarrow> (ledger_parameters \<Rightarrow> ('k, 'f, 'x, 'g, 'a) checked_result) \<Rightarrow>
   ('k, 'f, 'x, 'g, 'a) checked_result" where
  "param_check_always R check = check (ls_parameters (reference_state R))"

definition get_op ::
  "('f, 'h, 'x) ledger_state \<Rightarrow> contract_address \<Rightarrow> entry_point \<Rightarrow> ('k, 'f, 'x, 'g, 'x contract_operation) checked_result" where
  "get_op s contract ep =
     and_then (ok_or (ledger_index s contract) (MalformedContractNotPresent contract)) (\<lambda>cstate.
       ok_or (map_of (ct_operations cstate) ep) (VerifierKeyNotPresent contract ep))"

fun op_check ::
  "('f, 'h, 'x) state_reference \<Rightarrow> contract_address \<Rightarrow> entry_point \<Rightarrow>
   ('x contract_operation \<Rightarrow> ('k, 'f, 'x, 'g, unit) checked_result) \<Rightarrow> ('k, 'f, 'x, 'g, unit) checked_result" where
  "op_check (FullCheck s) contract ep check = and_then (get_op s contract ep) check"
| "op_check (RevalidationReference old new) contract ep check =
     and_then (get_op old contract ep) (\<lambda>old_op.
     and_then (get_op new contract ep) (\<lambda>new_op.
       if old_op = new_op then Ok () else check new_op))"

definition get_authority ::
  "('f, 'h, 'x) ledger_state \<Rightarrow> contract_address \<Rightarrow> ('k, 'f, 'x, 'g, 'x maintenance_authority) checked_result" where
  "get_authority s contract =
     map_ok ct_authority (ok_or (ledger_index s contract) (MalformedContractNotPresent contract))"

fun maintenance_check ::
  "('f, 'h, 'x) state_reference \<Rightarrow> contract_address \<Rightarrow> ('x maintenance_authority \<Rightarrow> ('k, 'f, 'x, 'g, unit) checked_result) \<Rightarrow>
   ('k, 'f, 'x, 'g, unit) checked_result" where
  "maintenance_check (FullCheck s) contract check = and_then (get_authority s contract) check"
| "maintenance_check (RevalidationReference old new) contract check =
     and_then (get_authority old contract) (\<lambda>auth_old.
     and_then (get_authority new contract) (\<lambda>auth_new.
       if auth_old = auth_new then Ok () else check auth_new))"

definition fee_availability_check ::
  "('k, 'f, 'h, 'x, 'g, 's, 'p, 'b) verify_env \<Rightarrow> ('f, 'h, 'x) state_reference \<Rightarrow> ('k, 'f, 'h, 'x, 'g) ledger_intent \<Rightarrow> 'k \<Rightarrow>
   (nat \<Rightarrow> ('k, 'f, 'x, 'g, unit) checked_result) \<Rightarrow> ('k, 'f, 'x, 'g, unit) checked_result" where
  "fee_availability_check V R parent night_key check =
     (let s = reference_state R in
      check (generationless_fee_availability (le_crypto (ve_ledger V)) (ls_dust s) (ls_utxo s) parent night_key
        (lp_dust (ls_parameters s))))"

text \<open>The parameters and the roots a dust spend is proved against.\<close>

definition dust_roots ::
  "('k, 'f, 'h, 'x, 'g, 's, 'p, 'b) verify_env \<Rightarrow> ('f, 'h, 'x) ledger_state \<Rightarrow> timestamp \<Rightarrow> dust_parameters \<times> 'f \<times> 'f" where
  "dust_roots V s ctime =
     (let root = (\<lambda>h. case tfm_get h ctime of Some r \<Rightarrow> r | None \<Rightarrow> fr_of_nat (le_crypto (ve_ledger V)) 0)
      in (lp_dust (ls_parameters s), root (du_root_history (d_utxo (ls_dust s))), root (dg_root_history (d_generation (ls_dust s)))))"

fun dust_spend_check ::
  "('k, 'f, 'h, 'x, 'g, 's, 'p, 'b) verify_env \<Rightarrow> ('f, 'h, 'x) state_reference \<Rightarrow> timestamp \<Rightarrow>
   (dust_parameters \<times> 'f \<times> 'f \<Rightarrow> ('k, 'f, 'x, 'g, unit) checked_result) \<Rightarrow> ('k, 'f, 'x, 'g, unit) checked_result" where
  "dust_spend_check V (FullCheck s) ctime check = check (dust_roots V s ctime)"
| "dust_spend_check V (RevalidationReference old new) ctime check =
     (if dust_roots V old ctime = dust_roots V new ctime then Ok () else check (dust_roots V new ctime))"

definition lookup_op :: "('f, 'h, 'x) state_reference \<Rightarrow> contract_address \<Rightarrow> entry_point \<Rightarrow> 'x contract_operation option" where
  "lookup_op R contract ep =
     (case ledger_index (reference_state R) contract of
        None \<Rightarrow> None | Some cstate \<Rightarrow> map_of (ct_operations cstate) ep)"

definition network_check :: "('f, 'h, 'x) state_reference \<Rightarrow> string \<Rightarrow> ('k, 'f, 'x, 'g, unit) checked_result" where
  "network_check R network =
     (let expected = ls_network_id (reference_state R) in guard (expected = network) (InvalidNetworkId expected network))"

end
