(* ===== verification/Balance.thy ===== *)
theory Balance
  imports Proven_Transaction "HOL-Library.Multiset"
begin

text \<open>
  The balance of a transaction (\<^verbatim>\<open>balance\<close> and \<^verbatim>\<open>balancing_check\<close> of \<^verbatim>\<open>ledger/src/verify.rs\<close>): what
  it moves of each token type in each segment, in checked 128-bit arithmetic, and the check that
  nothing is overspent.

  A balance is an association list from token types and segments; the loops of the source call
  \<^verbatim>\<open>update_balance\<close> for one movement after the other.
\<close>

type_synonym balances = "((token_type \<times> nat) \<times> int) list"

datatype movement = Movement (mv_token: token_type) (mv_segment: nat) (mv_value: nat) (mv_operation: balance_operation)

definition interpret_operation :: "balance_operation \<Rightarrow> int \<Rightarrow> int \<Rightarrow> int option" where
  "interpret_operation operation x y =
     (let r = (case operation of Addition \<Rightarrow> x + y | Subtraction \<Rightarrow> x - y)
      in if i128_min \<le> r \<and> r \<le> i128_max then Some r else None)"

definition update_balance :: "balances \<Rightarrow> movement \<Rightarrow> (balance_check_error, balances) result" where
  "update_balance res m =
     (let key = (mv_token m, mv_segment m);
          current = (case map_of res key of Some v \<Rightarrow> v | None \<Rightarrow> 0)
      in and_then (ok_or (if int (mv_value m) \<le> i128_max then Some (int (mv_value m)) else None)
             (BalanceConversionFailure (mv_token m) (mv_segment m) (mv_value m))) (\<lambda>casted.
           map_ok (\<lambda>v. AList.update key v res)
             (ok_or (interpret_operation (mv_operation m) current casted)
               (BalanceOutOfBounds (mv_token m) (mv_segment m) current casted (mv_operation m)))))"

section \<open>The movements of a transaction\<close>

definition dust_movements :: "('k, 'f, 's, 'p, 'a, 'b) intent \<Rightarrow> movement list" where
  "dust_movements i =
     (case dust_actions i of
        None \<Rightarrow> []
      | Some da \<Rightarrow>
          map (\<lambda>spend. Movement DustToken 0 (ds_v_fee spend) Addition) (da_spends da) @
          map (\<lambda>reg. Movement DustToken 0 (dr_allow_fee_payment reg) Addition) (da_registrations da))"

definition unshielded_movements :: "nat \<Rightarrow> ('k, 's) unshielded_offer option \<Rightarrow> movement list" where
  "unshielded_movements segment ofr =
     (case ofr of
        None \<Rightarrow> []
      | Some off \<Rightarrow>
          map (\<lambda>inp. Movement (UnshieldedToken (us_type inp)) segment (us_value inp) Addition) (uof_inputs off) @
          map (\<lambda>out. Movement (UnshieldedToken (uo_type out)) segment (uo_value out) Subtraction) (uof_outputs off))"

text \<open>The inputs of a contract are outputs of the transaction, and its outputs are inputs.\<close>

definition transcript_movements ::
  "(byte list \<Rightarrow> hash_output \<Rightarrow> hash_output) \<Rightarrow> contract_address \<Rightarrow> nat \<Rightarrow> 'f transcript option \<Rightarrow> movement list" where
  "transcript_movements pc address segment t =
     (case t of
        None \<Rightarrow> []
      | Some tr \<Rightarrow>
          let e = tr_effects tr in
          map (\<lambda>(pre, val). Movement (ShieldedToken (custom_token_type pc address pre)) segment val Addition) (shielded_mints e) @
          map (\<lambda>(pre, val). Movement (UnshieldedToken (custom_token_type pc address pre)) segment val Addition) (unshielded_mints e) @
          map (\<lambda>(tt, val). Movement tt segment val Subtraction) (unshielded_inputs e) @
          map (\<lambda>(tt, val). Movement tt segment val Addition) (unshielded_outputs e))"

definition call_movements :: "(byte list \<Rightarrow> hash_output \<Rightarrow> hash_output) \<Rightarrow> nat \<Rightarrow> 'f contract_call \<Rightarrow> movement list" where
  "call_movements pc segment call =
     transcript_movements pc (cl_address call) 0 (cl_guaranteed_transcript call) @
     transcript_movements pc (cl_address call) segment (cl_fallible_transcript call)"

definition intent_movements ::
  "(byte list \<Rightarrow> hash_output \<Rightarrow> hash_output) \<Rightarrow> bool \<Rightarrow> nat \<times> ('k, 'f, 's, 'p, ('f, 'h, 'x) contract_action, 'b) intent \<Rightarrow>
   movement list" where
  "intent_movements pc deltas_only = (\<lambda>(segment, i).
     dust_movements i @ unshielded_movements 0 (guaranteed_unshielded_offer i) @
     unshielded_movements segment (fallible_unshielded_offer i) @
     (if deltas_only then [] else concat (map (call_movements pc segment) (intent_calls i))))"

definition delta_movement :: "nat \<Rightarrow> token_hash \<times> int \<Rightarrow> movement" where
  "delta_movement segment = (\<lambda>(tt, value).
     if value < 0 then Movement (ShieldedToken tt) segment (nat (- value)) Subtraction
     else Movement (ShieldedToken tt) segment (nat value) Addition)"

definition coin_movements :: "nat \<times> ('f, 'x) ledger_offer \<Rightarrow> movement list" where
  "coin_movements = (\<lambda>(segment, ofr). map (delta_movement segment) (deltas ofr))"

definition movements ::
  "(byte list \<Rightarrow> hash_output \<Rightarrow> hash_output) \<Rightarrow> nat option \<Rightarrow> bool \<Rightarrow> ('k, 'f, 'h, 'x, 's, 'p, 'b) standard_transaction \<Rightarrow>
   movement list" where
  "movements pc tx_fees deltas_only tx =
     (case tx_fees of None \<Rightarrow> [] | Some fee \<Rightarrow> [Movement DustToken 0 fee Subtraction]) @
     concat (map (intent_movements pc deltas_only) (sorted_iter (st_intents tx))) @
     concat (map coin_movements (sorted_iter (st_fallible_coins tx) @
       (case st_guaranteed_coins tx of None \<Rightarrow> [] | Some ofr \<Rightarrow> [(0, ofr)])))"

definition balance_maybe_deltas_only ::
  "(byte list \<Rightarrow> hash_output \<Rightarrow> hash_output) \<Rightarrow> nat option \<Rightarrow> bool \<Rightarrow> ('k, 'f, 'h, 'x, 's, 'p, 'b) standard_transaction \<Rightarrow>
   (balance_check_error, balances) result" where
  "balance_maybe_deltas_only pc tx_fees deltas_only tx = try_fold update_balance [] (movements pc tx_fees deltas_only tx)"

definition tx_balance ::
  "(byte list \<Rightarrow> hash_output \<Rightarrow> hash_output) \<Rightarrow> nat option \<Rightarrow> ('k, 'f, 'h, 'x, 's, 'p, 'b) standard_transaction \<Rightarrow>
   (balance_check_error, balances) result" where
  "tx_balance pc tx_fees tx = balance_maybe_deltas_only pc tx_fees False tx"

definition overspent :: "balances \<Rightarrow> ((token_type \<times> nat) \<times> int) option" where
  "overspent bal = least_by (\<lambda>a b. fst a < fst b) (filter (\<lambda>e. snd e < 0) bal)"

definition balancing_check ::
  "(byte list \<Rightarrow> hash_output \<Rightarrow> hash_output) \<Rightarrow> well_formed_strictness \<Rightarrow> nat \<Rightarrow>
   ('k, 'f, 'h, 'x, 's, 'p, 'b) standard_transaction \<Rightarrow> (balance_check_error, unit) result" where
  "balancing_check pc strictness tx_fees tx =
     and_then (tx_balance pc (Some tx_fees) tx) (\<lambda>bal.
       case (if enforce_balancing strictness then overspent bal else None) of
         None \<Rightarrow> Ok ()
       | Some e \<Rightarrow> Err (BalanceCheckOverspend (fst (fst e)) (snd (fst e)) (snd e)))"

section \<open>The exact balance\<close>

definition signed_value :: "movement \<Rightarrow> int" where
  "signed_value m = (case mv_operation m of Addition \<Rightarrow> int (mv_value m) | Subtraction \<Rightarrow> - int (mv_value m))"

definition net :: "token_type \<Rightarrow> nat \<Rightarrow> movement list \<Rightarrow> int" where
  "net tt segment ms = sum_list (map signed_value (filter (\<lambda>m. mv_token m = tt \<and> mv_segment m = segment) ms))"

lemma net_simps [simp]:
  "net tt seg [] = 0" "net tt seg (xs @ ys) = net tt seg xs + net tt seg ys"
  "net tt seg (m # ms) = (if mv_token m = tt \<and> mv_segment m = seg then signed_value m else 0) + net tt seg ms"
  by (simp_all add: net_def)

abbreviation balance_at :: "balances \<Rightarrow> token_type \<Rightarrow> nat \<Rightarrow> int" where
  "balance_at bal tt seg \<equiv> (case map_of bal (tt, seg) of Some v \<Rightarrow> v | None \<Rightarrow> 0)"

lemma update_balance_Ok:
  "update_balance res m = Ok res' \<Longrightarrow> balance_at res' tt seg = balance_at res tt seg + net tt seg [m]"
  by (cases m) (auto simp: update_balance_def interpret_operation_def Let_def and_then_eq_Ok map_ok_eq ok_or_def
      signed_value_def update_conv' split: if_splits option.splits balance_operation.splits)

lemma balance_fold_exact:
  "try_fold update_balance res ms = Ok bal \<Longrightarrow> balance_at bal tt seg = balance_at res tt seg + net tt seg ms"
proof (induction ms arbitrary: res)
  case (Cons m ms)
  then obtain res' where "update_balance res m = Ok res'" "try_fold update_balance res' ms = Ok bal"
    by (auto simp: and_then_eq_Ok)
  with Cons.IH [of res'] show ?case using update_balance_Ok [of res m res' tt seg] by simp
qed simp

lemma net_bound: "\<bar>net tt seg ms\<bar> \<le> int (sum_list (map mv_value ms))"
  by (induction ms) (auto simp: signed_value_def split: balance_operation.splits)

text \<open>No sum leaves the range of the balances when all the values together stay below its bound.\<close>

lemma balance_fold_total:
  assumes "int (sum_list (map mv_value ms)) \<le> i128_max"
  shows "\<exists>bal. try_fold update_balance [] ms = Ok bal"
  using assms
proof (induction ms rule: rev_induct)
  case (snoc m ms)
  then obtain bal where bal: "try_fold update_balance [] ms = Ok bal" by auto
  have "\<bar>balance_at bal (mv_token m) (mv_segment m)\<bar> \<le> int (sum_list (map mv_value ms))"
    using balance_fold_exact [OF bal, of "mv_token m" "mv_segment m"] net_bound [of "mv_token m" "mv_segment m" ms] by simp
  with snoc.prems have "\<exists>bal'. update_balance bal m = Ok bal'"
    by (auto simp: update_balance_def interpret_operation_def Let_def i128_min_def i128_max_def split: balance_operation.splits)
  with bal show ?case by (auto simp: try_fold_append)
qed simp

lemma least_by_None [simp]: "least_by lt xs = None \<longleftrightarrow> xs = []"
proof -
  have "fold (\<lambda>x acc. case acc of None \<Rightarrow> Some x | Some m \<Rightarrow> if lt x m then Some x else Some m) ys (Some y) \<noteq> None" for ys y
    by (induction ys arbitrary: y) auto
  then show ?thesis by (cases xs) (auto simp: least_by_def)
qed

lemma not_overspent: "overspent bal = None \<Longrightarrow> 0 \<le> balance_at bal tt seg"
  by (auto simp: overspent_def filter_empty_conv dest!: map_of_SomeD split: option.splits)

lemma balancing_check_net:
  assumes "balancing_check pc strictness tx_fees tx = Ok ()" "enforce_balancing strictness"
  shows "0 \<le> net tt seg (movements pc (Some tx_fees) False tx)"
proof -
  obtain bal where "try_fold update_balance [] (movements pc (Some tx_fees) False tx) = Ok bal"
    "(case overspent bal of None \<Rightarrow> Ok () | Some e \<Rightarrow> Err (BalanceCheckOverspend (fst (fst e)) (snd (fst e)) (snd e))) = Ok ()"
    using assms by (auto simp: balancing_check_def tx_balance_def balance_maybe_deltas_only_def and_then_eq_Ok)
  then have bal: "try_fold update_balance [] (movements pc (Some tx_fees) False tx) = Ok bal" "overspent bal = None"
    by (cases "overspent bal"; simp)+
  show ?thesis using not_overspent [OF bal(2), of tt seg] balance_fold_exact [OF bal(1), of tt seg] by simp
qed

section \<open>What a balanced transaction moves\<close>

text \<open>The unshielded offers and the transcripts that take effect in a segment.\<close>

definition intent_offers :: "nat \<Rightarrow> nat \<times> ('k, 'f, 's, 'p, 'a, 'b) intent \<Rightarrow> ('k, 's) unshielded_offer list" where
  "intent_offers segment = (\<lambda>(seg, i).
     (if segment = 0 then (case guaranteed_unshielded_offer i of None \<Rightarrow> [] | Some off \<Rightarrow> [off]) else []) @
     (if segment = seg then (case fallible_unshielded_offer i of None \<Rightarrow> [] | Some off \<Rightarrow> [off]) else []))"

definition offers_in :: "('k, 'f, 'h, 'x, 's, 'p, 'b) standard_transaction \<Rightarrow> nat \<Rightarrow> ('k, 's) unshielded_offer list" where
  "offers_in tx segment = concat (map (intent_offers segment) (st_intents tx))"

definition call_effects :: "nat \<Rightarrow> nat \<Rightarrow> 'f contract_call \<Rightarrow> (contract_address \<times> 'f effects) list" where
  "call_effects segment seg call =
     (if segment = 0 then (case cl_guaranteed_transcript call of None \<Rightarrow> [] | Some t \<Rightarrow> [(cl_address call, tr_effects t)]) else []) @
     (if segment = seg then (case cl_fallible_transcript call of None \<Rightarrow> [] | Some t \<Rightarrow> [(cl_address call, tr_effects t)]) else [])"

definition intent_effects ::
  "nat \<Rightarrow> nat \<times> ('k, 'f, 's, 'p, ('f, 'h, 'x) contract_action, 'b) intent \<Rightarrow> (contract_address \<times> 'f effects) list" where
  "intent_effects segment = (\<lambda>(seg, i). concat (map (call_effects segment seg) (intent_calls i)))"

definition effects_in :: "('k, 'f, 'h, 'x, 's, 'p, 'b) standard_transaction \<Rightarrow> nat \<Rightarrow> (contract_address \<times> 'f effects) list" where
  "effects_in tx segment = concat (map (intent_effects segment) (st_intents tx))"

abbreviation total_over :: "'a list \<Rightarrow> ('a \<Rightarrow> nat) \<Rightarrow> nat" where "total_over xs f \<equiv> sum_list (map f xs)"

definition amount_in :: "(token_type \<times> nat) list \<Rightarrow> token_type \<Rightarrow> nat" where
  "amount_in m tt = total_over m (\<lambda>(t, v). if t = tt then v else 0)"

definition inputs_of :: "('k, 's) unshielded_offer \<Rightarrow> token_hash \<Rightarrow> nat" where
  "inputs_of off h = total_over (uof_inputs off) (\<lambda>i. if us_type i = h then us_value i else 0)"

definition outputs_of :: "('k, 's) unshielded_offer \<Rightarrow> token_hash \<Rightarrow> nat" where
  "outputs_of off h = total_over (uof_outputs off) (\<lambda>out. if uo_type out = h then uo_value out else 0)"

definition minted_of ::
  "(byte list \<Rightarrow> hash_output \<Rightarrow> hash_output) \<Rightarrow> contract_address \<times> 'f effects \<Rightarrow> token_hash \<Rightarrow> nat" where
  "minted_of pc ce h =
     total_over (unshielded_mints (snd ce)) (\<lambda>(pre, v). if custom_token_type pc (fst ce) pre = h then v else 0)"

text \<open>The net movement of a list, by parts.\<close>

lemma net_concat: "net tt seg (concat (map f xs)) = sum_list (map (\<lambda>x. net tt seg (f x)) xs)"
  by (induction xs) auto

lemma sum_sorted_iter: "sum_list (map g (sorted_iter xs)) = (sum_list (map g xs) :: int)"
  by (metis mset_map mset_sort sorted_iter_def sum_mset_sum_list)

lemma net_additions:
  "(\<And>x. x \<in> set xs \<Longrightarrow> f x = Movement (t x) (s x) (v x) Addition) \<Longrightarrow>
   net tt seg (map f xs) = int (total_over xs (\<lambda>x. if t x = tt \<and> s x = seg then v x else 0))"
  by (induction xs) (auto simp: signed_value_def)

lemma net_subtractions:
  "(\<And>x. x \<in> set xs \<Longrightarrow> f x = Movement (t x) (s x) (v x) Subtraction) \<Longrightarrow>
   net tt seg (map f xs) = - int (total_over xs (\<lambda>x. if t x = tt \<and> s x = seg then v x else 0))"
  by (induction xs) (auto simp: signed_value_def)

lemma net_unshielded [simp]:
  "net (UnshieldedToken h) seg (unshielded_movements segment ofr) =
     (case ofr of None \<Rightarrow> 0 | Some off \<Rightarrow> if segment = seg then int (inputs_of off h) - int (outputs_of off h) else 0)"
  by (auto simp: unshielded_movements_def net_additions net_subtractions inputs_of_def outputs_of_def split: option.splits)

lemma net_dust_unshielded [simp]:
  "net DustToken seg (unshielded_movements segment ofr) = 0" "net (UnshieldedToken h) seg (dust_movements i) = 0"
  by (simp_all add: unshielded_movements_def dust_movements_def net_additions net_subtractions split: option.splits)

lemma net_deltas [simp]:
  "net (UnshieldedToken h) seg (map (delta_movement segment) ds) = 0" "net DustToken seg (map (delta_movement segment) ds) = 0"
  by (induction ds) (auto simp: delta_movement_def split: prod.splits)

lemma net_coins [simp]:
  "net (UnshieldedToken h) seg (coin_movements so) = 0" "net DustToken seg (coin_movements so) = 0"
  by (simp_all add: coin_movements_def split: prod.splits)

definition effect_net :: "(byte list \<Rightarrow> hash_output \<Rightarrow> hash_output) \<Rightarrow> token_type \<Rightarrow> contract_address \<times> 'f effects \<Rightarrow> int" where
  "effect_net pc tt ce =
     (case tt of UnshieldedToken h \<Rightarrow> int (minted_of pc ce h) | _ \<Rightarrow> 0) -
     int (amount_in (unshielded_inputs (snd ce)) tt) + int (amount_in (unshielded_outputs (snd ce)) tt)"

lemma net_pairs:
  "net tt seg (map (\<lambda>(a, v). Movement (f a) s v Addition) m) =
     (if s = seg then int (total_over m (\<lambda>(a, v). if f a = tt then v else 0)) else 0)"
  "net tt seg (map (\<lambda>(a, v). Movement (f a) s v Subtraction) m) =
     (if s = seg then - int (total_over m (\<lambda>(a, v). if f a = tt then v else 0)) else 0)"
  by (induction m) (auto simp: signed_value_def)

lemma net_transcript:
  assumes "\<And>h. tt \<noteq> ShieldedToken h"
  shows "net tt seg (transcript_movements pc address segment t) =
     (case t of None \<Rightarrow> 0 | Some tr \<Rightarrow> if segment = seg then effect_net pc tt (address, tr_effects tr) else 0)"
proof -
  have zero: "total_over m (\<lambda>(a, v). 0) = 0" for m :: "(hash_output \<times> nat) list" by (induction m) auto
  show ?thesis
    using assms by (cases tt) (auto simp: transcript_movements_def net_pairs net_pairs [where f = "\<lambda>t. t"] effect_net_def
        minted_of_def amount_in_def zero Let_def split: option.splits)
qed

lemma net_call:
  assumes "\<And>h. tt \<noteq> ShieldedToken h"
  shows "net tt segment (call_movements pc seg call) = sum_list (map (effect_net pc tt) (call_effects segment seg call))"
  by (auto simp: call_movements_def call_effects_def net_transcript [OF assms] split: option.splits)

lemma sum_list_concat_map: "sum_list (map g (concat (map f xs))) = (sum_list (map (\<lambda>x. sum_list (map g (f x))) xs) :: int)"
  by (induction xs) auto

lemma net_calls:
  assumes "\<And>h. tt \<noteq> ShieldedToken h"
  shows "net tt segment (concat (map (call_movements pc seg) calls)) =
    sum_list (map (effect_net pc tt) (concat (map (call_effects segment seg) calls)))"
  by (simp add: net_concat net_call [OF assms] sum_list_concat_map)

definition offer_net :: "token_hash \<Rightarrow> ('k, 's) unshielded_offer \<Rightarrow> int" where
  "offer_net h off = int (inputs_of off h) - int (outputs_of off h)"

lemma net_intent_unshielded:
  "net (UnshieldedToken h) segment (intent_movements pc False si) =
     sum_list (map (offer_net h) (intent_offers segment si)) +
     sum_list (map (effect_net pc (UnshieldedToken h)) (intent_effects segment si))"
  by (auto simp: intent_movements_def net_calls offer_net_def intent_offers_def intent_effects_def split: option.splits prod.splits)

lemma net_movements_unshielded:
  "net (UnshieldedToken h) segment (movements pc tx_fees False tx) =
     sum_list (map (offer_net h) (offers_in tx segment)) + sum_list (map (effect_net pc (UnshieldedToken h)) (effects_in tx segment))"
  by (simp add: movements_def net_concat sum_sorted_iter net_intent_unshielded offers_in_def effects_in_def sum_list_concat_map
      sum_list_addf signed_value_def split: option.splits)

text \<open>Fees, and what pays them.\<close>

definition dust_payments :: "('k, 'f, 's, 'p, 'a, 'b) intent \<Rightarrow> nat" where
  "dust_payments i =
     (case dust_actions i of
        None \<Rightarrow> 0
      | Some da \<Rightarrow> total_over (da_spends da) ds_v_fee + total_over (da_registrations da) dr_allow_fee_payment)"

lemma net_dust [simp]: "net DustToken segment (dust_movements i) = (if segment = 0 then int (dust_payments i) else 0)"
  by (simp add: dust_movements_def dust_payments_def net_additions split: option.splits)

lemma net_intent_dust:
  "net DustToken segment (intent_movements pc False si) =
     (if segment = 0 then int (dust_payments (snd si)) else 0) + sum_list (map (effect_net pc DustToken) (intent_effects segment si))"
  by (auto simp: intent_movements_def net_calls intent_effects_def split: prod.splits)

lemma sum_list_int: "sum_list (map (\<lambda>x. int (f x)) xs) = int (sum_list (map f xs))"
  by (induction xs) auto

lemma net_movements_dust:
  "net DustToken segment (movements pc (Some tx_fees) False tx) =
     (if segment = 0 then int (total_over (st_intents tx) (\<lambda>si. dust_payments (snd si))) - int tx_fees else 0) +
     sum_list (map (effect_net pc DustToken) (effects_in tx segment))"
  by (simp add: movements_def net_concat sum_sorted_iter net_intent_dust effects_in_def sum_list_concat_map sum_list_addf
      sum_list_int signed_value_def split: option.splits)

lemma sum_offer_net:
  "sum_list (map (offer_net h) offs) = int (total_over offs (\<lambda>off. inputs_of off h)) - int (total_over offs (\<lambda>off. outputs_of off h))"
  by (induction offs) (auto simp: offer_net_def)

lemma sum_effect_net:
  "sum_list (map (effect_net pc (UnshieldedToken h)) es) =
     int (total_over es (\<lambda>ce. minted_of pc ce h)) - int (total_over es (\<lambda>ce. amount_in (unshielded_inputs (snd ce)) (UnshieldedToken h))) +
     int (total_over es (\<lambda>ce. amount_in (unshielded_outputs (snd ce)) (UnshieldedToken h)))"
  by (induction es) (auto simp: effect_net_def)

section \<open>Properties\<close>

text \<open>C7: The balance check is sound and accounts exactly. When it accepts a transaction, then in every
  segment and for every unshielded token type the outputs to users and the inputs of contracts are
  covered by the inputs of users, the outputs of contracts and what contracts mint; nothing wraps
  around on the way.\<close>

theorem balanced_transactions_create_nothing:
  assumes "balancing_check pc strictness tx_fees tx = Ok ()" "enforce_balancing strictness"
  shows "total_over (offers_in tx segment) (\<lambda>off. outputs_of off h) +
      total_over (effects_in tx segment) (\<lambda>ce. amount_in (unshielded_inputs (snd ce)) (UnshieldedToken h)) \<le>
    total_over (offers_in tx segment) (\<lambda>off. inputs_of off h) +
      total_over (effects_in tx segment) (\<lambda>ce. amount_in (unshielded_outputs (snd ce)) (UnshieldedToken h)) +
      total_over (effects_in tx segment) (\<lambda>ce. minted_of pc ce h)"
  using balancing_check_net [OF assms, of "UnshieldedToken h" segment]
  unfolding net_movements_unshielded sum_offer_net sum_effect_net by simp

definition sample_payment :: "(nat, unit) unshielded_offer" where
  "sample_payment =
     \<lparr>uof_inputs = [\<lparr>us_value = 7, us_owner = 1, us_type = NIGHT, us_intent_hash = zeros 32, us_output_no = 0\<rparr>],
      uof_outputs = [\<lparr>uo_value = 5, uo_owner = zeros 32, uo_type = NIGHT\<rparr>], uof_signatures = []\<rparr>"

definition sample_spend :: "(nat, unit) dust_spend" where
  "sample_spend = \<lparr>ds_v_fee = 3, ds_old_nullifier = 1, ds_new_commitment = 2, ds_proof = ()\<rparr>"

definition sample_balanced :: "(nat, nat, nat, nat, unit, unit, unit) standard_transaction" where
  "sample_balanced =
     \<lparr>st_network_id = ''demo'',
      st_intents = [(1, \<lparr>guaranteed_unshielded_offer = Some sample_payment, fallible_unshielded_offer = None, intent_actions = [],
        dust_actions = Some \<lparr>da_spends = [sample_spend], da_registrations = [], da_ctime = 0\<rparr>, intent_ttl = 120, binding_commitment = ()\<rparr>)],
      st_guaranteed_coins = None, st_fallible_coins = [], st_binding_randomness = 0\<rparr>"

lemma sample_balancing: "balancing_check pc strictness_default 3 sample_balanced = Ok ()"
  by (simp add: balancing_check_def tx_balance_def balance_maybe_deltas_only_def movements_def sorted_iter_def sample_balanced_def
      sample_payment_def sample_spend_def intent_movements_def dust_movements_def unshielded_movements_def intent_calls_def
      update_balance_def interpret_operation_def Let_def int_bounds overspent_def least_by_def List.map_filter_def)

theorem balanced_transactions_create_nothing_witness:
  "balancing_check (\<lambda>_ h. h) strictness_default 3 sample_balanced = Ok () \<and>
   total_over (offers_in sample_balanced 0) (\<lambda>off. outputs_of off NIGHT) = 5 \<and>
   total_over (offers_in sample_balanced 0) (\<lambda>off. inputs_of off NIGHT) \<ge> 5"
proof -
  have "enforce_balancing strictness_default" by (simp add: strictness_default_def)
  from balanced_transactions_create_nothing [OF sample_balancing [of "\<lambda>_ h. h"] this, where segment = 0 and h = NIGHT] sample_balancing show ?thesis
    by (simp add: offers_in_def intent_offers_def effects_in_def intent_effects_def sample_balanced_def sample_payment_def
        outputs_of_def inputs_of_def intent_calls_def List.map_filter_def)
qed

end
