(* ===== verification/Fee_Payment.thy ===== *)
theory Fee_Payment
  imports Ledger_Coins Balance
begin

text \<open>
  Fees of a transaction: what the balance check promises at verification
  (\<^verbatim>\<open>ledger/src/verify.rs\<close>), and what the guaranteed section collects (\<^verbatim>\<open>ledger/src/semantics.rs\<close>).
\<close>

section \<open>What fee payment leaves alone\<close>

definition indices_kept :: "initial_nonce set \<Rightarrow> 'f dust_state \<Rightarrow> 'f dust_state \<Rightarrow> bool" where
  "indices_kept ns d d' \<longleftrightarrow> (\<forall>n\<in>ns. night_indices (d_generation d') n = night_indices (d_generation d) n)"

lemma indices_kept_refl [simp]: "indices_kept ns d d" by (simp add: indices_kept_def)

lemma indices_kept_trans: "indices_kept ns a b \<Longrightarrow> indices_kept ns b c \<Longrightarrow> indices_kept ns a c"
  by (simp add: indices_kept_def)

definition input_nonces :: "('k, 'f, 'a, 'b) crypto \<Rightarrow> ('k, 'f, 'a, 'b) erased_intent \<Rightarrow> initial_nonce set" where
  "input_nonces E i = spend_nonce E ` set (night_inputs (guaranteed_unshielded_offer i))"

definition output_nonces :: "('k, 'f, 'a, 'b) crypto \<Rightarrow> ('k, 'f, 'a, 'b) erased_intent \<Rightarrow> initial_nonce set" where
  "output_nonces E i = range (\<lambda>n. initial_nonce E n (intent_hash E i 0))"

lemma availability_kept:
  assumes "indices_kept ns d d'" "input_nonces E i \<subseteq> ns"
  shows "generationless_fee_availability E d' us i key p = generationless_fee_availability E d us i key p"
proof -
  have "filter (\<lambda>inp. us_owner inp = key \<and> night_indices (d_generation d') (spend_nonce E inp) = None)
        (night_inputs (guaranteed_unshielded_offer i)) =
      filter (\<lambda>inp. us_owner inp = key \<and> night_indices (d_generation d) (spend_nonce E inp) = None)
        (night_inputs (guaranteed_unshielded_offer i))"
    by (rule filter_cong [OF refl]) (use assms in \<open>auto simp: indices_kept_def input_nonces_def\<close>)
  then show ?thesis by (simp add: generationless_fee_availability_def)
qed

lemma fresh_dust_output_kept:
  "fresh_dust_output E st nonce v w addr t tb = Ok st' \<Longrightarrow> nonce \<notin> ns \<Longrightarrow> indices_kept ns (fst st) (fst st')"
  by (cases st) (auto simp: fresh_dust_output_def Let_def and_then_eq_Ok indices_kept_def split: if_splits)

lemma apply_spend_kept: "apply_spend E st spend t tb = Ok st' \<Longrightarrow> indices_kept ns (fst st) (fst st')"
  by (cases st) (auto simp: apply_spend_def Let_def and_then_eq_Ok indices_kept_def split: if_splits)

lemma update_delegation_kept: "update_delegation s a d = Ok s' \<Longrightarrow> indices_kept ns s s'"
  by (auto simp: update_delegation_def Let_def indices_kept_def split: option.splits if_splits)

lemma register_outputs_kept:
  assumes "try_fold (register_output E ih output_sum out addr t tb) st owned = Ok st'" "\<And>n. initial_nonce E n ih \<notin> ns"
  shows "indices_kept ns (fst st) (fst st')"
proof (rule try_fold_invariant [OF assms(1), where I = "\<lambda>s. indices_kept ns (fst st) (fst s)"])
  fix s s' x assume "indices_kept ns (fst st) (fst s)" "register_output E ih output_sum out addr t tb s x = Ok s'"
  then show "indices_kept ns (fst st) (fst s')"
    using assms(2) by (cases x) (auto simp: register_output_def and_then_eq_Ok map_err_eq
        intro: indices_kept_trans fresh_dust_output_kept)
qed simp

lemma apply_registration_pays:
  assumes "apply_registration E (d, evs) us due i reg p t tb = Ok (st', remaining)" "output_nonces E i \<inter> ns = {}"
  shows "indices_kept ns d (fst st') \<and>
    remaining = due - min (dr_allow_fee_payment reg) (generationless_fee_availability E d us i (dr_night_key reg) p)"
proof -
  have fresh: "initial_nonce E n (intent_hash E i 0) \<notin> ns" for n
    using assms(2) by (auto simp: output_nonces_def)
  obtain d1 where d1: "update_delegation d (key_address E (dr_night_key reg)) (dr_dust_address reg) = Ok d1"
    using assms(1) by (auto simp: apply_registration_def Let_def and_then_eq_Ok)
  from update_delegation_kept [OF d1] have kept: "indices_kept ns d d1" .
  show ?thesis
  proof (cases "dr_dust_address reg")
    case None
    with assms(1) d1 kept show ?thesis by (auto simp: apply_registration_def Let_def)
  next
    case (Some a)
    with assms(1) d1 kept show ?thesis
      by (auto simp: apply_registration_def Let_def map_ok_eq intro: indices_kept_trans dest!: register_outputs_kept [OF _ fresh])
  qed
qed

section \<open>What fee payment collects\<close>

lemma pay_spend_Ok:
  "pay_spend E ctx h (st, due) (seg, t, spend) = Ok (st', due') \<Longrightarrow>
     due' = due - ds_v_fee spend \<and> indices_kept ns (ls_dust (fst st)) (ls_dust (fst st')) \<and>
     ls_parameters (fst st') = ls_parameters (fst st)"
  by (cases st) (fastforce simp: pay_spend_def with_dust_def map_ok_eq map_err_eq dest: apply_spend_kept)

lemma pay_spends_Ok:
  "try_fold (pay_spend E ctx h) (st, due) spends = Ok (st', due') \<Longrightarrow>
     due' = due - total_over spends (\<lambda>(_, _, spend). ds_v_fee spend) \<and>
     indices_kept ns (ls_dust (fst st)) (ls_dust (fst st')) \<and> ls_parameters (fst st') = ls_parameters (fst st)"
proof (induction spends arbitrary: st due)
  case (Cons x spends)
  obtain seg t spend where x: "x = (seg, t, spend)" by (cases x)
  from Cons.prems obtain st1 due1 where "pay_spend E ctx h (st, due) x = Ok (st1, due1)"
    "try_fold (pay_spend E ctx h) (st1, due1) spends = Ok (st', due')"
    by (auto simp: and_then_eq_Ok)
  with Cons.IH [of st1 due1] pay_spend_Ok [of E ctx h st due seg t spend st1 due1 ns] x indices_kept_trans show ?case by auto
qed simp

definition covered ::
  "('k, 'f, 'h, 'x, 'b) ledger_env \<Rightarrow> utxo_state \<Rightarrow> 'f dust_state \<Rightarrow> dust_parameters \<Rightarrow> initial_nonce set \<Rightarrow>
   nat \<times> ('k, 'f, 'h, 'x, 'b) ledger_intent \<times> timestamp \<times> ('k, 'f, unit) dust_registration \<Rightarrow> bool" where
  "covered E us d p ns = (\<lambda>(_, i, _, reg).
     input_nonces (le_crypto E) (erased i) \<subseteq> ns \<and> output_nonces (le_crypto E) (erased i) \<inter> ns = {} \<and>
     dr_allow_fee_payment reg \<le> generationless_fee_availability (le_crypto E) d us (erased i) (dr_night_key reg) p)"

lemma pay_registration_Ok:
  assumes "pay_registration E ctx h (st, due) (seg, i, t, reg) = Ok (st', due')"
    "covered E (ls_utxo (tc_ref_state ctx)) d0 (lp_dust (ls_parameters (fst st))) ns (seg, i, t, reg)"
    "indices_kept ns d0 (ls_dust (fst st))"
  shows "due' = due - dr_allow_fee_payment reg \<and> indices_kept ns d0 (ls_dust (fst st')) \<and>
    ls_parameters (fst st') = ls_parameters (fst st)"
proof -
  obtain step where step: "apply_registration (le_crypto E) (ls_dust (fst st), []) (ls_utxo (tc_ref_state ctx)) due (erased i) reg
      (lp_dust (ls_parameters (fst st))) t (tc_tblock ctx) = Ok (step, due')"
    "ls_dust (fst st') = fst step" "ls_parameters (fst st') = ls_parameters (fst st)"
    using assms(1) by (cases st) (auto simp: pay_registration_def with_dust_def and_then_eq_Ok map_err_eq map_ok_eq)
  have cov: "input_nonces (le_crypto E) (erased i) \<subseteq> ns" "output_nonces (le_crypto E) (erased i) \<inter> ns = {}"
    "dr_allow_fee_payment reg \<le> generationless_fee_availability (le_crypto E) d0 (ls_utxo (tc_ref_state ctx)) (erased i)
       (dr_night_key reg) (lp_dust (ls_parameters (fst st)))"
    using assms(2) by (simp_all add: covered_def)
  from apply_registration_pays [OF step(1) cov(2)] availability_kept [OF assms(3) cov(1)] cov(3)
  have "indices_kept ns (ls_dust (fst st)) (fst step)" "due' = due - dr_allow_fee_payment reg"
    by (simp_all add: min_absorb1)
  with step assms(3) indices_kept_trans show ?thesis by auto
qed

lemma pay_registrations_Ok:
  "try_fold (pay_registration E ctx h) (st, due) regs = Ok (st', due') \<Longrightarrow>
   list_all (covered E (ls_utxo (tc_ref_state ctx)) d0 (lp_dust (ls_parameters (fst st))) ns) regs \<Longrightarrow>
   indices_kept ns d0 (ls_dust (fst st)) \<Longrightarrow> due' = due - total_over regs (\<lambda>(_, _, _, reg). dr_allow_fee_payment reg)"
proof (induction regs arbitrary: st due)
  case (Cons x regs)
  obtain seg i t reg where x: "x = (seg, i, t, reg)" by (cases x)
  from Cons.prems(1) obtain st1 due1 where 1: "pay_registration E ctx h (st, due) x = Ok (st1, due1)"
    "try_fold (pay_registration E ctx h) (st1, due1) regs = Ok (st', due')"
    by (auto simp: and_then_eq_Ok)
  with pay_registration_Ok [of E ctx h st due seg i t reg st1 due1 d0 ns] Cons.prems(2,3) x
  have "due1 = due - dr_allow_fee_payment reg" "indices_kept ns d0 (ls_dust (fst st1))" "ls_parameters (fst st1) = ls_parameters (fst st)"
    by simp_all
  with Cons.IH [OF 1(2)] Cons.prems(2) x show ?case by simp
qed simp

text \<open>The registrations of a transaction in the order in which they are applied.\<close>

definition registrations_of ::
  "(nat \<times> ('k, 'f, 'h, 'x, 'b) ledger_intent) list \<Rightarrow>
   (nat \<times> ('k, 'f, 'h, 'x, 'b) ledger_intent \<times> timestamp \<times> ('k, 'f, unit) dust_registration) list" where
  "registrations_of intents = concat (map (\<lambda>(seg, i). case dust_actions i of
     None \<Rightarrow> [] | Some da \<Rightarrow> map (\<lambda>r. (seg, i, da_ctime da, r)) (da_registrations da)) intents)"

lemma pay_fees_collects:
  assumes "pay_fees E ctx h tx_fees intents st = Ok (st', remaining)"
    "list_all (covered E (ls_utxo (tc_ref_state ctx)) (ls_dust (fst st)) (lp_dust (ls_parameters (fst st))) ns) (registrations_of intents)"
  shows "remaining = tx_fees - total_over intents (\<lambda>si. dust_payments (snd si))"
proof -
  let ?spends = "concat (map (\<lambda>(seg, i). case dust_actions i of
      None \<Rightarrow> [] | Some da \<Rightarrow> map (\<lambda>s. (seg, da_ctime da, s)) (da_spends da)) intents)"
  obtain st1 due where 1: "try_fold (pay_spend E ctx h) (st, tx_fees) ?spends = Ok (st1, due)"
    "try_fold (pay_registration E ctx h) (st1, due) (registrations_of intents) = Ok (st', remaining)"
    using assms(1) by (auto simp: pay_fees_def registrations_of_def Let_def and_then_eq_Ok)
  from pay_spends_Ok [OF 1(1), of ns] pay_registrations_Ok [OF 1(2), of "ls_dust (fst st)" ns] assms(2)
  have "remaining = tx_fees - (total_over ?spends (\<lambda>(_, _, spend). ds_v_fee spend) +
      total_over (registrations_of intents) (\<lambda>(_, _, _, reg). dr_allow_fee_payment reg))" by simp
  moreover have "total_over ?spends (\<lambda>(_, _, spend). ds_v_fee spend) +
      total_over (registrations_of intents) (\<lambda>(_, _, _, reg). dr_allow_fee_payment reg) =
      total_over intents (\<lambda>si. dust_payments (snd si))"
    by (induction intents) (auto simp: registrations_of_def dust_payments_def comp_def split: option.splits)
  ultimately show ?thesis by simp
qed

lemma total_sorted_iter: "total_over (sorted_iter xs) f = total_over xs f"
  by (metis mset_map mset_sort sorted_iter_def sum_mset_sum_list)

definition dust_given :: "(contract_address \<times> 'f effects) list \<Rightarrow> nat" where
  "dust_given es = total_over es (\<lambda>ce. amount_in (unshielded_outputs (snd ce)) DustToken)"

definition dust_taken :: "(contract_address \<times> 'f effects) list \<Rightarrow> nat" where
  "dust_taken es = total_over es (\<lambda>ce. amount_in (unshielded_inputs (snd ce)) DustToken)"

lemma sum_effect_net_dust: "sum_list (map (effect_net pc DustToken) es) = int (dust_given es) - int (dust_taken es)"
  by (induction es) (auto simp: effect_net_def dust_given_def dust_taken_def)

section \<open>Properties\<close>


definition sample_paying :: "(nat, nat, nat, nat, unit) ledger_intent" where
  "sample_paying =
     \<lparr>guaranteed_unshielded_offer = Some sample_payment, fallible_unshielded_offer = None, intent_actions = [],
      dust_actions = Some \<lparr>da_spends = [sample_spend],
        da_registrations = [\<lparr>dr_night_key = 1, dr_dust_address = Some 9, dr_allow_fee_payment = 2, dr_signature = Some ()\<rparr>],
        da_ctime = 120\<rparr>, intent_ttl = 120, binding_commitment = ()\<rparr>"

definition sample_fees :: "(nat, nat, nat, nat, unit, unit, unit) standard_transaction" where
  "sample_fees = sample_balanced\<lparr>st_intents := [(1, sample_paying)]\<rparr>"

definition sample_fee_ctx :: "(nat, nat, nat) transaction_context" where
  "sample_fee_ctx = demo_ctx\<lparr>tc_ref_state := demo_ledger\<lparr>ls_utxo :=
     [(utxo_of_spend (key_address demo_crypto) (hd (uof_inputs sample_payment)), \<lparr>um_ctime = 100\<rparr>)]\<rparr>\<rparr>"

lemmas sample_fee_defs = sample_fees_def sample_paying_def sample_balanced_def sample_payment_def sample_spend_def

lemmas erased_defs = erased_def intent_erase_signatures_def intent_erase_proofs_def uof_erase_signatures_def
  da_erase_signatures_def da_erase_proofs_def

lemma sample_zeros: "zeros 32 = zeros 31 @ [0]"
  by (simp add: numeral_eq_Suc replicate_append_same)

lemma sample_fee_balancing: "balancing_check pc strictness_default 5 sample_fees = Ok ()"
  by (simp add: balancing_check_def tx_balance_def balance_maybe_deltas_only_def movements_def sorted_iter_def sample_fee_defs
      intent_movements_def dust_movements_def unshielded_movements_def intent_calls_def
      update_balance_def interpret_operation_def Let_def int_bounds overspent_def least_by_def List.map_filter_def)

lemma sample_availability:
  "generationless_fee_availability demo_crypto dust_state_default (ls_utxo (tc_ref_state sample_fee_ctx)) (erased sample_paying) 1
     INITIAL_DUST_PARAMETERS = 1157380"
  by (simp add: generationless_fee_availability_def sample_fee_ctx_def night_inputs_def generationless_value_def elapsed_eq
      sat_mul_def sat_add_def u128_max_def utxo_of_spend_def sample_fee_defs INITIAL_DUST_PARAMETERS_def SPECKS_PER_DUST_def
      STARS_PER_NIGHT_def erased_defs
      dust_state_default_def dust_generation_state_default_def)

lemma sample_covered:
  "list_all (covered (demo_env False) (ls_utxo (tc_ref_state sample_fee_ctx)) dust_state_default INITIAL_DUST_PARAMETERS {0 # zeros 32})
     (registrations_of (sorted_iter (st_intents sample_fees)))"
proof -
  have "input_nonces demo_crypto (erased sample_paying) = {0 # zeros 32}"
    by (simp add: input_nonces_def night_inputs_def spend_nonce_def initial_nonce_def demo_crypto_def sample_fee_defs
        erased_defs)
  moreover have "output_nonces demo_crypto (erased sample_paying) \<inter> {0 # zeros 32} = {}"
    by (auto simp: sample_zeros output_nonces_def initial_nonce_def demo_crypto_def sample_paying_def erased_defs)
  ultimately show ?thesis using sample_availability
    by (simp add: covered_def registrations_of_def sorted_iter_def sample_fees_def demo_env_def) (simp add: sample_paying_def)
qed

lemma sample_spend_paid:
  "\<exists>st'. pay_spend (demo_env False) ctx h ((demo_ledger, []), 5) (1, t, sample_spend) = Ok (st', 2)"
proof -
  have "\<exists>tree. try_update_hash (mt_blank DUST_COMMITMENT_TREE_DEPTH :: (hash_output, nat, unit) mt_node) 0 (upgrade_from_transient demo_crypto 2) () = Ok tree"
    by (rule exI, rule try_update_hash_Ok) (simp_all add: mt_blank_def)
  then show ?thesis
    by (auto simp: pay_spend_def with_dust_def apply_spend_def demo_ledger_def demo_env_def sample_spend_def
        dust_state_default_def dust_utxo_state_default_def)
qed

lemma sample_registration_paid:
  assumes "dr_night_key reg = 1" "dr_dust_address reg = Some a"
  shows "\<exists>st' r. pay_registration (demo_env False) ctx h (st, due) (seg, sample_paying, t, reg) = Ok (st', r)"
proof -
  have "owned_outputs (guaranteed_unshielded_offer (erased sample_paying)) (key_address demo_crypto (Suc 0)) = []"
    by (simp add: owned_outputs_def sample_fee_defs erased_defs demo_crypto_def sample_zeros)
  then show ?thesis
    using assms by (cases st) (simp add: pay_registration_def apply_registration_def update_delegation_def with_dust_def Let_def demo_env_def)
qed

lemma sample_fees_paid:
  "\<exists>st' remaining. pay_fees (demo_env False) sample_fee_ctx (zeros 32) 5 (sorted_iter (st_intents sample_fees)) (demo_ledger, []) =
     Ok (st', remaining)"
proof -
  let ?reg = "\<lparr>dr_night_key = 1, dr_dust_address = Some 9, dr_allow_fee_payment = 2, dr_signature = Some ()\<rparr>"
  obtain st1 where "pay_spend (demo_env False) sample_fee_ctx (zeros 32) ((demo_ledger, []), 5) (1, 120, sample_spend) = Ok (st1, 2)"
    using sample_spend_paid by blast
  moreover obtain st2 r where
    "pay_registration (demo_env False) sample_fee_ctx (zeros 32) (st1, 2) (1, sample_paying, 120, ?reg) = Ok (st2, r)"
    using sample_registration_paid [of ?reg 9] by fastforce
  moreover have "dust_actions sample_paying = Some \<lparr>da_spends = [sample_spend], da_registrations = [?reg], da_ctime = 120\<rparr>"
    by (simp add: sample_paying_def)
  ultimately show ?thesis by (simp add: pay_fees_def sorted_iter_def sample_fees_def Let_def)
qed


text \<open>The bound is reached: dust that a contract gives out balances the fees at verification, and no
  part of fee payment collects it.\<close>

definition sample_sponsored :: "(nat, nat, nat, nat, unit, unit, unit) standard_transaction" where
  "sample_sponsored = sample_balanced\<lparr>st_intents := [(1, (demo_intent 120)\<lparr>intent_actions := [CallAction
     \<lparr>cl_address = zeros 32, cl_entry_point = [], cl_guaranteed_transcript = Some
        \<lparr>tr_gas = rc_ZERO, tr_effects = effects_default\<lparr>unshielded_outputs := [(DustToken, 5)]\<rparr>, tr_program = [], tr_version = None\<rparr>,
      cl_fallible_transcript = None, cl_communication_commitment = 0\<rparr>]\<rparr>)]\<rparr>"

lemma contract_dust_is_not_collected:
  "balancing_check pc strictness_default 5 sample_sponsored = Ok () \<and>
   pay_fees E ctx h 5 (sorted_iter (st_intents sample_sponsored)) st = Ok (st, 5)"
  by (simp add: balancing_check_def tx_balance_def balance_maybe_deltas_only_def movements_def sorted_iter_def sample_sponsored_def
      sample_balanced_def demo_intent_def pay_fees_def effects_default_def transcript_movements_def call_movements_def
      intent_movements_def dust_movements_def unshielded_movements_def intent_calls_def
      update_balance_def interpret_operation_def Let_def int_bounds overspent_def least_by_def List.map_filter_def)

end
