(* ===== verification/Spec2Isabelle.thy ===== *)
theory Spec2Isabelle
  imports Cost_Model Merkle_Tree Time_Filter Replay_Protection Zswap_State Vm_Props Dust_Props Delta_Props Repr_Props Query_Safety Fee_Payment
begin

text \<open>
  A verification development of the Midnight ledger: shielded and unshielded tokens, contracts run by
  a virtual machine, and fees paid in dust.

  \<^bold>\<open>The program.\<close> A transaction carries intents (unshielded offers, contract calls, deployments and
  maintenance updates, dust spends and registrations) and offers of shielded coins, each in a segment.
  \<^verbatim>\<open>ledger/src/verify.rs\<close> checks it against a recent state and erases its proofs and signatures.
  \<^verbatim>\<open>ledger/src/semantics.rs\<close> then applies it: the guaranteed section as a whole, then each fallible
  segment by itself. The state (\<^verbatim>\<open>LedgerState\<close> of \<^verbatim>\<open>ledger/src/structure.rs\<close>) holds the Night pools, the
  unspent outputs, the contracts, the shielded state of the crate \<^verbatim>\<open>zswap\<close>, the dust state
  (\<^verbatim>\<open>ledger/src/dust.rs\<close>) and the replay protection. Contract calls run transcripts of the virtual
  machine (\<^verbatim>\<open>onchain-vm\<close>) in a query context (\<^verbatim>\<open>onchain-runtime\<close>) on values (\<^verbatim>\<open>onchain-state\<close>) whose storage
  is charged (\<^verbatim>\<open>storage/src/delta_tracking\<close>). System transactions move Night between pools, and the end
  of a block prunes histories and adjusts fee prices (\<^verbatim>\<open>base-crypto/src/cost_model.rs\<close>). Below all this
  are Merkle trees, field representations and hashes (\<^verbatim>\<open>transient-crypto\<close>), field-aligned values
  (\<^verbatim>\<open>base-crypto/src/fab\<close>) and the binary encoding (\<^verbatim>\<open>serialize\<close>).

  \<^bold>\<open>How the code is modelled.\<close> A \<^verbatim>\<open>Result\<close> is the type \<^verbatim>\<open>result\<close> of the theory \<^verbatim>\<open>Ledger_Prelude\<close>, with a
  third outcome \<^verbatim>\<open>Panic\<close> for \<^verbatim>\<open>unwrap\<close>, \<^verbatim>\<open>expect\<close>, \<^verbatim>\<open>unreachable!\<close>, a failed assertion, an index out of range
  and an overflow of a checking build; the \<^verbatim>\<open>?\<close> operator is \<^verbatim>\<open>and_then\<close>, and a loop whose body may return
  early is \<^verbatim>\<open>try_fold\<close>. Structures are records, enumerations are datatypes with the constructors of the
  source. Unsigned integers are natural numbers with the saturating, checked and wrapping operations
  written out at their width (bytes are 8-bit words). Persistent maps are association lists where they
  are traversed and partial functions elsewhere. Functions of external crates (hashes, curves,
  signatures, proofs, encryption) and sizes of derived encodings are fields of environment records that
  the definitions take as arguments: \<^verbatim>\<open>hashing\<close>, \<^verbatim>\<open>fr_ops\<close>, \<^verbatim>\<open>crypto\<close>, \<^verbatim>\<open>vm_env\<close>, \<^verbatim>\<open>storage_env\<close>, \<^verbatim>\<open>size_env\<close>,
  \<^verbatim>\<open>cost_env\<close>, \<^verbatim>\<open>ledger_env\<close>, \<^verbatim>\<open>curve\<close>, \<^verbatim>\<open>verify_env\<close>; what a theorem needs of them is a named hypothesis such as
  \<^verbatim>\<open>fr_laws\<close>, with an instance in its witness. The flag \<^verbatim>\<open>le_debug\<close> selects between builds that panic on
  overflow and builds that wrap around.

  \<^bold>\<open>Theories, from the bottom up.\<close>
  \<^item> \<^verbatim>\<open>Ledger_Prelude\<close>: results, machine integers and the lemma collections.
  \<^item> \<^verbatim>\<open>Cost_Model\<close> (\<^verbatim>\<open>base-crypto/src/cost_model.rs\<close>): durations, costs, 64.64 fixed point numbers, fee
    prices. Normalisation against block limits is correct, and the price update keeps prices in range.
  \<^item> \<^verbatim>\<open>Serialize\<close>, \<^verbatim>\<open>Fab\<close>, \<^verbatim>\<open>Fab_Serialize\<close> (\<^verbatim>\<open>serialize/src\<close>, \<^verbatim>\<open>base-crypto/src/fab\<close>): binary encodings with
    their readers and recursion limits; round trips through the locale \<^verbatim>\<open>codec\<close>.
  \<^item> \<^verbatim>\<open>Field_Repr\<close>, \<^verbatim>\<open>Coin_Structure\<close>, \<^verbatim>\<open>Repr_Props\<close> (\<^verbatim>\<open>transient-crypto/src/repr.rs\<close>, \<^verbatim>\<open>fab.rs\<close>, \<^verbatim>\<open>hash.rs\<close>,
    \<^verbatim>\<open>coin-structure/src\<close>): representations as field elements and hashed bytes, token types, addresses
    and coins; round trips, announced lengths, separation of commitment and nullifier preimages.
  \<^item> \<^verbatim>\<open>Merkle_Tree\<close> (\<^verbatim>\<open>transient-crypto/src/merkle_tree.rs\<close>): every tree operation; updates, collapsing,
    paths and insertion evidence are characterised by the leaves and the root.
  \<^item> \<^verbatim>\<open>Time_Filter\<close>, \<^verbatim>\<open>Replay_Protection\<close> (\<^verbatim>\<open>base-crypto/src/time.rs\<close>, \<^verbatim>\<open>storage/src/storage.rs\<close>, the replay
    protection of \<^verbatim>\<open>ledger/src\<close>): time-indexed maps over the locale \<^verbatim>\<open>container_laws\<close>; no intent is accepted
    twice although expired ones are forgotten.
  \<^item> \<^verbatim>\<open>Zswap_State\<close> (\<^verbatim>\<open>zswap/src/ledger.rs\<close>, \<^verbatim>\<open>local.rs\<close>): the shielded state and the wallet that follows it;
    no double spend, no replay of an offer, and the wallet computes the root of the ledger.
  \<^item> \<^verbatim>\<open>State_Value\<close>, \<^verbatim>\<open>Vm_Ops\<close>, \<^verbatim>\<open>Vm\<close>, \<^verbatim>\<open>Vm_Safety\<close>, \<^verbatim>\<open>Vm_Props\<close> (\<^verbatim>\<open>onchain-state/src/state.rs\<close>, \<^verbatim>\<open>onchain-vm/src\<close>): state
    values and the machine with gas, cache, log and limits. It never panics on well-formed input, keeps
    values well formed, respects its limits, and verifying accepts exactly what gathering records.
  \<^item> \<^verbatim>\<open>Delta_Tracking\<close>, \<^verbatim>\<open>Delta_Props\<close> (\<^verbatim>\<open>storage/src/delta_tracking\<close>): charged storage keys with reference
    counts; the counts stay exact and the collector removes exactly the unreachable keys.
  \<^item> \<^verbatim>\<open>Query_Context\<close>, \<^verbatim>\<open>Query_Props\<close>, \<^verbatim>\<open>Query_Safety\<close> (\<^verbatim>\<open>onchain-runtime/src/context.rs\<close>): contexts, effects,
    queries and transcripts; a query never panics, keeps the context well formed and pays for storage.
  \<^item> \<^verbatim>\<open>Unshielded\<close>, \<^verbatim>\<open>Dust\<close>, \<^verbatim>\<open>Dust_Props\<close> (\<^verbatim>\<open>ledger/src/annotation.rs\<close>, \<^verbatim>\<open>structure.rs\<close>, \<^verbatim>\<open>dust.rs\<close>): unspent outputs,
    dust outputs over time and the dust state; an invariant along all runs, and what a registration
    creates.
  \<^item> \<^verbatim>\<open>Contract_State\<close>, \<^verbatim>\<open>Ledger_Transaction\<close>, \<^verbatim>\<open>Transaction_Cost\<close>, \<^verbatim>\<open>Ledger_State\<close>, \<^verbatim>\<open>Ledger_Semantics\<close>
    (\<^verbatim>\<open>ledger/src/structure.rs\<close>, \<^verbatim>\<open>semantics.rs\<close>): contracts and maintenance, transactions and parameters,
    costs and fees, the ledger state with system transactions, and the application of transactions, claims,
    batches and block updates with their events.
  \<^item> \<^verbatim>\<open>Ledger_Night\<close>: the exact total of Night and the relation \<^verbatim>\<open>ledger_history\<close>; the supply is constant in
    every reachable ledger, and system transactions and claims conserve it by their own arithmetic.
  \<^item> \<^verbatim>\<open>Ledger_Replay\<close>: the locales \<^verbatim>\<open>action_frame\<close> and \<^verbatim>\<open>section_frame\<close> with what actions and sections leave alone;
    no transaction is applied twice, and standard transactions do not touch the pools.
  \<^item> \<^verbatim>\<open>Ledger_Coins\<close>: the trial of fallible offers in the guaranteed section is enough.
  \<^item> \<^verbatim>\<open>Proven_Transaction\<close>, \<^verbatim>\<open>Balance\<close> (\<^verbatim>\<open>ledger/src/verify.rs\<close>, \<^verbatim>\<open>error.rs\<close>, \<^verbatim>\<open>zswap/src/structure.rs\<close>): transactions
    with proofs, the states they are checked against, and the balance check, which lets no transaction
    create unshielded tokens.
  \<^item> \<^verbatim>\<open>Fee_Payment\<close>: the balance check against the fee accounting of the guaranteed section; a transaction with an
    accepted balance leaves no fee unpaid, up to the dust that contracts give out.

  \<^bold>\<open>Bounds and termination.\<close> No definition uses fuel of its own. The machine loop recurses over the program;
  its step limit is the one of the source. The search for new storage keys follows pointers of the
  storage arena and is a partial function into options; a search that does not end counts as a panic, and
  \<^verbatim>\<open>delta_costs_exact\<close> shows that it ends on a finite arena. The collector has the step limit of the source.
  All other definitions are total. Tree heights are natural numbers; shifts of the source agree with powers
  of two up to the height 63 that its indices allow, and the ledger uses 32.

  \<^bold>\<open>Not modelled.\<close> The storage arena, its backend and the Patricia trie under the persistent containers
  (\<^verbatim>\<open>storage-core\<close>, \<^verbatim>\<open>storage/src/merkle_patricia_trie.rs\<close>): pointers, caches and file access behind values the
  theories use directly. Derive macros, hexadecimal and JavaScript forms, WebAssembly bindings, the proof
  server, the calibration of costs, downloads: code generation, conversion or input and output. Proofs,
  circuits (\<^verbatim>\<open>zkir\<close>, \<^verbatim>\<open>zkir-v3\<close>), signatures and encryption: wrappers of external crates. Construction and
  proving of transactions, sampling of random values, the dust wallet, replay of events by wallets and
  inspection of memos: client code that acceptance by the ledger does not depend on. The well-formedness
  checks other than the balance check: their proof statements are assembled for an external verifier; a
  transaction enters \<^verbatim>\<open>Ledger_Semantics\<close> as verified. Merging of transactions sorts opaque curve points. Logging
  has no effect on the state.
\<close>

end
